(* ===== verification/Prelude.thy ===== *)
theory Prelude
  imports Main "HOL-Library.Word" "HOL-Library.List_Lexorder" "HOL-Library.Char_ord"
    "HOL-Library.Product_Lexorder"
    "HOL-Library.Finite_Map" "HOL-Library.Multiset"
begin

text \<open>
  The vocabulary the component theories share: the Go types that recur (byte slices, UUID
  texts, \<open>time.Time\<close> and \<open>time.Duration\<close> in nanoseconds, \<open>uint64\<close>), the
  decimal and hexadecimal renderings of \<open>fmt\<close> and \<open>strconv\<close> that the program
  uses, and generic lemmas on sorted string lists and finite maps.
\<close>

unbundle bit_operations_syntax

section \<open>Lemma collections\<close>

named_theorems graph_simps \<open>rewriting of revision graphs and heads\<close>
named_theorems table_simps \<open>rewriting of table updates (insert, delete, update)\<close>
named_theorems valid_intros \<open>introduction of validity predicates\<close>

section \<open>Recurring types\<close>

type_synonym bytes = "8 word list"
type_synonym uuid = string
type_synonym u64 = "64 word"

text \<open>
  A \<open>time.Time\<close> is its distance in nanoseconds from Go's zero time, so
  \<open>IsZero\<close> is \<open>t = 0\<close>. \<open>Add\<close> is exact; \<open>Sub\<close> saturates at
  the bounds of the 64-bit \<open>Duration\<close>.
\<close>

type_synonym time = int
type_synonym duration = int

abbreviation is_zero_time :: "time \<Rightarrow> bool" where
  "is_zero_time t \<equiv> t = 0"

definition max_duration :: int where "max_duration = 2 ^ 63 - 1"
definition min_duration :: int where "min_duration = - (2 ^ 63)"

definition time_sub :: "time \<Rightarrow> time \<Rightarrow> duration" where
  "time_sub t u = max min_duration (min max_duration (t - u))"

definition seconds :: "int \<Rightarrow> duration" where "seconds n = n * 1000000000"
definition minutes :: "int \<Rightarrow> duration" where "minutes n = n * 60000000000"
definition hours :: "int \<Rightarrow> duration" where "hours n = n * 3600000000000"

lemma time_sub_exact:
  "min_duration \<le> t - u \<Longrightarrow> t - u \<le> max_duration \<Longrightarrow> time_sub t u = t - u"
  by (simp add: time_sub_def)

lemma time_sub_le_iff: "d < max_duration \<Longrightarrow> min_duration \<le> d \<Longrightarrow> time_sub t u \<le> d \<longleftrightarrow> t - u \<le> d"
  by (auto simp: time_sub_def)

lemma time_sub_ge_iff: "min_duration < d \<Longrightarrow> d \<le> max_duration \<Longrightarrow> d \<le> time_sub t u \<longleftrightarrow> d \<le> t - u"
  by (auto simp: time_sub_def)

section \<open>Decimal numbers: strconv.FormatUint and strconv.ParseUint\<close>

definition digit_char :: "nat \<Rightarrow> char" where
  "digit_char n = char_of (48 + n)"

definition digit_val :: "char \<Rightarrow> nat option" where
  "digit_val c = (let n = (of_char c :: nat) in if 48 \<le> n \<and> n \<le> 57 then Some (n - 48) else None)"

fun dec :: "nat \<Rightarrow> string" where
  "dec n = (if n < 10 then [digit_char n] else dec (n div 10) @ [digit_char (n mod 10)])"

declare dec.simps [simp del]

fun parse_digits :: "nat \<Rightarrow> string \<Rightarrow> nat option" where
  "parse_digits acc [] = Some acc"
| "parse_digits acc (c # cs) =
     (case digit_val c of None \<Rightarrow> None | Some d \<Rightarrow> parse_digits (10 * acc + d) cs)"

text \<open>\<open>strconv.ParseUint(s, 10, bits)\<close>: digits only, not empty, in range.\<close>

definition ParseUint :: "string \<Rightarrow> nat \<Rightarrow> nat option" where
  "ParseUint s bits =
     (if s = [] then None
      else case parse_digits 0 s of
        None \<Rightarrow> None
      | Some n \<Rightarrow> if n < 2 ^ bits then Some n else None)"

definition int_text :: "int \<Rightarrow> string" where
  "int_text n = (if n < 0 then CHR ''-'' # dec (nat (- n)) else dec (nat n))"

lemma of_char_digit_char: "n < 10 \<Longrightarrow> (of_char (digit_char n) :: nat) = 48 + n"
  by (simp add: digit_char_def)

lemma digit_val_digit_char [simp]: "n < 10 \<Longrightarrow> digit_val (digit_char n) = Some n"
  by (simp add: digit_val_def of_char_digit_char)

lemma parse_digits_append:
  "parse_digits acc (xs @ ys) =
     (case parse_digits acc xs of None \<Rightarrow> None | Some a \<Rightarrow> parse_digits a ys)"
  by (induction xs arbitrary: acc) (auto split: option.splits)

lemma dec_nonempty [simp]: "dec n \<noteq> []"
  by (subst dec.simps) simp

lemma parse_digits_dec: "parse_digits 0 (dec n) = Some n"
proof (induction n rule: dec.induct)
  case (1 n)
  show ?case
  proof (cases "n < 10")
    case True
    then show ?thesis by (subst dec.simps) simp
  next
    case False
    with "1.IH" have ih: "parse_digits 0 (dec (n div 10)) = Some (n div 10)" by simp
    have "parse_digits 0 (dec n) = Some (10 * (n div 10) + n mod 10)"
      using False ih by (subst dec.simps) (simp add: parse_digits_append)
    then show ?thesis by simp
  qed
qed

lemma ParseUint_dec: "n < 2 ^ bits \<Longrightarrow> ParseUint (dec n) bits = Some n"
  by (simp add: ParseUint_def parse_digits_dec)

lemma ParseUint_bound: "ParseUint s bits = Some n \<Longrightarrow> n < 2 ^ bits"
  by (auto simp: ParseUint_def split: if_splits option.splits)

lemma dec_inject: "dec m = dec n \<Longrightarrow> m = n"
  by (metis option.inject parse_digits_dec)

lemma dec_digits: "\<forall>c \<in> set (dec n). \<exists>d<10. c = digit_char d"
proof (induction n rule: dec.induct)
  case (1 n)
  show ?case
  proof (cases "n < 10")
    case True
    then show ?thesis by (subst dec.simps) auto
  next
    case False
    have "\<exists>d<10. digit_char (n mod 10) = digit_char d"
      by (rule exI [of _ "n mod 10"]) simp
    with False "1.IH" show ?thesis by (subst dec.simps) auto
  qed
qed

section \<open>Hexadecimal: the byte-slice verb of fmt\<close>

definition hex_char :: "nat \<Rightarrow> char" where
  "hex_char n = (if n < 10 then char_of (48 + n) else char_of (87 + n))"

definition hex_byte :: "8 word \<Rightarrow> string" where
  "hex_byte b = [hex_char (unat b div 16), hex_char (unat b mod 16)]"

definition hex_bytes :: "bytes \<Rightarrow> string" where
  "hex_bytes bs = concat (map hex_byte bs)"

lemma length_hex_bytes [simp]: "length (hex_bytes bs) = 2 * length bs"
  by (induction bs) (simp_all add: hex_bytes_def hex_byte_def)

section \<open>Lists of strings\<close>

text \<open>\<open>sort.Strings\<close> is \<open>sort\<close> over the bytewise lexicographic order.\<close>

lemma sort_eq_iff_mset: "sort xs = sort ys \<longleftrightarrow> mset xs = mset (ys :: 'a::linorder list)"
  by (metis mset_sort properties_for_sort sorted_sort)

lemma sort_sort [simp]: "sort (sort xs) = sort (xs :: 'a::linorder list)"
  by (simp add: sort_key_id_if_sorted)

section \<open>Errors as values\<close>

text \<open>
  A Go function that returns early with an error is a sum; \<open>bind_e\<close> continues after
  the error check, \<open>guard_e\<close> is an early return, \<open>option_e\<close> names the error
  of a lookup that found nothing.
\<close>

definition bind_e :: "'e + 'a \<Rightarrow> ('a \<Rightarrow> 'e + 'b) \<Rightarrow> 'e + 'b" where
  "bind_e x f = (case x of Inl e \<Rightarrow> Inl e | Inr a \<Rightarrow> f a)"

definition guard_e :: "bool \<Rightarrow> 'e \<Rightarrow> 'e + unit" where
  "guard_e failed e = (if failed then Inl e else Inr ())"

definition option_e :: "'e \<Rightarrow> 'a option \<Rightarrow> 'e + 'a" where
  "option_e e x = (case x of None \<Rightarrow> Inl e | Some a \<Rightarrow> Inr a)"

lemma bind_e_simps [simp]: "bind_e (Inl e) f = Inl e" "bind_e (Inr a) f = f a"
  by (simp_all add: bind_e_def)

lemma bind_e_Inr_iff: "bind_e x f = Inr r \<longleftrightarrow> (\<exists>a. x = Inr a \<and> f a = Inr r)"
  by (cases x) simp_all

lemma bind_e_Inl_iff: "bind_e x f = Inl e \<longleftrightarrow> x = Inl e \<or> (\<exists>a. x = Inr a \<and> f a = Inl e)"
  by (cases x) auto

lemma guard_e_iff [simp]:
  "guard_e b e = Inr u \<longleftrightarrow> \<not> b" "guard_e b e = Inl e' \<longleftrightarrow> b \<and> e' = e"
  by (auto simp: guard_e_def)

lemma guard_e_simps [simp]: "guard_e True e = Inl e" "guard_e False e = Inr ()"
  by (simp_all add: guard_e_def)

lemma option_e_iff [simp]:
  "option_e e x = Inr a \<longleftrightarrow> x = Some a" "option_e e x = Inl e' \<longleftrightarrow> x = None \<and> e' = e"
  by (auto simp: option_e_def split: option.splits)

lemma option_e_simps [simp]: "option_e e None = Inl e" "option_e e (Some a) = Inr a"
  by (simp_all add: option_e_def)

section \<open>Bytes of a text\<close>

definition string_bytes :: "string \<Rightarrow> bytes" where
  "string_bytes s = map (\<lambda>c. of_nat (of_char c)) s"

lemma string_bytes_append [simp]: "string_bytes (s @ t) = string_bytes s @ string_bytes t"
  by (simp add: string_bytes_def)

section \<open>Maxima and finds\<close>

lemma fold_max_ge: "(a::'a::linorder) \<le> fold (\<lambda>x mx. max mx (f x)) xs a"
  by (induction xs arbitrary: a) (auto intro: order.trans[OF max.cobounded1])

lemma fold_max_member: "x \<in> set xs \<Longrightarrow> (f x::'a::linorder) \<le> fold (\<lambda>x mx. max mx (f x)) xs a"
proof (induction xs arbitrary: a)
  case (Cons y ys)
  then show ?case
    using order.trans[OF max.cobounded2[of "f y" a] fold_max_ge[of "max a (f y)" f ys]] by auto
qed simp

lemma fold_max_cases:
  "fold (\<lambda>x mx. max mx (f x)) xs (a::'a::linorder) = a \<or>
   (\<exists>x \<in> set xs. fold (\<lambda>x mx. max mx (f x)) xs a = f x)"
proof (induction xs arbitrary: a)
  case (Cons y ys)
  from Cons[of "max a (f y)"] show ?case by (auto simp: max_def split: if_splits)
qed simp

lemma find_None_iff_all: "find P xs = None \<longleftrightarrow> (\<forall>x \<in> set xs. \<not> P x)"
  by (auto simp: find_None_iff)

lemma find_SomeD: "find P xs = Some x \<Longrightarrow> x \<in> set xs \<and> P x"
  by (auto simp: find_Some_iff)

lemma those_Some_map: "those (map f xs) = Some ys \<longleftrightarrow> list_all2 (\<lambda>x y. f x = Some y) xs ys"
  by (induction xs arbitrary: ys) (auto split: option.splits simp: list_all2_Cons1)

section \<open>Unsigned 64-bit numbers\<close>

lemma u64_pos_iff [simp]: "(0::u64) < w \<longleftrightarrow> w \<noteq> 0"
  by (simp add: word_neq_0_conv)

lemma u64_less_1 [simp]: "(w::u64) < 1 \<longleftrightarrow> w = 0"
  by (metis word_less_1)

lemma u64_succ: "(w::u64) + 1 \<noteq> 0 \<Longrightarrow> unat (w + 1) = unat w + 1"
  by (simp add: unatSuc add.commute)

lemma distinct_set_singleton: "distinct xs \<Longrightarrow> set xs = {x} \<Longrightarrow> xs = [x]"
proof (cases xs)
  case (Cons y ys)
  assume "distinct xs" "set xs = {x}"
  with Cons have "y = x" "set ys \<subseteq> {x}" "x \<notin> set ys" by auto
  then have "set ys = {}" by (metis insertI1 subset_singletonD)
  with Cons \<open>y = x\<close> show ?thesis by simp
qed simp

lemma length_filter_all: "length (filter P xs) = length xs \<Longrightarrow> x \<in> set xs \<Longrightarrow> P x"
  by (metis length_filter_less less_irrefl)

end
