(* ===== verification/RevisionGraph.thy ===== *)
theory RevisionGraph
  imports Prelude
begin

text \<open>
  The encrypted revision graph of the client (\<open>internal/client/item.go\<close>, type
  \<open>EncryptedItem\<close>, and the helpers at the end of \<open>internal/client/cache.go\<close>):
  the record of one immutable revision, the heads of a set of revisions, the comparison of two
  revisions and the well-formedness checks every reader and writer of the cache shares.
  A Go \<open>map[string]T\<close> is a finite map; a loop over one visits the entries in key
  order, which no result here depends on, since every loop result is a set, a flag or sorted.
\<close>

section \<open>Finite maps as sorted entry lists\<close>

lemma set_sorted_list_of_fmap:
  "set (sorted_list_of_fmap m) = {(k, v). fmlookup m k = Some v}"
  by (auto simp: sorted_list_of_fmap_def fmlookup_dom_iff image_iff)

lemma map_fst_sorted_list_of_fmap:
  "map fst (sorted_list_of_fmap m) = sorted_list_of_fset (fmdom m)"
  by (simp add: sorted_list_of_fmap_def comp_def)

lemma distinct_keys_sorted_list_of_fmap: "distinct (map fst (sorted_list_of_fmap m))"
  by (simp add: map_fst_sorted_list_of_fmap sorted_list_of_fset.rep_eq)

lemma sorted_keys_sorted_list_of_fmap: "sorted (map fst (sorted_list_of_fmap m))"
  by (simp add: map_fst_sorted_list_of_fmap sorted_list_of_fset.rep_eq)

lemma sorted_list_of_fmap_empty [simp]: "sorted_list_of_fmap fmempty = []"
  by (simp add: sorted_list_of_fmap_def sorted_list_of_fset.rep_eq)

section \<open>Revisions\<close>

record encrypted_item =
  itemID :: string
  schemaVersion :: int
  revision :: u64
  revisionID :: uuid
  parentRevisionIDs :: "uuid list"
  deleted :: bool
  purged :: bool
  envelope :: bytes

type_synonym revisions = "(uuid, encrypted_item) fmap"

text \<open>Copying a revision copies both slices; the values are unchanged.\<close>

definition cloneEncryptedItem :: "encrypted_item \<Rightarrow> encrypted_item" where
  "cloneEncryptedItem item =
     item\<lparr>parentRevisionIDs := [] @ parentRevisionIDs item, envelope := [] @ envelope item\<rparr>"

lemma cloneEncryptedItem_id [simp]: "cloneEncryptedItem item = item"
  by (simp add: cloneEncryptedItem_def)

text \<open>
  The graph of a whole cache: item ID to revisions. The inner map is \<open>None\<close> where the
  decoded JSON holds \<open>null\<close> (a nil Go map under an existing key); \<open>revisionsAt\<close>
  is Go's read \<open>data.Revisions[itemID]\<close>, which sees an absent key, a nil map and an
  empty map alike.
\<close>

type_synonym item_revisions = "(string, revisions option) fmap"

definition revisionsAt :: "item_revisions \<Rightarrow> string \<Rightarrow> revisions" where
  "revisionsAt g i = (case fmlookup g i of Some (Some revs) \<Rightarrow> revs | _ \<Rightarrow> fmempty)"

definition no_nil_maps :: "item_revisions \<Rightarrow> bool" where
  "no_nil_maps g \<longleftrightarrow> (\<forall>e \<in> set (sorted_list_of_fmap g). snd e \<noteq> None)"

definition cloneEncryptedRevisions :: "item_revisions \<Rightarrow> item_revisions" where
  "cloneEncryptedRevisions g =
     fmmap (\<lambda>values. Some (case values of None \<Rightarrow> fmempty | Some m \<Rightarrow> fmmap cloneEncryptedItem m)) g"

definition addCachedRevision :: "item_revisions \<Rightarrow> encrypted_item \<Rightarrow> item_revisions" where
  "addCachedRevision g item =
     fmupd (itemID item)
       (Some (fmupd (revisionID item) (cloneEncryptedItem item) (revisionsAt g (itemID item)))) g"

lemma no_nil_maps_iff: "no_nil_maps g \<longleftrightarrow> (\<forall>i. fmlookup g i \<noteq> Some None)"
proof
  assume "no_nil_maps g"
  then show "\<forall>i. fmlookup g i \<noteq> Some None"
    unfolding no_nil_maps_def set_sorted_list_of_fmap by auto
next
  assume g: "\<forall>i. fmlookup g i \<noteq> Some None"
  have "snd e \<noteq> None" if "e \<in> set (sorted_list_of_fmap g)" for e
    using g that by (cases e; cases "snd e") (auto simp: set_sorted_list_of_fmap)
  then show "no_nil_maps g" by (simp add: no_nil_maps_def)
qed

lemma fmmap_cloneEncryptedItem [simp]: "fmmap cloneEncryptedItem m = m"
  by (rule fmap_ext) (simp add: option.map_ident_strong)

lemma cloneEncryptedRevisions_id: "no_nil_maps g \<Longrightarrow> cloneEncryptedRevisions g = g"
  by (rule fmap_ext)
    (force simp: cloneEncryptedRevisions_def no_nil_maps_iff option.map_ident_strong
      map_option_case split: option.splits)

lemma revisionsAt_empty [simp]: "revisionsAt fmempty i = fmempty"
  by (simp add: revisionsAt_def)

lemma revisionsAt_upd [simp]:
  "revisionsAt (fmupd i (Some revs) g) j = (if i = j then revs else revisionsAt g j)"
  by (simp add: revisionsAt_def)

lemma revisionsAt_addCachedRevision [simp]:
  "revisionsAt (addCachedRevision g item) j =
     (if itemID item = j then fmupd (revisionID item) item (revisionsAt g j) else revisionsAt g j)"
  by (simp add: addCachedRevision_def)

lemma no_nil_maps_upd: "no_nil_maps g \<Longrightarrow> no_nil_maps (fmupd i (Some revs) g)"
  by (simp add: no_nil_maps_iff)

definition validEncryptedItemContent :: "encrypted_item \<Rightarrow> bool" where
  "validEncryptedItemContent item =
     (if purged item then deleted item \<and> length (envelope item) = 0
      else length (envelope item) > 0)"

lemma validEncryptedItemContent_upd [simp]:
  "validEncryptedItemContent (item\<lparr>revisionID := r\<rparr>) = validEncryptedItemContent item"
  "validEncryptedItemContent (item\<lparr>parentRevisionIDs := ps\<rparr>) = validEncryptedItemContent item"
  by (simp_all add: validEncryptedItemContent_def)

fun hasInvalidParentIDs_loop :: "uuid set \<Rightarrow> uuid list \<Rightarrow> bool" where
  "hasInvalidParentIDs_loop seen [] = False"
| "hasInvalidParentIDs_loop seen (i # ids) =
     (if i = '''' \<or> i \<in> seen then True else hasInvalidParentIDs_loop (insert i seen) ids)"

definition hasInvalidParentIDs :: "uuid list \<Rightarrow> bool" where
  "hasInvalidParentIDs ids = hasInvalidParentIDs_loop {} ids"

lemma hasInvalidParentIDs_loop_iff:
  "hasInvalidParentIDs_loop seen ids \<longleftrightarrow>
     '''' \<in> set ids \<or> \<not> distinct ids \<or> set ids \<inter> seen \<noteq> {}"
  by (induction ids arbitrary: seen) auto

lemma hasInvalidParentIDs_iff: "hasInvalidParentIDs ids \<longleftrightarrow> '''' \<in> set ids \<or> \<not> distinct ids"
  by (simp add: hasInvalidParentIDs_def hasInvalidParentIDs_loop_iff)

section \<open>Heads\<close>

definition referenced :: "revisions \<Rightarrow> uuid \<Rightarrow> bool" where
  "referenced revs p \<longleftrightarrow> (\<exists>e \<in> set (sorted_list_of_fmap revs). p \<in> set (parentRevisionIDs (snd e)))"

definition revisionHeads :: "revisions \<Rightarrow> encrypted_item list" where
  "revisionHeads revs =
     map (\<lambda>e. cloneEncryptedItem (snd e))
       (filter (\<lambda>e. \<not> referenced revs (fst e)) (sorted_list_of_fmap revs))"

lemma referenced_iff [graph_simps]:
  "referenced revs p \<longleftrightarrow> (\<exists>k r. fmlookup revs k = Some r \<and> p \<in> set (parentRevisionIDs r))"
  by (auto simp: referenced_def set_sorted_list_of_fmap)

lemma revisionHeads_iff [graph_simps]:
  "r \<in> set (revisionHeads revs) \<longleftrightarrow> (\<exists>k. fmlookup revs k = Some r \<and> \<not> referenced revs k)"
  by (force simp: revisionHeads_def set_sorted_list_of_fmap)

lemma revisionHeads_empty [simp]: "revisionHeads fmempty = []"
  by (simp add: revisionHeads_def)

text \<open>A graph is keyed when every revision is stored under its own revision ID.\<close>

definition keyed :: "revisions \<Rightarrow> bool" where
  "keyed revs \<longleftrightarrow> (\<forall>k r. fmlookup revs k = Some r \<longrightarrow> revisionID r = k)"

lemma keyed_upd: "keyed revs \<Longrightarrow> revisionID r = k \<Longrightarrow> keyed (fmupd k r revs)"
  by (simp add: keyed_def)

lemma keyedD: "keyed revs \<Longrightarrow> fmlookup revs k = Some r \<Longrightarrow> revisionID r = k"
  by (simp add: keyed_def)

lemma map_revisionID_revisionHeads:
  assumes "keyed revs"
  shows "map revisionID (revisionHeads revs) =
    map fst (filter (\<lambda>e. \<not> referenced revs (fst e)) (sorted_list_of_fmap revs))"
  using assms
  by (auto simp: revisionHeads_def set_sorted_list_of_fmap keyed_def)

lemma revisionHeads_sorted: "keyed revs \<Longrightarrow> sorted (map revisionID (revisionHeads revs))"
  by (simp add: map_revisionID_revisionHeads sorted_filter sorted_keys_sorted_list_of_fmap)

lemma revisionHeads_distinct_ids: "keyed revs \<Longrightarrow> distinct (map revisionID (revisionHeads revs))"
  by (simp add: map_revisionID_revisionHeads distinct_map_filter distinct_keys_sorted_list_of_fmap)

lemma revisionHeads_distinct: "keyed revs \<Longrightarrow> distinct (revisionHeads revs)"
  using revisionHeads_distinct_ids by (metis distinct_map)

text \<open>Adding a revision nobody refers to replaces exactly the heads it names as parents.\<close>

lemma referenced_upd_fresh:
  assumes "fmlookup revs k = None"
  shows "referenced (fmupd k r revs) p \<longleftrightarrow> referenced revs p \<or> p \<in> set (parentRevisionIDs r)"
proof
  assume "referenced (fmupd k r revs) p"
  then show "referenced revs p \<or> p \<in> set (parentRevisionIDs r)"
    by (auto simp: referenced_iff split: if_splits)
next
  assume "referenced revs p \<or> p \<in> set (parentRevisionIDs r)"
  then show "referenced (fmupd k r revs) p"
  proof
    assume "referenced revs p"
    then obtain k' r' where "fmlookup revs k' = Some r'" "p \<in> set (parentRevisionIDs r')"
      by (auto simp: referenced_iff)
    moreover from this(1) assms have "k' \<noteq> k" by auto
    ultimately have "fmlookup (fmupd k r revs) k' = Some r'" by simp
    with \<open>p \<in> set (parentRevisionIDs r')\<close> show ?thesis unfolding referenced_iff by blast
  next
    assume "p \<in> set (parentRevisionIDs r)"
    moreover have "fmlookup (fmupd k r revs) k = Some r" by simp
    ultimately show ?thesis unfolding referenced_iff by blast
  qed
qed

lemma revisionHeads_add:
  assumes "fmlookup revs k = None" "\<not> referenced revs k" "k \<notin> set (parentRevisionIDs r)"
    and "keyed revs"
  shows "set (revisionHeads (fmupd k r revs)) =
    insert r {h \<in> set (revisionHeads revs). revisionID h \<notin> set (parentRevisionIDs r)}"
    (is "?new = insert r ?kept")
proof (intro equalityI subsetI)
  fix h assume "h \<in> ?new"
  then obtain k' where k': "fmlookup (fmupd k r revs) k' = Some h"
    "\<not> referenced revs k'" "k' \<notin> set (parentRevisionIDs r)"
    by (auto simp: revisionHeads_iff referenced_upd_fresh[OF assms(1)])
  show "h \<in> insert r ?kept"
  proof (cases "k' = k")
    case True with k'(1) show ?thesis by simp
  next
    case False
    with k'(1) have l: "fmlookup revs k' = Some h" by simp
    with assms(4) have "revisionID h = k'" by (rule keyedD)
    with l k' show ?thesis by (auto simp: revisionHeads_iff)
  qed
next
  fix h assume "h \<in> insert r ?kept"
  then show "h \<in> ?new"
  proof
    assume "h = r"
    moreover have "fmlookup (fmupd k r revs) k = Some r" by simp
    ultimately show ?thesis
      using assms(2,3) unfolding revisionHeads_iff referenced_upd_fresh[OF assms(1)] by blast
  next
    assume "h \<in> ?kept"
    then obtain k' where k': "fmlookup revs k' = Some h" "\<not> referenced revs k'"
      "revisionID h \<notin> set (parentRevisionIDs r)"
      by (auto simp: revisionHeads_iff)
    from assms(4) k'(1) have "revisionID h = k'" by (rule keyedD)
    moreover from k'(1) assms(1) have "fmlookup (fmupd k r revs) k' = Some h" by auto
    ultimately show ?thesis
      using k' unfolding revisionHeads_iff referenced_upd_fresh[OF assms(1)] by blast
  qed
qed

section \<open>Numbered graphs: every revision lies below a head\<close>

text \<open>
  The server numbers a child above each of its parents. In a graph with that property every
  revision leads, child by child, to a head; so a non-empty graph always shows a version.
\<close>

definition numbered :: "revisions \<Rightarrow> bool" where
  "numbered revs \<longleftrightarrow>
     (\<forall>k r p q. fmlookup revs k = Some r \<longrightarrow> p \<in> set (parentRevisionIDs r) \<longrightarrow>
        fmlookup revs p = Some q \<longrightarrow> unat (revision q) < unat (revision r))"

inductive descends :: "revisions \<Rightarrow> uuid \<Rightarrow> uuid \<Rightarrow> bool" for revs where
  here: "fmlookup revs k = Some r \<Longrightarrow> descends revs k k"
| child: "fmlookup revs k = Some r \<Longrightarrow> p \<in> set (parentRevisionIDs r) \<Longrightarrow>
    descends revs h k \<Longrightarrow> descends revs h p"

lemma below_head:
  assumes "numbered revs" "fmlookup revs k = Some r"
  shows "\<exists>h. fmlookup revs h \<noteq> None \<and> \<not> referenced revs h \<and> descends revs h k"
  using assms(2)
proof (induction "2 ^ 64 - unat (revision r)" arbitrary: k r rule: less_induct)
  case less
  show ?case
  proof (cases "referenced revs k")
    case False
    with less.prems show ?thesis by (auto intro: descends.here)
  next
    case True
    then obtain c s where c: "fmlookup revs c = Some s" "k \<in> set (parentRevisionIDs s)"
      by (auto simp: referenced_iff)
    with assms(1) less.prems have "unat (revision r) < unat (revision s)"
      unfolding numbered_def by blast
    moreover have "unat (revision s) < 2 ^ 64"
      using unsigned_less [of "revision s"] by simp
    ultimately have "2 ^ 64 - unat (revision s) < 2 ^ 64 - unat (revision r)" by linarith
    from less.hyps[OF this c(1)] c show ?thesis by (blast intro: descends.child)
  qed
qed

lemma numbered_heads_nonempty:
  assumes "numbered revs" "revs \<noteq> fmempty"
  shows "revisionHeads revs \<noteq> []"
proof -
  from assms(2) obtain k r where "fmlookup revs k = Some r"
    by (metis fmap_ext fmempty_lookup not_Some_eq)
  from below_head[OF assms(1) this] obtain h s
    where "fmlookup revs h = Some s" "\<not> referenced revs h" by auto
  then have "s \<in> set (revisionHeads revs)" by (auto simp: revisionHeads_iff)
  then show ?thesis by auto
qed

section \<open>Comparing revisions\<close>

definition sameEncryptedItem :: "encrypted_item \<Rightarrow> encrypted_item \<Rightarrow> bool" where
  "sameEncryptedItem left right =
     (if itemID left \<noteq> itemID right \<or> schemaVersion left \<noteq> schemaVersion right \<or>
         revision left \<noteq> revision right \<or> revisionID left \<noteq> revisionID right \<or>
         deleted left \<noteq> deleted right \<or> purged left \<noteq> purged right \<or>
         envelope left \<noteq> envelope right \<or>
         length (parentRevisionIDs left) \<noteq> length (parentRevisionIDs right)
      then False
      else list_all2 (=) (sort (parentRevisionIDs left)) (sort (parentRevisionIDs right)))"

lemma sameEncryptedItem_iff:
  "sameEncryptedItem left right \<longleftrightarrow>
     left\<lparr>parentRevisionIDs := []\<rparr> = right\<lparr>parentRevisionIDs := []\<rparr> \<and>
     mset (parentRevisionIDs left) = mset (parentRevisionIDs right)"
proof -
  have len: "mset (parentRevisionIDs left) = mset (parentRevisionIDs right) \<Longrightarrow>
    length (parentRevisionIDs left) = length (parentRevisionIDs right)"
    by (rule mset_eq_length)
  show ?thesis
    by (cases left; cases right)
      (use len in \<open>auto simp: sameEncryptedItem_def list.rel_eq sort_eq_iff_mset\<close>)
qed

lemma sameEncryptedItem_refl [simp]: "sameEncryptedItem x x"
  by (simp add: sameEncryptedItem_iff)

lemma sameEncryptedItem_sym: "sameEncryptedItem x y \<Longrightarrow> sameEncryptedItem y x"
  by (simp add: sameEncryptedItem_iff)

lemma sameEncryptedItem_trans:
  "sameEncryptedItem x y \<Longrightarrow> sameEncryptedItem y z \<Longrightarrow> sameEncryptedItem x z"
  by (simp add: sameEncryptedItem_iff)

lemma sameEncryptedItem_valid:
  "sameEncryptedItem x y \<Longrightarrow> validEncryptedItemContent x = validEncryptedItemContent y"
  by (cases x; cases y) (auto simp: sameEncryptedItem_iff validEncryptedItemContent_def)

end
