(* ===== verification/CacheFile.thy ===== *)
theory CacheFile
  imports RevisionGraph
begin

text \<open>
  The encrypted cache file (\<open>internal/client/cache.go\<close>): the decoded JSON document
  \<open>cacheFile\<close>, its validation, the migration of format 1, reading the file and replacing
  it atomically. The file on disk is its permission bits, its size and its decoded content;
  \<open>json.Marshal\<close>/\<open>Decode\<close> are taken to round-trip the document. Every system
  call of the writer can fail: \<open>io_env\<close> says which.
\<close>

section \<open>Documents\<close>

record mutation =
  mutationID :: uuid
  baseRevision :: u64
  mutItem :: encrypted_item

record cache_file =
  cVersion :: int
  cAccountID :: string
  cEmail :: string
  cPasswordVaultEnvelope :: bytes
  cItems :: "(string, encrypted_item) fmap"
  cRevisions :: "item_revisions option"
  cMutations :: "mutation list"
  cCursor :: string
  cRestoredBackups :: "string list"

datatype write_step =
  CreateTemp | ChmodTemp | WriteTemp | SyncTemp | CloseTemp | RenameTemp | OpenDirectory | SyncDirectory

datatype cache_error =
  ErrCacheNotFound | ErrInvalidCache | ErrCacheNotEmpty | ErrInvalidItemEnvelope
| ErrLocalRevisionConflict | ErrLocalRevisionIDExists
| ErrInvalidCursor | ErrInvalidAppliedMutation
| ErrInvalidPortableBackup | ErrBackupAccountMismatch
| ErrInvalidEmail | ErrRandom | ErrLock | ErrWrite write_step

definition cacheFormatVersion :: int where "cacheFormatVersion = 3"
definition legacyCacheFormatVersion :: int where "legacyCacheFormatVersion = 1"
definition previousCacheFormatVersion :: int where "previousCacheFormatVersion = 2"
definition maximumCacheFileSize :: nat where "maximumCacheFileSize = 64 * 2 ^ 20"

definition cloneMutation :: "mutation \<Rightarrow> mutation" where
  "cloneMutation m = m\<lparr>mutItem := cloneEncryptedItem (mutItem m)\<rparr>"

lemma cloneMutation_id [simp]: "cloneMutation m = m"
  by (simp add: cloneMutation_def)

definition cloneMutations :: "mutation list \<Rightarrow> mutation list" where
  "cloneMutations ms = map cloneMutation ms"

lemma cloneMutations_id [simp]: "cloneMutations ms = ms"
  by (simp add: cloneMutations_def map_idI)

text \<open>Reading \<open>data.Revisions[itemID]\<close>; a nil map reads as empty.\<close>

definition graph :: "cache_file \<Rightarrow> item_revisions" where
  "graph data = (case cRevisions data of None \<Rightarrow> fmempty | Some g \<Rightarrow> g)"

abbreviation revs_of :: "cache_file \<Rightarrow> string \<Rightarrow> revisions" where
  "revs_of data i \<equiv> revisionsAt (graph data) i"

definition put_graph :: "item_revisions \<Rightarrow> cache_file \<Rightarrow> cache_file" where
  "put_graph g data = data\<lparr>cRevisions := Some g\<rparr>"

lemma graph_put [simp]: "graph (put_graph g data) = g"
  by (simp add: graph_def put_graph_def)

lemma put_graph_sel [simp]:
  "cVersion (put_graph g data) = cVersion data"
  "cAccountID (put_graph g data) = cAccountID data"
  "cEmail (put_graph g data) = cEmail data"
  "cPasswordVaultEnvelope (put_graph g data) = cPasswordVaultEnvelope data"
  "cItems (put_graph g data) = cItems data"
  "cMutations (put_graph g data) = cMutations data"
  "cCursor (put_graph g data) = cCursor data"
  "cRestoredBackups (put_graph g data) = cRestoredBackups data"
  "cRevisions (put_graph g data) = Some g"
  by (simp_all add: put_graph_def)

lemma graph_simps_upd [simp]:
  "graph (data\<lparr>cMutations := ms\<rparr>) = graph data"
  "graph (data\<lparr>cCursor := c\<rparr>) = graph data"
  "graph (data\<lparr>cRestoredBackups := b\<rparr>) = graph data"
  "graph (data\<lparr>cPasswordVaultEnvelope := e\<rparr>) = graph data"
  "graph (data\<lparr>cItems := its\<rparr>) = graph data"
  "graph (data\<lparr>cVersion := v\<rparr>) = graph data"
  by (simp_all add: graph_def)

section \<open>Validation\<close>

definition validRevisionEntry :: "string \<Rightarrow> uuid \<Rightarrow> encrypted_item \<Rightarrow> bool" where
  "validRevisionEntry i r item \<longleftrightarrow>
     \<not> (r = '''' \<or> revisionID item \<noteq> r \<or> itemID item \<noteq> i \<or> schemaVersion item < 1 \<or>
        revision item < 1 \<or> \<not> validEncryptedItemContent item \<or>
        hasInvalidParentIDs (parentRevisionIDs item))"

definition validMutationEntry :: "mutation \<Rightarrow> bool" where
  "validMutationEntry m \<longleftrightarrow>
     \<not> (mutationID m = '''' \<or> revisionID (mutItem m) \<noteq> mutationID m \<or>
        revision (mutItem m) \<noteq> baseRevision m + 1 \<or> itemID (mutItem m) = '''' \<or>
        \<not> validEncryptedItemContent (mutItem m) \<or>
        (baseRevision m = 0 \<and> length (parentRevisionIDs (mutItem m)) \<noteq> 0) \<or>
        (baseRevision m > 0 \<and> length (parentRevisionIDs (mutItem m)) = 0) \<or>
        hasInvalidParentIDs (parentRevisionIDs (mutItem m)))"

definition validateCacheData :: "cache_file \<Rightarrow> bool" where
  "validateCacheData data =
     (if cAccountID data = '''' \<or> cEmail data = '''' \<or>
         length (cPasswordVaultEnvelope data) = 0 \<or> cRevisions data = None then False
      else if list_ex (\<lambda>(i, values). i = '''' \<or> values = None \<or>
                 (case values of None \<Rightarrow> False | Some revs \<Rightarrow>
                    list_ex (\<lambda>(r, item). \<not> validRevisionEntry i r item) (sorted_list_of_fmap revs)))
              (sorted_list_of_fmap (graph data)) then False
      else if list_ex (\<lambda>m. \<not> validMutationEntry m) (cMutations data) then False
      else if list_ex (\<lambda>fp. fp = '''') (cRestoredBackups data) then False
      else True)"

text \<open>What validation accepts, field by field.\<close>

definition valid_graph :: "item_revisions \<Rightarrow> bool" where
  "valid_graph g \<longleftrightarrow>
     (\<forall>i values. fmlookup g i = Some values \<longrightarrow> i \<noteq> '''' \<and>
        (\<exists>revs. values = Some revs \<and> (\<forall>r item. fmlookup revs r = Some item \<longrightarrow> validRevisionEntry i r item)))"

lemma validateCacheData_iff:
  "validateCacheData data \<longleftrightarrow>
     cAccountID data \<noteq> '''' \<and> cEmail data \<noteq> '''' \<and> cPasswordVaultEnvelope data \<noteq> [] \<and>
     cRevisions data \<noteq> None \<and> valid_graph (graph data) \<and>
     (\<forall>m \<in> set (cMutations data). validMutationEntry m) \<and> '''' \<notin> set (cRestoredBackups data)"
proof -
  have *: "\<not> list_ex (\<lambda>(i, values). i = '''' \<or> values = None \<or>
             (case values of None \<Rightarrow> False | Some revs \<Rightarrow>
                list_ex (\<lambda>(r, item). \<not> validRevisionEntry i r item) (sorted_list_of_fmap revs)))
           (sorted_list_of_fmap (graph data)) \<longleftrightarrow> valid_graph (graph data)" (is "?l = ?r")
  proof
    assume ?l then show ?r
      by (force simp: valid_graph_def list_ex_iff set_sorted_list_of_fmap split: option.splits)
  next
    assume ?r then show ?l
      by (fastforce simp: valid_graph_def list_ex_iff set_sorted_list_of_fmap split: option.splits)
  qed
  have muts: "\<not> list_ex (\<lambda>m. \<not> validMutationEntry m) (cMutations data) \<longleftrightarrow>
    (\<forall>m \<in> set (cMutations data). validMutationEntry m)"
    by (auto simp: list_ex_iff)
  have backs: "\<not> list_ex (\<lambda>fp. fp = '''') (cRestoredBackups data) \<longleftrightarrow> '''' \<notin> set (cRestoredBackups data)"
    by (auto simp: list_ex_iff)
  have chain: "(if a then False else if b then False else if c then False else if d then False else True)
    \<longleftrightarrow> \<not> a \<and> \<not> b \<and> \<not> c \<and> \<not> d" for a b c d
    by simp
  show ?thesis
    unfolding validateCacheData_def chain * muts backs by auto
qed

lemma valid_graph_empty [simp, valid_intros]: "valid_graph fmempty"
  by (simp add: valid_graph_def)

lemma valid_graph_no_nil: "valid_graph g \<Longrightarrow> no_nil_maps g"
  by (force simp: valid_graph_def no_nil_maps_iff)

lemma valid_graph_entry:
  "valid_graph g \<Longrightarrow> fmlookup (revisionsAt g i) r = Some item \<Longrightarrow> validRevisionEntry i r item"
  by (force simp: valid_graph_def revisionsAt_def split: option.splits)

lemma valid_graph_keyed: "valid_graph g \<Longrightarrow> keyed (revisionsAt g i)"
  by (auto simp: keyed_def validRevisionEntry_def dest: valid_graph_entry)

lemma valid_graph_upd [valid_intros]:
  assumes "valid_graph g" "i \<noteq> ''''"
    and "\<And>r item. fmlookup revs r = Some item \<Longrightarrow> validRevisionEntry i r item"
  shows "valid_graph (fmupd i (Some revs) g)"
  using assms by (auto simp: valid_graph_def)

lemma valid_graph_add:
  assumes "valid_graph g" "i \<noteq> ''''" "validRevisionEntry i r item"
  shows "valid_graph (fmupd i (Some (fmupd r item (revisionsAt g i))) g)"
  using assms by (intro valid_graph_upd) (auto dest: valid_graph_entry split: if_splits)

section \<open>Migration of format 1\<close>

text \<open>\<open>md5\<close> is the digest function of \<open>crypto/md5\<close>, a parameter.\<close>

definition legacyRevisionID :: "(string \<Rightarrow> bytes) \<Rightarrow> string \<Rightarrow> string \<Rightarrow> u64 \<Rightarrow> uuid" where
  "legacyRevisionID md5 acc i rno =
     (let encoded = hex_bytes (md5 (acc @ '':'' @ i @ '':'' @ dec (unat rno)))
      in take 8 encoded @ ''-'' @ take 4 (drop 8 encoded) @ ''-'' @ take 4 (drop 12 encoded) @ ''-'' @
         take 4 (drop 16 encoded) @ ''-'' @ take 12 (drop 20 encoded))"

type_synonym known_revisions = "(string \<times> u64, uuid) fmap"

definition pending_key :: "string \<Rightarrow> u64 \<Rightarrow> string" where
  "pending_key i rno = i @ '':'' @ dec (unat rno)"

fun migrate_pending :: "string set \<Rightarrow> mutation list \<Rightarrow> string set option" where
  "migrate_pending pending [] = Some pending"
| "migrate_pending pending (m # ms) =
     (if mutationID m = '''' \<or> itemID (mutItem m) = '''' \<or>
         revision (mutItem m) \<noteq> baseRevision m + 1 \<or> length (envelope (mutItem m)) = 0
      then None
      else migrate_pending (insert (pending_key (itemID (mutItem m)) (revision (mutItem m))) pending) ms)"

fun migrate_items ::
  "(string \<Rightarrow> bytes) \<Rightarrow> string \<Rightarrow> string set \<Rightarrow> (string \<times> encrypted_item) list \<Rightarrow>
   item_revisions \<times> known_revisions \<Rightarrow> (item_revisions \<times> known_revisions) option" where
  "migrate_items md5 acc pending [] st = Some st"
| "migrate_items md5 acc pending ((i, item) # es) (g, known) =
     (if i = '''' \<or> itemID item \<noteq> i \<or> schemaVersion item < 1 \<or> revision item < 1 \<or>
         length (envelope item) = 0 then None
      else if pending_key i (revision item) \<in> pending then migrate_items md5 acc pending es (g, known)
      else let item' = item\<lparr>revisionID := legacyRevisionID md5 acc i (revision item)\<rparr>
           in migrate_items md5 acc pending es
                (addCachedRevision g item', fmupd (i, revision item') (revisionID item') known))"

definition migrate_mutation ::
  "(string \<Rightarrow> bytes) \<Rightarrow> string \<Rightarrow> known_revisions \<Rightarrow> mutation \<Rightarrow> mutation" where
  "migrate_mutation md5 acc known m =
     (let item = (cloneEncryptedItem (mutItem m))\<lparr>revisionID := mutationID m\<rparr>;
          found = (case fmlookup known (itemID item, baseRevision m) of None \<Rightarrow> '''' | Some p \<Rightarrow> p);
          parentID = (if found = '''' then legacyRevisionID md5 acc (itemID item) (baseRevision m) else found)
      in m\<lparr>mutItem := (if baseRevision m > 0 then item\<lparr>parentRevisionIDs := [parentID]\<rparr> else item)\<rparr>)"

fun migrate_mutations ::
  "(string \<Rightarrow> bytes) \<Rightarrow> string \<Rightarrow> item_revisions \<times> known_revisions \<Rightarrow> mutation list \<Rightarrow>
   item_revisions \<times> mutation list" where
  "migrate_mutations md5 acc (g, known) [] = (g, [])"
| "migrate_mutations md5 acc (g, known) (m # ms) =
     (let m' = migrate_mutation md5 acc known m; item = mutItem m';
          (g', ms') = migrate_mutations md5 acc
            (addCachedRevision g item, fmupd (itemID item, revision item) (revisionID item) known) ms
      in (g', m' # ms'))"

definition migrateLegacyCache :: "(string \<Rightarrow> bytes) \<Rightarrow> cache_file \<Rightarrow> cache_file option" where
  "migrateLegacyCache md5 data =
     (case migrate_pending {} (cMutations data) of
        None \<Rightarrow> None
      | Some pending \<Rightarrow>
          (case migrate_items md5 (cAccountID data) pending (sorted_list_of_fmap (cItems data))
                  (fmempty, fmempty) of
             None \<Rightarrow> None
           | Some st \<Rightarrow>
               (case migrate_mutations md5 (cAccountID data) st (cMutations data) of
                  (g, ms) \<Rightarrow> Some (put_graph g
                    (data\<lparr>cMutations := ms, cVersion := cacheFormatVersion, cItems := fmempty\<rparr>)))))"

section \<open>Reading and replacing the file\<close>

record disk_file =
  dRegular :: bool
  dPerm :: nat
  dSize :: nat
  dContent :: "cache_file option"

type_synonym disk = "disk_file option"

record io_env =
  lockFails :: bool
  stepFails :: "write_step \<Rightarrow> bool"
  jsonSize :: "cache_file \<Rightarrow> nat"
  randomBytes :: "nat \<Rightarrow> bytes option"
  md5sum :: "string \<Rightarrow> bytes"

definition private_mode :: nat where "private_mode = 6 * 8 * 8"

definition readCacheFile :: "io_env \<Rightarrow> disk \<Rightarrow> cache_error + cache_file" where
  "readCacheFile env d =
     (case d of
        None \<Rightarrow> Inl ErrCacheNotFound
      | Some f \<Rightarrow>
          if \<not> dRegular f \<or> dPerm f \<noteq> private_mode \<or> dSize f > maximumCacheFileSize then Inl ErrInvalidCache
          else (case dContent f of
             None \<Rightarrow> Inl ErrInvalidCache
           | Some data \<Rightarrow>
               if (cVersion data \<noteq> cacheFormatVersion \<and> cVersion data \<noteq> previousCacheFormatVersion \<and>
                   cVersion data \<noteq> legacyCacheFormatVersion) \<or>
                  cAccountID data = '''' \<or> cEmail data = '''' \<or> length (cPasswordVaultEnvelope data) = 0
               then Inl ErrInvalidCache
               else (case (if cVersion data = legacyCacheFormatVersion
                           then migrateLegacyCache (md5sum env) data else Some data) of
                  None \<Rightarrow> Inl ErrInvalidCache
                | Some data \<Rightarrow>
                    let data = (if cRevisions data = None then put_graph fmempty data else data)
                    in if validateCacheData data then Inr data else Inl ErrInvalidCache)))"

text \<open>What the writer puts on disk: current version, no legacy items, a non-nil graph.\<close>

definition stored_form :: "cache_file \<Rightarrow> cache_file" where
  "stored_form data =
     (let data = data\<lparr>cVersion := cacheFormatVersion, cItems := fmempty\<rparr>
      in if cRevisions data = None then put_graph fmempty data else data)"

text \<open>
  The writer creates a private temporary file beside the cache, fills and syncs it, renames it
  over the cache and syncs the directory. Each failing step ends it; the temporary file is
  removed by the deferred \<open>os.Remove\<close>.
\<close>

definition writeCacheFile :: "io_env \<Rightarrow> disk \<Rightarrow> cache_file \<Rightarrow> disk \<times> cache_error option" where
  "writeCacheFile env d data =
     (let data = stored_form data;
          file = \<lparr>dRegular = True, dPerm = private_mode, dSize = jsonSize env data, dContent = Some data\<rparr>
      in if stepFails env CreateTemp then (d, Some (ErrWrite CreateTemp))
         else if stepFails env ChmodTemp then (d, Some (ErrWrite ChmodTemp))
         else if stepFails env WriteTemp then (d, Some (ErrWrite WriteTemp))
         else if stepFails env SyncTemp then (d, Some (ErrWrite SyncTemp))
         else if stepFails env CloseTemp then (d, Some (ErrWrite CloseTemp))
         else if stepFails env RenameTemp then (d, Some (ErrWrite RenameTemp))
         else if stepFails env OpenDirectory then (Some file, Some (ErrWrite OpenDirectory))
         else if stepFails env SyncDirectory then (Some file, Some (ErrWrite SyncDirectory))
         else (Some file, None))"

lemma stored_form_sel [simp]:
  "cAccountID (stored_form data) = cAccountID data" "cEmail (stored_form data) = cEmail data"
  "cPasswordVaultEnvelope (stored_form data) = cPasswordVaultEnvelope data"
  "cMutations (stored_form data) = cMutations data" "cCursor (stored_form data) = cCursor data"
  "cRestoredBackups (stored_form data) = cRestoredBackups data"
  "cVersion (stored_form data) = cacheFormatVersion" "cItems (stored_form data) = fmempty"
  "cRevisions (stored_form data) = Some (graph data)" "graph (stored_form data) = graph data"
  by (auto simp: stored_form_def Let_def graph_def put_graph_def)

lemma validate_stored_form: "validateCacheData data \<Longrightarrow> validateCacheData (stored_form data)"
  by (simp add: validateCacheData_iff)

lemma stored_form_idem [simp]: "stored_form (stored_form data) = stored_form data"
  by (rule cache_file.equality) simp_all

lemma readCacheFile_valid:
  "readCacheFile env d = Inr data \<Longrightarrow> validateCacheData data"
  by (auto simp: readCacheFile_def Let_def split: option.splits if_splits)

lemma writeCacheFile_unchanged_or_new:
  "writeCacheFile env d data = (d', r) \<Longrightarrow>
     d' = d \<or> d' = Some \<lparr>dRegular = True, dPerm = private_mode, dSize = jsonSize env (stored_form data),
                         dContent = Some (stored_form data)\<rparr>"
  by (auto simp: writeCacheFile_def Let_def split: if_splits)

lemma writeCacheFile_ok:
  "writeCacheFile env d data = (d', None) \<Longrightarrow>
     d' = Some \<lparr>dRegular = True, dPerm = private_mode, dSize = jsonSize env (stored_form data),
                dContent = Some (stored_form data)\<rparr>"
  by (auto simp: writeCacheFile_def Let_def split: if_splits)

lemma readCacheFile_new:
  assumes "validateCacheData data"
  shows "readCacheFile env (Some \<lparr>dRegular = True, dPerm = private_mode,
            dSize = jsonSize env (stored_form data), dContent = Some (stored_form data)\<rparr>) =
    (if jsonSize env (stored_form data) > maximumCacheFileSize then Inl ErrInvalidCache
     else Inr (stored_form data))"
  using assms validate_stored_form[OF assms]
  by (auto simp: readCacheFile_def Let_def validateCacheData_iff cacheFormatVersion_def
    legacyCacheFormatVersion_def)

end
