(* ===== verification/Uuid.thy ===== *)
theory Uuid
  imports Prelude
begin

text \<open>
  UUID texts: the version-4 generator that client (\<open>NewItemID\<close>, item.go) and server
  (\<open>newAccountID\<close>, auth.go) each carry a copy of, and the server's syntax check
  \<open>validUUID\<close> (internal/server/item.go).
\<close>

section \<open>Generation\<close>

definition set_version_bits :: "bytes \<Rightarrow> bytes" where
  "set_version_bits value =
     (let value = value[6 := (value ! 6 AND 0x0f) OR 0x40]
      in value[8 := (value ! 8 AND 0x3f) OR 0x80])"

definition format_uuid :: "bytes \<Rightarrow> uuid" where
  "format_uuid value =
     hex_bytes (take 4 value) @ ''-'' @ hex_bytes (take 2 (drop 4 value)) @ ''-'' @
     hex_bytes (take 2 (drop 6 value)) @ ''-'' @ hex_bytes (take 2 (drop 8 value)) @ ''-'' @
     hex_bytes (take 6 (drop 10 value))"

text \<open>The argument is what \<open>rand.Read\<close> filled the 16-byte slice with, or \<open>None\<close> for its error.\<close>

definition NewItemID :: "bytes option \<Rightarrow> uuid option" where
  "NewItemID rnd = map_option (\<lambda>value. format_uuid (set_version_bits value)) rnd"

definition newAccountID :: "bytes option \<Rightarrow> uuid option" where
  "newAccountID rnd = map_option (\<lambda>value. format_uuid (set_version_bits value)) rnd"

section \<open>Validation\<close>

definition is_hex :: "char \<Rightarrow> bool" where
  "is_hex c \<longleftrightarrow> (CHR ''0'' \<le> c \<and> c \<le> CHR ''9'') \<or> (CHR ''a'' \<le> c \<and> c \<le> CHR ''f'') \<or>
     (CHR ''A'' \<le> c \<and> c \<le> CHR ''F'')"

fun validUUID_loop :: "nat \<Rightarrow> string \<Rightarrow> bool" where
  "validUUID_loop index [] = True"
| "validUUID_loop index (c # cs) =
     (if index \<in> {8, 13, 18, 23} then (if c \<noteq> CHR ''-'' then False else validUUID_loop (Suc index) cs)
      else (if \<not> is_hex c then False else validUUID_loop (Suc index) cs))"

definition validUUID :: "string \<Rightarrow> bool" where
  "validUUID value = (if length value \<noteq> 36 then False else validUUID_loop 0 value)"

lemma validUUID_loop_iff:
  "validUUID_loop n cs \<longleftrightarrow>
     (\<forall>i < length cs. if n + i \<in> {8, 13, 18, 23} then cs ! i = CHR ''-'' else is_hex (cs ! i))"
proof (induction cs arbitrary: n)
  case Nil
  then show ?case by simp
next
  case (Cons c cs)
  have "(\<forall>i < length (c # cs). if n + i \<in> {8, 13, 18, 23} then (c # cs) ! i = CHR ''-'' else is_hex ((c # cs) ! i))
    \<longleftrightarrow> (if n \<in> {8, 13, 18, 23} then c = CHR ''-'' else is_hex c) \<and>
       (\<forall>i < length cs. if Suc n + i \<in> {8, 13, 18, 23} then cs ! i = CHR ''-'' else is_hex (cs ! i))"
    unfolding All_less_Suc2 length_Cons by simp
  then show ?case using Cons.IH by simp
qed

lemma validUUID_loop_append:
  "validUUID_loop n (xs @ ys) \<longleftrightarrow> validUUID_loop n xs \<and> validUUID_loop (n + length xs) ys"
  by (induction xs arbitrary: n) simp_all

lemma is_hex_hex_char: "n < 16 \<Longrightarrow> is_hex (hex_char n)"
  by (auto simp: hex_char_def is_hex_def less_eq_char_def)

lemma hex_bytes_is_hex: "c \<in> set (hex_bytes bs) \<Longrightarrow> is_hex c"
proof -
  assume "c \<in> set (hex_bytes bs)"
  then obtain b where "b \<in> set bs" and c: "c \<in> set (hex_byte b)"
    by (auto simp: hex_bytes_def)
  have "unat b < 256" using unsigned_less [of b] by simp
  then have "unat b div 16 < 16" "unat b mod 16 < 16" by auto
  with c show ?thesis by (auto simp: hex_byte_def is_hex_hex_char)
qed

lemma validUUID_loop_hex:
  assumes "\<forall>c \<in> set cs. is_hex c" "\<forall>i < length cs. n + i \<notin> {8, 13, 18, 23}"
  shows "validUUID_loop n cs"
  using assms by (auto simp: validUUID_loop_iff)

lemma validUUID_format_uuid:
  assumes "length value = 16"
  shows "validUUID (format_uuid value)"
proof -
  have hex: "\<forall>c \<in> set (hex_bytes bs). is_hex c" for bs by (blast intro: hex_bytes_is_hex)
  have g: "validUUID_loop 0 (hex_bytes (take 4 value))"
    "validUUID_loop 9 (hex_bytes (take 2 (drop 4 value)))"
    "validUUID_loop 14 (hex_bytes (take 2 (drop 6 value)))"
    "validUUID_loop 19 (hex_bytes (take 2 (drop 8 value)))"
    "validUUID_loop 24 (hex_bytes (take 6 (drop 10 value)))"
    by (rule validUUID_loop_hex, rule hex, use assms in auto)+
  show ?thesis
    using assms g by (simp add: validUUID_def format_uuid_def validUUID_loop_append)
qed

lemma length_set_version_bits [simp]: "length (set_version_bits value) = length value"
  by (simp add: set_version_bits_def Let_def)

lemma NewItemID_valid: "length value = 16 \<Longrightarrow> NewItemID (Some value) = Some i \<Longrightarrow> validUUID i"
  by (auto simp: NewItemID_def validUUID_format_uuid)

lemma validUUID_nonempty: "validUUID i \<Longrightarrow> i \<noteq> ''''"
  by (auto simp: validUUID_def)

lemma NewItemID_nonempty: "NewItemID rnd = Some i \<Longrightarrow> i \<noteq> ''''"
  by (auto simp: NewItemID_def format_uuid_def)

text \<open>No hexadecimal digit or hyphen is a comma, a brace or a line feed.\<close>

lemma validUUID_chars:
  assumes "validUUID u" "c \<in> set u"
  shows "is_hex c \<or> c = CHR ''-''"
proof -
  from assms(2) obtain i where "i < length u" "u ! i = c" by (auto simp: in_set_conv_nth)
  with assms(1) show ?thesis
    by (auto simp: validUUID_def validUUID_loop_iff split: if_splits)
qed

end
