(* ===== verification/NativeItems.thy ===== *)
theory NativeItems
  imports Uuid
begin

text \<open>
  The decrypted records of a vault (\<open>internal/client/item.go\<close>): Logins, Secure Notes,
  Folders and Generic items, the union \<open>NativeItem\<close> (a type tag and one pointer per
  kind, which need not agree), password rotation, and the accessors the backup import uses
  (\<open>internal/client/backup.go\<close>).
\<close>

section \<open>Records\<close>

record custom_field =
  cfName :: string
  cfValue :: string

record password_history_entry =
  phPassword :: string
  phChangedAt :: time

record totp_config =
  totpSecret :: string
  totpIssuer :: string
  totpAccount :: string
  totpAlgorithm :: string
  totpDigits :: int
  totpPeriod :: int

record login_item =
  lItemID :: string
  lName :: string
  lUsername :: string
  lPassword :: string
  lPasswordHistory :: "password_history_entry list"
  lFolderID :: string
  lFavorite :: bool
  lURLs :: "string list"
  lNotes :: string
  lCustomFields :: "custom_field list"
  lTOTP :: "totp_config option"

record secure_note_item =
  nItemID :: string
  nTitle :: string
  nContent :: string
  nFolderID :: string
  nFavorite :: bool

record folder_item =
  fItemID :: string
  fName :: string

record generic_item =
  gItemID :: string
  gTitle :: string
  gSource :: string
  gSourceType :: string
  gFolderID :: string
  gFavorite :: bool
  gData :: bytes

definition NativeItemTypeLogin :: string where "NativeItemTypeLogin = ''login''"
definition NativeItemTypeSecureNote :: string where "NativeItemTypeSecureNote = ''secure_note''"
definition NativeItemTypeFolder :: string where "NativeItemTypeFolder = ''folder''"
definition NativeItemTypeGeneric :: string where "NativeItemTypeGeneric = ''generic''"

lemmas native_type_defs = NativeItemTypeLogin_def NativeItemTypeSecureNote_def
  NativeItemTypeFolder_def NativeItemTypeGeneric_def

record native_item =
  niType :: string
  niLogin :: "login_item option"
  niSecureNote :: "secure_note_item option"
  niFolder :: "folder_item option"
  niGeneric :: "generic_item option"

section \<open>Password rotation\<close>

definition maxPasswordHistoryEntries :: nat where "maxPasswordHistoryEntries = 5"

text \<open>\<open>changedAt.UTC()\<close> names the same instant, so the stored time is \<open>changedAt\<close>.\<close>

definition RotateLoginPassword :: "login_item \<Rightarrow> string \<Rightarrow> time \<Rightarrow> login_item" where
  "RotateLoginPassword login password changedAt =
     (let history = [] @ lPasswordHistory login
      in if password = lPassword login then login\<lparr>lPasswordHistory := history\<rparr>
         else let history =
                (if lPassword login \<noteq> ''''
                 then let history = [\<lparr>phPassword = lPassword login, phChangedAt = changedAt\<rparr>] @ history
                      in if length history > maxPasswordHistoryEntries
                         then take maxPasswordHistoryEntries history else history
                 else history)
              in login\<lparr>lPassword := password, lPasswordHistory := history\<rparr>)"

fun rotate_all :: "login_item \<Rightarrow> (string \<times> time) list \<Rightarrow> login_item" where
  "rotate_all login [] = login"
| "rotate_all login ((p, t) # ps) = rotate_all (RotateLoginPassword login p t) ps"

lemma rotate_bounded:
  "length (lPasswordHistory login) \<le> maxPasswordHistoryEntries \<Longrightarrow>
   length (lPasswordHistory (RotateLoginPassword login p t)) \<le> maxPasswordHistoryEntries"
  by (auto simp: RotateLoginPassword_def Let_def)

lemma rotate_password [simp]: "lPassword (RotateLoginPassword login p t) = p"
  by (auto simp: RotateLoginPassword_def Let_def)

lemma rotate_keeps_previous:
  "p \<noteq> lPassword login \<Longrightarrow> lPassword login \<noteq> '''' \<Longrightarrow>
   lPasswordHistory (RotateLoginPassword login p t) =
     take maxPasswordHistoryEntries (\<lparr>phPassword = lPassword login, phChangedAt = t\<rparr> # lPasswordHistory login)"
  by (auto simp: RotateLoginPassword_def Let_def)

section \<open>Accessors of the union\<close>

definition nativeItemID :: "native_item \<Rightarrow> string option" where
  "nativeItemID item =
     (if niType item = NativeItemTypeLogin then map_option lItemID (niLogin item)
      else if niType item = NativeItemTypeSecureNote then map_option nItemID (niSecureNote item)
      else if niType item = NativeItemTypeFolder then map_option fItemID (niFolder item)
      else if niType item = NativeItemTypeGeneric then map_option gItemID (niGeneric item)
      else None)"

definition setNativeItemID :: "native_item \<Rightarrow> string \<Rightarrow> native_item option" where
  "setNativeItemID item i =
     (if niType item = NativeItemTypeLogin then
        map_option (\<lambda>l. item\<lparr>niLogin := Some (l\<lparr>lItemID := i\<rparr>)\<rparr>) (niLogin item)
      else if niType item = NativeItemTypeSecureNote then
        map_option (\<lambda>n. item\<lparr>niSecureNote := Some (n\<lparr>nItemID := i\<rparr>)\<rparr>) (niSecureNote item)
      else if niType item = NativeItemTypeFolder then
        map_option (\<lambda>f. item\<lparr>niFolder := Some (f\<lparr>fItemID := i\<rparr>)\<rparr>) (niFolder item)
      else if niType item = NativeItemTypeGeneric then
        map_option (\<lambda>g. item\<lparr>niGeneric := Some (g\<lparr>gItemID := i\<rparr>)\<rparr>) (niGeneric item)
      else None)"

definition remap_folder :: "(string, string) fmap \<Rightarrow> string \<Rightarrow> string" where
  "remap_folder folderIDs folderID =
     (case fmlookup folderIDs folderID of
        Some mapped \<Rightarrow> mapped
      | None \<Rightarrow> if folderID \<noteq> '''' then '''' else folderID)"

definition remapNativeFolderID :: "native_item \<Rightarrow> (string, string) fmap \<Rightarrow> native_item option" where
  "remapNativeFolderID item folderIDs =
     (if niType item = NativeItemTypeLogin then
        map_option (\<lambda>l. item\<lparr>niLogin := Some (l\<lparr>lFolderID := remap_folder folderIDs (lFolderID l)\<rparr>)\<rparr>) (niLogin item)
      else if niType item = NativeItemTypeSecureNote then
        map_option (\<lambda>n. item\<lparr>niSecureNote := Some (n\<lparr>nFolderID := remap_folder folderIDs (nFolderID n)\<rparr>)\<rparr>) (niSecureNote item)
      else if niType item = NativeItemTypeGeneric then
        map_option (\<lambda>g. item\<lparr>niGeneric := Some (g\<lparr>gFolderID := remap_folder folderIDs (gFolderID g)\<rparr>)\<rparr>) (niGeneric item)
      else if niType item = NativeItemTypeFolder then Some item
      else None)"

lemma nativeItemID_set:
  "setNativeItemID item i = Some item' \<Longrightarrow> nativeItemID item' = Some i \<and> niType item' = niType item"
  by (auto simp: setNativeItemID_def nativeItemID_def native_type_defs split: if_splits)

lemma nativeItemID_remap:
  "remapNativeFolderID item f = Some item' \<Longrightarrow> nativeItemID item' = nativeItemID item \<and> niType item' = niType item"
  by (auto simp: remapNativeFolderID_def nativeItemID_def native_type_defs split: if_splits)

text \<open>The folder an item claims to be in, whatever its kind.\<close>

definition native_folder :: "native_item \<Rightarrow> string" where
  "native_folder item =
     (if niType item = NativeItemTypeLogin then (case niLogin item of None \<Rightarrow> '''' | Some l \<Rightarrow> lFolderID l)
      else if niType item = NativeItemTypeSecureNote then (case niSecureNote item of None \<Rightarrow> '''' | Some n \<Rightarrow> nFolderID n)
      else if niType item = NativeItemTypeGeneric then (case niGeneric item of None \<Rightarrow> '''' | Some g \<Rightarrow> gFolderID g)
      else '''')"

lemma remap_folder_target: "remap_folder f i = '''' \<or> remap_folder f i \<in> fmran' f"
  by (auto simp: remap_folder_def fmlookup_ran'_iff split: option.splits)

lemma native_folder_remap:
  "remapNativeFolderID item f = Some item' \<Longrightarrow> native_folder item' = '''' \<or> native_folder item' \<in> fmran' f"
  by (auto simp: remapNativeFolderID_def native_folder_def native_type_defs split: if_splits)
    (use remap_folder_target in blast)+

end
