(* ===== verification/CacheOps.thy ===== *)
theory CacheOps
  imports CacheFile NativeItems
begin

text \<open>
  The operations of \<open>Cache\<close> (\<open>internal/client/cache.go\<close>): each takes the file
  lock, reads and validates the file, computes, and (for the updates) replaces the file.
  \<open>locked_read\<close> and \<open>locked_update\<close> are that frame; the operation itself is a
  function on the document. The locale \<open>atomic_file\<close> states what the operations need
  of reading and replacing, so that "an update never leaves an unreadable cache" is proved once.
\<close>

section \<open>The locked frame\<close>

definition locked_read :: "io_env \<Rightarrow> disk \<Rightarrow> cache_error + cache_file" where
  "locked_read env d = (if lockFails env then Inl ErrLock else readCacheFile env d)"

text \<open>
  \<open>transact\<close> reads, runs the operation, and writes back the document the operation
  returns, if it returns one; an operation that fails, or returns none, writes nothing.
\<close>

definition transact ::
  "('s \<Rightarrow> 'e + 'd) \<Rightarrow> ('s \<Rightarrow> 'd \<Rightarrow> 's \<times> 'e option) \<Rightarrow> ('d \<Rightarrow> 'e + ('d option \<times> 'r)) \<Rightarrow>
   's \<Rightarrow> 's \<times> ('e + 'r)" where
  "transact rd wr f s =
     (case rd s of
        Inl e \<Rightarrow> (s, Inl e)
      | Inr d \<Rightarrow>
          (case f d of
             Inl e \<Rightarrow> (s, Inl e)
           | Inr (None, r) \<Rightarrow> (s, Inr r)
           | Inr (Some d', r) \<Rightarrow>
               (case wr s d' of
                  (s', None) \<Rightarrow> (s', Inr r)
                | (s', Some e) \<Rightarrow> (s', Inl e))))"

lemma transact_Inr:
  "transact rd wr f s = (s', Inr r) \<longleftrightarrow>
     (\<exists>d. rd s = Inr d \<and> (f d = Inr (None, r) \<and> s' = s \<or>
        (\<exists>d'. f d = Inr (Some d', r) \<and> wr s d' = (s', None))))"
  by (auto simp: transact_def split: sum.splits option.splits prod.splits)

definition locked_update ::
  "io_env \<Rightarrow> (cache_file \<Rightarrow> cache_error + (cache_file option \<times> 'r)) \<Rightarrow> disk \<Rightarrow> disk \<times> (cache_error + 'r)" where
  "locked_update env f d =
     (if lockFails env then (d, Inl ErrLock) else transact (readCacheFile env) (writeCacheFile env) f d)"

locale atomic_file =
  fixes rd :: "'s \<Rightarrow> 'e + 'd"
    and wr :: "'s \<Rightarrow> 'd \<Rightarrow> 's \<times> 'e option"
    and valid :: "'d \<Rightarrow> bool"
    and small :: "'s \<Rightarrow> bool"
    and canon :: "'d \<Rightarrow> 'd"
  assumes rd_valid: "rd s = Inr d \<Longrightarrow> valid d"
    and wr_ok: "wr s d = (s', None) \<Longrightarrow> valid d \<Longrightarrow> small s' \<Longrightarrow> rd s' = Inr (canon d)"
    and wr_atomic: "wr s d = (s', Some e) \<Longrightarrow> valid d \<Longrightarrow> small s' \<Longrightarrow> s' = s \<or> rd s' = Inr (canon d)"
begin

lemma transact_success:
  assumes "transact rd wr f s = (s', Inr r)" "small s'"
    and keeps: "\<And>d d' r. rd s = Inr d \<Longrightarrow> f d = Inr (Some d', r) \<Longrightarrow> valid d'"
  shows "\<exists>d. rd s = Inr d \<and>
    (f d = Inr (None, r) \<and> s' = s \<or> (\<exists>d'. f d = Inr (Some d', r) \<and> rd s' = Inr (canon d')))"
  using assms wr_ok
  by (auto simp: transact_def split: sum.splits option.splits prod.splits)

lemma transact_failure:
  assumes "transact rd wr f s = (s', Inl e)" "small s'"
    and keeps: "\<And>d d' r. rd s = Inr d \<Longrightarrow> f d = Inr (Some d', r) \<Longrightarrow> valid d'"
  shows "s' = s \<or> (\<exists>d d' r. rd s = Inr d \<and> f d = Inr (Some d', r) \<and> rd s' = Inr (canon d'))"
proof (cases "rd s")
  case (Inl e')
  with assms(1) show ?thesis by (simp add: transact_def)
next
  case rd: (Inr d)
  show ?thesis
  proof (cases "f d")
    case (Inl e')
    with rd assms(1) show ?thesis by (simp add: transact_def)
  next
    case f: (Inr x)
    obtain o' r where x: "x = (o', r)" by (cases x)
    show ?thesis
    proof (cases o')
      case None
      with f x rd assms(1) show ?thesis by (simp add: transact_def)
    next
      case (Some d')
      with f x have fd: "f d = Inr (Some d', r)" by simp
      obtain s'' we where w: "wr s d' = (s'', we)" by (cases "wr s d'")
      with fd rd assms(1) have "we = Some e" "s'' = s'"
        by (auto simp: transact_def split: option.splits)
      with w keeps[OF rd fd] wr_atomic assms(2) have "s' = s \<or> rd s' = Inr (canon d')" by blast
      with rd fd show ?thesis by blast
    qed
  qed
qed

text \<open>Whatever fails, the file afterwards is the old one or one that reads as the new document.\<close>

lemma transact_old_or_new:
  assumes "rd s = Inr d" "transact rd wr f s = (s', res)" "small s'"
    and keeps: "\<And>d' r. f d = Inr (Some d', r) \<Longrightarrow> valid d'"
  shows "s' = s \<or> (\<exists>d' r. f d = Inr (Some d', r) \<and> rd s' = Inr (canon d'))"
proof (cases res)
  case (Inr r)
  with assms transact_success[of f s s' r] show ?thesis by fastforce
next
  case (Inl e)
  with assms transact_failure[of f s s' e] show ?thesis by fastforce
qed

end

text \<open>The reader refuses a file above its limit; the writer does not look at the size.\<close>

definition small_file :: "disk \<Rightarrow> bool" where
  "small_file d = (case d of None \<Rightarrow> True | Some f \<Rightarrow> dSize f \<le> maximumCacheFileSize)"

interpretation cache: atomic_file "readCacheFile env" "writeCacheFile env" validateCacheData
  small_file stored_form for env
proof unfold_locales
  fix s d assume "readCacheFile env s = Inr d"
  then show "validateCacheData d" by (rule readCacheFile_valid)
next
  fix s d s'
  assume "writeCacheFile env s d = (s', None)" "validateCacheData d" "small_file s'"
  then show "readCacheFile env s' = Inr (stored_form d)"
    by (auto simp: readCacheFile_new small_file_def dest!: writeCacheFile_ok)
next
  fix s d s' e
  assume "writeCacheFile env s d = (s', Some e)" "validateCacheData d" "small_file s'"
  then show "s' = s \<or> readCacheFile env s' = Inr (stored_form d)"
    by (auto simp: readCacheFile_new small_file_def dest!: writeCacheFile_unchanged_or_new)
qed

lemma locked_update_old_or_new:
  assumes "readCacheFile env d = Inr data" "locked_update env f d = (d', res)" "small_file d'"
    and "\<And>data' r. f data = Inr (Some data', r) \<Longrightarrow> validateCacheData data'"
  shows "d' = d \<or> (\<exists>data' r. f data = Inr (Some data', r) \<and> readCacheFile env d' = Inr (stored_form data'))"
  using assms cache.transact_old_or_new[of env d data f d' res]
  by (auto simp: locked_update_def split: if_splits)

lemma locked_update_success:
  assumes "locked_update env f d = (d', Inr r)" "small_file d'"
    and "\<And>data data' r. readCacheFile env d = Inr data \<Longrightarrow> f data = Inr (Some data', r) \<Longrightarrow> validateCacheData data'"
  shows "\<exists>data. readCacheFile env d = Inr data \<and>
    (f data = Inr (None, r) \<and> d' = d \<or>
     (\<exists>data'. f data = Inr (Some data', r) \<and> readCacheFile env d' = Inr (stored_form data')))"
  using assms cache.transact_success[of env f d d' r]
  by (auto simp: locked_update_def split: if_splits)

section \<open>Opening and authorizing\<close>

text \<open>\<open>canonicalEmail\<close> is \<open>canonicalBootstrapEmail\<close>, whose parser is \<open>net/mail\<close>.\<close>

definition AuthorizeCache ::
  "(string \<Rightarrow> string option) \<Rightarrow> io_env \<Rightarrow> disk \<Rightarrow> string \<Rightarrow> string \<Rightarrow> bytes \<Rightarrow> disk \<times> cache_error option" where
  "AuthorizeCache canonicalEmail env d email accountID env_bytes =
     (case canonicalEmail email of
        None \<Rightarrow> (d, Some ErrInvalidEmail)
      | Some email \<Rightarrow>
          if accountID = '''' \<or> length env_bytes = 0 then (d, Some ErrInvalidCache)
          else let data = \<lparr>cVersion = cacheFormatVersion, cAccountID = accountID, cEmail = email,
                           cPasswordVaultEnvelope = [] @ env_bytes, cItems = fmempty,
                           cRevisions = Some fmempty, cMutations = [], cCursor = '''',
                           cRestoredBackups = []\<rparr>
          in if lockFails env then (d, Some ErrLock)
             else (case readCacheFile env d of
                Inr existing \<Rightarrow>
                  if cAccountID existing \<noteq> accountID \<or> cEmail existing \<noteq> email then (d, Some ErrInvalidCache)
                  else writeCacheFile env d (existing\<lparr>cPasswordVaultEnvelope := [] @ env_bytes\<rparr>)
              | Inl e \<Rightarrow> if e \<noteq> ErrCacheNotFound then (d, Some e) else writeCacheFile env d data))"

definition OpenCache :: "(string \<Rightarrow> string option) \<Rightarrow> io_env \<Rightarrow> disk \<Rightarrow> string \<Rightarrow> cache_error option" where
  "OpenCache canonicalEmail env d email =
     (case canonicalEmail email of
        None \<Rightarrow> Some ErrInvalidEmail
      | Some email \<Rightarrow> (case readCacheFile env d of Inl e \<Rightarrow> Some e | Inr _ \<Rightarrow> None))"

section \<open>Queueing one revision\<close>

text \<open>
  The loop over the parents: each must exist in the graph, none twice; it returns the largest
  revision number among them.
\<close>

fun check_parents :: "revisions \<Rightarrow> uuid set \<Rightarrow> u64 \<Rightarrow> uuid list \<Rightarrow> u64 option" where
  "check_parents revs seen mx [] = Some mx"
| "check_parents revs seen mx (p # ps) =
     (case fmlookup revs p of
        None \<Rightarrow> None
      | Some parent \<Rightarrow>
          if p \<in> seen then None
          else check_parents revs (insert p seen) (max mx (revision parent)) ps)"

definition infer_parents :: "revisions \<Rightarrow> u64 \<Rightarrow> uuid list" where
  "infer_parents revs base = map revisionID (filter (\<lambda>h. revision h = base) (revisionHeads revs))"

definition resolve_parents :: "revisions \<Rightarrow> u64 \<Rightarrow> uuid list \<Rightarrow> uuid list option" where
  "resolve_parents revs base parents =
     (if base = 0 then
        (if fmdom revs \<noteq> {||} \<or> length parents \<noteq> 0 then None else Some parents)
      else
        let inferred = (if length parents = 0 then infer_parents revs base else parents)
        in if length parents = 0 \<and> length inferred \<noteq> 1 then None
           else let sorted = sort inferred
                in (case check_parents revs {} 0 sorted of
                      None \<Rightarrow> None
                    | Some mx \<Rightarrow> if mx \<noteq> base then None else Some sorted))"

definition queue_one ::
  "encrypted_item \<Rightarrow> u64 \<Rightarrow> cache_file \<Rightarrow> cache_error + (cache_file option \<times> mutation)" where
  "queue_one item base data =
     (let revs = revs_of data (itemID item)
      in case resolve_parents revs base (parentRevisionIDs item) of
           None \<Rightarrow> Inl ErrLocalRevisionConflict
         | Some parents \<Rightarrow>
             if fmlookup revs (revisionID item) \<noteq> None then Inl ErrLocalRevisionIDExists
             else let item = cloneEncryptedItem (item\<lparr>parentRevisionIDs := parents\<rparr>);
                      m = \<lparr>mutationID = revisionID item, baseRevision = base, mutItem = item\<rparr>;
                      revs' = (if purged item then fmupd (revisionID item) item fmempty
                               else fmupd (revisionID item) item revs)
                  in Inr (Some (put_graph (fmupd (itemID item) (Some revs') (graph data))
                            (data\<lparr>cMutations := cMutations data @ [m]\<rparr>)), m))"

definition QueueMutation ::
  "io_env \<Rightarrow> disk \<Rightarrow> encrypted_item \<Rightarrow> u64 \<Rightarrow> disk \<times> (cache_error + mutation)" where
  "QueueMutation env d item base =
     (if itemID item = '''' \<or> schemaVersion item < 1 \<or> revision item = 0 \<or>
         revision item \<noteq> base + 1 \<or> \<not> validEncryptedItemContent item
      then (d, Inl ErrInvalidItemEnvelope)
      else case (if revisionID item = '''' then NewItemID (randomBytes env 0) else Some (revisionID item)) of
             None \<Rightarrow> (d, Inl ErrRandom)
           | Some rid \<Rightarrow> locked_update env (queue_one (item\<lparr>revisionID := rid\<rparr>) base) d)"

lemma check_parents_spec:
  "check_parents revs seen mx ps = Some m \<Longrightarrow>
     distinct ps \<and> set ps \<inter> seen = {} \<and> (\<forall>p \<in> set ps. fmlookup revs p \<noteq> None) \<and> mx \<le> m \<and>
     (\<forall>p \<in> set ps. \<forall>q. fmlookup revs p = Some q \<longrightarrow> revision q \<le> m) \<and>
     (m = mx \<or> (\<exists>p \<in> set ps. \<exists>q. fmlookup revs p = Some q \<and> revision q = m))"
proof (induction ps arbitrary: seen mx)
  case Nil
  then show ?case by simp
next
  case (Cons p ps)
  then obtain q where q: "fmlookup revs p = Some q" "p \<notin> seen"
    "check_parents revs (insert p seen) (max mx (revision q)) ps = Some m"
    by (auto split: option.splits if_splits)
  note ih = Cons.IH[OF q(3)]
  from ih have le: "max mx (revision q) \<le> m" by blast
  from ih have "m = max mx (revision q) \<or> (\<exists>p \<in> set ps. \<exists>q. fmlookup revs p = Some q \<and> revision q = m)"
    by blast
  then have "m = mx \<or> (\<exists>p' \<in> set (p # ps). \<exists>q. fmlookup revs p' = Some q \<and> revision q = m)"
    using q(1) by (auto simp: max_def split: if_splits)
  moreover have "mx \<le> m" "revision q \<le> m" using le by auto
  ultimately show ?case using ih q by auto
qed

lemma resolve_parents_spec:
  assumes "resolve_parents revs base parents = Some ps"
  shows "distinct ps \<and> (\<forall>p \<in> set ps. fmlookup revs p \<noteq> None) \<and> (base = 0 \<longleftrightarrow> ps = []) \<and>
    (base = 0 \<longrightarrow> revs = fmempty) \<and>
    (base \<noteq> 0 \<longrightarrow> (\<forall>p \<in> set ps. \<forall>q. fmlookup revs p = Some q \<longrightarrow> revision q \<le> base) \<and>
       (\<exists>p \<in> set ps. \<exists>q. fmlookup revs p = Some q \<and> revision q = base))"
proof (cases "base = 0")
  case True
  with assms have "fmdom revs = {||}" "ps = []"
    by (auto simp: resolve_parents_def split: if_splits)
  moreover from this(1) have "revs = fmempty" by (metis fmdom_empty fmrestrict_fset_dom fmrestrict_fset_null)
  ultimately show ?thesis using True by simp
next
  case False
  with assms obtain inferred where ps: "ps = sort inferred"
    and chk: "check_parents revs {} 0 (sort inferred) = Some base"
    by (auto simp: resolve_parents_def Let_def split: if_splits option.splits)
  note spec = check_parents_spec[OF chk]
  from spec False have ex: "\<exists>p \<in> set (sort inferred). \<exists>q. fmlookup revs p = Some q \<and> revision q = base"
    by blast
  then have "ps \<noteq> []" unfolding ps by (metis empty_iff list.set(1))
  then show ?thesis using spec ex False unfolding ps by blast
qed

text \<open>What a queued revision does to the document.\<close>

lemma queue_one_success:
  assumes "queue_one item base data = Inr (o', m)"
  obtains parents where
    "resolve_parents (revs_of data (itemID item)) base (parentRevisionIDs item) = Some parents"
    "fmlookup (revs_of data (itemID item)) (revisionID item) = None"
    "m = \<lparr>mutationID = revisionID item, baseRevision = base, mutItem = item\<lparr>parentRevisionIDs := parents\<rparr>\<rparr>"
    "o' = Some (put_graph
       (fmupd (itemID item)
         (Some (if purged item then fmupd (revisionID item) (mutItem m) fmempty
                else fmupd (revisionID item) (mutItem m) (revs_of data (itemID item)))) (graph data))
       (data\<lparr>cMutations := cMutations data @ [m]\<rparr>))"
  using assms by (auto simp: queue_one_def Let_def split: option.splits if_splits)

lemma queue_one_valid:
  assumes q: "queue_one item base data = Inr (Some data', m)" and v: "validateCacheData data"
    and item: "itemID item \<noteq> ''''" "\<not> schemaVersion item < 1" "revision item \<noteq> 0"
      "revision item = base + 1" "validEncryptedItemContent item" "revisionID item \<noteq> ''''"
  shows "validateCacheData data'"
proof -
  from q obtain parents where
    ps: "resolve_parents (revs_of data (itemID item)) base (parentRevisionIDs item) = Some parents" and
    m: "m = \<lparr>mutationID = revisionID item, baseRevision = base, mutItem = item\<lparr>parentRevisionIDs := parents\<rparr>\<rparr>" and
    data': "data' = put_graph
       (fmupd (itemID item)
         (Some (if purged item then fmupd (revisionID item) (mutItem m) fmempty
                else fmupd (revisionID item) (mutItem m) (revs_of data (itemID item)))) (graph data))
       (data\<lparr>cMutations := cMutations data @ [m]\<rparr>)"
    by (elim queue_one_success) simp
  from v have g: "valid_graph (graph data)" by (simp add: validateCacheData_iff)
  note spec = resolve_parents_spec[OF ps]
  have "'''' \<notin> set parents"
  proof
    assume "'''' \<in> set parents"
    with spec obtain q where "fmlookup (revs_of data (itemID item)) '''' = Some q" by blast
    with valid_graph_entry[OF g this] show False by (simp add: validRevisionEntry_def)
  qed
  with spec have par: "\<not> hasInvalidParentIDs parents" by (simp add: hasInvalidParentIDs_iff)
  have content: "validEncryptedItemContent (mutItem m)"
    using item(5) by (simp add: m)
  have entry: "validRevisionEntry (itemID item) (revisionID item) (mutItem m)"
    using item par content by (simp add: validRevisionEntry_def m)
  have mut: "validMutationEntry m"
    using item par content spec by (auto simp: validMutationEntry_def m)
  have "valid_graph (graph data')"
    unfolding data' graph_put
    by (rule valid_graph_upd[OF g item(1)])
      (use entry g in \<open>auto dest: valid_graph_entry split: if_splits\<close>)
  with v mut show ?thesis by (auto simp: validateCacheData_iff data')
qed

lemma queue_one_graph:
  assumes "queue_one item base data = Inr (Some data', m)"
  shows "revs_of data' j =
    (if j = itemID item
     then (if purged item then fmupd (mutationID m) (mutItem m) fmempty
           else fmupd (mutationID m) (mutItem m) (revs_of data j))
     else revs_of data j)"
  using assms by (elim queue_one_success) auto

lemma queue_one_frame:
  assumes "queue_one item base data = Inr (Some data', m)"
  shows "cMutations data' = cMutations data @ [m]" "cCursor data' = cCursor data"
    "cAccountID data' = cAccountID data" "cEmail data' = cEmail data"
    "cPasswordVaultEnvelope data' = cPasswordVaultEnvelope data"
    "cRestoredBackups data' = cRestoredBackups data"
  using assms by (elim queue_one_success; simp)+

lemma queue_one_some: "queue_one item base data = Inr (o', m) \<Longrightarrow> \<exists>data'. o' = Some data'"
  by (elim queue_one_success) simp

text \<open>
  The queued revision becomes a head and takes the place of exactly the heads it has as parents;
  a purging revision becomes the only revision.
\<close>

lemma queue_one_heads:
  assumes q: "queue_one item base data = Inr (Some data', m)" and v: "validateCacheData data"
    and fresh: "\<not> referenced (revs_of data (itemID item)) (revisionID item)"
  shows "set (revisionHeads (revs_of data' (itemID item))) =
    (if purged item then {mutItem m}
     else insert (mutItem m)
       {h \<in> set (revisionHeads (revs_of data (itemID item))).
          revisionID h \<notin> set (parentRevisionIDs (mutItem m))})"
proof -
  from q obtain parents where
    ps: "resolve_parents (revs_of data (itemID item)) base (parentRevisionIDs item) = Some parents" and
    new: "fmlookup (revs_of data (itemID item)) (revisionID item) = None" and
    m: "m = \<lparr>mutationID = revisionID item, baseRevision = base, mutItem = item\<lparr>parentRevisionIDs := parents\<rparr>\<rparr>"
    by (elim queue_one_success) simp
  have notin: "revisionID item \<notin> set parents"
    using resolve_parents_spec[OF ps] new by force
  from v have k: "keyed (revs_of data (itemID item))"
    by (simp add: validateCacheData_iff valid_graph_keyed)
  show ?thesis
  proof (cases "purged item")
    case True
    have "set (revisionHeads (fmupd (revisionID item) (mutItem m) fmempty)) = {mutItem m}"
      by (subst revisionHeads_add) (use notin in \<open>auto simp: m keyed_def referenced_iff\<close>)
    with True queue_one_graph[OF q, of "itemID item"] show ?thesis by (simp add: m)
  next
    case False
    have "set (revisionHeads (fmupd (revisionID item) (mutItem m) (revs_of data (itemID item)))) =
      insert (mutItem m) {h \<in> set (revisionHeads (revs_of data (itemID item))).
          revisionID h \<notin> set (parentRevisionIDs (mutItem m))}"
      by (rule revisionHeads_add[OF new fresh _ k]) (use notin in \<open>simp add: m\<close>)
    with False queue_one_graph[OF q, of "itemID item"] show ?thesis by (simp add: m)
  qed
qed

lemma QueueMutation_success:
  assumes "QueueMutation env d item base = (d', Inr m)"
  shows "\<exists>rid data data'. readCacheFile env d = Inr data \<and> rid \<noteq> [] \<and>
    (revisionID item \<noteq> [] \<longrightarrow> rid = revisionID item) \<and>
    queue_one (item\<lparr>revisionID := rid\<rparr>) base data = Inr (Some data', m) \<and>
    validateCacheData data' \<and> writeCacheFile env d data' = (d', None)"
proof -
  from assms(1) obtain rid where
    ok: "itemID item \<noteq> []" "\<not> schemaVersion item < 1" "revision item \<noteq> 0"
      "revision item = base + 1" "validEncryptedItemContent item" and
    rid: "rid \<noteq> []" "revisionID item \<noteq> [] \<longrightarrow> rid = revisionID item" and
    t: "transact (readCacheFile env) (writeCacheFile env) (queue_one (item\<lparr>revisionID := rid\<rparr>) base) d
      = (d', Inr m)"
    by (auto simp: QueueMutation_def locked_update_def dest: NewItemID_nonempty
      split: if_splits option.splits)
  from t obtain x x' where x: "readCacheFile env d = Inr x" and
    x': "queue_one (item\<lparr>revisionID := rid\<rparr>) base x = Inr (Some x', m)"
    "writeCacheFile env d x' = (d', None)"
    by (auto simp: transact_Inr dest: queue_one_some)
  have "validateCacheData x'"
    using queue_one_valid[OF x'(1) readCacheFile_valid[OF x]] ok rid by simp
  with x x' rid show ?thesis by blast
qed

end
