(* ===== verification/CacheSync.thy ===== *)
theory CacheSync
  imports CacheOps
begin

text \<open>
  The other operations of \<open>internal/client/cache.go\<close>: queueing a batch of new items,
  the views of the graph (active items, Trash), restoring a portable backup, and applying the
  server's synchronization result.
\<close>

section \<open>Batches of new items\<close>

fun prepare_batch :: "io_env \<Rightarrow> nat \<Rightarrow> encrypted_item list \<Rightarrow> cache_error + encrypted_item list" where
  "prepare_batch env index [] = Inr []"
| "prepare_batch env index (item # items) =
     (if itemID item = '''' \<or> schemaVersion item < 1 \<or> revision item \<noteq> 1 \<or>
         length (parentRevisionIDs item) \<noteq> 0 \<or> \<not> validEncryptedItemContent item
      then Inl ErrInvalidItemEnvelope
      else case (if revisionID item = '''' then NewItemID (randomBytes env index) else Some (revisionID item)) of
             None \<Rightarrow> Inl ErrRandom
           | Some rid \<Rightarrow>
               (case prepare_batch env (Suc index) items of
                  Inl e \<Rightarrow> Inl e
                | Inr prepared \<Rightarrow> Inr (cloneEncryptedItem (item\<lparr>revisionID := rid\<rparr>) # prepared)))"

fun queue_batch ::
  "encrypted_item list \<Rightarrow> cache_file \<times> mutation list \<Rightarrow> cache_error + (cache_file \<times> mutation list)" where
  "queue_batch [] (data, queued) = Inr (data, queued)"
| "queue_batch (item # items) (data, queued) =
     (let revs = revs_of data (itemID item)
      in case fmlookup revs (revisionID item) of
           Some existing \<Rightarrow>
             if sameEncryptedItem existing item then queue_batch items (data, queued)
             else Inl ErrLocalRevisionIDExists
         | None \<Rightarrow>
             if fmdom revs \<noteq> {||} then Inl ErrLocalRevisionConflict
             else let m = \<lparr>mutationID = revisionID item, baseRevision = 0, mutItem = cloneEncryptedItem item\<rparr>
                  in queue_batch items
                       (put_graph (addCachedRevision (graph data) item)
                          (data\<lparr>cMutations := cMutations data @ [m]\<rparr>), queued @ [m]))"

definition containsRestoredBackup :: "string list \<Rightarrow> string \<Rightarrow> bool" where
  "containsRestoredBackup fingerprints fingerprint = list_ex (\<lambda>value. value = fingerprint) fingerprints"

definition queue_batch_op ::
  "encrypted_item list \<Rightarrow> string \<Rightarrow> cache_file \<Rightarrow> cache_error + (cache_file option \<times> mutation list)" where
  "queue_batch_op prepared fingerprint data =
     (case queue_batch prepared (data, []) of
        Inl e \<Rightarrow> Inl e
      | Inr (data, queued) \<Rightarrow>
          let data = (if fingerprint \<noteq> '''' \<and> \<not> containsRestoredBackup (cRestoredBackups data) fingerprint
                      then data\<lparr>cRestoredBackups := cRestoredBackups data @ [fingerprint]\<rparr> else data)
          in if length queued = 0 \<and> fingerprint = '''' then Inr (None, queued) else Inr (Some data, queued))"

text \<open>\<open>c\<close> may be a nil pointer; then there is no cache file to work on.\<close>

definition queueMutations ::
  "io_env \<Rightarrow> bool \<Rightarrow> disk \<Rightarrow> encrypted_item list \<Rightarrow> string \<Rightarrow> disk \<times> (cache_error + mutation list)" where
  "queueMutations env nil d items fingerprint =
     (if nil then (d, Inl ErrInvalidCache)
      else if length items = 0 \<and> fingerprint = '''' then (d, Inr [])
      else case prepare_batch env 0 items of
             Inl e \<Rightarrow> (d, Inl e)
           | Inr prepared \<Rightarrow> locked_update env (queue_batch_op prepared fingerprint) d)"

definition QueueMutations ::
  "io_env \<Rightarrow> bool \<Rightarrow> disk \<Rightarrow> encrypted_item list \<Rightarrow> disk \<times> (cache_error + mutation list)" where
  "QueueMutations env nil d items = queueMutations env nil d items ''''"

definition QueuePortableBackupMutations ::
  "io_env \<Rightarrow> bool \<Rightarrow> disk \<Rightarrow> encrypted_item list \<Rightarrow> string \<Rightarrow> disk \<times> (cache_error + mutation list)" where
  "QueuePortableBackupMutations env nil d items fingerprint =
     (if fingerprint = '''' then QueueMutations env nil d items
      else queueMutations env nil d items fingerprint)"

section \<open>Views\<close>

record item_head =
  hItemID :: string
  hRevisions :: "encrypted_item list"

definition all_heads :: "item_revisions \<Rightarrow> item_head list" where
  "all_heads g =
     map (\<lambda>i. \<lparr>hItemID = i, hRevisions = revisionHeads (revisionsAt g i)\<rparr>)
       (filter (\<lambda>i. length (revisionHeads (revisionsAt g i)) \<noteq> 0) (sorted_list_of_fset (fmdom g)))"

definition allItemHeads :: "io_env \<Rightarrow> disk \<Rightarrow> cache_error + item_head list" where
  "allItemHeads env d = (case locked_read env d of Inl e \<Rightarrow> Inl e | Inr data \<Rightarrow> Inr (all_heads (graph data)))"

definition is_active :: "item_head \<Rightarrow> bool" where
  "is_active grp = list_ex (\<lambda>r. \<not> deleted r) (hRevisions grp)"

text \<open>The Trash loop stops at the first live head; otherwise some head must still have content.\<close>

fun trash_flags :: "bool \<Rightarrow> bool \<Rightarrow> encrypted_item list \<Rightarrow> bool \<times> bool" where
  "trash_flags del rec [] = (del, rec)"
| "trash_flags del rec (r # rs) =
     (if \<not> deleted r then (False, rec)
      else trash_flags del (if \<not> purged r then True else rec) rs)"

definition is_trash :: "item_head \<Rightarrow> bool" where
  "is_trash grp = (case trash_flags True False (hRevisions grp) of (del, rec) \<Rightarrow> del \<and> rec)"

definition ItemHeads :: "io_env \<Rightarrow> disk \<Rightarrow> cache_error + item_head list" where
  "ItemHeads env d = (case allItemHeads env d of Inl e \<Rightarrow> Inl e | Inr groups \<Rightarrow> Inr (filter is_active groups))"

definition TrashHeads :: "io_env \<Rightarrow> disk \<Rightarrow> cache_error + item_head list" where
  "TrashHeads env d = (case allItemHeads env d of Inl e \<Rightarrow> Inl e | Inr groups \<Rightarrow> Inr (filter is_trash groups))"

definition Items :: "io_env \<Rightarrow> disk \<Rightarrow> cache_error + encrypted_item list" where
  "Items env d = (case ItemHeads env d of Inl e \<Rightarrow> Inl e | Inr groups \<Rightarrow> Inr (concat (map hRevisions groups)))"

definition PendingMutations :: "io_env \<Rightarrow> disk \<Rightarrow> cache_error + mutation list" where
  "PendingMutations env d =
     (case locked_read env d of Inl e \<Rightarrow> Inl e | Inr data \<Rightarrow> Inr (map cloneMutation (cMutations data)))"

record sync_snapshot =
  snapCursor :: string
  snapMutations :: "mutation list"

definition SyncSnapshot :: "io_env \<Rightarrow> disk \<Rightarrow> cache_error + sync_snapshot" where
  "SyncSnapshot env d =
     (case locked_read env d of
        Inl e \<Rightarrow> Inl e
      | Inr data \<Rightarrow> Inr \<lparr>snapCursor = cCursor data, snapMutations = map cloneMutation (cMutations data)\<rparr>)"

lemma trash_flags_iff:
  "trash_flags True rec rs = (del', rec') \<Longrightarrow>
     del' = (\<forall>r \<in> set rs. deleted r) \<and>
     (del' \<longrightarrow> rec' = (rec \<or> (\<exists>r \<in> set rs. \<not> purged r)))"
  by (induction rs arbitrary: rec) (auto split: if_splits)

lemma is_trash_iff:
  "is_trash grp \<longleftrightarrow>
     (\<forall>r \<in> set (hRevisions grp). deleted r) \<and> (\<exists>r \<in> set (hRevisions grp). \<not> purged r)"
proof -
  obtain del rec where "trash_flags True False (hRevisions grp) = (del, rec)" by fastforce
  from trash_flags_iff[OF this] this show ?thesis by (auto simp: is_trash_def)
qed

lemma is_active_iff: "is_active grp \<longleftrightarrow> (\<exists>r \<in> set (hRevisions grp). \<not> deleted r)"
  by (simp add: is_active_def list_ex_iff)

lemma all_heads_iff:
  "grp \<in> set (all_heads g) \<longleftrightarrow>
     hItemID grp |\<in>| fmdom g \<and> hRevisions grp = revisionHeads (revisionsAt g (hItemID grp)) \<and>
     hRevisions grp \<noteq> []"
  by (cases grp) (auto simp: all_heads_def)

lemma all_heads_ids_sorted: "sorted (map hItemID (all_heads g)) \<and> distinct (map hItemID (all_heads g))"
  by (simp add: all_heads_def comp_def sorted_list_of_fset.rep_eq sorted_wrt_filter)

section \<open>Portable backups\<close>

record portable_backup =
  pbAccountID :: string
  pbEmail :: string
  pbPasswordVaultEnvelope :: bytes
  pbRevisions :: "item_revisions option"
  pbMutations :: "mutation list"
  pbCursor :: string
  pbFormatVersion :: int
  pbItems :: "native_item list option"
  pbFingerprint :: string

definition backup_graph :: "portable_backup \<Rightarrow> item_revisions" where
  "backup_graph backup = (case pbRevisions backup of None \<Rightarrow> fmempty | Some g \<Rightarrow> g)"

definition IsEmpty :: "io_env \<Rightarrow> bool \<Rightarrow> disk \<Rightarrow> cache_error + bool" where
  "IsEmpty env nil d =
     (if nil then Inl ErrInvalidCache
      else case locked_read env d of
             Inl e \<Rightarrow> Inl e
           | Inr data \<Rightarrow> Inr (fmdom (graph data) = {||} \<and> length (cMutations data) = 0 \<and> cCursor data = ''''))"

fun same_mutations :: "mutation list \<Rightarrow> mutation list \<Rightarrow> bool" where
  "same_mutations cached [] = True"
| "same_mutations [] (m # ms) = False"
| "same_mutations (c # cs) (m # ms) =
     (if mutationID c \<noteq> mutationID m \<or> baseRevision c \<noteq> baseRevision m \<or>
         \<not> sameEncryptedItem (mutItem c) (mutItem m) then False
      else same_mutations cs ms)"

definition inner_values :: "revisions option \<Rightarrow> revisions" where
  "inner_values values = (case values of None \<Rightarrow> fmempty | Some m \<Rightarrow> m)"

definition same_graph :: "item_revisions \<Rightarrow> item_revisions \<Rightarrow> bool" where
  "same_graph cached backup =
     (size (fmdom cached) = size (fmdom backup) \<and>
      list_all (\<lambda>(i, values).
        size (fmdom (revisionsAt cached i)) = size (fmdom (inner_values values)) \<and>
        list_all (\<lambda>(r, item).
          case fmlookup (revisionsAt cached i) r of
            None \<Rightarrow> False
          | Some cachedItem \<Rightarrow> sameEncryptedItem cachedItem item) (sorted_list_of_fmap (inner_values values)))
        (sorted_list_of_fmap backup))"

definition PortableStateMatches :: "io_env \<Rightarrow> bool \<Rightarrow> disk \<Rightarrow> portable_backup \<Rightarrow> cache_error + bool" where
  "PortableStateMatches env nil d backup =
     (if nil then Inl ErrInvalidCache
      else case locked_read env d of
             Inl e \<Rightarrow> Inl e
           | Inr data \<Rightarrow>
               if cAccountID data \<noteq> pbAccountID backup then Inr False
               else if \<not> same_graph (graph data) (backup_graph backup) then Inr False
               else if pbFingerprint backup \<noteq> '''' \<and>
                       (fmdom (graph data) \<noteq> {||} \<or> length (cMutations data) \<noteq> 0 \<or> cCursor data \<noteq> '''') \<and>
                       containsRestoredBackup (cRestoredBackups data) (pbFingerprint backup) then Inr True
               else if cCursor data \<noteq> pbCursor backup \<or>
                       length (cMutations data) \<noteq> length (pbMutations backup) then Inr False
               else Inr (same_mutations (cMutations data) (pbMutations backup)))"

definition PortableRestoreMarker :: "io_env \<Rightarrow> bool \<Rightarrow> disk \<Rightarrow> portable_backup \<Rightarrow> cache_error + bool" where
  "PortableRestoreMarker env nil d backup =
     (if nil then Inl ErrInvalidCache
      else if pbAccountID backup = '''' \<or> pbFingerprint backup = '''' then Inr False
      else case locked_read env d of
             Inl e \<Rightarrow> Inl e
           | Inr data \<Rightarrow> Inr (cAccountID data = pbAccountID backup \<and>
                         containsRestoredBackup (cRestoredBackups data) (pbFingerprint backup)))"

definition restore_op :: "portable_backup \<Rightarrow> cache_file \<Rightarrow> cache_error + (cache_file option \<times> unit)" where
  "restore_op backup data =
     (if cAccountID data \<noteq> pbAccountID backup then Inl ErrBackupAccountMismatch
      else if fmdom (graph data) \<noteq> {||} \<or> length (cMutations data) \<noteq> 0 \<or> cCursor data \<noteq> ''''
      then Inl ErrCacheNotEmpty
      else let replacement = \<lparr>cVersion = cacheFormatVersion, cAccountID = cAccountID data,
                 cEmail = cEmail data, cPasswordVaultEnvelope = [] @ cPasswordVaultEnvelope data,
                 cItems = fmempty, cRevisions = Some (cloneEncryptedRevisions (backup_graph backup)),
                 cMutations = cloneMutations (pbMutations backup), cCursor = pbCursor backup,
                 cRestoredBackups = [] @ cRestoredBackups data\<rparr>;
               replacement = (if pbFingerprint backup \<noteq> '''' \<and>
                    \<not> containsRestoredBackup (cRestoredBackups replacement) (pbFingerprint backup)
                  then replacement\<lparr>cRestoredBackups := cRestoredBackups replacement @ [pbFingerprint backup]\<rparr>
                  else replacement)
           in if \<not> validateCacheData replacement then Inl ErrInvalidPortableBackup
              else Inr (Some replacement, ()))"

definition RestorePortableState ::
  "io_env \<Rightarrow> bool \<Rightarrow> disk \<Rightarrow> portable_backup \<Rightarrow> disk \<times> (cache_error + unit)" where
  "RestorePortableState env nil d backup =
     (if nil then (d, Inl ErrInvalidCache)
      else if pbAccountID backup = '''' \<or> pbRevisions backup = None then (d, Inl ErrInvalidPortableBackup)
      else locked_update env (restore_op backup) d)"

section \<open>Applying a synchronization result\<close>

record sync_result =
  srCursor :: string
  srFullSnapshot :: bool
  srAppliedMutationIDs :: "uuid list"
  srChanges :: "encrypted_item list"

definition valid_change :: "encrypted_item \<Rightarrow> bool" where
  "valid_change change \<longleftrightarrow>
     \<not> (itemID change = '''' \<or> schemaVersion change < 1 \<or> revision change < 1 \<or>
        revisionID change = '''' \<or> \<not> validEncryptedItemContent change) \<and>
     \<not> hasInvalidParentIDs (parentRevisionIDs change)"

text \<open>
  A tombstone keeps, beside itself, the live heads and the revisions still queued for its item;
  every other revision of the item is dropped.
\<close>

definition preserve_on_purge :: "encrypted_item \<Rightarrow> revisions \<Rightarrow> mutation list \<Rightarrow> revisions" where
  "preserve_on_purge change revs pending =
     fold (\<lambda>m acc. if itemID (mutItem m) = itemID change
                    then fmupd (revisionID (mutItem m)) (cloneEncryptedItem (mutItem m)) acc else acc)
       pending
       (fold (\<lambda>h acc. if \<not> deleted h then fmupd (revisionID h) (cloneEncryptedItem h) acc else acc)
         (revisionHeads revs)
         (fmupd (revisionID change) (cloneEncryptedItem change) fmempty))"

definition apply_change :: "cache_file \<Rightarrow> encrypted_item \<Rightarrow> cache_file option" where
  "apply_change data change =
     (let revs = revs_of data (itemID change)
      in case fmlookup revs (revisionID change) of
           Some current \<Rightarrow>
             if \<not> sameEncryptedItem current change then None
             else Some (put_graph (fmupd (itemID change)
                    (Some (if purged change then preserve_on_purge change revs (cMutations data)
                           else fmupd (revisionID change) (cloneEncryptedItem change) revs)) (graph data)) data)
         | None \<Rightarrow> Some (put_graph (fmupd (itemID change)
                    (Some (if purged change then preserve_on_purge change revs (cMutations data)
                           else fmupd (revisionID change) (cloneEncryptedItem change) revs)) (graph data)) data))"

fun apply_changes :: "cache_file \<Rightarrow> encrypted_item list \<Rightarrow> cache_file option" where
  "apply_changes data [] = Some data"
| "apply_changes data (c # cs) =
     (case apply_change data c of None \<Rightarrow> None | Some data \<Rightarrow> apply_changes data cs)"

definition drop_applied :: "uuid list \<Rightarrow> mutation list \<Rightarrow> mutation list" where
  "drop_applied applied ms = filter (\<lambda>m. mutationID m \<notin> set applied) ms"

definition rebase_snapshot :: "bool \<Rightarrow> cache_file \<Rightarrow> cache_file" where
  "rebase_snapshot full data =
     (if full then put_graph (fold (\<lambda>m g. addCachedRevision g (mutItem m)) (cMutations data) fmempty) data
      else data)"

definition apply_sync_op :: "sync_result \<Rightarrow> cache_file \<Rightarrow> cache_error + (cache_file option \<times> unit)" where
  "apply_sync_op result data =
     (let data = data\<lparr>cMutations := drop_applied (srAppliedMutationIDs result) (cMutations data)\<rparr>;
          data = rebase_snapshot (srFullSnapshot result) data
      in case apply_changes data (srChanges result) of
           None \<Rightarrow> Inl ErrInvalidItemEnvelope
         | Some data \<Rightarrow> Inr (Some (data\<lparr>cCursor := srCursor result\<rparr>), ()))"

definition ApplySyncResult :: "io_env \<Rightarrow> disk \<Rightarrow> sync_result \<Rightarrow> disk \<times> (cache_error + unit)" where
  "ApplySyncResult env d result =
     (if ParseUint (srCursor result) 63 = None then (d, Inl ErrInvalidCursor)
      else if list_ex (\<lambda>i. i = '''') (srAppliedMutationIDs result) then (d, Inl ErrInvalidAppliedMutation)
      else if list_ex (\<lambda>c. \<not> valid_change c) (srChanges result) then (d, Inl ErrInvalidItemEnvelope)
      else locked_update env (apply_sync_op result) d)"

definition ApplySync ::
  "io_env \<Rightarrow> disk \<Rightarrow> string \<Rightarrow> uuid list \<Rightarrow> encrypted_item list \<Rightarrow> disk \<times> (cache_error + unit)" where
  "ApplySync env d cursor applied changes =
     ApplySyncResult env d \<lparr>srCursor = cursor, srFullSnapshot = False,
       srAppliedMutationIDs = applied, srChanges = changes\<rparr>"

section \<open>Well-formed caches stay well-formed\<close>

text \<open>
  \<open>validateCacheData\<close> checks the schema version and the number of every stored revision
  but not those of a queued mutation. The operations that fill the queue do check them, so the
  queue of a cache the client built itself satisfies \<open>queue_wf\<close>.
\<close>

definition queue_wf :: "mutation list \<Rightarrow> bool" where
  "queue_wf ms \<longleftrightarrow> (\<forall>m \<in> set ms. validRevisionEntry (itemID (mutItem m)) (mutationID m) (mutItem m))"

definition cache_wf :: "cache_file \<Rightarrow> bool" where
  "cache_wf data \<longleftrightarrow> validateCacheData data \<and> queue_wf (cMutations data)"

lemma queue_wf_simps [simp]:
  "queue_wf []"
  "queue_wf (ms @ ns) \<longleftrightarrow> queue_wf ms \<and> queue_wf ns"
  "queue_wf (m # ms) \<longleftrightarrow>
     validRevisionEntry (itemID (mutItem m)) (mutationID m) (mutItem m) \<and> queue_wf ms"
  by (auto simp: queue_wf_def)

lemma cache_wf_stored_form [simp]: "cache_wf data \<Longrightarrow> cache_wf (stored_form data)"
  by (simp add: cache_wf_def validate_stored_form)

lemma cache_wfD:
  "cache_wf data \<Longrightarrow> valid_graph (graph data)"
  "cache_wf data \<Longrightarrow> validateCacheData data"
  by (simp_all add: cache_wf_def validateCacheData_iff)

lemma validRevisionEntry_iff:
  "validRevisionEntry i r item \<longleftrightarrow>
     r \<noteq> '''' \<and> revisionID item = r \<and> itemID item = i \<and> \<not> schemaVersion item < 1 \<and>
     revision item \<noteq> 0 \<and> validEncryptedItemContent item \<and> \<not> hasInvalidParentIDs (parentRevisionIDs item)"
  by (auto simp: validRevisionEntry_def)

lemma valid_change_entry: "valid_change c \<Longrightarrow> validRevisionEntry (itemID c) (revisionID c) c \<and> itemID c \<noteq> ''''"
  by (simp add: valid_change_def validRevisionEntry_iff)

lemma queue_one_wf:
  assumes q: "queue_one item base data = Inr (Some data', m)" and v: "cache_wf data"
    and item: "itemID item \<noteq> ''''" "\<not> schemaVersion item < 1" "revision item \<noteq> 0"
      "revision item = base + 1" "validEncryptedItemContent item" "revisionID item \<noteq> ''''"
  shows "cache_wf data'"
proof -
  have valid: "validateCacheData data'"
    using queue_one_valid[OF q cache_wfD(2)[OF v] item] .
  from q have m: "itemID (mutItem m) = itemID item" "revisionID (mutItem m) = mutationID m"
    by (elim queue_one_success; simp)+
  have "fmlookup (revs_of data' (itemID item)) (mutationID m) = Some (mutItem m)"
    using queue_one_graph[OF q, of "itemID item"] by simp
  from valid_graph_entry[OF _ this] valid m
  have "validRevisionEntry (itemID (mutItem m)) (mutationID m) (mutItem m)"
    by (simp add: validateCacheData_iff)
  with v valid queue_one_frame(1)[OF q] show ?thesis by (simp add: cache_wf_def)
qed

subsection \<open>Batches\<close>

definition batch_ok :: "encrypted_item list \<Rightarrow> bool" where
  "batch_ok items \<longleftrightarrow> (\<forall>item \<in> set items. itemID item \<noteq> '''' \<and> \<not> schemaVersion item < 1 \<and>
     revision item = 1 \<and> parentRevisionIDs item = [] \<and> validEncryptedItemContent item \<and>
     revisionID item \<noteq> '''')"

lemma NewItemID_some_nonempty [simp]: "NewItemID rnd \<noteq> Some []"
  using NewItemID_nonempty by blast

lemma prepare_batch_ok: "prepare_batch env n items = Inr prepared \<Longrightarrow> batch_ok prepared"
  by (induction items arbitrary: n prepared)
    (auto simp: batch_ok_def split: if_splits option.splits sum.splits)

lemma prepare_batch_id:
  "batch_ok items \<Longrightarrow> prepare_batch env n items = Inr items"
  by (induction items arbitrary: n) (auto simp: batch_ok_def)

lemma batch_step_wf:
  assumes "cache_wf data" "batch_ok (item # items)"
  shows "cache_wf (put_graph (addCachedRevision (graph data) item)
     (data\<lparr>cMutations := cMutations data @ [\<lparr>mutationID = revisionID item, baseRevision = 0, mutItem = item\<rparr>]\<rparr>))"
proof -
  from assms(2) have e: "validRevisionEntry (itemID item) (revisionID item) item" and i: "itemID item \<noteq> ''''"
    by (simp_all add: batch_ok_def validRevisionEntry_iff hasInvalidParentIDs_iff)
  from assms(2) have m: "validMutationEntry \<lparr>mutationID = revisionID item, baseRevision = 0, mutItem = item\<rparr>"
    by (simp add: batch_ok_def validMutationEntry_def hasInvalidParentIDs_iff)
  have "valid_graph (addCachedRevision (graph data) item)"
    unfolding addCachedRevision_def
    by (simp add: valid_graph_add[OF cache_wfD(1)[OF assms(1)] i e])
  with assms(1) m e show ?thesis by (auto simp: cache_wf_def validateCacheData_iff)
qed

lemma queue_batch_wf:
  "cache_wf data \<Longrightarrow> batch_ok items \<Longrightarrow> queue_batch items (data, queued) = Inr (data', queued') \<Longrightarrow>
   cache_wf data' \<and> cAccountID data' = cAccountID data \<and> cCursor data' = cCursor data \<and>
   (\<exists>new. queued' = queued @ new \<and> cMutations data' = cMutations data @ new)"
proof (induction items arbitrary: data queued)
  case Nil
  then show ?case by simp
next
  case (Cons item items)
  have ok: "batch_ok items" using Cons.prems(2) by (simp add: batch_ok_def)
  show ?case
  proof (cases "fmlookup (revs_of data (itemID item)) (revisionID item)")
    case None
    let ?m = "\<lparr>mutationID = revisionID item, baseRevision = 0, mutItem = item\<rparr>"
    let ?d = "put_graph (addCachedRevision (graph data) item) (data\<lparr>cMutations := cMutations data @ [?m]\<rparr>)"
    from None Cons.prems(3) have "queue_batch items (?d, queued @ [?m]) = Inr (data', queued')"
      by (simp add: Let_def split: if_splits)
    from Cons.IH[OF batch_step_wf[OF Cons.prems(1,2)] ok this] show ?thesis by auto
  next
    case (Some existing)
    with Cons.prems(3) have "queue_batch items (data, queued) = Inr (data', queued')"
      by (simp add: Let_def split: if_splits)
    from Cons.IH[OF Cons.prems(1) ok this] show ?thesis .
  qed
qed

text \<open>A batch that is in the graph already queues nothing and changes nothing.\<close>

definition batch_present :: "cache_file \<Rightarrow> encrypted_item list \<Rightarrow> bool" where
  "batch_present data items \<longleftrightarrow> (\<forall>item \<in> set items. \<exists>x.
     fmlookup (revs_of data (itemID item)) (revisionID item) = Some x \<and> sameEncryptedItem x item)"

lemma queue_batch_repeat:
  "batch_present data items \<Longrightarrow> queue_batch items (data, queued) = Inr (data, queued)"
proof (induction items)
  case (Cons item items)
  then obtain x where "fmlookup (revs_of data (itemID item)) (revisionID item) = Some x"
    "sameEncryptedItem x item" by (auto simp: batch_present_def)
  moreover have "batch_present data items" using Cons.prems by (simp add: batch_present_def)
  ultimately show ?case using Cons.IH by (simp add: Let_def)
qed simp

lemma queue_batch_keeps:
  "queue_batch items (data, queued) = Inr (data', queued') \<Longrightarrow>
   fmlookup (revs_of data i) r = Some x \<Longrightarrow> fmlookup (revs_of data' i) r = Some x"
proof (induction items arbitrary: data queued)
  case Nil
  then show ?case by simp
next
  case (Cons item items)
  show ?case
  proof (cases "fmlookup (revs_of data (itemID item)) (revisionID item)")
    case None
    let ?m = "\<lparr>mutationID = revisionID item, baseRevision = 0, mutItem = item\<rparr>"
    let ?d = "put_graph (addCachedRevision (graph data) item) (data\<lparr>cMutations := cMutations data @ [?m]\<rparr>)"
    from None Cons.prems(1) have q: "queue_batch items (?d, queued @ [?m]) = Inr (data', queued')"
      by (simp add: Let_def split: if_splits)
    have "fmlookup (revs_of ?d i) r = Some x"
      using Cons.prems(2) None by (auto simp: Let_def)
    from Cons.IH[OF q this] show ?thesis .
  next
    case (Some existing)
    with Cons.prems(1) have "queue_batch items (data, queued) = Inr (data', queued')"
      by (simp add: Let_def split: if_splits)
    from Cons.IH[OF this Cons.prems(2)] show ?thesis .
  qed
qed

lemma queue_batch_present:
  "queue_batch items (data, queued) = Inr (data', queued') \<Longrightarrow> batch_present data' items"
proof (induction items arbitrary: data queued)
  case Nil
  then show ?case by (simp add: batch_present_def)
next
  case (Cons item items)
  have "\<exists>x. fmlookup (revs_of data' (itemID item)) (revisionID item) = Some x \<and> sameEncryptedItem x item \<and>
     batch_present data' items"
  proof (cases "fmlookup (revs_of data (itemID item)) (revisionID item)")
    case None
    let ?m = "\<lparr>mutationID = revisionID item, baseRevision = 0, mutItem = item\<rparr>"
    let ?d = "put_graph (addCachedRevision (graph data) item) (data\<lparr>cMutations := cMutations data @ [?m]\<rparr>)"
    from None Cons.prems have q: "queue_batch items (?d, queued @ [?m]) = Inr (data', queued')"
      by (simp add: Let_def split: if_splits)
    have "fmlookup (revs_of ?d (itemID item)) (revisionID item) = Some item" by simp
    from queue_batch_keeps[OF q this] Cons.IH[OF q] show ?thesis by auto
  next
    case (Some existing)
    with Cons.prems have q: "queue_batch items (data, queued) = Inr (data', queued')"
      and "sameEncryptedItem existing item" by (auto simp: Let_def split: if_splits)
    with queue_batch_keeps[OF q Some] Cons.IH[OF q] show ?thesis by auto
  qed
  then show ?case by (auto simp: batch_present_def)
qed

end
