(* ===== verification/CacheProps.thy ===== *)
theory CacheProps
  imports CacheSync
begin

text \<open>
  What the client cache promises: no operation, interrupted or not, leaves an unreadable file, up to
  the size limit of the reader; a synchronization never loses a queued edit and scrubs what a Tombstone covers; a restored backup
  and a repeated import are recognised; every item is in exactly one of the three views.
\<close>

section \<open>Lookups in a fold of updates\<close>

lemma fold_fmupd_origin:
  "fmlookup (fold (\<lambda>x acc. if P x then fmupd (k x) (f x) acc else acc) xs m) r = Some v \<Longrightarrow>
   fmlookup m r = Some v \<or> (\<exists>x \<in> set xs. P x \<and> k x = r \<and> v = f x)"
proof (induction xs arbitrary: m)
  case (Cons x xs)
  show ?case
  proof (cases "P x")
    case True
    with Cons.prems have "fmlookup (fold (\<lambda>x acc. if P x then fmupd (k x) (f x) acc else acc) xs
      (fmupd (k x) (f x) m)) r = Some v" by simp
    from Cons.IH[OF this] True show ?thesis by (auto split: if_splits)
  next
    case False
    with Cons show ?thesis by auto
  qed
qed simp

lemma fold_fmupd_dom:
  "fmlookup (fold (\<lambda>x acc. if P x then fmupd (k x) (f x) acc else acc) xs m) r \<noteq> None \<longleftrightarrow>
   fmlookup m r \<noteq> None \<or> (\<exists>x \<in> set xs. P x \<and> k x = r)"
  by (induction xs arbitrary: m) auto

lemma fold_fmupd_last:
  "distinct (map k (filter P xs)) \<Longrightarrow> x \<in> set xs \<Longrightarrow> P x \<Longrightarrow>
   fmlookup (fold (\<lambda>x acc. if P x then fmupd (k x) (f x) acc else acc) xs m) (k x) = Some (f x)"
proof (induction xs arbitrary: m)
  case (Cons y ys)
  show ?case
  proof (cases "x \<in> set ys")
    case True
    with Cons show ?thesis by (auto split: if_splits)
  next
    case False
    with Cons.prems have y: "y = x" "\<forall>z \<in> set ys. P z \<longrightarrow> k z \<noteq> k x"
      by (auto simp: image_iff split: if_splits)
    let ?g = "\<lambda>x acc. if P x then fmupd (k x) (f x) acc else acc"
    have dom: "fmlookup (fold ?g ys (fmupd (k x) (f x) m)) (k x) \<noteq> None"
      unfolding fold_fmupd_dom by simp
    then obtain v where v: "fmlookup (fold ?g ys (fmupd (k x) (f x) m)) (k x) = Some v" by blast
    from fold_fmupd_origin[OF v] y have "v = f x" by auto
    with v y Cons.prems(3) show ?thesis by simp
  qed
qed simp

section \<open>One change\<close>

lemma preserve_on_purge_origin:
  assumes "fmlookup (preserve_on_purge c revs pending) r = Some v"
  shows "v = c \<and> r = revisionID c \<or>
    v \<in> set (revisionHeads revs) \<and> \<not> deleted v \<and> r = revisionID v \<or>
    (\<exists>m \<in> set pending. itemID (mutItem m) = itemID c \<and> v = mutItem m \<and> r = revisionID v)"
proof -
  from fold_fmupd_origin[OF assms[unfolded preserve_on_purge_def]] show ?thesis
  proof
    assume "\<exists>m \<in> set pending. itemID (mutItem m) = itemID c \<and> revisionID (mutItem m) = r \<and>
      v = cloneEncryptedItem (mutItem m)"
    then show ?thesis by auto
  next
    assume "fmlookup (fold (\<lambda>h acc. if \<not> deleted h then fmupd (revisionID h) (cloneEncryptedItem h) acc else acc)
       (revisionHeads revs) (fmupd (revisionID c) (cloneEncryptedItem c) fmempty)) r = Some v"
    from fold_fmupd_origin[OF this] show ?thesis by (auto split: if_splits)
  qed
qed

lemma preserve_on_purge_dom:
  "fmlookup (preserve_on_purge c revs pending) r \<noteq> None \<longleftrightarrow>
     r = revisionID c \<or> (\<exists>h \<in> set (revisionHeads revs). \<not> deleted h \<and> revisionID h = r) \<or>
     (\<exists>m \<in> set pending. itemID (mutItem m) = itemID c \<and> revisionID (mutItem m) = r)"
  unfolding preserve_on_purge_def fold_fmupd_dom by auto

lemma apply_change_result:
  assumes "apply_change data c = Some data'"
  shows "data' = put_graph (fmupd (itemID c)
      (Some (if purged c then preserve_on_purge c (revs_of data (itemID c)) (cMutations data)
             else fmupd (revisionID c) c (revs_of data (itemID c)))) (graph data)) data"
    and "\<And>x. fmlookup (revs_of data (itemID c)) (revisionID c) = Some x \<Longrightarrow> sameEncryptedItem x c"
  using assms by (auto simp: apply_change_def Let_def split: option.splits if_splits)

lemma apply_change_frame:
  assumes "apply_change data c = Some data'"
  shows "cMutations data' = cMutations data" "cCursor data' = cCursor data"
    "cAccountID data' = cAccountID data" "cEmail data' = cEmail data"
    "cPasswordVaultEnvelope data' = cPasswordVaultEnvelope data"
    "cRestoredBackups data' = cRestoredBackups data"
  by (simp_all add: apply_change_result(1)[OF assms])

lemma apply_change_wf:
  assumes a: "apply_change data c = Some data'" and v: "valid_change c" and wf: "cache_wf data"
  shows "cache_wf data'"
proof -
  from valid_change_entry[OF v] have e: "validRevisionEntry (itemID c) (revisionID c) c"
    and i: "itemID c \<noteq> ''''" by simp_all
  note g = cache_wfD(1)[OF wf]
  let ?revs = "revs_of data (itemID c)"
  have entries: "validRevisionEntry (itemID c) r x"
    if "fmlookup (if purged c then preserve_on_purge c ?revs (cMutations data)
                  else fmupd (revisionID c) c ?revs) r = Some x" for r x
  proof (cases "purged c")
    case False
    with that e show ?thesis by (auto dest: valid_graph_entry[OF g] split: if_splits)
  next
    case True
    with that have l: "fmlookup (preserve_on_purge c ?revs (cMutations data)) r = Some x" by simp
    from preserve_on_purge_origin[OF l] show ?thesis
    proof (elim disjE)
      assume "x = c \<and> r = revisionID c"
      with e show ?thesis by simp
    next
      assume h: "x \<in> set (revisionHeads ?revs) \<and> \<not> deleted x \<and> r = revisionID x"
      then obtain k where k: "fmlookup ?revs k = Some x" by (auto simp: revisionHeads_iff)
      with keyedD[OF valid_graph_keyed[OF g] k] h have "k = r" by simp
      with valid_graph_entry[OF g k] show ?thesis by simp
    next
      assume "\<exists>m\<in>set (cMutations data). itemID (mutItem m) = itemID c \<and> x = mutItem m \<and> r = revisionID x"
      then obtain m where "m \<in> set (cMutations data)" "itemID (mutItem m) = itemID c"
        "x = mutItem m" "r = revisionID x" by blast
      with wf show ?thesis by (auto simp: cache_wf_def queue_wf_def validRevisionEntry_iff)
    qed
  qed
  have "valid_graph (graph data')"
    unfolding apply_change_result(1)[OF a] graph_put
    by (rule valid_graph_upd[OF g i]) (rule entries)
  with wf show ?thesis
    by (simp add: cache_wf_def validateCacheData_iff apply_change_result(1)[OF a])
qed

lemma apply_changes_wf:
  "apply_changes data cs = Some data' \<Longrightarrow> \<forall>c \<in> set cs. valid_change c \<Longrightarrow> cache_wf data \<Longrightarrow>
   cache_wf data' \<and> cMutations data' = cMutations data \<and> cAccountID data' = cAccountID data"
proof (induction cs arbitrary: data)
  case (Cons c cs)
  then obtain mid where m: "apply_change data c = Some mid" "apply_changes mid cs = Some data'"
    by (auto split: option.splits)
  from Cons.prems(2) have "valid_change c" "\<forall>c \<in> set cs. valid_change c" by simp_all
  with Cons.IH[OF m(2)] apply_change_wf[OF m(1)] Cons.prems(3) show ?case
    by (simp add: apply_change_frame[OF m(1)])
qed simp

lemma rebase_snapshot_frame [simp]:
  "cMutations (rebase_snapshot full data) = cMutations data"
  "cAccountID (rebase_snapshot full data) = cAccountID data"
  "cEmail (rebase_snapshot full data) = cEmail data"
  "cPasswordVaultEnvelope (rebase_snapshot full data) = cPasswordVaultEnvelope data"
  "cRestoredBackups (rebase_snapshot full data) = cRestoredBackups data"
  by (simp_all add: rebase_snapshot_def)

lemma fold_addCachedRevision_valid:
  "valid_graph g \<Longrightarrow> queue_wf ms \<Longrightarrow> \<forall>m \<in> set ms. itemID (mutItem m) \<noteq> '''' \<Longrightarrow>
   valid_graph (fold (\<lambda>m g. addCachedRevision g (mutItem m)) ms g)"
proof (induction ms arbitrary: g)
  case (Cons m ms)
  have "valid_graph (addCachedRevision g (mutItem m))"
    unfolding addCachedRevision_def
    by (simp, rule valid_graph_add) (use Cons.prems in \<open>auto simp: validRevisionEntry_iff\<close>)
  with Cons show ?case by simp
qed simp

lemma rebase_snapshot_wf:
  assumes "cache_wf data" shows "cache_wf (rebase_snapshot full data)"
proof (cases full)
  case True
  from assms have ids: "\<forall>m \<in> set (cMutations data). itemID (mutItem m) \<noteq> ''''"
    by (auto simp: cache_wf_def validateCacheData_iff validMutationEntry_def)
  from assms True fold_addCachedRevision_valid[OF valid_graph_empty _ ids] show ?thesis
    by (simp add: cache_wf_def validateCacheData_iff rebase_snapshot_def)
next
  case False
  with assms show ?thesis by (simp add: rebase_snapshot_def)
qed

lemma drop_applied_wf:
  "cache_wf data \<Longrightarrow> cache_wf (data\<lparr>cMutations := drop_applied ids (cMutations data)\<rparr>)"
  by (auto simp: cache_wf_def validateCacheData_iff queue_wf_def drop_applied_def)

lemma apply_sync_op_parts:
  assumes "apply_sync_op result data = Inr (o', u)"
  obtains data' where
    "apply_changes (rebase_snapshot (srFullSnapshot result)
       (data\<lparr>cMutations := drop_applied (srAppliedMutationIDs result) (cMutations data)\<rparr>))
       (srChanges result) = Some data'"
    "o' = Some (data'\<lparr>cCursor := srCursor result\<rparr>)"
  using assms by (auto simp: apply_sync_op_def Let_def split: option.splits)

lemma cache_wf_cursor [simp]: "cache_wf (data\<lparr>cCursor := c\<rparr>) \<longleftrightarrow> cache_wf data"
  by (simp add: cache_wf_def validateCacheData_iff)

lemma apply_sync_op_wf:
  assumes "apply_sync_op result data = Inr (Some data', u)"
    and "\<forall>c \<in> set (srChanges result). valid_change c" "cache_wf data"
  shows "cache_wf data'" "cAccountID data' = cAccountID data"
    "cMutations data' = drop_applied (srAppliedMutationIDs result) (cMutations data)"
    "cCursor data' = srCursor result"
proof -
  from assms(1) obtain d1 where
    d1: "apply_changes (rebase_snapshot (srFullSnapshot result)
       (data\<lparr>cMutations := drop_applied (srAppliedMutationIDs result) (cMutations data)\<rparr>))
       (srChanges result) = Some d1" and d': "data' = d1\<lparr>cCursor := srCursor result\<rparr>"
    by (elim apply_sync_op_parts) simp
  from apply_changes_wf[OF d1 assms(2) rebase_snapshot_wf[OF drop_applied_wf[OF assms(3)]]]
  show "cache_wf data'" "cAccountID data' = cAccountID data"
    "cMutations data' = drop_applied (srAppliedMutationIDs result) (cMutations data)"
    "cCursor data' = srCursor result"
    by (simp_all add: d')
qed

section \<open>Every run of the client keeps the cache readable\<close>

text \<open>
  One step is one call of an updating operation, with any argument, any failing system call and
  any result; \<open>md5\<close> is the one digest function of the program. A restored backup is one
  whose queue a client wrote. \<open>client_step\<close> is a step after which the file is one the reader
  accepts the size of; \<open>client_call\<close>, below, is without that restriction.
\<close>

inductive client_step :: "(string \<Rightarrow> bytes) \<Rightarrow> disk \<Rightarrow> disk \<Rightarrow> bool" for md5 where
  authorize: "AuthorizeCache canonicalEmail env d email acc vault = (d', r) \<Longrightarrow> md5sum env = md5 \<Longrightarrow>
    (\<And>e. canonicalEmail email = Some e \<Longrightarrow> e \<noteq> []) \<Longrightarrow> small_file d' \<Longrightarrow> client_step md5 d d'"
| queue: "QueueMutation env d item base = (d', r) \<Longrightarrow> md5sum env = md5 \<Longrightarrow> small_file d' \<Longrightarrow>
    client_step md5 d d'"
| batch: "queueMutations env nil d items fingerprint = (d', r) \<Longrightarrow> md5sum env = md5 \<Longrightarrow> small_file d' \<Longrightarrow>
    client_step md5 d d'"
| restore: "RestorePortableState env nil d backup = (d', r) \<Longrightarrow> md5sum env = md5 \<Longrightarrow>
    queue_wf (pbMutations backup) \<Longrightarrow> small_file d' \<Longrightarrow> client_step md5 d d'"
| sync: "ApplySyncResult env d result = (d', r) \<Longrightarrow> md5sum env = md5 \<Longrightarrow> small_file d' \<Longrightarrow>
    client_step md5 d d'"

inductive client_run :: "(string \<Rightarrow> bytes) \<Rightarrow> disk \<Rightarrow> bool" for md5 where
  absent: "client_run md5 None"
| step: "client_run md5 d \<Longrightarrow> client_step md5 d d' \<Longrightarrow> client_run md5 d'"

definition healthy :: "(string \<Rightarrow> bytes) \<Rightarrow> disk \<Rightarrow> bool" where
  "healthy md5 d \<longleftrightarrow> d = None \<or>
     (\<exists>data. cache_wf data \<and> (\<forall>env. md5sum env = md5 \<longrightarrow> readCacheFile env d = Inr data))"

lemma readCacheFile_cong:
  assumes "md5sum env = md5sum env'"
  shows "readCacheFile env d = readCacheFile env' d"
  unfolding readCacheFile_def assms by (rule refl)

lemma readCacheFile_None [simp]: "readCacheFile env None = Inl ErrCacheNotFound"
  by (simp add: readCacheFile_def)

lemma healthyI:
  "readCacheFile env d = Inr data \<Longrightarrow> cache_wf data \<Longrightarrow> md5sum env = md5 \<Longrightarrow> healthy md5 d"
  unfolding healthy_def using readCacheFile_cong by metis

lemma healthyD:
  "healthy md5 d \<Longrightarrow> readCacheFile env d = Inr data \<Longrightarrow> md5sum env = md5 \<Longrightarrow> cache_wf data"
  by (auto simp: healthy_def)

lemma healthy_cases:
  assumes "healthy md5 d" "md5sum env = md5"
  obtains "d = None" | data where "readCacheFile env d = Inr data" "cache_wf data"
  using assms by (auto simp: healthy_def)

lemma locked_update_healthy:
  assumes h: "healthy md5 d" and u: "locked_update env f d = (d', res)" and m: "md5sum env = md5"
    and s: "small_file d'"
    and keeps: "\<And>data data' r. cache_wf data \<Longrightarrow> f data = Inr (Some data', r) \<Longrightarrow> cache_wf data'"
  shows "healthy md5 d'"
  using h m
proof (cases rule: healthy_cases)
  case 1
  with u have "d' = d" by (auto simp: locked_update_def transact_def split: if_splits)
  with h show ?thesis by simp
next
  case (2 data)
  from locked_update_old_or_new[OF 2(1) u s] keeps[OF 2(2)]
  have "d' = d \<or> (\<exists>data' r. f data = Inr (Some data', r) \<and> readCacheFile env d' = Inr (stored_form data'))"
    by (auto dest: cache_wfD)
  then show ?thesis
  proof
    assume "d' = d" with h show ?thesis by simp
  next
    assume "\<exists>data' r. f data = Inr (Some data', r) \<and> readCacheFile env d' = Inr (stored_form data')"
    then obtain data' r where d': "f data = Inr (Some data', r)" "readCacheFile env d' = Inr (stored_form data')"
      by blast
    from healthyI[OF d'(2) cache_wf_stored_form[OF keeps[OF 2(2) d'(1)]] m] show ?thesis .
  qed
qed

lemma writeCacheFile_healthy:
  assumes h: "healthy md5 d" and w: "writeCacheFile env d data = (d', r)" and "cache_wf data"
    "md5sum env = md5" "small_file d'"
  shows "healthy md5 d'"
proof -
  from w have "d' = d \<or> readCacheFile env d' = Inr (stored_form data)"
    using cache.wr_ok[of env d data d'] cache.wr_atomic[of env d data d'] assms
    by (cases r) (auto dest: cache_wfD)
  then show ?thesis
    using h healthyI[OF _ cache_wf_stored_form[OF assms(3)] assms(4)] by blast
qed

lemma QueueMutation_healthy:
  assumes "healthy md5 d" "QueueMutation env d item base = (d', r)" "md5sum env = md5" "small_file d'"
  shows "healthy md5 d'"
proof -
  consider "d' = d" | rid where "rid \<noteq> []" "itemID item \<noteq> []" "\<not> schemaVersion item < 1" "revision item \<noteq> 0"
      "revision item = base + 1" "validEncryptedItemContent item"
      "locked_update env (queue_one (item\<lparr>revisionID := rid\<rparr>) base) d = (d', r)"
    using assms(2) by (fastforce simp: QueueMutation_def dest: NewItemID_nonempty split: if_splits option.splits)
  then show ?thesis
  proof cases
    case 1 with assms show ?thesis by simp
  next
    case 2
    have "cache_wf data'" if "cache_wf data" "queue_one (item\<lparr>revisionID := rid\<rparr>) base data = Inr (Some data', m)"
      for data data' m
      by (rule queue_one_wf[OF that(2,1)]) (use 2 in simp_all)
    with locked_update_healthy[OF assms(1) 2(7) assms(3,4)] show ?thesis by blast
  qed
qed

lemma queue_batch_op_wf:
  assumes "cache_wf data" "batch_ok items" "queue_batch_op items fp data = Inr (Some data', r)"
  shows "cache_wf data'"
proof -
  from assms(3) obtain d1 q where q: "queue_batch items (data, []) = Inr (d1, q)"
    and d': "data' = d1 \<or> data' = d1\<lparr>cRestoredBackups := cRestoredBackups d1 @ [fp]\<rparr> \<and> fp \<noteq> []"
    by (auto simp: queue_batch_op_def Let_def split: sum.splits prod.splits if_splits)
  from queue_batch_wf[OF assms(1,2) q] have "cache_wf d1" by simp
  with d' show ?thesis by (auto simp: cache_wf_def validateCacheData_iff)
qed

lemma queueMutations_healthy:
  assumes "healthy md5 d" "queueMutations env nil d items fp = (d', r)" "md5sum env = md5" "small_file d'"
  shows "healthy md5 d'"
proof -
  consider "d' = d" | prepared where "prepare_batch env 0 items = Inr prepared"
      "locked_update env (queue_batch_op prepared fp) d = (d', r)"
    using assms(2) by (auto simp: queueMutations_def split: if_splits sum.splits)
  then show ?thesis
  proof cases
    case 1 with assms show ?thesis by simp
  next
    case 2
    show ?thesis
      by (rule locked_update_healthy[OF assms(1) 2(2) assms(3,4)])
        (rule queue_batch_op_wf[OF _ prepare_batch_ok[OF 2(1)]])
  qed
qed

lemma restore_op_wf:
  assumes "queue_wf (pbMutations backup)" "restore_op backup data = Inr (Some data', r)"
  shows "cache_wf data'"
  using assms by (auto simp: restore_op_def cache_wf_def Let_def split: if_splits)

lemma ApplySyncResult_healthy:
  assumes "healthy md5 d" "ApplySyncResult env d result = (d', r)" "md5sum env = md5" "small_file d'"
  shows "healthy md5 d'"
proof -
  consider "d' = d" | "\<forall>c \<in> set (srChanges result). valid_change c"
      "locked_update env (apply_sync_op result) d = (d', r)"
    using assms(2) by (auto simp: ApplySyncResult_def list_ex_iff split: if_splits)
  then show ?thesis
  proof cases
    case 1 with assms show ?thesis by simp
  next
    case 2
    show ?thesis
      by (rule locked_update_healthy[OF assms(1) 2(2) assms(3,4)]) (rule apply_sync_op_wf(1)[OF _ 2(1)])
  qed
qed

lemma AuthorizeCache_healthy:
  assumes h: "healthy md5 d" and a: "AuthorizeCache canonicalEmail env d email acc vault = (d', r)"
    and m: "md5sum env = md5" and e: "\<And>x. canonicalEmail email = Some x \<Longrightarrow> x \<noteq> []" and s: "small_file d'"
  shows "healthy md5 d'"
proof -
  consider "d' = d" | data where "writeCacheFile env d data = (d', r)" "cache_wf data"
  proof (cases "readCacheFile env d")
    case (Inr existing)
    from healthyD[OF h Inr m] have "cache_wf existing" .
    moreover from this have "vault \<noteq> [] \<Longrightarrow> cache_wf (existing\<lparr>cPasswordVaultEnvelope := vault\<rparr>)"
      by (simp add: cache_wf_def validateCacheData_iff)
    ultimately show ?thesis using a Inr that
      by (auto simp: AuthorizeCache_def Let_def split: option.splits if_splits)
  next
    case (Inl x)
    have "cache_wf \<lparr>cVersion = cacheFormatVersion, cAccountID = acc, cEmail = em,
        cPasswordVaultEnvelope = vault, cItems = fmempty, cRevisions = Some fmempty, cMutations = [],
        cCursor = [], cRestoredBackups = []\<rparr>" if "acc \<noteq> []" "em \<noteq> []" "vault \<noteq> []" for em
      using that by (simp add: cache_wf_def validateCacheData_iff graph_def)
    with a Inl that e show ?thesis
      by (auto simp: AuthorizeCache_def Let_def split: option.splits if_splits)
  qed
  then show ?thesis by cases (use h writeCacheFile_healthy[OF h _ _ m s] in auto)
qed

lemma client_step_healthy: "client_step md5 d d' \<Longrightarrow> healthy md5 d \<Longrightarrow> healthy md5 d'"
proof (induction rule: client_step.induct)
  case (authorize canonicalEmail env d email acc vault d' r)
  then show ?case using AuthorizeCache_healthy by metis
next
  case (queue env d item base d' r)
  then show ?case using QueueMutation_healthy by metis
next
  case (batch env nil d items fingerprint d' r)
  then show ?case using queueMutations_healthy by metis
next
  case (restore env nil d backup d' r)
  show ?case
  proof (cases "d' = d")
    case True with restore show ?thesis by simp
  next
    case False
    with restore(1) have "locked_update env (restore_op backup) d = (d', r)"
      by (auto simp: RestorePortableState_def split: if_splits)
    from locked_update_healthy[OF restore(5) this restore(2,4)] restore_op_wf[OF restore(3)]
    show ?thesis by blast
  qed
next
  case (sync env d result d' r)
  then show ?case using ApplySyncResult_healthy by metis
qed

lemma client_run_healthy: "client_run md5 d \<Longrightarrow> healthy md5 d"
proof (induction rule: client_run.induct)
  case absent show ?case by (simp add: healthy_def)
next
  case (step d d') then show ?case by (simp add: client_step_healthy)
qed

text \<open>
  Without the restriction: the writer does not look at the size. Once a file above the reader's
  limit is written, no later call reads or replaces it.
\<close>

inductive client_call :: "(string \<Rightarrow> bytes) \<Rightarrow> disk \<Rightarrow> disk \<Rightarrow> bool" for md5 where
  call_authorize: "AuthorizeCache canonicalEmail env d email acc vault = (d', r) \<Longrightarrow> md5sum env = md5 \<Longrightarrow>
    (\<And>e. canonicalEmail email = Some e \<Longrightarrow> e \<noteq> []) \<Longrightarrow> client_call md5 d d'"
| call_queue: "QueueMutation env d item base = (d', r) \<Longrightarrow> md5sum env = md5 \<Longrightarrow> client_call md5 d d'"
| call_batch: "queueMutations env nil d items fingerprint = (d', r') \<Longrightarrow> md5sum env = md5 \<Longrightarrow> client_call md5 d d'"
| call_restore: "RestorePortableState env nil d backup = (d', r'') \<Longrightarrow> md5sum env = md5 \<Longrightarrow>
    queue_wf (pbMutations backup) \<Longrightarrow> client_call md5 d d'"
| call_sync: "ApplySyncResult env d result = (d', r'') \<Longrightarrow> md5sum env = md5 \<Longrightarrow> client_call md5 d d'"

inductive client_calls :: "(string \<Rightarrow> bytes) \<Rightarrow> disk \<Rightarrow> bool" for md5 where
  no_file: "client_calls md5 None"
| more_calls: "client_calls md5 d \<Longrightarrow> client_call md5 d d' \<Longrightarrow> client_calls md5 d'"

lemma client_call_step: "client_call md5 d d' \<Longrightarrow> small_file d' \<Longrightarrow> client_step md5 d d'"
  by (induction rule: client_call.induct)
    (auto intro: client_step.authorize client_step.queue client_step.batch client_step.restore client_step.sync)

lemma oversized_read: "\<not> small_file d \<Longrightarrow> readCacheFile env d = Inl ErrInvalidCache"
  by (auto simp: small_file_def readCacheFile_def split: option.splits)

lemma oversized_update: "\<not> small_file d \<Longrightarrow> locked_update env f d = (d', r) \<Longrightarrow> d' = d"
  by (auto simp: locked_update_def transact_def oversized_read split: if_splits)

lemma oversized_call: "client_call md5 d d' \<Longrightarrow> \<not> small_file d \<Longrightarrow> d' = d"
proof (induction rule: client_call.induct)
  case (call_authorize canonicalEmail env d email acc vault d' r)
  then show ?case by (auto simp: AuthorizeCache_def oversized_read Let_def split: option.splits if_splits)
next
  case (call_queue env d item base d' r)
  then show ?case
    by (auto simp: QueueMutation_def Let_def split: option.splits if_splits sum.splits dest: oversized_update)
next
  case (call_batch env nil d items fingerprint d' r')
  then show ?case
    by (auto simp: queueMutations_def Let_def split: option.splits if_splits sum.splits dest: oversized_update)
next
  case (call_restore env nil d backup d' r'')
  then show ?case by (auto simp: RestorePortableState_def split: if_splits dest: oversized_update)
next
  case (call_sync env d result d' r'')
  then show ?case by (auto simp: ApplySyncResult_def split: if_splits dest: oversized_update)
qed

lemma client_calls_cases: "client_calls md5 d \<Longrightarrow> \<not> small_file d \<or> healthy md5 d"
proof (induction rule: client_calls.induct)
  case no_file
  show ?case by (simp add: healthy_def)
next
  case (more_calls d d')
  show ?case
  proof (cases "small_file d'")
    case True
    have "healthy md5 d" using more_calls.IH oversized_call[OF more_calls.hyps(2)] True by auto
    with client_step_healthy[OF client_call_step[OF more_calls.hyps(2) True]] show ?thesis by simp
  qed simp
qed

section \<open>Properties\<close>

text \<open>A machine without failures, and small documents to run the operations on.\<close>

definition quiet_env :: io_env where
  "quiet_env = \<lparr>lockFails = False, stepFails = (\<lambda>_. False), jsonSize = (\<lambda>_. 512),
     randomBytes = (\<lambda>n. Some (replicate 16 (of_nat n))), md5sum = (\<lambda>_. replicate 16 0)\<rparr>"

definition sample_cache :: cache_file where
  "sample_cache = \<lparr>cVersion = 3, cAccountID = ''acc'', cEmail = ''a@b'', cPasswordVaultEnvelope = [1],
     cItems = fmempty, cRevisions = Some fmempty, cMutations = [], cCursor = [], cRestoredBackups = []\<rparr>"

definition sample_disk :: "cache_file \<Rightarrow> disk" where
  "sample_disk data = Some \<lparr>dRegular = True, dPerm = private_mode, dSize = 512, dContent = Some data\<rparr>"

definition sample_item :: encrypted_item where
  "sample_item = \<lparr>itemID = ''i'', schemaVersion = 1, revision = 1, revisionID = ''r1'',
     parentRevisionIDs = [], deleted = False, purged = False, envelope = [7]\<rparr>"

lemmas sample_simps = quiet_env_def sample_cache_def sample_disk_def sample_item_def
  cacheFormatVersion_def previousCacheFormatVersion_def legacyCacheFormatVersion_def
  maximumCacheFileSize_def private_mode_def small_file_def

lemma sample_sel [simp]:
  "lockFails quiet_env = False" "randomBytes quiet_env n = Some (replicate 16 (of_nat n))"
  "itemID sample_item = ''i''" "schemaVersion sample_item = 1" "revision sample_item = 1"
  "revisionID sample_item = ''r1''" "parentRevisionIDs sample_item = []" "deleted sample_item = False"
  "purged sample_item = False" "envelope sample_item = [7]"
  "sample_item\<lparr>revisionID := ''r1''\<rparr> = sample_item" "sample_item\<lparr>parentRevisionIDs := []\<rparr> = sample_item"
  by (simp_all add: quiet_env_def sample_item_def)

lemma read_sample_disk:
  "validateCacheData data \<Longrightarrow> cVersion data = 3 \<Longrightarrow> readCacheFile quiet_env (sample_disk data) = Inr data"
  by (auto simp: readCacheFile_def sample_simps Let_def validateCacheData_iff)

lemma write_quiet: "writeCacheFile quiet_env d data = (sample_disk (stored_form data), None)"
  by (simp add: writeCacheFile_def quiet_env_def sample_disk_def Let_def)

lemma small_sample_disk [simp]: "small_file (sample_disk data)"
  by (simp add: sample_simps)

lemma sample_cache_wf: "cache_wf sample_cache"
  by (simp add: cache_wf_def validateCacheData_iff sample_cache_def graph_def)

lemma read_sample_cache: "readCacheFile quiet_env (sample_disk sample_cache) = Inr sample_cache"
  by (rule read_sample_disk[OF cache_wfD(2)[OF sample_cache_wf]]) (simp add: sample_cache_def)

lemma sample_graph [simp]: "graph sample_cache = fmempty"
  by (simp add: sample_cache_def graph_def)

lemma stored_sample: "stored_form sample_cache = sample_cache"
  by (simp add: stored_form_def sample_simps)

lemma authorize_sample:
  "AuthorizeCache Some quiet_env None ''a@b'' ''acc'' [1] = (sample_disk sample_cache, None)"
  by (simp add: AuthorizeCache_def write_quiet)
    (simp add: sample_cache_def stored_form_def quiet_env_def cacheFormatVersion_def)

lemma client_run_sample: "client_run (md5sum quiet_env) (sample_disk sample_cache)"
  by (rule client_run.step[OF client_run.absent client_step.authorize[OF authorize_sample]]) auto

text \<open>C3: Crash safety of the client. Whatever sequence of authorize, queue, batch, restore and
  synchronization calls ran from an absent file, with any arguments and any system call failing in
  any of them (a restored backup being one whose queue a client wrote), either the cache file is
  absent; or it is at most 64 MiB and every read gives the same well-formed document, its queue
  included; or it outgrew the 64 MiB the reader accepts, and then every read refuses it and no
  further call changes it.\<close>

theorem client_run_readable:
  assumes "client_calls md5 d"
  shows "d = None \<or>
    (small_file d \<and> (\<exists>data. validateCacheData data \<and> queue_wf (cMutations data) \<and>
       (\<forall>env. md5sum env = md5 \<longrightarrow> readCacheFile env d = Inr data))) \<or>
    (\<not> small_file d \<and> (\<forall>env. readCacheFile env d = Inl ErrInvalidCache) \<and> (\<forall>d'. client_call md5 d d' \<longrightarrow> d' = d))"
proof (cases "small_file d")
  case True
  with client_calls_cases[OF assms] show ?thesis by (auto simp: healthy_def cache_wf_def)
next
  case False
  with oversized_read oversized_call show ?thesis by blast
qed

theorem client_run_readable_witness:
  "\<exists>data. readCacheFile quiet_env (sample_disk sample_cache) = Inr data \<and>
     validateCacheData data \<and> queue_wf (cMutations data)"
proof -
  have "client_calls (md5sum quiet_env) (sample_disk sample_cache)"
    by (rule client_calls.more_calls[OF client_calls.no_file client_call.call_authorize[OF authorize_sample]]) auto
  from client_run_readable[OF this] show ?thesis using small_sample_disk[of sample_cache] by (auto simp: sample_disk_def)
qed

text \<open>C9: Replacing the cache file with a valid document is all or nothing. Whichever step fails, the path
  holds either the old file or the complete new one, private to the user; success means the new one.
  The new file reads back as written when it is at most 64 MiB, the reader's limit; above it, which the
  writer does not look at, the reader refuses it. (That the JSON text of a document decodes to the
  document is part of the model of the file.)\<close>

theorem writeCacheFile_atomic:
  assumes "validateCacheData data"
  shows "(case writeCacheFile env d data of
      (d', None) \<Rightarrow> d' \<noteq> None \<and> dPerm (the d') = private_mode \<and>
        readCacheFile env d' = (if small_file d' then Inr (stored_form data) else Inl ErrInvalidCache)
    | (d', Some e) \<Rightarrow> d' = d \<or> dContent (the d') = Some (stored_form data) \<and> dPerm (the d') = private_mode \<and>
        readCacheFile env d' = (if small_file d' then Inr (stored_form data) else Inl ErrInvalidCache))"
proof (cases "writeCacheFile env d data")
  case (Pair d' r)
  show ?thesis
  proof (cases r)
    case None
    with Pair writeCacheFile_ok[of env d data d'] assms show ?thesis
      by (auto simp: readCacheFile_new small_file_def)
  next
    case (Some e)
    with Pair writeCacheFile_unchanged_or_new[OF Pair] assms show ?thesis
      by (auto simp: readCacheFile_new small_file_def)
  qed
qed

theorem writeCacheFile_atomic_witness:
  "case writeCacheFile quiet_env None sample_cache of
      (d', None) \<Rightarrow> d' \<noteq> None \<and> dPerm (the d') = private_mode \<and>
        readCacheFile quiet_env d' = (if small_file d' then Inr (stored_form sample_cache) else Inl ErrInvalidCache)
    | (d', Some e) \<Rightarrow> d' = None \<or> dContent (the d') = Some (stored_form sample_cache) \<and> dPerm (the d') = private_mode \<and>
        readCacheFile quiet_env d' = (if small_file d' then Inr (stored_form sample_cache) else Inl ErrInvalidCache)"
  by (rule writeCacheFile_atomic[OF cache_wfD(2)[OF sample_cache_wf]])

text \<open>An oversized cache locks its user out: the writer reports success for any document, and the
  reader then refuses the file it wrote when it is above 64 MiB.\<close>

lemma oversized_cache_unreadable:
  assumes "writeCacheFile env d data = (d', None)" "maximumCacheFileSize < jsonSize env (stored_form data)"
  shows "readCacheFile env d' = Inl ErrInvalidCache"
  using writeCacheFile_ok[OF assms(1)] assms(2) by (simp add: readCacheFile_def)

lemma oversized_cache_unreadable_witness:
  "readCacheFile (quiet_env\<lparr>jsonSize := \<lambda>_. 70000000\<rparr>)
     (fst (writeCacheFile (quiet_env\<lparr>jsonSize := \<lambda>_. 70000000\<rparr>) None sample_cache)) = Inl ErrInvalidCache"
  by (rule oversized_cache_unreadable[of _ None sample_cache])
    (simp_all add: writeCacheFile_def quiet_env_def maximumCacheFileSize_def Let_def)

lemma healthy_locked_success:
  assumes "locked_update env f d = (d', Inr r)" "small_file d'" "readCacheFile env d = Inr data"
    and "\<And>data' r. f data = Inr (Some data', r) \<Longrightarrow> validateCacheData data'"
  shows "f data = Inr (None, r) \<and> d' = d \<or>
    (\<exists>data'. f data = Inr (Some data', r) \<and> readCacheFile env d' = Inr (stored_form data'))"
  using locked_update_success[OF assms(1,2)] assms(3,4) by fastforce

text \<open>C7: A queued edit replaces exactly the versions it names. When an edit is accepted, the cache
  read back afterwards ends its queue with that mutation, bases it on the highest of its parents,
  and the heads of the item are the edit together with the old heads that are not its parents (the
  edit alone when it is a Tombstone); no other item changes.\<close>

theorem QueueMutation_heads:
  assumes q: "QueueMutation env d item base = (d', Inr m)" and s: "small_file d'"
    and r: "readCacheFile env d = Inr data"
    and fresh: "\<not> referenced (revs_of data (itemID item)) (mutationID m)"
  shows "\<exists>data'. readCacheFile env d' = Inr data' \<and> cMutations data' = cMutations data @ [m] \<and>
    baseRevision m = base \<and> revision (mutItem m) = base + 1 \<and>
    set (revisionHeads (revs_of data' (itemID item))) =
      (if purged item then {mutItem m} else insert (mutItem m)
         {h \<in> set (revisionHeads (revs_of data (itemID item))). revisionID h \<notin> set (parentRevisionIDs (mutItem m))}) \<and>
    (\<forall>p \<in> set (parentRevisionIDs (mutItem m)). \<exists>x. fmlookup (revs_of data (itemID item)) p = Some x \<and> revision x \<le> base) \<and>
    (\<forall>j. j \<noteq> itemID item \<longrightarrow> revs_of data' j = revs_of data j)"
proof -
  from QueueMutation_success[OF q] r obtain rid data1 where
    q1: "queue_one (item\<lparr>revisionID := rid\<rparr>) base data = Inr (Some data1, m)" and
    v: "validateCacheData data1" and w: "writeCacheFile env d data1 = (d', None)" by auto
  from cache.wr_ok[OF w v s] have rd: "readCacheFile env d' = Inr (stored_form data1)" .
  from q have rev: "revision item = base + 1"
    by (auto simp: QueueMutation_def split: if_splits)
  from q1 obtain ps where
    ps: "resolve_parents (revs_of data (itemID item)) base (parentRevisionIDs item) = Some ps" and
    m: "m = \<lparr>mutationID = rid, baseRevision = base,
      mutItem = item\<lparr>revisionID := rid, parentRevisionIDs := ps\<rparr>\<rparr>"
    by (elim queue_one_success) simp
  have heads: "set (revisionHeads (revs_of data1 (itemID item))) =
      (if purged item then {mutItem m} else insert (mutItem m)
         {h \<in> set (revisionHeads (revs_of data (itemID item))). revisionID h \<notin> set (parentRevisionIDs (mutItem m))})"
    using queue_one_heads[OF q1 readCacheFile_valid[OF r]] fresh by (simp add: m)
  have par: "\<exists>x. fmlookup (revs_of data (itemID item)) p = Some x \<and> revision x \<le> base" if "p \<in> set ps" for p
    using resolve_parents_spec[OF ps] that by fastforce
  have others: "revs_of data1 j = revs_of data j" if "j \<noteq> itemID item" for j
    using queue_one_graph[OF q1, of j] that by simp
  show ?thesis
    using rd heads par others queue_one_frame(1)[OF q1] rev by (intro exI[of _ "stored_form data1"]) (simp add: m)
qed

lemma queue_sample:
  "\<exists>d' m. QueueMutation quiet_env (sample_disk sample_cache) sample_item 0 = (d', Inr m) \<and>
     small_file d' \<and> mutationID m = ''r1''"
proof -
  have ok: "validEncryptedItemContent sample_item" by (simp add: sample_item_def validEncryptedItemContent_def)
  have "queue_one (sample_item\<lparr>revisionID := ''r1''\<rparr>) 0 sample_cache = Inr (Some (put_graph
      (fmupd ''i'' (Some (fmupd ''r1'' sample_item fmempty)) fmempty)
      (sample_cache\<lparr>cMutations := [\<lparr>mutationID = ''r1'', baseRevision = 0, mutItem = sample_item\<rparr>]\<rparr>)),
      \<lparr>mutationID = ''r1'', baseRevision = 0, mutItem = sample_item\<rparr>)"
    by (simp add: queue_one_def resolve_parents_def Let_def) (simp add: sample_cache_def)
  with ok read_sample_cache show ?thesis
    by (simp add: QueueMutation_def locked_update_def transact_def write_quiet)
qed

theorem QueueMutation_heads_witness:
  "\<exists>d' m data'. readCacheFile quiet_env d' = Inr data' \<and> cMutations data' = [m] \<and>
     set (revisionHeads (revs_of data' ''i'')) = {mutItem m}"
proof -
  from queue_sample obtain d' m where
    q: "QueueMutation quiet_env (sample_disk sample_cache) sample_item 0 = (d', Inr m)" "small_file d'" by blast
  have rd: "readCacheFile quiet_env (sample_disk sample_cache) = Inr sample_cache"
    by (rule read_sample_disk[OF cache_wfD(2)[OF sample_cache_wf]]) (simp add: sample_cache_def)
  have e: "revs_of sample_cache j = fmempty" for j by (simp add: sample_cache_def graph_def)
  from QueueMutation_heads[OF q rd] show ?thesis
    by (auto simp: e referenced_iff sample_item_def) (auto simp: sample_cache_def)
qed

lemma queue_batch_appends:
  "queue_batch items (data, q) = Inr (data', q') \<Longrightarrow> \<exists>new. q' = q @ new \<and> (new = [] \<longrightarrow> data' = data)"
proof (induction items arbitrary: data q)
  case (Cons item items)
  show ?case
  proof (cases "fmlookup (revs_of data (itemID item)) (revisionID item)")
    case None
    let ?m = "\<lparr>mutationID = revisionID item, baseRevision = 0, mutItem = item\<rparr>"
    from Cons.prems None obtain d1 where "queue_batch items (d1, q @ [?m]) = Inr (data', q')"
      by (auto simp: Let_def split: if_splits)
    from Cons.IH[OF this] show ?thesis by auto
  next
    case (Some y)
    with Cons.prems have "queue_batch items (data, q) = Inr (data', q')"
      by (auto simp: Let_def split: if_splits)
    from Cons.IH[OF this] show ?thesis .
  qed
qed simp

lemma queue_batch_op_repeat:
  assumes "queue_batch_op prepared [] data = Inr (o', queued)"
    and "graph data2 = graph (case o' of None \<Rightarrow> data | Some d \<Rightarrow> d)"
  shows "queue_batch_op prepared [] data2 = Inr (None, [])"
proof -
  from assms(1) obtain d1 where b: "queue_batch prepared (data, []) = Inr (d1, queued)"
    and o': "o' = (if queued = [] then None else Some d1)"
    by (auto simp: queue_batch_op_def Let_def split: sum.splits prod.splits if_splits)
  with queue_batch_appends[OF b] assms(2) have "graph data2 = graph d1" by (auto split: if_splits)
  with queue_batch_present[OF b] have "batch_present data2 prepared" by (simp add: batch_present_def)
  from queue_batch_repeat[OF this] show ?thesis by (simp add: queue_batch_op_def Let_def)
qed

lemma prepare_batch_given:
  "prepare_batch env n items = Inr prepared \<Longrightarrow> \<forall>item \<in> set items. revisionID item \<noteq> [] \<Longrightarrow>
   prepare_batch env' n' items = Inr prepared"
  by (induction items arbitrary: n n' prepared) (fastforce split: if_splits sum.splits)+

text \<open>C10: Retrying an import changes nothing. A batch of items that carry their revision IDs and was
  queued once is recognised when it is queued again: the second call succeeds, queues no mutation
  and does not touch the file.\<close>

theorem QueueMutations_idempotent:
  assumes q: "QueueMutations env False d items = (d', Inr queued)" and s: "small_file d'"
    and ids: "\<forall>item \<in> set items. revisionID item \<noteq> []"
    and h: "healthy (md5sum env) d" and env': "\<not> lockFails env'" "md5sum env' = md5sum env"
  shows "QueueMutations env' False d' items = (d', Inr [])"
proof (cases "items = []")
  case True
  then show ?thesis by (simp add: QueueMutations_def queueMutations_def)
next
  case False
  with q obtain prepared where p: "prepare_batch env 0 items = Inr prepared"
    and u: "locked_update env (queue_batch_op prepared []) d = (d', Inr queued)"
    by (auto simp: QueueMutations_def queueMutations_def split: sum.splits)
  have valid: "validateCacheData data'"
    if "readCacheFile env d = Inr data" "queue_batch_op prepared [] data = Inr (Some data', r)" for data data' r
    using queue_batch_op_wf[OF healthyD[OF h that(1) refl] prepare_batch_ok[OF p] that(2)]
    by (rule cache_wfD)
  from locked_update_success[OF u s valid] obtain data o' where
    o': "queue_batch_op prepared [] data = Inr (o', queued)" and
    rd: "readCacheFile env d' = Inr (case o' of None \<Rightarrow> data | Some d1 \<Rightarrow> stored_form d1)" by fastforce
  from queue_batch_op_repeat[OF o'] have
    "queue_batch_op prepared [] (case o' of None \<Rightarrow> data | Some d1 \<Rightarrow> stored_form d1) = Inr (None, [])"
    by (simp split: option.splits)
  with False prepare_batch_given[OF p ids] rd env' readCacheFile_cong[OF env'(2)] show ?thesis
    by (simp add: QueueMutations_def queueMutations_def locked_update_def transact_def)
qed

theorem QueueMutations_idempotent_witness:
  "\<exists>d' queued. QueueMutations quiet_env False (sample_disk sample_cache) [sample_item] = (d', Inr queued) \<and>
     length queued = 1 \<and> QueueMutations quiet_env False d' [sample_item] = (d', Inr [])"
proof -
  obtain d' queued where
    q: "QueueMutations quiet_env False (sample_disk sample_cache) [sample_item] = (d', Inr queued)"
       "small_file d'" "length queued = 1"
    using read_sample_cache write_quiet
    by (simp add: QueueMutations_def queueMutations_def locked_update_def transact_def
        queue_batch_op_def Let_def validEncryptedItemContent_def)
  have "healthy (md5sum quiet_env) (sample_disk sample_cache)"
    by (rule client_run_healthy[OF client_run_sample])
  from QueueMutations_idempotent[OF q(1,2) _ this] q show ?thesis
    by (auto simp: sample_item_def quiet_env_def)
qed

lemma fmdom_cloneEncryptedRevisions [simp]: "fmdom (cloneEncryptedRevisions g) = fmdom g"
  by (simp add: cloneEncryptedRevisions_def)

lemma revisionsAt_clone [simp]: "revisionsAt (cloneEncryptedRevisions g) i = revisionsAt g i"
  by (auto simp: revisionsAt_def cloneEncryptedRevisions_def split: option.splits)

lemma same_graph_clone: "same_graph (cloneEncryptedRevisions g) g"
proof -
  have "revisionsAt g i = inner_values v" if "(i, v) \<in> set (sorted_list_of_fmap g)" for i v
    using that by (auto simp: revisionsAt_def inner_values_def set_sorted_list_of_fmap split: option.splits)
  then show ?thesis
    by (auto simp: same_graph_def list_all_iff set_sorted_list_of_fmap)
qed

lemma same_mutations_refl: "same_mutations ms ms"
  by (induction ms) simp_all

text \<open>A restored backup is recognised. After a portable backup was restored into an empty cache
  of its account, comparing the cache with that backup answers yes, so a second restore of the same
  file is a no-op.\<close>

lemma RestorePortableState_matches:
  assumes r: "RestorePortableState env nil d backup = (d', Inr ())" and s: "small_file d'"
  shows "PortableStateMatches env nil d' backup = Inr True"
proof -
  from r have n: "\<not> nil" and u: "locked_update env (restore_op backup) d = (d', Inr ())"
    by (auto simp: RestorePortableState_def split: if_splits)
  have valid: "validateCacheData data'"
    if "readCacheFile env d = Inr data" "restore_op backup data = Inr (Some data', x)" for data data' x
    using that(2) by (auto simp: restore_op_def Let_def split: if_splits)
  from locked_update_success[OF u s valid] obtain data o' where
    rd: "restore_op backup data = Inr (o', ())" and
    d': "o' = None \<and> d' = d \<or> (\<exists>data'. o' = Some data' \<and> readCacheFile env d' = Inr (stored_form data'))"
    by fast
  from rd d' obtain data' where st: "readCacheFile env d' = Inr (stored_form data')" and
    p: "cAccountID data' = pbAccountID backup" "graph data' = cloneEncryptedRevisions (backup_graph backup)"
      "cMutations data' = pbMutations backup" "cCursor data' = pbCursor backup"
    by (auto simp: restore_op_def Let_def graph_def split: if_splits)
  from u have "\<not> lockFails env" by (auto simp: locked_update_def split: if_splits)
  with n st p show ?thesis
    by (simp add: PortableStateMatches_def locked_read_def same_graph_clone same_mutations_refl)
qed

definition sample_backup :: portable_backup where
  "sample_backup = \<lparr>pbAccountID = ''acc'', pbEmail = ''a@b'', pbPasswordVaultEnvelope = [1],
     pbRevisions = Some (fmupd ''i'' (Some (fmupd ''r1'' sample_item fmempty)) fmempty),
     pbMutations = [\<lparr>mutationID = ''r1'', baseRevision = 0, mutItem = sample_item\<rparr>],
     pbCursor = ''7'', pbFormatVersion = 1, pbItems = None, pbFingerprint = ''f''\<rparr>"

lemma restore_sample:
  "\<exists>d'. RestorePortableState quiet_env False (sample_disk sample_cache) sample_backup = (d', Inr ()) \<and> small_file d'"
proof -
  have e: "validRevisionEntry ''i'' ''r1'' sample_item"
    by (simp add: validRevisionEntry_iff validEncryptedItemContent_def hasInvalidParentIDs_iff)
  have g: "cloneEncryptedRevisions (backup_graph sample_backup) =
    fmupd ''i'' (Some (fmupd ''r1'' sample_item fmempty)) fmempty"
    by (subst cloneEncryptedRevisions_id)
      (simp_all add: sample_backup_def backup_graph_def no_nil_maps_iff)
  have "\<exists>data'. restore_op sample_backup sample_cache = Inr (Some data', ())"
    unfolding restore_op_def g
    by (simp add: Let_def validateCacheData_iff)
      (use e in \<open>auto simp: sample_backup_def sample_cache_def containsRestoredBackup_def valid_graph_def
        validMutationEntry_def validEncryptedItemContent_def hasInvalidParentIDs_iff graph_def split: if_splits\<close>)
  then show ?thesis
    using read_sample_cache write_quiet
    by (auto simp: RestorePortableState_def locked_update_def transact_def sample_backup_def)
qed

lemma RestorePortableState_matches_witness:
  "\<exists>d'. RestorePortableState quiet_env False (sample_disk sample_cache) sample_backup = (d', Inr ()) \<and>
     PortableStateMatches quiet_env False d' sample_backup = Inr True"
  using restore_sample RestorePortableState_matches by blast

text \<open>The views partition the items. An item with heads is listed as active, or listed in the
  Trash, or has nothing but Tombstones left, and never two of these; an item with a live head is
  always active, so a conflict between an edit and a deletion stays visible.\<close>

lemma views_partition:
  "case (ItemHeads env d, TrashHeads env d, allItemHeads env d) of
     (Inr active, Inr trash, Inr every) \<Rightarrow>
       \<not> (\<exists>grp. grp \<in> set active \<and> grp \<in> set trash) \<and>
       set active = {grp. grp \<in> set every \<and> (\<exists>r. r \<in> set (hRevisions grp) \<and> \<not> deleted r)} \<and>
       {grp. grp \<in> set every \<and> grp \<notin> set active \<and> grp \<notin> set trash} =
       {grp. grp \<in> set every \<and> (\<nexists>r. r \<in> set (hRevisions grp) \<and> \<not> (deleted r \<and> purged r))}
   | (Inl e1, Inl e2, Inl e3) \<Rightarrow> e1 = e3 \<and> e2 = e3
   | _ \<Rightarrow> False"
  by (auto simp: ItemHeads_def TrashHeads_def is_trash_iff is_active_iff split: sum.splits)

section \<open>Properties of a synchronization\<close>

text \<open>\<open>kept data m\<close>: the graph shows the content of the queued mutation \<open>m\<close>.\<close>

definition kept :: "cache_file \<Rightarrow> mutation \<Rightarrow> bool" where
  "kept data m = (case fmlookup (revs_of data (itemID (mutItem m))) (mutationID m) of
     None \<Rightarrow> False | Some x \<Rightarrow> sameEncryptedItem x (mutItem m))"

lemma kept_iff:
  "kept data m \<longleftrightarrow> (\<exists>x. fmlookup (revs_of data (itemID (mutItem m))) (mutationID m) = Some x \<and>
     sameEncryptedItem x (mutItem m))"
  by (auto simp: kept_def split: option.splits)

lemma kept_cursor [simp]: "kept (data\<lparr>cCursor := c\<rparr>) m = kept data m"
  by (simp add: kept_def)

lemma queue_wf_ids: "queue_wf ms \<Longrightarrow> m \<in> set ms \<Longrightarrow> revisionID (mutItem m) = mutationID m"
  by (auto simp: queue_wf_def validRevisionEntry_iff)

lemma apply_change_kept:
  assumes a: "apply_change data c = Some data'" and k: "kept data m" "m \<in> set (cMutations data)"
    and wf: "queue_wf (cMutations data)" and d: "distinct (map mutationID (cMutations data))"
  shows "kept data' m"
proof (cases "itemID (mutItem m) = itemID c")
  case False
  with k show ?thesis by (simp add: kept_iff apply_change_result(1)[OF a])
next
  case i: True
  let ?revs = "revs_of data (itemID c)"
  from k i obtain x where x: "fmlookup ?revs (mutationID m) = Some x" "sameEncryptedItem x (mutItem m)"
    by (auto simp: kept_iff)
  show ?thesis
  proof (cases "purged c")
    case False
    show ?thesis
    proof (cases "mutationID m = revisionID c")
      case True
      with apply_change_result(2)[OF a] x have "sameEncryptedItem x c" by simp
      with x(2) have "sameEncryptedItem c (mutItem m)"
        using sameEncryptedItem_sym sameEncryptedItem_trans by blast
      with True False i show ?thesis by (simp add: kept_iff apply_change_result(1)[OF a])
    next
      case neq: False
      with x False i show ?thesis by (simp add: kept_iff apply_change_result(1)[OF a])
    qed
  next
    case True
    let ?P = "\<lambda>n. itemID (mutItem n) = itemID c"
    have eq: "map (\<lambda>n. revisionID (mutItem n)) (filter ?P (cMutations data)) = map mutationID (filter ?P (cMutations data))"
      by (rule map_cong) (use wf in \<open>auto dest: queue_wf_ids\<close>)
    have dis: "distinct (map (\<lambda>n. revisionID (mutItem n)) (filter ?P (cMutations data)))"
      unfolding eq by (rule distinct_map_filter[OF d])
    have "fmlookup (preserve_on_purge c ?revs (cMutations data)) (mutationID m) = Some (mutItem m)"
      using fold_fmupd_last[OF dis k(2) i, of mutItem] queue_wf_ids[OF wf k(2)]
      by (simp add: preserve_on_purge_def cong: if_cong)
    with True i show ?thesis by (simp add: kept_iff apply_change_result(1)[OF a])
  qed
qed

lemma apply_changes_kept:
  "apply_changes data cs = Some data' \<Longrightarrow> kept data m \<Longrightarrow> m \<in> set (cMutations data) \<Longrightarrow>
   queue_wf (cMutations data) \<Longrightarrow> distinct (map mutationID (cMutations data)) \<Longrightarrow> kept data' m"
proof (induction cs arbitrary: data)
  case (Cons c cs)
  then obtain mid where mid: "apply_change data c = Some mid" "apply_changes mid cs = Some data'"
    by (auto split: option.splits)
  from Cons.IH[OF mid(2) apply_change_kept[OF mid(1)]] Cons.prems show ?case
    by (simp add: apply_change_frame(1)[OF mid(1)])
qed simp

lemma fold_addCachedRevision_keeps:
  "revisionID (mutItem m) \<notin> revisionID ` mutItem ` set ms \<Longrightarrow>
   fmlookup (revisionsAt (fold (\<lambda>m g. addCachedRevision g (mutItem m)) ms g) i) (revisionID (mutItem m)) =
   fmlookup (revisionsAt g i) (revisionID (mutItem m))"
  by (induction ms arbitrary: g) auto

lemma fold_addCachedRevision_last:
  "distinct (map (\<lambda>m. revisionID (mutItem m)) ms) \<Longrightarrow> m \<in> set ms \<Longrightarrow>
   fmlookup (revisionsAt (fold (\<lambda>m g. addCachedRevision g (mutItem m)) ms g) (itemID (mutItem m)))
     (revisionID (mutItem m)) = Some (mutItem m)"
proof (induction ms arbitrary: g)
  case (Cons n ns)
  show ?case
  proof (cases "m \<in> set ns")
    case True with Cons show ?thesis by simp
  next
    case False
    with Cons.prems have "m = n" by simp
    with Cons.prems(1) fold_addCachedRevision_keeps[of m ns "addCachedRevision g (mutItem n)"]
    show ?thesis by (simp add: image_comp comp_def)
  qed
qed simp

lemma rebase_snapshot_kept:
  assumes "queue_wf (cMutations data)" "distinct (map mutationID (cMutations data))" "m \<in> set (cMutations data)"
  shows "kept (rebase_snapshot True data) m"
proof -
  have eq: "map (\<lambda>n. revisionID (mutItem n)) (cMutations data) = map mutationID (cMutations data)"
    by (rule map_cong) (use assms(1) in \<open>auto dest: queue_wf_ids\<close>)
  from assms(2) have dis: "distinct (map (\<lambda>n. revisionID (mutItem n)) (cMutations data))" unfolding eq .
  from fold_addCachedRevision_last[OF dis assms(3), of fmempty] queue_wf_ids[OF assms(1,3)]
  show ?thesis by (simp add: kept_iff rebase_snapshot_def)
qed

lemma apply_sync_op_some: "apply_sync_op result data \<noteq> Inr (None, u)"
  by (auto simp: apply_sync_op_def Let_def split: option.splits)

lemma ApplySyncResult_success:
  assumes a: "ApplySyncResult env d result = (d', Inr u)" and s: "small_file d'"
    and r: "readCacheFile env d = Inr data" and q: "queue_wf (cMutations data)"
  shows "\<exists>data'. apply_sync_op result data = Inr (Some data', u) \<and> cache_wf data' \<and>
    readCacheFile env d' = Inr (stored_form data') \<and> (\<forall>c \<in> set (srChanges result). valid_change c)"
proof -
  from a have v: "\<forall>c \<in> set (srChanges result). valid_change c"
    and u: "locked_update env (apply_sync_op result) d = (d', Inr u)"
    by (auto simp: ApplySyncResult_def list_ex_iff split: if_splits)
  from r q have wf: "cache_wf data" using readCacheFile_valid by (simp add: cache_wf_def)
  note keep = apply_sync_op_wf(1)[OF _ v wf]
  have "validateCacheData data'" if "apply_sync_op result data = Inr (Some data', w)" for data' w
    by (rule cache_wfD(2)[OF keep[OF that]])
  from healthy_locked_success[OF u s r this] apply_sync_op_some obtain data' where
    "apply_sync_op result data = Inr (Some data', u)" "readCacheFile env d' = Inr (stored_form data')" by fast
  with keep v show ?thesis by blast
qed

text \<open>C4: No queued edit is lost by a synchronization. The queue afterwards is the queue before without
  the acknowledged mutations, in the same order, and when the server sent a full snapshot the graph
  holds the content of every mutation still queued, whatever changes and Tombstones came with it.\<close>

theorem ApplySyncResult_keeps_queue:
  assumes a: "ApplySyncResult env d result = (d', Inr u)" and s: "small_file d'"
    and r: "readCacheFile env d = Inr data" and q: "queue_wf (cMutations data)"
    and dist: "distinct (map mutationID (cMutations data))"
  shows "\<exists>data'. readCacheFile env d' = Inr data' \<and> cCursor data' = srCursor result \<and>
    cMutations data' = filter (\<lambda>m. mutationID m \<notin> set (srAppliedMutationIDs result)) (cMutations data) \<and>
    (srFullSnapshot result \<longrightarrow> (\<forall>m \<in> set (cMutations data'). kept data' m))"
proof -
  from ApplySyncResult_success[OF a s r q] obtain data' where
    op: "apply_sync_op result data = Inr (Some data', u)" and rd: "readCacheFile env d' = Inr (stored_form data')"
    and v: "\<forall>c \<in> set (srChanges result). valid_change c" by blast
  from r q have wf: "cache_wf data" using readCacheFile_valid by (simp add: cache_wf_def)
  note res = apply_sync_op_wf[OF op v wf]
  let ?d = "data\<lparr>cMutations := drop_applied (srAppliedMutationIDs result) (cMutations data)\<rparr>"
  have ok: "queue_wf (cMutations ?d)" "distinct (map mutationID (cMutations ?d))"
    using q dist by (auto simp: drop_applied_def queue_wf_def distinct_map_filter)
  have kept: "kept (stored_form data') m" if f: "srFullSnapshot result" and m: "m \<in> set (cMutations ?d)" for m
  proof -
    from op obtain d1 where d1: "apply_changes (rebase_snapshot True ?d) (srChanges result) = Some d1"
      "data' = d1\<lparr>cCursor := srCursor result\<rparr>" using f by (elim apply_sync_op_parts) simp
    have "kept d1 m"
      by (rule apply_changes_kept[OF d1(1) rebase_snapshot_kept[OF ok m]]) (use ok m in simp_all)
    then show ?thesis by (simp add: d1(2) kept_def)
  qed
  show ?thesis
    using rd res kept by (intro exI[of _ "stored_form data'"]) (simp add: drop_applied_def)
qed

definition tombstone :: encrypted_item where
  "tombstone = \<lparr>itemID = ''i'', schemaVersion = 1, revision = 2, revisionID = ''t'',
     parentRevisionIDs = [''r1''], deleted = True, purged = True, envelope = []\<rparr>"

definition stale_cache :: cache_file where
  "stale_cache = sample_cache\<lparr>cRevisions := Some (fmupd ''i'' (Some (fmupd ''r1'' sample_item fmempty)) fmempty),
     cMutations := [\<lparr>mutationID = ''r1'', baseRevision = 0, mutItem = sample_item\<rparr>]\<rparr>"

definition purge_result :: sync_result where
  "purge_result = \<lparr>srCursor = ''9'', srFullSnapshot = True, srAppliedMutationIDs = [], srChanges = [tombstone]\<rparr>"

lemma stale_graph: "graph stale_cache = fmupd ''i'' (Some (fmupd ''r1'' sample_item fmempty)) fmempty"
  by (simp add: stale_cache_def graph_def)

lemma sample_entry: "validRevisionEntry ''i'' ''r1'' sample_item"
  by (simp add: validRevisionEntry_iff validEncryptedItemContent_def hasInvalidParentIDs_iff)

lemma stale_cache_wf: "cache_wf stale_cache"
  using sample_entry
  by (auto simp: cache_wf_def validateCacheData_iff stale_graph valid_graph_def split: if_splits)
    (simp_all add: stale_cache_def sample_cache_def validMutationEntry_def validEncryptedItemContent_def
      hasInvalidParentIDs_iff)

lemma read_stale: "readCacheFile quiet_env (sample_disk stale_cache) = Inr stale_cache"
  by (rule read_sample_disk[OF cache_wfD(2)[OF stale_cache_wf]]) (simp add: stale_cache_def sample_cache_def)

lemma sync_stale:
  "\<exists>d'. ApplySyncResult quiet_env (sample_disk stale_cache) purge_result = (d', Inr ()) \<and> small_file d'"
proof -
  have "valid_change tombstone"
    by (simp add: valid_change_def tombstone_def validEncryptedItemContent_def hasInvalidParentIDs_iff)
  moreover have "\<exists>data'. apply_sync_op purge_result stale_cache = Inr (Some data', ())"
  proof -
    have "apply_change (rebase_snapshot True stale_cache) tombstone \<noteq> None"
      by (simp add: apply_change_def rebase_snapshot_def tombstone_def Let_def)
        (simp add: stale_cache_def)
    moreover have "stale_cache\<lparr>cMutations := drop_applied [] (cMutations stale_cache)\<rparr> = stale_cache"
      by (simp add: drop_applied_def)
    ultimately show ?thesis by (auto simp: apply_sync_op_def purge_result_def)
  qed
  then obtain data' where "apply_sync_op purge_result stale_cache = Inr (Some data', ())" ..
  moreover have "ParseUint ''9'' 63 = Some 9"
  proof -
    have "dec 9 = ''9''" by code_simp
    with ParseUint_dec[of 9 63] show ?thesis by simp
  qed
  ultimately show ?thesis using read_stale
    by (simp add: ApplySyncResult_def locked_update_def transact_def write_quiet)
      (simp add: purge_result_def)
qed

theorem ApplySyncResult_keeps_queue_witness:
  "\<exists>data'. cMutations data' = cMutations stale_cache \<and> cCursor data' = ''9'' \<and>
     (\<forall>m \<in> set (cMutations data'). kept data' m)"
proof -
  from sync_stale obtain d' where
    "ApplySyncResult quiet_env (sample_disk stale_cache) purge_result = (d', Inr ())" "small_file d'" by blast
  from ApplySyncResult_keeps_queue[OF this read_stale] stale_cache_wf show ?thesis
    by (auto simp: cache_wf_def purge_result_def stale_cache_def)
qed

text \<open>C6: What a Tombstone leaves on the client. After a purging change is applied, the item's graph
  holds exactly the Tombstone, the heads that were live and the revisions still queued; every other
  revision of the item is gone, and so is all ciphertext except that of those heads and queued
  edits.\<close>

theorem purge_scrubs_client:
  assumes a: "apply_change data c = Some data'" and p: "purged c" and wf: "cache_wf data"
    and v: "valid_change c"
  shows "(fmlookup (revs_of data' (itemID c)) r \<noteq> None \<longleftrightarrow>
       r = revisionID c \<or> (\<exists>h \<in> set (revisionHeads (revs_of data (itemID c))). \<not> deleted h \<and> revisionID h = r) \<or>
       (\<exists>m \<in> set (cMutations data). itemID (mutItem m) = itemID c \<and> mutationID m = r)) \<and>
    (\<forall>x. fmlookup (revs_of data' (itemID c)) r = Some x \<longrightarrow> envelope x \<noteq> [] \<longrightarrow>
       x \<in> set (revisionHeads (revs_of data (itemID c))) \<and> \<not> deleted x \<or> x \<in> mutItem ` set (cMutations data))"
proof -
  let ?revs = "revs_of data (itemID c)"
  have g: "revs_of data' (itemID c) = preserve_on_purge c ?revs (cMutations data)"
    using p by (simp add: apply_change_result(1)[OF a])
  from v p have e: "envelope c = []" by (simp add: valid_change_def validEncryptedItemContent_def)
  have ids: "(\<exists>m \<in> set (cMutations data). itemID (mutItem m) = itemID c \<and> revisionID (mutItem m) = r) \<longleftrightarrow>
      (\<exists>m \<in> set (cMutations data). itemID (mutItem m) = itemID c \<and> mutationID m = r)"
    using wf queue_wf_ids by (fastforce simp: cache_wf_def)
  have orig: "x \<in> set (revisionHeads ?revs) \<and> \<not> deleted x \<or> x \<in> mutItem ` set (cMutations data)"
    if "fmlookup (revs_of data' (itemID c)) r = Some x" "envelope x \<noteq> []" for x
    using preserve_on_purge_origin[OF that(1)[unfolded g]] that(2) e by auto
  show ?thesis using orig unfolding g preserve_on_purge_dom ids by blast
qed

lemma stale_purge:
  "apply_change stale_cache tombstone = Some (put_graph (fmupd ''i'' (Some (preserve_on_purge tombstone
     (revs_of stale_cache ''i'') (cMutations stale_cache))) (graph stale_cache)) stale_cache)"
  by (simp add: apply_change_def stale_graph tombstone_def Let_def)

lemma sample_tombstone_valid: "valid_change tombstone"
  by (simp add: valid_change_def tombstone_def validEncryptedItemContent_def hasInvalidParentIDs_iff)

theorem purge_scrubs_client_witness:
  "\<exists>data'. apply_change stale_cache tombstone = Some data' \<and> fmlookup (revs_of data' ''i'') ''t'' \<noteq> None \<and>
     fmlookup (revs_of data' ''i'') ''r1'' \<noteq> None \<and> fmlookup (revs_of data' ''i'') ''r0'' = None"
proof -
  obtain data' where d: "apply_change stale_cache tombstone = Some data'" using stale_purge by blast
  have "purged tombstone" "itemID tombstone = ''i''" "revisionID tombstone = ''t''" by (simp_all add: tombstone_def)
  moreover have "r1 \<in> set (revisionHeads (revs_of stale_cache ''i'')) \<Longrightarrow> revisionID r1 = ''r1''" for r1
    by (auto simp: stale_graph revisionHeads_iff split: if_splits)
  ultimately show ?thesis
    using d purge_scrubs_client[OF d _ stale_cache_wf sample_tombstone_valid, of "''t''"]
      purge_scrubs_client[OF d _ stale_cache_wf sample_tombstone_valid, of "''r1''"]
      purge_scrubs_client[OF d _ stale_cache_wf sample_tombstone_valid, of "''r0''"]
    by (auto simp: stale_cache_def)
qed

text \<open>C5: A Tombstone never hides an offline edit. If a live edit of the item is still queued when its
  Tombstone arrives, and neither is named as a parent by what the graph keeps, the item then shows
  both as heads, an explicit conflict, and it stays in the list of active items.\<close>

theorem purge_and_edit_conflict:
  assumes a: "apply_change data c = Some data'" and p: "purged c" and wf: "cache_wf data"
    and m: "m \<in> set (cMutations data)" "itemID (mutItem m) = itemID c" "\<not> deleted (mutItem m)"
    and dist: "distinct (map mutationID (cMutations data))"
    and new: "mutationID m \<noteq> revisionID c" "mutationID m \<notin> set (parentRevisionIDs c)"
      "revisionID c \<notin> set (parentRevisionIDs c)" "revisionID c \<notin> mutationID ` set (cMutations data)"
      "fmlookup (revs_of data (itemID c)) (revisionID c) = None"
    and free: "\<forall>x. x \<in> set (revisionHeads (revs_of data (itemID c))) \<or> x \<in> mutItem ` set (cMutations data) \<longrightarrow>
      mutationID m \<notin> set (parentRevisionIDs x) \<and> revisionID c \<notin> set (parentRevisionIDs x)"
  shows "c \<in> set (revisionHeads (revs_of data' (itemID c))) \<and>
    mutItem m \<in> set (revisionHeads (revs_of data' (itemID c))) \<and>
    is_active \<lparr>hItemID = itemID c, hRevisions = revisionHeads (revs_of data' (itemID c))\<rparr>"
proof -
  let ?revs = "revs_of data (itemID c)" and ?revs' = "revs_of data' (itemID c)"
  have g: "?revs' = preserve_on_purge c ?revs (cMutations data)"
    using p by (simp add: apply_change_result(1)[OF a])
  have q: "queue_wf (cMutations data)" using wf by (simp add: cache_wf_def)
  have eq: "map (\<lambda>n. revisionID (mutItem n)) (filter P (cMutations data)) = map mutationID (filter P (cMutations data))" for P
    by (rule map_cong) (use q in \<open>auto dest: queue_wf_ids\<close>)
  have dis: "distinct (map (\<lambda>n. revisionID (mutItem n)) (filter (\<lambda>n. itemID (mutItem n) = itemID c) (cMutations data)))"
    unfolding eq by (rule distinct_map_filter[OF dist])
  have lm: "fmlookup ?revs' (mutationID m) = Some (mutItem m)"
    unfolding g using fold_fmupd_last[OF dis m(1,2), of mutItem] queue_wf_ids[OF q m(1)]
    by (simp add: preserve_on_purge_def cong: if_cong)
  have "fmlookup ?revs' (revisionID c) \<noteq> None" unfolding g preserve_on_purge_dom by simp
  then obtain x where x: "fmlookup ?revs' (revisionID c) = Some x" by blast
  have "x = c"
    using preserve_on_purge_origin[OF x[unfolded g]]
  proof (elim disjE)
    assume h: "x \<in> set (revisionHeads ?revs) \<and> \<not> deleted x \<and> revisionID c = revisionID x"
    then obtain k where k: "fmlookup ?revs k = Some x" by (auto simp: revisionHeads_iff)
    with keyedD[OF valid_graph_keyed[OF cache_wfD(1)[OF wf]] k] h new(5) show ?thesis by simp
  next
    assume "\<exists>n\<in>set (cMutations data). itemID (mutItem n) = itemID c \<and> x = mutItem n \<and> revisionID c = revisionID x"
    with new(4) queue_wf_ids[OF q] show ?thesis by force
  qed simp
  have nr: "\<not> referenced ?revs' k" if k: "k = mutationID m \<or> k = revisionID c" for k
  proof
    assume "referenced ?revs' k"
    then obtain j y where y: "fmlookup ?revs' j = Some y" "k \<in> set (parentRevisionIDs y)"
      by (auto simp: referenced_iff)
    from preserve_on_purge_origin[OF y(1)[unfolded g]] y(2) k new(2,3) free show False by blast
  qed
  have "c \<in> set (revisionHeads ?revs')" "mutItem m \<in> set (revisionHeads ?revs')"
    unfolding revisionHeads_iff using x \<open>x = c\<close> lm nr by blast+
  with m(3) show ?thesis by (auto simp: is_active_iff)
qed

theorem purge_and_edit_conflict_witness:
  "\<exists>data'. apply_change stale_cache (tombstone\<lparr>parentRevisionIDs := [''r0'']\<rparr>) = Some data' \<and>
     tombstone\<lparr>parentRevisionIDs := [''r0'']\<rparr> \<in> set (revisionHeads (revs_of data' ''i'')) \<and>
     sample_item \<in> set (revisionHeads (revs_of data' ''i''))"
proof -
  let ?c = "tombstone\<lparr>parentRevisionIDs := [''r0'']\<rparr>"
  have c: "itemID ?c = ''i''" "purged ?c" "revisionID ?c = ''t''" "parentRevisionIDs ?c = [''r0'']"
    by (simp_all add: tombstone_def)
  obtain data' where d: "apply_change stale_cache ?c = Some data'"
    by (simp add: apply_change_def stale_graph tombstone_def Let_def)
  let ?m = "\<lparr>mutationID = ''r1'', baseRevision = 0, mutItem = sample_item\<rparr>"
  have mm: "cMutations stale_cache = [?m]" by (simp add: stale_cache_def)
  have heads: "x \<in> set (revisionHeads (revs_of stale_cache ''i'')) \<Longrightarrow> x = sample_item" for x
    by (auto simp: stale_graph revisionHeads_iff split: if_splits)
  have "?c \<in> set (revisionHeads (revs_of data' (itemID ?c))) \<and> mutItem ?m \<in> set (revisionHeads (revs_of data' (itemID ?c))) \<and>
    is_active \<lparr>hItemID = itemID ?c, hRevisions = revisionHeads (revs_of data' (itemID ?c))\<rparr>"
    by (rule purge_and_edit_conflict[OF d c(2) stale_cache_wf])
      (use heads in \<open>auto simp: mm c stale_graph dest!: heads[unfolded stale_graph, simplified]\<close>)
  with d c show ?thesis by auto
qed

end
