(* ===== verification/SyncStore.thy ===== *)
theory SyncStore
  imports Uuid
begin

text \<open>
  The server's vault tables and the transactions on them
  (\<open>internal/server/item.go\<close> and the second half of \<open>internal/server/db.go\<close>):
  accepting a mutation into the append-only revision graph, purging expired trash, answering a
  synchronization with retained changes or a full snapshot, and the older put/list pair.
  A table is the list of its rows. A constraint the migrations declare and the code relies on is
  checked where the statement could violate it, with \<open>DbError\<close> as the failed statement.
  PostgreSQL itself is the parameter \<open>pg_env\<close>: the cast of a text to a UUID and back,
  \<open>gen_random_uuid\<close>, and the digest function.
\<close>

section \<open>Wire records\<close>

definition maximumItemEnvelopeSize :: nat where "maximumItemEnvelopeSize = 2 ^ 20"
definition maximumItemRevision :: u64 where "maximumItemRevision = 2 ^ 63 - 1"
definition maximumSyncMutations :: nat where "maximumSyncMutations = 100"
definition trashRetention :: duration where "trashRetention = 30 * hours 24"
definition syncChangeRetention :: duration where "syncChangeRetention = 30 * hours 24"

datatype sync_error = ErrItemRevisionConflict | ErrMutationIDReuse | ErrInvalidSyncCursor | DbError

text \<open>An envelope is \<open>None\<close> for a nil slice, which the database stores as NULL.\<close>

record opaque_item =
  oItemID :: string
  oSchemaVersion :: int
  oRevision :: u64
  oRevisionID :: string
  oParents :: "string list"
  oDeleted :: bool
  oPurged :: bool
  oEnvelope :: "bytes option"

record vault_mutation =
  vmMutationID :: string
  vmBaseRevision :: u64
  vmItem :: opaque_item

record vault_sync_result =
  vsCursor :: string
  vsFullSnapshot :: bool
  vsApplied :: "string list"
  vsChanges :: "opaque_item list"

definition len :: "bytes option \<Rightarrow> nat" where
  "len e = (case e of None \<Rightarrow> 0 | Some b \<Rightarrow> length b)"

section \<open>Tables\<close>

record revision_row =
  rvAccount :: string
  rvRevisionID :: uuid
  rvItemID :: uuid
  rvSchema :: int
  rvRevision :: u64
  rvParents :: "uuid list"
  rvEnvelope :: "bytes option"
  rvDeleted :: bool
  rvPurged :: bool
  rvContentPurged :: bool
  rvCreatedAt :: time
  rvTombstonedAt :: "time option"

record head_row =
  hdAccount :: string
  hdItemID :: uuid
  hdRevisionID :: uuid

record item_row =
  itAccount :: string
  itItemID :: uuid
  itSchema :: int
  itRevision :: u64
  itDeleted :: bool
  itPurged :: bool
  itEnvelope :: "bytes option"

record change_row =
  chAccount :: string
  chCursor :: nat
  chItemID :: uuid
  chSchema :: int
  chRevision :: u64
  chRevisionID :: uuid
  chParents :: "uuid list"
  chDeleted :: bool
  chPurged :: bool
  chEnvelope :: "bytes option"
  chCreatedAt :: time

record ledger_row =
  lgAccount :: string
  lgMutationID :: uuid
  lgItemID :: uuid
  lgBase :: u64
  lgRevision :: u64
  lgRevisionID :: uuid
  lgParents :: "uuid list"
  lgDigest :: bytes
  lgCursor :: nat
  lgCreatedAt :: time

record vault_db =
  tRevisions :: "revision_row list"
  tHeads :: "head_row list"
  tItems :: "item_row list"
  tChanges :: "change_row list"
  tLedger :: "ledger_row list"
  tCursors :: "(string, nat) fmap"

record pg_env =
  uuidIn :: "string \<Rightarrow> uuid option"
  genUUID :: "nat \<Rightarrow> uuid"
  sha256 :: "bytes \<Rightarrow> bytes"

definition uuids_in :: "pg_env \<Rightarrow> string list \<Rightarrow> uuid list option" where
  "uuids_in pg ids = those (map (uuidIn pg) ids)"

text \<open>The CHECK constraints of the migrations; columns INTEGER and BIGINT are bounded.\<close>

definition check_revision_row :: "revision_row \<Rightarrow> bool" where
  "check_revision_row r \<longleftrightarrow> 0 < rvSchema r \<and> rvSchema r < 2 ^ 31 \<and> 0 < sint (rvRevision r) \<and>
     (rvContentPurged r \<and> rvEnvelope r = None \<or> \<not> rvContentPurged r \<and> rvEnvelope r \<noteq> None) \<and>
     (\<not> rvPurged r \<or> rvDeleted r \<and> rvContentPurged r)"

definition check_content :: "int \<Rightarrow> u64 \<Rightarrow> bool \<Rightarrow> bool \<Rightarrow> bytes option \<Rightarrow> bool" where
  "check_content schema revno del purged env \<longleftrightarrow> 0 < schema \<and> schema < 2 ^ 31 \<and> 0 < sint revno \<and>
     (purged \<and> del \<and> env = None \<or> \<not> purged \<and> env \<noteq> None)"

section \<open>Validation of a request\<close>

definition validOpaqueItemContent :: "opaque_item \<Rightarrow> bool" where
  "validOpaqueItemContent item =
     (if oPurged item then oDeleted item \<and> len (oEnvelope item) = 0 else len (oEnvelope item) > 0)"

fun valid_parents :: "string set \<Rightarrow> string list \<Rightarrow> bool" where
  "valid_parents seen [] = True"
| "valid_parents seen (p # ps) =
     (if \<not> validUUID p \<or> p \<in> seen then False else valid_parents (insert p seen) ps)"

definition validMutation :: "vault_mutation \<Rightarrow> bool" where
  "validMutation m =
     (let item = vmItem m in
      if \<not> validUUID (vmMutationID m) \<or> oItemID item = [] \<or> oSchemaVersion item < 1 \<or>
         oRevision item < 1 \<or> oRevision item > maximumItemRevision \<or>
         oRevisionID item \<noteq> vmMutationID m \<or> oRevision item \<noteq> vmBaseRevision m + 1 \<or>
         \<not> validOpaqueItemContent item \<or> len (oEnvelope item) > maximumItemEnvelopeSize
      then False
      else if (vmBaseRevision m = 0 \<and> length (oParents item) \<noteq> 0) \<or>
              (vmBaseRevision m > 0 \<and> length (oParents item) = 0) then False
      else valid_parents {} (oParents item))"

definition validMutations :: "vault_mutation list \<Rightarrow> bool" where
  "validMutations ms = list_all validMutation ms"

definition normalizeMutation :: "vault_mutation \<Rightarrow> vault_mutation" where
  "normalizeMutation m =
     (let item = vmItem m;
          item = (if oRevisionID item = [] then item\<lparr>oRevisionID := vmMutationID m\<rparr> else item)
      in m\<lparr>vmItem := item\<lparr>oParents := sort (oParents item)\<rparr>\<rparr>)"

definition normalizeMutations :: "vault_mutation list \<Rightarrow> vault_mutation list" where
  "normalizeMutations ms = map normalizeMutation ms"

definition parseSyncCursor :: "string \<Rightarrow> sync_error + nat" where
  "parseSyncCursor value =
     (if value = [] then Inr 0
      else case ParseUint value 63 of None \<Rightarrow> Inl ErrInvalidSyncCursor | Some c \<Rightarrow> Inr c)"

section \<open>The mutation digest\<close>

definition bool_text :: "bool \<Rightarrow> string" where
  "bool_text b = (if b then ''true'' else ''false'')"

abbreviation lf :: string where "lf \<equiv> [CHR 0x0A]"

definition digest_text :: "vault_mutation \<Rightarrow> string" where
  "digest_text m =
     (let item = vmItem m in
      vmMutationID m @ lf @ dec (unat (vmBaseRevision m)) @ lf @ oItemID item @ lf @
      int_text (oSchemaVersion item) @ lf @ dec (unat (oRevision item)) @ lf @ oRevisionID item @ lf @
      bool_text (oDeleted item) @ lf @ bool_text (oPurged item) @ lf @
      concat (map (\<lambda>p. p @ lf) (sort (oParents item))))"

definition digest_preimage :: "vault_mutation \<Rightarrow> bytes" where
  "digest_preimage m = string_bytes (digest_text m) @
     (case oEnvelope (vmItem m) of None \<Rightarrow> [] | Some b \<Rightarrow> b)"

definition vaultMutationDigest :: "pg_env \<Rightarrow> vault_mutation \<Rightarrow> bytes" where
  "vaultMutationDigest pg m = sha256 pg (digest_preimage m)"

section \<open>Array texts\<close>

text \<open>How PostgreSQL prints a \<open>uuid[]\<close>, and the parser of that text.\<close>

fun join_comma :: "string list \<Rightarrow> string" where
  "join_comma [] = []"
| "join_comma [x] = x"
| "join_comma (x # y # ys) = x @ '','' @ join_comma (y # ys)"

definition uuid_array_text :: "uuid list \<Rightarrow> string" where
  "uuid_array_text ids = ''{'' @ join_comma ids @ ''}''"

fun split_comma :: "string \<Rightarrow> string \<Rightarrow> string list" where
  "split_comma acc [] = [acc]"
| "split_comma acc (c # cs) = (if c = CHR '','' then acc # split_comma [] cs else split_comma (acc @ [c]) cs)"

definition parsePostgresUUIDArray :: "string \<Rightarrow> string list option" where
  "parsePostgresUUIDArray value =
     (if value = ''{}'' then Some []
      else if length value < 2 \<or> hd value \<noteq> CHR ''{'' \<or> last value \<noteq> CHR ''}'' then None
      else let entries = split_comma [] (butlast (tl value))
           in if list_all validUUID entries then Some entries else None)"

section \<open>Accepting one mutation\<close>

definition find_ledger :: "vault_db \<Rightarrow> string \<Rightarrow> uuid \<Rightarrow> ledger_row option" where
  "find_ledger db acc mid = find (\<lambda>r. lgAccount r = acc \<and> lgMutationID r = mid) (tLedger db)"

text \<open>The stored row is compared with the texts of the request as they were sent.\<close>

definition same_as_ledger :: "pg_env \<Rightarrow> vault_mutation \<Rightarrow> ledger_row \<Rightarrow> bool" where
  "same_as_ledger pg m r \<longleftrightarrow>
     \<not> (lgItemID r \<noteq> oItemID (vmItem m) \<or> lgBase r \<noteq> vmBaseRevision m \<or>
        lgRevision r \<noteq> oRevision (vmItem m) \<or> lgRevisionID r \<noteq> oRevisionID (vmItem m) \<or>
        lgDigest r \<noteq> vaultMutationDigest pg m)"

definition item_revisions_of :: "vault_db \<Rightarrow> string \<Rightarrow> uuid \<Rightarrow> revision_row list" where
  "item_revisions_of db acc i = filter (\<lambda>r. rvAccount r = acc \<and> rvItemID r = i) (tRevisions db)"

definition item_heads_of :: "vault_db \<Rightarrow> string \<Rightarrow> uuid \<Rightarrow> head_row list" where
  "item_heads_of db acc i = filter (\<lambda>h. hdAccount h = acc \<and> hdItemID h = i) (tHeads db)"

definition find_revision :: "vault_db \<Rightarrow> string \<Rightarrow> uuid \<Rightarrow> revision_row option" where
  "find_revision db acc r = find (\<lambda>x. rvAccount x = acc \<and> rvRevisionID x = r) (tRevisions db)"

definition initial_check :: "pg_env \<Rightarrow> vault_db \<Rightarrow> string \<Rightarrow> vault_mutation \<Rightarrow> sync_error + unit" where
  "initial_check pg db acc m =
     bind_e (option_e DbError (uuidIn pg (oItemID (vmItem m)))) (\<lambda>i.
     guard_e (item_revisions_of db acc i \<noteq> [] \<or> list_ex (\<lambda>r. itAccount r = acc \<and> itItemID r = i) (tItems db))
       ErrItemRevisionConflict)"

text \<open>\<open>heads JOIN revisions\<close>: the stored revision of each head row of the item.\<close>

definition head_revisions :: "vault_db \<Rightarrow> string \<Rightarrow> uuid \<Rightarrow> revision_row list" where
  "head_revisions db acc i = List.map_filter (\<lambda>h. find_revision db acc (hdRevisionID h)) (item_heads_of db acc i)"

definition parents_check :: "pg_env \<Rightarrow> vault_db \<Rightarrow> string \<Rightarrow> vault_mutation \<Rightarrow> sync_error + unit" where
  "parents_check pg db acc m =
     (let item = vmItem m in
     bind_e (option_e DbError (uuidIn pg (oItemID item))) (\<lambda>i.
     bind_e (option_e DbError (uuids_in pg (oParents item))) (\<lambda>ps.
       let found = filter (\<lambda>r. rvRevisionID r \<in> set ps) (item_revisions_of db acc i);
           maxRevision = fold (\<lambda>r mx. max mx (rvRevision r)) found 0
       in bind_e (guard_e (length found \<noteq> length (oParents item) \<or> maxRevision \<noteq> vmBaseRevision m)
            ErrItemRevisionConflict) (\<lambda>_.
       let heads = head_revisions db acc i;
           parentHeads = filter (\<lambda>r. rvRevisionID r \<in> set ps) heads;
           purgedParentHeads = filter rvPurged parentHeads
       in bind_e (guard_e (oPurged item \<and> length parentHeads \<noteq> length heads) ErrItemRevisionConflict) (\<lambda>_.
          guard_e (\<not> oDeleted item \<and> length (oParents item) = 1 \<and> length purgedParentHeads = 1)
            ErrItemRevisionConflict)))))"

definition ancestry_check :: "pg_env \<Rightarrow> vault_db \<Rightarrow> string \<Rightarrow> vault_mutation \<Rightarrow> sync_error + unit" where
  "ancestry_check pg db acc m =
     (if vmBaseRevision m = 0 then initial_check pg db acc m else parents_check pg db acc m)"

text \<open>The row the INSERT of \<open>applyVaultMutation\<close> writes; \<open>i\<close>, \<open>r\<close>, \<open>ps\<close> are the cast identifiers.\<close>

definition new_revision_row ::
  "string \<Rightarrow> vault_mutation \<Rightarrow> uuid \<Rightarrow> uuid \<Rightarrow> uuid list \<Rightarrow> time \<Rightarrow> revision_row" where
  "new_revision_row acc m i r ps acceptedAt =
     (let item = vmItem m in
      \<lparr>rvAccount = acc, rvRevisionID = r, rvItemID = i, rvSchema = oSchemaVersion item,
       rvRevision = oRevision item, rvParents = ps, rvEnvelope = oEnvelope item, rvDeleted = oDeleted item,
       rvPurged = oPurged item, rvContentPurged = oPurged item, rvCreatedAt = acceptedAt,
       rvTombstonedAt = (if oDeleted item then Some acceptedAt else None)\<rparr>)"

text \<open>\<open>INSERT ... ON CONFLICT DO NOTHING\<close>: no row inserted is a reused mutation ID.\<close>

definition insert_revision :: "vault_db \<Rightarrow> revision_row \<Rightarrow> sync_error + vault_db" where
  "insert_revision db row =
     bind_e (guard_e (\<not> check_revision_row row) DbError) (\<lambda>_.
     bind_e (guard_e (find_revision db (rvAccount row) (rvRevisionID row) \<noteq> None) ErrMutationIDReuse) (\<lambda>_.
     Inr (db\<lparr>tRevisions := tRevisions db @ [row]\<rparr>)))"

definition replace_heads :: "vault_db \<Rightarrow> revision_row \<Rightarrow> sync_error + vault_db" where
  "replace_heads db row =
     (let kept = filter (\<lambda>h. \<not> (hdAccount h = rvAccount row \<and> hdItemID h = rvItemID row \<and>
                   hdRevisionID h \<in> set (rvParents row))) (tHeads db);
          h = \<lparr>hdAccount = rvAccount row, hdItemID = rvItemID row, hdRevisionID = rvRevisionID row\<rparr>
      in if h \<in> set kept then Inl DbError else Inr (db\<lparr>tHeads := kept @ [h]\<rparr>))"

definition scrub_item :: "vault_db \<Rightarrow> revision_row \<Rightarrow> vault_db" where
  "scrub_item db row =
     (if rvPurged row then
        db\<lparr>tRevisions := map (\<lambda>r. if rvAccount r = rvAccount row \<and> rvItemID r = rvItemID row \<and>
                                  rvRevisionID r \<noteq> rvRevisionID row
                               then r\<lparr>rvEnvelope := None, rvContentPurged := True\<rparr> else r) (tRevisions db),
           tChanges := filter (\<lambda>c. \<not> (chAccount c = rvAccount row \<and> chItemID c = rvItemID row)) (tChanges db)\<rparr>
      else db)"

definition upsert_item :: "item_row list \<Rightarrow> item_row \<Rightarrow> item_row list" where
  "upsert_item rows new =
     (if list_ex (\<lambda>r. itAccount r = itAccount new \<and> itItemID r = itItemID new) rows
      then map (\<lambda>r. if itAccount r = itAccount new \<and> itItemID r = itItemID new then new else r) rows
      else rows @ [new])"

definition project_item :: "vault_db \<Rightarrow> revision_row \<Rightarrow> sync_error + vault_db" where
  "project_item db row =
     (if length (item_heads_of db (rvAccount row) (rvItemID row)) = 1 then
        bind_e (guard_e (\<not> check_content (rvSchema row) (rvRevision row) (rvDeleted row) (rvPurged row) (rvEnvelope row))
          DbError) (\<lambda>_.
        Inr (db\<lparr>tItems := upsert_item (tItems db)
          \<lparr>itAccount = rvAccount row, itItemID = rvItemID row, itSchema = rvSchema row,
           itRevision = rvRevision row, itDeleted = rvDeleted row, itPurged = rvPurged row,
           itEnvelope = rvEnvelope row\<rparr>\<rparr>))
      else Inr db)"

definition cursor_of :: "vault_db \<Rightarrow> string \<Rightarrow> nat" where
  "cursor_of db acc = (case fmlookup (tCursors db) acc of None \<Rightarrow> 0 | Some c \<Rightarrow> c)"

definition advance_cursor :: "vault_db \<Rightarrow> string \<Rightarrow> sync_error + (vault_db \<times> nat)" where
  "advance_cursor db acc =
     (let c = cursor_of db acc + 1
      in if c \<ge> 2 ^ 63 then Inl DbError else Inr (db\<lparr>tCursors := fmupd acc c (tCursors db)\<rparr>, c))"

definition record_change :: "vault_db \<Rightarrow> revision_row \<Rightarrow> nat \<Rightarrow> time \<Rightarrow> sync_error + vault_db" where
  "record_change db row c acceptedAt =
     bind_e (guard_e (\<not> check_content (rvSchema row) (rvRevision row) (rvDeleted row) (rvPurged row) (rvEnvelope row) \<or>
         list_ex (\<lambda>x. chAccount x = rvAccount row \<and> chCursor x = c) (tChanges db)) DbError) (\<lambda>_.
     Inr (db\<lparr>tChanges := tChanges db @
       [\<lparr>chAccount = rvAccount row, chCursor = c, chItemID = rvItemID row, chSchema = rvSchema row,
         chRevision = rvRevision row, chRevisionID = rvRevisionID row, chParents = rvParents row,
         chDeleted = rvDeleted row, chPurged = rvPurged row, chEnvelope = rvEnvelope row,
         chCreatedAt = acceptedAt\<rparr>]\<rparr>))"

definition record_ledger ::
  "vault_db \<Rightarrow> revision_row \<Rightarrow> uuid \<Rightarrow> u64 \<Rightarrow> bytes \<Rightarrow> nat \<Rightarrow> time \<Rightarrow> sync_error + vault_db" where
  "record_ledger db row mid base digest c acceptedAt =
     bind_e (guard_e (rvRevision row \<noteq> base + 1 \<or> find_ledger db (rvAccount row) mid \<noteq> None) DbError) (\<lambda>_.
     Inr (db\<lparr>tLedger := tLedger db @
       [\<lparr>lgAccount = rvAccount row, lgMutationID = mid, lgItemID = rvItemID row, lgBase = base,
         lgRevision = rvRevision row, lgRevisionID = rvRevisionID row, lgParents = rvParents row,
         lgDigest = digest, lgCursor = c, lgCreatedAt = acceptedAt\<rparr>]\<rparr>))"

definition append_mutation ::
  "pg_env \<Rightarrow> vault_db \<Rightarrow> string \<Rightarrow> vault_mutation \<Rightarrow> uuid \<Rightarrow> time \<Rightarrow> sync_error + vault_db" where
  "append_mutation pg db acc m mid acceptedAt =
     bind_e (option_e DbError (uuidIn pg (oRevisionID (vmItem m)))) (\<lambda>r.
     bind_e (option_e DbError (uuidIn pg (oItemID (vmItem m)))) (\<lambda>i.
     bind_e (option_e DbError (uuids_in pg (oParents (vmItem m)))) (\<lambda>ps.
       let row = new_revision_row acc m i r ps acceptedAt
       in bind_e (insert_revision db row) (\<lambda>db.
          bind_e (replace_heads db row) (\<lambda>db.
          bind_e (project_item (scrub_item db row) row) (\<lambda>db.
          bind_e (advance_cursor db acc) (\<lambda>(db, c).
          bind_e (record_change db row c acceptedAt) (\<lambda>db.
          record_ledger db row mid (vmBaseRevision m) (vaultMutationDigest pg m) c acceptedAt))))))))"

definition applyVaultMutation ::
  "pg_env \<Rightarrow> vault_db \<Rightarrow> string \<Rightarrow> vault_mutation \<Rightarrow> time \<Rightarrow> sync_error + (bool \<times> vault_db)" where
  "applyVaultMutation pg db acc m acceptedAt =
     bind_e (option_e DbError (uuidIn pg (vmMutationID m))) (\<lambda>mid.
     case find_ledger db acc mid of
       Some r \<Rightarrow> if \<not> same_as_ledger pg m r then Inl ErrMutationIDReuse else Inr (True, db)
     | None \<Rightarrow>
         bind_e (ancestry_check pg db acc m) (\<lambda>_.
         bind_e (append_mutation pg db acc m mid acceptedAt) (\<lambda>db. Inr (True, db))))"

section \<open>Expired trash\<close>

definition trashExpirationCutoff :: "time \<Rightarrow> time" where
  "trashExpirationCutoff now = now - trashRetention"

text \<open>
  The expired rows: the sole head of its item, deleted, not yet purged, tombstoned at or before the
  cutoff; in the order of the item UUIDs.
\<close>

definition is_expired :: "vault_db \<Rightarrow> string \<Rightarrow> time \<Rightarrow> head_row \<Rightarrow> revision_row \<Rightarrow> bool" where
  "is_expired db acc cutoff h r \<longleftrightarrow>
     rvDeleted r \<and> \<not> rvPurged r \<and>
     (case rvTombstonedAt r of None \<Rightarrow> False | Some t \<Rightarrow> t \<le> cutoff) \<and>
     \<not> list_ex (\<lambda>other. hdRevisionID other \<noteq> hdRevisionID h) (item_heads_of db acc (hdItemID h))"

definition expired_trash :: "vault_db \<Rightarrow> string \<Rightarrow> time \<Rightarrow> revision_row list" where
  "expired_trash db acc cutoff =
     sort_key rvItemID
       (List.map_filter (\<lambda>h.
          case find (\<lambda>r. rvAccount r = acc \<and> rvItemID r = hdItemID h \<and> rvRevisionID r = hdRevisionID h) (tRevisions db) of
            None \<Rightarrow> None
          | Some r \<Rightarrow> if is_expired db acc cutoff h r then Some r else None)
        (filter (\<lambda>h. hdAccount h = acc) (tHeads db)))"

definition tombstone_mutation :: "revision_row \<Rightarrow> uuid \<Rightarrow> vault_mutation" where
  "tombstone_mutation r tombstoneID =
     \<lparr>vmMutationID = tombstoneID, vmBaseRevision = rvRevision r,
      vmItem = \<lparr>oItemID = rvItemID r, oSchemaVersion = rvSchema r, oRevision = rvRevision r + 1,
                oRevisionID = tombstoneID, oParents = [rvRevisionID r], oDeleted = True, oPurged = True,
                oEnvelope = None\<rparr>\<rparr>"

fun purge_all :: "pg_env \<Rightarrow> string \<Rightarrow> time \<Rightarrow> nat \<Rightarrow> revision_row list \<Rightarrow> vault_db \<Rightarrow> sync_error + vault_db" where
  "purge_all pg acc acceptedAt n [] db = Inr db"
| "purge_all pg acc acceptedAt n (r # rs) db =
     (if sint (rvRevision r) \<ge> sint maximumItemRevision then Inl ErrItemRevisionConflict
      else bind_e (applyVaultMutation pg db acc (tombstone_mutation r (genUUID pg n)) acceptedAt)
             (\<lambda>(_, db). purge_all pg acc acceptedAt (Suc n) rs db))"

definition purgeExpiredVaultItems :: "pg_env \<Rightarrow> vault_db \<Rightarrow> string \<Rightarrow> time \<Rightarrow> sync_error + vault_db" where
  "purgeExpiredVaultItems pg db acc acceptedAt =
     purge_all pg acc acceptedAt 0 (expired_trash db acc (trashExpirationCutoff acceptedAt)) db"

section \<open>Answers\<close>

text \<open>A row read back: the parents pass through their text form.\<close>

definition read_revision :: "revision_row \<Rightarrow> sync_error + opaque_item" where
  "read_revision r =
     bind_e (option_e DbError (parsePostgresUUIDArray (uuid_array_text (rvParents r)))) (\<lambda>ps.
     Inr \<lparr>oItemID = rvItemID r, oSchemaVersion = rvSchema r, oRevision = rvRevision r,
          oRevisionID = rvRevisionID r, oParents = ps, oDeleted = rvDeleted r, oPurged = rvPurged r,
          oEnvelope = rvEnvelope r\<rparr>)"

definition read_change :: "change_row \<Rightarrow> sync_error + opaque_item" where
  "read_change c =
     bind_e (option_e DbError (parsePostgresUUIDArray (uuid_array_text (chParents c)))) (\<lambda>ps.
     Inr \<lparr>oItemID = chItemID c, oSchemaVersion = chSchema c, oRevision = chRevision c,
          oRevisionID = chRevisionID c, oParents = ps, oDeleted = chDeleted c, oPurged = chPurged c,
          oEnvelope = chEnvelope c\<rparr>)"

fun map_e :: "('a \<Rightarrow> 'e + 'b) \<Rightarrow> 'a list \<Rightarrow> 'e + 'b list" where
  "map_e f [] = Inr []"
| "map_e f (x # xs) = bind_e (f x) (\<lambda>y. bind_e (map_e f xs) (\<lambda>ys. Inr (y # ys)))"

definition snapshot_rows :: "vault_db \<Rightarrow> string \<Rightarrow> revision_row list" where
  "snapshot_rows db acc =
     sort_key (\<lambda>r. (rvItemID r, rvRevisionID r))
       (List.map_filter (\<lambda>h.
          find (\<lambda>r. rvAccount r = acc \<and> rvItemID r = hdItemID h \<and> rvRevisionID r = hdRevisionID h) (tRevisions db))
        (filter (\<lambda>h. hdAccount h = acc) (tHeads db)))"

definition appendVaultSnapshot :: "vault_db \<Rightarrow> string \<Rightarrow> sync_error + opaque_item list" where
  "appendVaultSnapshot db acc = map_e read_revision (snapshot_rows db acc)"

definition prune_changes :: "vault_db \<Rightarrow> string \<Rightarrow> time \<Rightarrow> vault_db" where
  "prune_changes db acc cutoff =
     db\<lparr>tChanges := filter (\<lambda>c. \<not> (chAccount c = acc \<and> chCreatedAt c < cutoff)) (tChanges db)\<rparr>"

fun apply_all ::
  "pg_env \<Rightarrow> string \<Rightarrow> time \<Rightarrow> vault_mutation list \<Rightarrow> vault_db \<Rightarrow> sync_error + (string list \<times> vault_db)" where
  "apply_all pg acc acceptedAt [] db = Inr ([], db)"
| "apply_all pg acc acceptedAt (m # ms) db =
     bind_e (applyVaultMutation pg db acc m acceptedAt) (\<lambda>(applied, db).
     bind_e (apply_all pg acc acceptedAt ms db) (\<lambda>(ids, db).
     Inr (if applied then vmMutationID m # ids else ids, db)))"

definition retained_changes :: "vault_db \<Rightarrow> string \<Rightarrow> nat \<Rightarrow> nat \<Rightarrow> nat" where
  "retained_changes db acc lo hi =
     length (filter (\<lambda>c. chAccount c = acc \<and> lo < chCursor c \<and> chCursor c \<le> hi) (tChanges db))"

definition changes_after :: "vault_db \<Rightarrow> string \<Rightarrow> nat \<Rightarrow> change_row list" where
  "changes_after db acc lo =
     take 500 (sort_key chCursor (filter (\<lambda>c. chAccount c = acc \<and> lo < chCursor c) (tChanges db)))"

definition answer :: "vault_db \<Rightarrow> string \<Rightarrow> nat \<Rightarrow> string list \<Rightarrow> sync_error + vault_sync_result" where
  "answer db acc inputCursor applied =
     (let currentCursor = cursor_of db acc
      in if inputCursor > currentCursor then Inl ErrInvalidSyncCursor
         else if retained_changes db acc inputCursor currentCursor \<noteq> currentCursor - inputCursor then
           bind_e (appendVaultSnapshot db acc) (\<lambda>items.
           Inr \<lparr>vsCursor = dec currentCursor, vsFullSnapshot = True, vsApplied = applied, vsChanges = items\<rparr>)
         else let rows = changes_after db acc inputCursor in
           bind_e (map_e read_change rows) (\<lambda>items.
           Inr \<lparr>vsCursor = dec (if rows = [] then inputCursor else chCursor (last rows)),
                vsFullSnapshot = False, vsApplied = applied, vsChanges = items\<rparr>))"

text \<open>
  The transaction as a whole: any error rolls it back, so a failed \<open>Sync\<close> has no new state;
  the serializable isolation makes concurrent calls a sequence.
\<close>

definition Sync ::
  "pg_env \<Rightarrow> vault_db \<Rightarrow> string \<Rightarrow> string \<Rightarrow> vault_mutation list \<Rightarrow> time \<Rightarrow> sync_error + (vault_sync_result \<times> vault_db)" where
  "Sync pg db acc cursor ms acceptedAt =
     bind_e (parseSyncCursor cursor) (\<lambda>inputCursor.
     bind_e (purgeExpiredVaultItems pg (prune_changes db acc (acceptedAt - syncChangeRetention)) acc acceptedAt) (\<lambda>db.
     bind_e (apply_all pg acc acceptedAt ms db) (\<lambda>(applied, db).
     bind_e (answer db acc inputCursor applied) (\<lambda>result. Inr (result, db)))))"

section \<open>The put/list pair\<close>

text \<open>
  \<open>INSERT ... SELECT ... WHERE $4 = 1 ON CONFLICT (...) DO UPDATE ... WHERE revision + 1 = EXCLUDED.revision\<close>:
  the select produces the row to insert only for revision 1; the conflict clause acts on a row that
  is being inserted. The update leaves \<open>deleted\<close> and \<open>purged\<close> as they are.
  The result is the number of affected rows, read by \<open>PutItem\<close>.
\<close>

definition put_rows :: "string \<Rightarrow> uuid \<Rightarrow> opaque_item \<Rightarrow> item_row list" where
  "put_rows acc i item =
     filter (\<lambda>_. oRevision item = 1)
       [\<lparr>itAccount = acc, itItemID = i, itSchema = oSchemaVersion item, itRevision = oRevision item,
         itDeleted = False, itPurged = False, itEnvelope = oEnvelope item\<rparr>]"

definition upsert_next :: "vault_db \<Rightarrow> item_row \<Rightarrow> sync_error + (nat \<times> vault_db)" where
  "upsert_next db new =
     (if \<not> check_content (itSchema new) (itRevision new) (itDeleted new) (itPurged new) (itEnvelope new)
      then Inl DbError
      else case find (\<lambda>r. itAccount r = itAccount new \<and> itItemID r = itItemID new) (tItems db) of
        None \<Rightarrow> Inr (1, db\<lparr>tItems := tItems db @ [new]\<rparr>)
      | Some old \<Rightarrow>
          if itRevision old + 1 \<noteq> itRevision new then Inr (0, db)
          else let upd = old\<lparr>itSchema := itSchema new, itRevision := itRevision new, itEnvelope := itEnvelope new\<rparr>
               in if \<not> check_content (itSchema upd) (itRevision upd) (itDeleted upd) (itPurged upd) (itEnvelope upd)
                  then Inl DbError else Inr (1, db\<lparr>tItems := upsert_item (tItems db) upd\<rparr>))"

definition PutItem :: "pg_env \<Rightarrow> vault_db \<Rightarrow> string \<Rightarrow> opaque_item \<Rightarrow> sync_error + vault_db" where
  "PutItem pg db acc item =
     bind_e (option_e DbError (uuidIn pg (oItemID item))) (\<lambda>i.
     bind_e (case put_rows acc i item of [] \<Rightarrow> Inr (0, db) | row # _ \<Rightarrow> upsert_next db row) (\<lambda>(count, db).
     if count = 0 then Inl ErrItemRevisionConflict else Inr db))"

definition ListItems :: "vault_db \<Rightarrow> string \<Rightarrow> opaque_item list" where
  "ListItems db acc =
     map (\<lambda>r. \<lparr>oItemID = itItemID r, oSchemaVersion = itSchema r, oRevision = itRevision r, oRevisionID = [],
               oParents = [], oDeleted = itDeleted r, oPurged = itPurged r, oEnvelope = itEnvelope r\<rparr>)
       (sort_key itItemID (filter (\<lambda>r. itAccount r = acc \<and> \<not> itDeleted r) (tItems db)))"

end
