(* ===== verification/AccountStore.thy ===== *)
theory AccountStore
  imports SyncStore
begin

text \<open>
  The account side of the database (\<open>internal/server/db.go\<close>, first half): accounts with
  their OPAQUE records and vault envelopes, access tokens, invitations, audit events. A table is
  the list of its rows or, for the two tables keyed by the account alone, a map. The constraints
  of migrations 0001 to 0005 (primary keys, the unique e-mail and session, the foreign keys to
  accounts) are checked where a statement could violate them. Any statement may fail besides:
  \<open>fault env m\<close> makes the method \<open>m\<close> fail without an effect, as a lost connection or
  an aborted transaction does. Timestamps keep their nanoseconds.
\<close>

section \<open>Records\<close>

datatype store_error =
    ErrBootstrapClosed | ErrAccountNotFound | ErrAccessTokenNotFound | ErrSessionNotFound
  | ErrInviteNotFound | ErrInvalidInvite | StoreFailed

record stored_access_token =
  stTokenHash :: bytes
  stSessionID :: string
  stAccountID :: string
  stEmail :: string
  stAdministrator :: bool
  stHost :: string
  stSourceIP :: string
  stCreatedAt :: time
  stLastUsedAt :: time
  stRevokedAt :: time

record bootstrap_account =
  baAccountID :: string
  baEmail :: string
  baAdministrator :: bool
  baOpaqueRecord :: bytes
  baPasswordVaultEnvelope :: bytes
  baRecoveryVaultEnvelope :: bytes

record stored_account =
  saAccountID :: string
  saEmail :: string
  saAdministrator :: bool
  saOpaqueRecord :: bytes
  saPasswordVaultEnvelope :: bytes
  saRecoveryVaultEnvelope :: bytes

record stored_invite =
  siInviteID :: string
  siEmail :: string
  siTokenHash :: bytes
  siCreatedBy :: string
  siCreatedAt :: time
  siExpiresAt :: time
  siConsumedBy :: string
  siConsumedAt :: time
  siRevokedAt :: time

record account_summary =
  asAccountID :: string
  asEmail :: string
  asStatus :: string

record audit_event =
  aeEventID :: string
  aeType :: string
  aeAccountID :: string
  aeActorID :: string
  aeSessionID :: string
  aeInviteID :: string
  aeSourceIP :: string
  aeOccurredAt :: time

record audit_query =
  aqAccountID :: string
  aqBeforeAt :: time
  aqBeforeID :: string
  aqLimit :: nat

section \<open>Tables\<close>

record account_row =
  acID :: uuid
  acEmail :: string
  acAdministrator :: bool
  acCreatedAt :: time

record token_row =
  tkHash :: bytes
  tkSession :: uuid
  tkAccount :: uuid
  tkEmail :: string
  tkAdministrator :: bool
  tkHost :: string
  tkSourceIP :: string
  tkCreatedAt :: time
  tkLastUsedAt :: time
  tkRevokedAt :: "time option"

record invite_row =
  ivID :: uuid
  ivEmail :: string
  ivTokenHash :: bytes
  ivCreatedBy :: uuid
  ivCreatedAt :: time
  ivExpiresAt :: time
  ivConsumedBy :: "uuid option"
  ivConsumedAt :: "time option"
  ivRevokedAt :: "time option"

record event_row =
  evID :: uuid
  evType :: string
  evAccount :: "uuid option"
  evActor :: "uuid option"
  evSession :: "uuid option"
  evInvite :: "uuid option"
  evSourceIP :: string
  evOccurredAt :: time

record auth_db =
  dAccounts :: "account_row list"
  dOpaque :: "(uuid, bytes) fmap"
  dEnvelopes :: "(uuid, bytes \<times> bytes) fmap"
  dTokens :: "token_row list"
  dInvites :: "invite_row list"
  dEvents :: "event_row list"

text \<open>
  What surrounds a request: PostgreSQL's UUID cast and the digest (\<open>pg\<close>), failing methods,
  the database clock, and, by the name of the place that asks, the readings of \<open>time.Now\<close>
  and what \<open>rand.Read\<close> delivers (\<open>None\<close> for its error).
\<close>

record store_env =
  pg :: pg_env
  fault :: "string \<Rightarrow> bool"
  dbNow :: time
  clock :: "string \<Rightarrow> time"
  rnd :: "string \<Rightarrow> bytes option"

definition stmt :: "'a store_env_scheme \<Rightarrow> string \<Rightarrow> store_error + unit" where
  "stmt env name = guard_e (fault env name) StoreFailed"

definition as_uuid :: "'a store_env_scheme \<Rightarrow> string \<Rightarrow> store_error + uuid" where
  "as_uuid env s = option_e StoreFailed (uuidIn (pg env) s)"

section \<open>Accounts\<close>

definition InstanceEmpty :: "'a store_env_scheme \<Rightarrow> auth_db \<Rightarrow> store_error + bool" where
  "InstanceEmpty env db = bind_e (stmt env ''InstanceEmpty'') (\<lambda>_. Inr (dAccounts db = []))"

text \<open>The three INSERT statements both registration transactions issue.\<close>

definition insert_account ::
  "'a store_env_scheme \<Rightarrow> auth_db \<Rightarrow> bootstrap_account \<Rightarrow> bool \<Rightarrow> store_error + (uuid \<times> auth_db)" where
  "insert_account env db account admin =
     bind_e (as_uuid env (baAccountID account)) (\<lambda>i.
     bind_e (guard_e (list_ex (\<lambda>r. acID r = i \<or> acEmail r = baEmail account) (dAccounts db)) StoreFailed) (\<lambda>_.
     bind_e (guard_e (i |\<in>| fmdom (dOpaque db)) StoreFailed) (\<lambda>_.
     bind_e (guard_e (i |\<in>| fmdom (dEnvelopes db)) StoreFailed) (\<lambda>_.
     Inr (i, db\<lparr>
       dAccounts := dAccounts db @ [\<lparr>acID = i, acEmail = baEmail account, acAdministrator = admin, acCreatedAt = dbNow env\<rparr>],
       dOpaque := fmupd i (baOpaqueRecord account) (dOpaque db),
       dEnvelopes := fmupd i (baPasswordVaultEnvelope account, baRecoveryVaultEnvelope account) (dEnvelopes db)\<rparr>)))))"

text \<open>
  The advisory lock makes concurrent bootstraps a sequence; the transaction either commits all
  three rows or none.
\<close>

definition CreateBootstrap ::
  "'a store_env_scheme \<Rightarrow> auth_db \<Rightarrow> bootstrap_account \<Rightarrow> store_error + auth_db" where
  "CreateBootstrap env db account =
     bind_e (stmt env ''CreateBootstrap'') (\<lambda>_.
     if dAccounts db \<noteq> [] then Inl ErrBootstrapClosed
     else bind_e (insert_account env db account (baAdministrator account)) (\<lambda>(i, db). Inr db))"

definition FindAccount :: "'a store_env_scheme \<Rightarrow> auth_db \<Rightarrow> string \<Rightarrow> store_error + stored_account" where
  "FindAccount env db email =
     bind_e (stmt env ''FindAccount'') (\<lambda>_.
     case find (\<lambda>r. acEmail r = email) (dAccounts db) of
       None \<Rightarrow> Inl ErrAccountNotFound
     | Some a \<Rightarrow>
         (case (fmlookup (dOpaque db) (acID a), fmlookup (dEnvelopes db) (acID a)) of
            (Some record, Some (password, recovery)) \<Rightarrow>
              Inr \<lparr>saAccountID = acID a, saEmail = acEmail a, saAdministrator = acAdministrator a,
                   saOpaqueRecord = record, saPasswordVaultEnvelope = password,
                   saRecoveryVaultEnvelope = recovery\<rparr>
          | _ \<Rightarrow> Inl ErrAccountNotFound))"

definition ListAccounts :: "'a store_env_scheme \<Rightarrow> auth_db \<Rightarrow> store_error + account_summary list" where
  "ListAccounts env db =
     bind_e (stmt env ''ListAccounts'') (\<lambda>_.
     Inr (map (\<lambda>r. \<lparr>asAccountID = acID r, asEmail = acEmail r, asStatus = ''active''\<rparr>)
       (sort_key (\<lambda>r. (acCreatedAt r, acID r)) (dAccounts db))))"

section \<open>Access tokens\<close>

definition CreateAccessToken ::
  "'a store_env_scheme \<Rightarrow> auth_db \<Rightarrow> stored_access_token \<Rightarrow> store_error + auth_db" where
  "CreateAccessToken env db token =
     bind_e (stmt env ''CreateAccessToken'') (\<lambda>_.
     bind_e (as_uuid env (stSessionID token)) (\<lambda>s.
     bind_e (as_uuid env (stAccountID token)) (\<lambda>a.
     bind_e (guard_e (list_ex (\<lambda>r. tkHash r = stTokenHash token \<or> tkSession r = s) (dTokens db)) StoreFailed) (\<lambda>_.
     bind_e (guard_e (\<not> list_ex (\<lambda>r. acID r = a) (dAccounts db)) StoreFailed) (\<lambda>_.
     Inr (db\<lparr>dTokens := dTokens db @
       [\<lparr>tkHash = stTokenHash token, tkSession = s, tkAccount = a, tkEmail = stEmail token,
         tkAdministrator = stAdministrator token, tkHost = stHost token, tkSourceIP = stSourceIP token,
         tkCreatedAt = stCreatedAt token, tkLastUsedAt = stLastUsedAt token, tkRevokedAt = None\<rparr>]\<rparr>))))))"

definition token_of_row :: "token_row \<Rightarrow> stored_access_token" where
  "token_of_row r =
     \<lparr>stTokenHash = tkHash r, stSessionID = tkSession r, stAccountID = tkAccount r, stEmail = tkEmail r,
      stAdministrator = tkAdministrator r, stHost = tkHost r, stSourceIP = tkSourceIP r,
      stCreatedAt = tkCreatedAt r, stLastUsedAt = tkLastUsedAt r,
      stRevokedAt = (case tkRevokedAt r of None \<Rightarrow> 0 | Some t \<Rightarrow> t)\<rparr>"

definition FindAccessToken :: "'a store_env_scheme \<Rightarrow> auth_db \<Rightarrow> bytes \<Rightarrow> store_error + stored_access_token" where
  "FindAccessToken env db hash =
     bind_e (stmt env ''FindAccessToken'') (\<lambda>_.
     case find (\<lambda>r. tkHash r = hash) (dTokens db) of
       None \<Rightarrow> Inl ErrAccessTokenNotFound
     | Some r \<Rightarrow> Inr (token_of_row r))"

definition TouchAccessToken :: "'a store_env_scheme \<Rightarrow> auth_db \<Rightarrow> bytes \<Rightarrow> time \<Rightarrow> store_error + auth_db" where
  "TouchAccessToken env db hash now =
     bind_e (stmt env ''TouchAccessToken'') (\<lambda>_.
     if list_ex (\<lambda>r. tkHash r = hash) (dTokens db)
     then Inr (db\<lparr>dTokens := map (\<lambda>r. if tkHash r = hash then r\<lparr>tkLastUsedAt := now\<rparr> else r) (dTokens db)\<rparr>)
     else Inl ErrAccessTokenNotFound)"

definition ListSessions :: "'a store_env_scheme \<Rightarrow> auth_db \<Rightarrow> string \<Rightarrow> store_error + stored_access_token list" where
  "ListSessions env db accountID =
     bind_e (stmt env ''ListSessions'') (\<lambda>_.
     bind_e (as_uuid env accountID) (\<lambda>a.
     Inr (map (\<lambda>r. \<lparr>stTokenHash = [], stSessionID = tkSession r, stAccountID = tkAccount r, stEmail = [],
                    stAdministrator = False, stHost = tkHost r, stSourceIP = tkSourceIP r,
                    stCreatedAt = tkCreatedAt r, stLastUsedAt = tkLastUsedAt r, stRevokedAt = 0\<rparr>)
       (sort_key (\<lambda>r. (- tkCreatedAt r, tkSession r))
         (filter (\<lambda>r. tkAccount r = a \<and> tkRevokedAt r = None) (dTokens db))))))"

definition revocable :: "uuid \<Rightarrow> uuid \<Rightarrow> token_row \<Rightarrow> bool" where
  "revocable a s r \<longleftrightarrow> tkAccount r = a \<and> tkSession r = s \<and> tkRevokedAt r = None"

definition RevokeSession ::
  "'a store_env_scheme \<Rightarrow> auth_db \<Rightarrow> string \<Rightarrow> string \<Rightarrow> time \<Rightarrow> store_error + auth_db" where
  "RevokeSession env db accountID sessionID now =
     bind_e (stmt env ''RevokeSession'') (\<lambda>_.
     bind_e (as_uuid env accountID) (\<lambda>a.
     bind_e (as_uuid env sessionID) (\<lambda>s.
     if list_ex (revocable a s) (dTokens db)
     then Inr (db\<lparr>dTokens := map (\<lambda>r. if revocable a s r then r\<lparr>tkRevokedAt := Some now\<rparr> else r) (dTokens db)\<rparr>)
     else Inl ErrSessionNotFound)))"

section \<open>Invitations\<close>

definition CreateInvite :: "'a store_env_scheme \<Rightarrow> auth_db \<Rightarrow> stored_invite \<Rightarrow> store_error + auth_db" where
  "CreateInvite env db invite =
     bind_e (stmt env ''CreateInvite'') (\<lambda>_.
     bind_e (as_uuid env (siInviteID invite)) (\<lambda>i.
     bind_e (as_uuid env (siCreatedBy invite)) (\<lambda>by.
     bind_e (guard_e (list_ex (\<lambda>r. ivID r = i) (dInvites db)) StoreFailed) (\<lambda>_.
     bind_e (guard_e (\<not> list_ex (\<lambda>r. acID r = by) (dAccounts db)) StoreFailed) (\<lambda>_.
     Inr (db\<lparr>dInvites := dInvites db @
       [\<lparr>ivID = i, ivEmail = siEmail invite, ivTokenHash = siTokenHash invite, ivCreatedBy = by,
         ivCreatedAt = siCreatedAt invite, ivExpiresAt = siExpiresAt invite, ivConsumedBy = None,
         ivConsumedAt = None, ivRevokedAt = None\<rparr>]\<rparr>))))))"

definition invite_of_row :: "invite_row \<Rightarrow> stored_invite" where
  "invite_of_row r =
     \<lparr>siInviteID = ivID r, siEmail = ivEmail r, siTokenHash = ivTokenHash r, siCreatedBy = ivCreatedBy r,
      siCreatedAt = ivCreatedAt r, siExpiresAt = ivExpiresAt r,
      siConsumedBy = (case ivConsumedBy r of None \<Rightarrow> [] | Some a \<Rightarrow> a),
      siConsumedAt = (case ivConsumedAt r of None \<Rightarrow> 0 | Some t \<Rightarrow> t),
      siRevokedAt = (case ivRevokedAt r of None \<Rightarrow> 0 | Some t \<Rightarrow> t)\<rparr>"

definition ListInvites :: "'a store_env_scheme \<Rightarrow> auth_db \<Rightarrow> store_error + stored_invite list" where
  "ListInvites env db =
     bind_e (stmt env ''ListInvites'') (\<lambda>_.
     Inr (map invite_of_row (sort_key (\<lambda>r. - ivCreatedAt r) (dInvites db))))"

definition pending_invite :: "invite_row \<Rightarrow> bool" where
  "pending_invite r \<longleftrightarrow> ivRevokedAt r = None \<and> ivConsumedAt r = None"

definition RevokeInvite :: "'a store_env_scheme \<Rightarrow> auth_db \<Rightarrow> string \<Rightarrow> store_error + auth_db" where
  "RevokeInvite env db inviteID =
     bind_e (stmt env ''RevokeInvite'') (\<lambda>_.
     bind_e (as_uuid env inviteID) (\<lambda>i.
     if list_ex (\<lambda>r. ivID r = i \<and> pending_invite r) (dInvites db)
     then Inr (db\<lparr>dInvites := map (\<lambda>r. if ivID r = i \<and> pending_invite r
                                       then r\<lparr>ivRevokedAt := Some (dbNow env)\<rparr> else r) (dInvites db)\<rparr>)
     else Inl ErrInviteNotFound))"

definition usable_invite :: "bytes \<Rightarrow> string \<Rightarrow> time \<Rightarrow> invite_row \<Rightarrow> bool" where
  "usable_invite hash email now r \<longleftrightarrow>
     ivTokenHash r = hash \<and> ivEmail r = email \<and> ivConsumedAt r = None \<and> ivRevokedAt r = None \<and>
     ivExpiresAt r > now"

definition ValidateInvite ::
  "'a store_env_scheme \<Rightarrow> auth_db \<Rightarrow> bytes \<Rightarrow> string \<Rightarrow> time \<Rightarrow> store_error + unit" where
  "ValidateInvite env db hash email now =
     bind_e (stmt env ''ValidateInvite'') (\<lambda>_.
     guard_e (\<not> list_ex (usable_invite hash email now) (dInvites db)) ErrInvalidInvite)"

text \<open>The row lock of \<open>FOR UPDATE\<close> makes two finishing registrations a sequence.\<close>

definition CreateInvitedAccount ::
  "'a store_env_scheme \<Rightarrow> auth_db \<Rightarrow> bytes \<Rightarrow> bootstrap_account \<Rightarrow> time \<Rightarrow> store_error + auth_db" where
  "CreateInvitedAccount env db hash account now =
     bind_e (stmt env ''CreateInvitedAccount'') (\<lambda>_.
     case find (usable_invite hash (baEmail account) now) (dInvites db) of
       None \<Rightarrow> Inl ErrInvalidInvite
     | Some invite \<Rightarrow>
         bind_e (insert_account env db account False) (\<lambda>(i, db).
         Inr (db\<lparr>dInvites := map (\<lambda>r. if ivID r = ivID invite
                                      then r\<lparr>ivConsumedBy := Some i, ivConsumedAt := Some now\<rparr> else r)
                               (dInvites db)\<rparr>)))"

section \<open>Audit events\<close>

text \<open>
  Newest first, ties by descending UUID; \<open>BeforeAt\<close> and \<open>BeforeID\<close> continue after the
  last event of the previous page, compared as a row value.
\<close>

definition before_page :: "time \<times> uuid \<Rightarrow> event_row \<Rightarrow> bool" where
  "before_page c r \<longleftrightarrow> (evOccurredAt r, evID r) < c"

definition event_of_row :: "event_row \<Rightarrow> audit_event" where
  "event_of_row r =
     (let text_of = (\<lambda>u. case u of None \<Rightarrow> [] | Some s \<Rightarrow> s)
      in \<lparr>aeEventID = evID r, aeType = evType r, aeAccountID = text_of (evAccount r), aeActorID = text_of (evActor r),
          aeSessionID = text_of (evSession r), aeInviteID = text_of (evInvite r), aeSourceIP = evSourceIP r,
          aeOccurredAt = evOccurredAt r\<rparr>)"

definition ordered_events :: "event_row list \<Rightarrow> event_row list" where
  "ordered_events rows = rev (sort_key (\<lambda>r. (evOccurredAt r, evID r)) rows)"

definition ListAuditEvents :: "'a store_env_scheme \<Rightarrow> auth_db \<Rightarrow> audit_query \<Rightarrow> store_error + audit_event list" where
  "ListAuditEvents env db query =
     bind_e (stmt env ''ListAuditEvents'') (\<lambda>_.
     bind_e (if aqAccountID query \<noteq> [] then map_sum id Some (as_uuid env (aqAccountID query)) else Inr None) (\<lambda>account.
     bind_e (if \<not> is_zero_time (aqBeforeAt query)
             then map_sum id (\<lambda>i. Some (aqBeforeAt query, i)) (as_uuid env (aqBeforeID query)) else Inr None) (\<lambda>before.
     Inr (map event_of_row (take (aqLimit query) (ordered_events
       (filter (\<lambda>r. (account = None \<or> evAccount r = account) \<and>
                    (case before of None \<Rightarrow> True | Some c \<Rightarrow> before_page c r)) (dEvents db))))))))"

definition nullableUUID :: "'a store_env_scheme \<Rightarrow> string \<Rightarrow> store_error + uuid option" where
  "nullableUUID env value = (if value = [] then Inr None else map_sum id Some (as_uuid env value))"

definition CreateAuditEvent :: "'a store_env_scheme \<Rightarrow> auth_db \<Rightarrow> audit_event \<Rightarrow> store_error + auth_db" where
  "CreateAuditEvent env db event =
     bind_e (stmt env ''CreateAuditEvent'') (\<lambda>_.
     bind_e (as_uuid env (aeEventID event)) (\<lambda>i.
     bind_e (nullableUUID env (aeAccountID event)) (\<lambda>account.
     bind_e (nullableUUID env (aeActorID event)) (\<lambda>actor.
     bind_e (nullableUUID env (aeSessionID event)) (\<lambda>session.
     bind_e (nullableUUID env (aeInviteID event)) (\<lambda>invite.
     bind_e (guard_e (list_ex (\<lambda>r. evID r = i) (dEvents db)) StoreFailed) (\<lambda>_.
     Inr (db\<lparr>dEvents := dEvents db @
       [\<lparr>evID = i, evType = aeType event, evAccount = account, evActor = actor, evSession = session,
         evInvite = invite, evSourceIP = aeSourceIP event, evOccurredAt = aeOccurredAt event\<rparr>]\<rparr>))))))))"

definition DeleteAuditEventsBefore :: "'a store_env_scheme \<Rightarrow> auth_db \<Rightarrow> time \<Rightarrow> store_error + auth_db" where
  "DeleteAuditEventsBefore env db cutoff =
     bind_e (stmt env ''DeleteAuditEventsBefore'') (\<lambda>_.
     Inr (db\<lparr>dEvents := filter (\<lambda>r. \<not> evOccurredAt r < cutoff) (dEvents db)\<rparr>))"

end
