(* ===== verification/GoText.thy ===== *)
theory GoText
  imports Prelude
begin

text \<open>
  The parts of Go's standard library the server's handlers use on texts: \<open>strings.TrimSpace\<close>
  and the case conversions (over ASCII; a byte above 127 is neither trimmed nor changed),
  \<open>strings.HasPrefix\<close>, \<open>strings.Cut\<close>, \<open>strings.Split\<close>, \<open>strconv.ParseInt\<close>, the two raw base64
  encodings, and the framing of a JSON request body.
\<close>

section \<open>strings\<close>

definition is_space :: "char \<Rightarrow> bool" where
  "is_space c \<longleftrightarrow> c \<in> {CHR 0x09, CHR 0x0A, CHR 0x0B, CHR 0x0C, CHR 0x0D, CHR '' ''}"

definition TrimSpace :: "string \<Rightarrow> string" where
  "TrimSpace s = rev (dropWhile is_space (rev (dropWhile is_space s)))"

definition lower_char :: "char \<Rightarrow> char" where
  "lower_char c = (let n = (of_char c :: nat) in if 65 \<le> n \<and> n \<le> 90 then char_of (n + 32) else c)"

definition ToLower :: "string \<Rightarrow> string" where
  "ToLower s = map lower_char s"

definition upper_char :: "char \<Rightarrow> char" where
  "upper_char c = (let n = (of_char c :: nat) in if 97 \<le> n \<and> n \<le> 122 then char_of (n - 32) else c)"

definition ToUpper :: "string \<Rightarrow> string" where
  "ToUpper s = map upper_char s"

text \<open>\<open>strings.EqualFold\<close> against a text without \<open>k\<close> and \<open>s\<close>, whose letters have no fold outside ASCII.\<close>

definition EqualFold :: "string \<Rightarrow> string \<Rightarrow> bool" where
  "EqualFold s t \<longleftrightarrow> ToLower s = ToLower t"

text \<open>\<open>strings.Join(strings.Fields(s), "")\<close>\<close>

definition without_spaces :: "string \<Rightarrow> string" where
  "without_spaces s = filter (\<lambda>c. \<not> is_space c) s"

definition TrimRight :: "string \<Rightarrow> char \<Rightarrow> string" where
  "TrimRight s c = rev (dropWhile (\<lambda>x. x = c) (rev s))"

fun Cut :: "string \<Rightarrow> char \<Rightarrow> (string \<times> string) option" where
  "Cut [] sep = None"
| "Cut (c # cs) sep =
     (if c = sep then Some ([], cs) else map_option (\<lambda>(before, after). (c # before, after)) (Cut cs sep))"

definition HasPrefix :: "string \<Rightarrow> string \<Rightarrow> bool" where
  "HasPrefix s prefix \<longleftrightarrow> take (length prefix) s = prefix"

fun split_on :: "char \<Rightarrow> string \<Rightarrow> string \<Rightarrow> string list" where
  "split_on sep acc [] = [acc]"
| "split_on sep acc (c # cs) = (if c = sep then acc # split_on sep [] cs else split_on sep (acc @ [c]) cs)"

definition Split :: "string \<Rightarrow> char \<Rightarrow> string list" where
  "Split s sep = split_on sep [] s"

lemma split_on_nonempty [simp]: "split_on sep acc s \<noteq> []"
  by (induction s arbitrary: acc) simp_all

section \<open>strconv.ParseInt\<close>

definition ParseInt :: "string \<Rightarrow> int option" where
  "ParseInt s =
     (case s of
        [] \<Rightarrow> None
      | c # cs \<Rightarrow>
          if c = CHR ''-'' then
            (case ParseUint cs 64 of None \<Rightarrow> None | Some n \<Rightarrow> if n > 2 ^ 63 then None else Some (- int n))
          else (case ParseUint (if c = CHR ''+'' then cs else s) 64 of
                  None \<Rightarrow> None | Some n \<Rightarrow> if n \<ge> 2 ^ 63 then None else Some (int n)))"

section \<open>encoding/base64: RawStdEncoding and RawURLEncoding\<close>

datatype alphabet = StdAlphabet | URLAlphabet

definition sextet_char :: "alphabet \<Rightarrow> nat \<Rightarrow> char" where
  "sextet_char al n =
     (if n < 26 then char_of (65 + n) else if n < 52 then char_of (71 + n)
      else if n < 62 then char_of (n - 4)
      else if n = 62 then (if al = StdAlphabet then CHR ''+'' else CHR ''-'')
      else (if al = StdAlphabet then CHR ''/'' else CHR ''_''))"

definition sextet_of :: "alphabet \<Rightarrow> char \<Rightarrow> nat option" where
  "sextet_of al c =
     (let n = (of_char c :: nat)
      in if 65 \<le> n \<and> n \<le> 90 then Some (n - 65) else if 97 \<le> n \<and> n \<le> 122 then Some (n - 71)
         else if 48 \<le> n \<and> n \<le> 57 then Some (n + 4)
         else if c = (if al = StdAlphabet then CHR ''+'' else CHR ''-'') then Some 62
         else if c = (if al = StdAlphabet then CHR ''/'' else CHR ''_'') then Some 63
         else None)"

fun sextets :: "nat list \<Rightarrow> nat list" where
  "sextets (a # b # c # rest) =
     (a div 4) # ((a mod 4) * 16 + b div 16) # ((b mod 16) * 4 + c div 64) # (c mod 64) # sextets rest"
| "sextets [a, b] = [a div 4, (a mod 4) * 16 + b div 16, (b mod 16) * 4]"
| "sextets [a] = [a div 4, (a mod 4) * 16]"
| "sextets [] = []"

fun octets :: "nat list \<Rightarrow> nat list option" where
  "octets (p # q # r # s # rest) =
     map_option (\<lambda>os. (p * 4 + q div 16) # ((q mod 16) * 16 + r div 4) # ((r mod 4) * 64 + s) # os) (octets rest)"
| "octets [p, q, r] = Some [p * 4 + q div 16, (q mod 16) * 16 + r div 4]"
| "octets [p, q] = Some [p * 4 + q div 16]"
| "octets [p] = None"
| "octets [] = Some []"

definition EncodeToString :: "alphabet \<Rightarrow> bytes \<Rightarrow> string" where
  "EncodeToString al bs = map (sextet_char al) (sextets (map unat bs))"

text \<open>Line breaks are skipped; there is no padding; spare bits of the last character are ignored.\<close>

definition DecodeString :: "alphabet \<Rightarrow> string \<Rightarrow> bytes option" where
  "DecodeString al s =
     (case those (map (sextet_of al) (filter (\<lambda>c. c \<noteq> CHR 0x0D \<and> c \<noteq> CHR 0x0A) s)) of
        None \<Rightarrow> None
      | Some vs \<Rightarrow> map_option (map of_nat) (octets vs))"

lemma sextet_char_code:
  "n < 64 \<Longrightarrow> (of_char (sextet_char al n) :: nat) =
     (if n < 26 then 65 + n else if n < 52 then 71 + n else if n < 62 then n - 4
      else if n = 62 then (if al = StdAlphabet then 43 else 45) else (if al = StdAlphabet then 47 else 95))"
  by (auto simp: sextet_char_def)

lemma sextet_char_plain: "n < 64 \<Longrightarrow> sextet_char al n \<noteq> CHR 0x0D \<and> sextet_char al n \<noteq> CHR 0x0A"
proof -
  assume "n < 64"
  then have "(of_char (sextet_char al n) :: nat) \<notin> {13, 10}"
    by (auto simp: sextet_char_code)
  then show ?thesis by auto
qed

lemma sextet_table: "n < 64 \<Longrightarrow> sextet_of al (sextet_char al n) = Some n"
proof -
  assume n: "n < 64"
  consider "n < 62" | "n = 62" | "n = 63" using n by linarith
  then show ?thesis
  proof cases
    case 1
    then show ?thesis by (auto simp: sextet_of_def sextet_char_code Let_def)
  qed (cases al; simp add: sextet_of_def sextet_char_def)+
qed

lemma sextets_bound: "\<forall>x \<in> set os. x < 256 \<Longrightarrow> \<forall>x \<in> set (sextets os). x < 64"
proof (induction os rule: sextets.induct)
  case (1 a b c rest)
  then show ?case by auto
qed auto

lemma octets_sextets: "\<forall>x \<in> set os. x < 256 \<Longrightarrow> octets (sextets os) = Some os"
proof (induction os rule: sextets.induct)
  case (1 a b c rest)
  then have "octets (sextets rest) = Some rest" "b < 256" "c < 256" by auto
  then show ?case by simp
next
  case (2 a b)
  then have "b div 16 < 16" by auto
  then show ?case by simp
next
  case (3 a)
  then show ?case by simp
qed simp

lemma decode_encode: "DecodeString al (EncodeToString al bs) = Some bs"
proof -
  have bound: "\<forall>x \<in> set (map unat bs). x < 256"
  proof
    fix x assume "x \<in> set (map unat bs)"
    then obtain b where "x = unat (b :: 8 word)" by auto
    then show "x < 256" using unsigned_less [of b] by simp
  qed
  let ?vs = "sextets (map unat bs)"
  have small: "\<forall>n \<in> set ?vs. n < 64"
    using sextets_bound [OF bound] by auto
  have "filter (\<lambda>c. c \<noteq> CHR 0x0D \<and> c \<noteq> CHR 0x0A) (map (sextet_char al) ?vs) = map (sextet_char al) ?vs"
    using small sextet_char_plain [of _ al] by (auto simp: filter_id_conv)
  moreover have "those (map (sextet_of al) (map (sextet_char al) ?vs)) = Some ?vs"
    using small sextet_table [of _ al]
    by (auto simp: those_Some_map list_all2_conv_all_nth)
  ultimately show ?thesis
    using octets_sextets [OF bound] by (simp add: DecodeString_def EncodeToString_def comp_def)
qed

lemma EncodeToString_inject: "EncodeToString al xs = EncodeToString al ys \<Longrightarrow> xs = ys"
  by (metis decode_encode option.inject)

lemma EncodeToString_Nil_iff [simp]: "EncodeToString al bs = [] \<longleftrightarrow> bs = []"
  by (metis EncodeToString_def EncodeToString_inject list.simps(8) sextets.simps(4))

section \<open>Request bodies\<close>

text \<open>
  What \<open>encoding/json\<close> finds in a body: its first value decoded into the request type
  (\<open>None\<close> for a syntax error, a wrong type or, with \<open>DisallowUnknownFields\<close>, an unknown
  field), the number of bytes up to the end of that value, and the bytes after it.
\<close>

record 'r http_body =
  bodyValue :: "'r option"
  bodyValueLength :: nat
  bodyRest :: string

definition json_space :: "char \<Rightarrow> bool" where
  "json_space c \<longleftrightarrow> c \<in> {CHR 0x09, CHR 0x0A, CHR 0x0D, CHR '' ''}"

text \<open>\<open>Decoder.More\<close>: another element follows, unless it is a closing bracket or brace.\<close>

definition decoder_more :: "nat \<Rightarrow> 'r http_body \<Rightarrow> bool" where
  "decoder_more limit body =
     (case dropWhile json_space (take (limit - bodyValueLength body) (bodyRest body)) of
        [] \<Rightarrow> False
      | c # _ \<Rightarrow> c \<noteq> CHR '']'' \<and> c \<noteq> CHR ''}'')"

end
