(* ===== verification/Http.thy ===== *)
theory Http
  imports GoText
begin

text \<open>
  The HTTP surface the services share: requests as the handlers read them, replies, the JSON body
  decoder \<open>decodeRequest\<close> (auth.go), the bearer token (invite.go) and the resolution of the
  client address behind trusted proxies (server.go). Parsing and printing of network addresses and
  the prefix test are Go's \<open>net\<close> and \<open>net/netip\<close>, the parameter \<open>net_env\<close>.
\<close>

section \<open>Replies\<close>

text \<open>
  \<open>HttpError\<close> is \<open>http.Error\<close>, \<open>HttpRetry\<close> the same with status 429 and a
  \<open>Retry-After\<close> header, \<open>HttpReply\<close> a success with its JSON value, if any.
\<close>

datatype 'b http_reply =
    HttpError nat string
  | HttpRetry string string
  | HttpReply nat "'b option"

definition writeJSON :: "nat \<Rightarrow> 'b \<Rightarrow> 'b http_reply" where
  "writeJSON status value = HttpReply status (Some value)"

definition status_of :: "'b http_reply \<Rightarrow> nat" where
  "status_of reply = (case reply of HttpError s _ \<Rightarrow> s | HttpRetry _ _ \<Rightarrow> 429 | HttpReply s _ \<Rightarrow> s)"

definition succeeded :: "'b http_reply \<Rightarrow> bool" where
  "succeeded reply \<longleftrightarrow> (case reply of HttpReply _ _ \<Rightarrow> True | _ \<Rightarrow> False)"

lemma succeeded_simps [simp]:
  "\<not> succeeded (HttpError s m)" "\<not> succeeded (HttpRetry a m)" "succeeded (HttpReply s b)"
  "succeeded (writeJSON s v)"
  by (simp_all add: succeeded_def writeJSON_def)

section \<open>Requests\<close>

text \<open>The client address is the one \<open>NewHandler\<close> stored in the request's context.\<close>

record 'r http_request =
  rqAuthorization :: string
  rqClientIP :: string
  rqPathID :: string
  rqQuery :: "string \<Rightarrow> string"
  rqBody :: "'r http_body"

definition maximumRequestBody :: nat where "maximumRequestBody = 128 * 1024"

definition decodeRequest :: "'r http_request \<Rightarrow> 'r option" where
  "decodeRequest r =
     (let body = rqBody r in
      if bodyValueLength body > maximumRequestBody then None
      else case bodyValue body of
        None \<Rightarrow> None
      | Some v \<Rightarrow> if decoder_more maximumRequestBody body then None else Some v)"

definition invalid_body :: "'b http_reply" where
  "invalid_body = HttpError 400 ''invalid bootstrap request''"

definition bearerToken :: "'r http_request \<Rightarrow> string" where
  "bearerToken r = (if HasPrefix (rqAuthorization r) ''Bearer '' then drop 7 (rqAuthorization r) else [])"

lemma bearerToken_roundtrip [simp]: "bearerToken (r\<lparr>rqAuthorization := ''Bearer '' @ token\<rparr>) = token"
  by (simp add: bearerToken_def HasPrefix_def)

lemma decodeRequest_size: "decodeRequest r = Some v \<Longrightarrow> bodyValueLength (rqBody r) \<le> 131072"
  by (auto simp: decodeRequest_def Let_def maximumRequestBody_def split: if_splits option.splits)

section \<open>The client address\<close>

record ('ip, 'p) net_env =
  splitHostPort :: "string \<Rightarrow> string option"
  parseAddr :: "string \<Rightarrow> 'ip option"
  addrString :: "'ip \<Rightarrow> string"
  prefixContains :: "'p \<Rightarrow> 'ip \<Rightarrow> bool"

definition isTrusted :: "('ip, 'p) net_env \<Rightarrow> 'ip \<Rightarrow> 'p list \<Rightarrow> bool" where
  "isTrusted net ip trusted = list_ex (\<lambda>p. prefixContains net p ip) trusted"

text \<open>The walk over the header's entries, given here from the right.\<close>

fun walk_forwarded :: "('ip, 'p) net_env \<Rightarrow> 'p list \<Rightarrow> string \<Rightarrow> string list \<Rightarrow> string" where
  "walk_forwarded net trusted remote [] = remote"
| "walk_forwarded net trusted remote (part # parts) =
     (let candidate = TrimSpace part in
      case parseAddr net candidate of
        None \<Rightarrow> remote
      | Some ip \<Rightarrow> if \<not> isTrusted net ip trusted then candidate else walk_forwarded net trusted remote parts)"

definition clientIP :: "('ip, 'p) net_env \<Rightarrow> string \<Rightarrow> string \<Rightarrow> 'p list \<Rightarrow> string" where
  "clientIP net remoteAddr xff trusted =
     (let host = (case splitHostPort net remoteAddr of None \<Rightarrow> remoteAddr | Some h \<Rightarrow> h) in
      case parseAddr net host of
        None \<Rightarrow> host
      | Some remote \<Rightarrow>
          if \<not> isTrusted net remote trusted then addrString net remote
          else if xff = [] then addrString net remote
          else walk_forwarded net trusted (addrString net remote) (rev (Split xff (CHR '',''))))"

text \<open>The entries a proxy appended: all trusted, all addresses.\<close>

definition trusted_hop :: "('ip, 'p) net_env \<Rightarrow> 'p list \<Rightarrow> string \<Rightarrow> bool" where
  "trusted_hop net trusted part \<longleftrightarrow>
     (case parseAddr net (TrimSpace part) of None \<Rightarrow> False | Some ip \<Rightarrow> isTrusted net ip trusted)"

lemma walk_forwarded_skip:
  "\<forall>p \<in> set hops. trusted_hop net trusted p \<Longrightarrow>
     walk_forwarded net trusted remote (hops @ parts) = walk_forwarded net trusted remote parts"
  by (induction hops) (auto simp: trusted_hop_def split: option.splits)

lemma split_on_append:
  "sep \<notin> set cs \<Longrightarrow> split_on sep acc (s @ sep # cs) = split_on sep acc s @ [cs]"
proof -
  assume n: "sep \<notin> set cs"
  have "split_on sep a cs = [a @ cs]" for a
    using n by (induction cs arbitrary: a) auto
  then show ?thesis by (induction s arbitrary: acc) auto
qed

lemma Split_snoc: "CHR '','' \<notin> set cs \<Longrightarrow> Split (s @ '','' @ cs) (CHR '','') = Split s (CHR '','') @ [cs]"
  by (simp add: Split_def split_on_append)

end
