(* ===== verification/AuditTrail.thy ===== *)
theory AuditTrail
  imports AccountStore Http
begin

text \<open>
  The audit log of \<open>internal/server/audit.go\<close>: recording with retention, and the pages of
  the activity lists with their cursors. The JSON text of a cursor is \<open>encoding/json\<close>'s,
  the parameters \<open>marshalCursor\<close> and \<open>unmarshalCursor\<close>.
\<close>

definition defaultAuditRetention :: duration where "defaultAuditRetention = 90 * hours 24"
definition defaultAuditPageSize :: nat where "defaultAuditPageSize = 50"
definition maximumAuditPageSize :: nat where "maximumAuditPageSize = 100"

record audit_env = store_env +
  marshalCursor :: "time \<times> string \<Rightarrow> bytes"
  unmarshalCursor :: "bytes \<Rightarrow> (time \<times> string) option"

section \<open>Retention\<close>

record audit_log =
  alRetention :: duration

definition NewAuditLog :: "duration \<Rightarrow> audit_log" where
  "NewAuditLog retention = \<lparr>alRetention = (if retention \<le> 0 then defaultAuditRetention else retention)\<rparr>"

definition ParseAuditRetention :: "string \<Rightarrow> duration option" where
  "ParseAuditRetention value =
     (let value = TrimSpace value in
      if value = [] then Some defaultAuditRetention
      else case ParseInt value of
        None \<Rightarrow> None
      | Some days \<Rightarrow>
          if days < 1 \<or> days > max_duration div hours 24 then None else Some (days * hours 24))"

section \<open>Recording\<close>

datatype audit_error = AuditTypeMissing | AuditNoRandom | AuditStoreFailed store_error

definition complete_event :: "'a store_env_scheme \<Rightarrow> audit_event \<Rightarrow> audit_error + audit_event" where
  "complete_event env event =
     bind_e (guard_e (aeType event = []) AuditTypeMissing) (\<lambda>_.
     bind_e (if aeEventID event = []
             then option_e AuditNoRandom (newAccountID (rnd env (''event/'' @ aeType event)))
             else Inr (aeEventID event)) (\<lambda>eventID.
     Inr (event\<lparr>aeEventID := eventID,
                aeOccurredAt := (if is_zero_time (aeOccurredAt event) then clock env ''Record/occurred''
                                 else aeOccurredAt event)\<rparr>)))"

text \<open>Two statements of their own: the deletion stays when the insertion fails.\<close>

definition Record :: "'a store_env_scheme \<Rightarrow> audit_log \<Rightarrow> auth_db \<Rightarrow> audit_event \<Rightarrow> audit_error option \<times> auth_db" where
  "Record env l db event =
     (case complete_event env event of
        Inl e \<Rightarrow> (Some e, db)
      | Inr event \<Rightarrow>
          (case DeleteAuditEventsBefore env db (clock env ''Record/cutoff'' - alRetention l) of
             Inl e \<Rightarrow> (Some (AuditStoreFailed e), db)
           | Inr db \<Rightarrow>
               (case CreateAuditEvent env db event of
                  Inl e \<Rightarrow> (Some (AuditStoreFailed e), db)
                | Inr db \<Rightarrow> (None, db))))"

text \<open>A failed record is logged and does not fail the request.\<close>

definition recordAudit :: "'a store_env_scheme \<Rightarrow> audit_log option \<Rightarrow> auth_db \<Rightarrow> audit_event \<Rightarrow> auth_db" where
  "recordAudit env audit db event =
     (case audit of None \<Rightarrow> db | Some l \<Rightarrow> snd (Record env l db event))"

definition audit_list ::
  "'a store_env_scheme \<Rightarrow> audit_log \<Rightarrow> auth_db \<Rightarrow> audit_query \<Rightarrow> (store_error + audit_event list) \<times> auth_db" where
  "audit_list env l db query =
     (case DeleteAuditEventsBefore env db (clock env ''list/cutoff'' - alRetention l) of
        Inl e \<Rightarrow> (Inl e, db)
      | Inr db \<Rightarrow> (ListAuditEvents env db query, db))"

section \<open>Pages\<close>

definition encodeAuditCursor :: "'a audit_env_scheme \<Rightarrow> audit_event \<Rightarrow> string" where
  "encodeAuditCursor env event =
     EncodeToString URLAlphabet (marshalCursor env (aeOccurredAt event, aeEventID event))"

definition decodeAuditCursor :: "'a audit_env_scheme \<Rightarrow> string \<Rightarrow> (time \<times> string) option" where
  "decodeAuditCursor env value =
     (case DecodeString URLAlphabet value of
        None \<Rightarrow> None
      | Some encoded \<Rightarrow>
          (case unmarshalCursor env encoded of
             None \<Rightarrow> None
           | Some (occurredAt, eventID) \<Rightarrow>
               if is_zero_time occurredAt \<or> eventID = [] then None else Some (occurredAt, eventID)))"

definition page_limit :: "string \<Rightarrow> nat option" where
  "page_limit value =
     (if value = [] then Some defaultAuditPageSize
      else case ParseInt value of
        None \<Rightarrow> None
      | Some parsed \<Rightarrow> if parsed < 1 \<or> parsed > int maximumAuditPageSize then None else Some (nat parsed))"

definition auditQuery :: "'a audit_env_scheme \<Rightarrow> 'r http_request \<Rightarrow> string \<Rightarrow> audit_query option" where
  "auditQuery env r accountID =
     (case page_limit (rqQuery r ''limit'') of
        None \<Rightarrow> None
      | Some limit \<Rightarrow>
          let query = \<lparr>aqAccountID = accountID, aqBeforeAt = 0, aqBeforeID = [], aqLimit = limit + 1\<rparr>;
              value = rqQuery r ''cursor''
          in if value = [] then Some query
             else case decodeAuditCursor env value of
               None \<Rightarrow> None
             | Some (occurredAt, eventID) \<Rightarrow> Some (query\<lparr>aqBeforeAt := occurredAt, aqBeforeID := eventID\<rparr>))"

record activity_page =
  pgEvents :: "audit_event list"
  pgNextCursor :: string
  pgCanViewAll :: bool

definition page_of :: "'a audit_env_scheme \<Rightarrow> nat \<Rightarrow> bool \<Rightarrow> audit_event list \<Rightarrow> activity_page" where
  "page_of env pageSize canViewAll events =
     (if length events > pageSize then
        let events = take pageSize events
        in \<lparr>pgEvents = events, pgNextCursor = encodeAuditCursor env (last events), pgCanViewAll = canViewAll\<rparr>
      else \<lparr>pgEvents = events, pgNextCursor = [], pgCanViewAll = canViewAll\<rparr>)"

definition activity_list ::
  "'a audit_env_scheme \<Rightarrow> audit_log \<Rightarrow> auth_db \<Rightarrow> 'r http_request \<Rightarrow> string \<Rightarrow> bool \<Rightarrow> activity_page http_reply \<times> auth_db" where
  "activity_list env l db r accountID canViewAll =
     (case auditQuery env r accountID of
        None \<Rightarrow> (HttpError 400 ''invalid activity query'', db)
      | Some query \<Rightarrow>
          (case audit_list env l db query of
             (Inl e, db) \<Rightarrow> (HttpError 500 ''failed to list activity'', db)
           | (Inr events, db) \<Rightarrow> (writeJSON 200 (page_of env (aqLimit query - 1) canViewAll events), db)))"

end
