(* ===== verification/LoginLimiter.thy ===== *)
theory LoginLimiter
  imports Prelude
begin

text \<open>
  The login limiter of \<open>internal/server/login_limiter.go\<close>: failures are counted per
  account and source address, and from the fifth on the next attempt is delayed. The clock
  \<open>l.now()\<close> is the argument \<open>now\<close> of each operation; the mutex makes each operation one step.
\<close>

definition loginFailureReset :: duration where "loginFailureReset = hours 24"

record login_attempt =
  failures :: nat
  lastFailed :: time

type_synonym login_key = "string \<times> string"
type_synonym login_limiter = "(login_key, login_attempt) fmap"

definition NewLoginLimiter :: login_limiter where "NewLoginLimiter = fmempty"

text \<open>Reading a missing key of a Go map gives the zero value.\<close>

definition attempt_of :: "login_limiter \<Rightarrow> login_key \<Rightarrow> login_attempt" where
  "attempt_of l k = (case fmlookup l k of None \<Rightarrow> \<lparr>failures = 0, lastFailed = 0\<rparr> | Some a \<Rightarrow> a)"

definition RecordFailure :: "login_limiter \<Rightarrow> string \<Rightarrow> string \<Rightarrow> time \<Rightarrow> login_limiter" where
  "RecordFailure l account source now =
     (let attempt = attempt_of l (account, source);
          attempt = (if \<not> is_zero_time (lastFailed attempt) \<and> time_sub now (lastFailed attempt) \<ge> loginFailureReset
                     then attempt\<lparr>failures := 0\<rparr> else attempt)
      in fmupd (account, source) \<lparr>failures = failures attempt + 1, lastFailed = now\<rparr> l)"

definition delay_after :: "nat \<Rightarrow> duration" where
  "delay_after n =
     (if n = 6 then minutes 5 else if n = 7 then minutes 10
      else if n \<ge> 8 then minutes 15 else minutes 1)"

definition RetryAfter :: "login_limiter \<Rightarrow> string \<Rightarrow> string \<Rightarrow> time \<Rightarrow> duration" where
  "RetryAfter l account source now =
     (let attempt = attempt_of l (account, source)
      in if failures attempt < 5 then 0
         else let remaining = time_sub (lastFailed attempt + delay_after (failures attempt)) now
              in if remaining \<le> 0 then 0 else remaining)"

definition Reset :: "login_limiter \<Rightarrow> string \<Rightarrow> string \<Rightarrow> login_limiter" where
  "Reset l account source = fmdrop (account, source) l"

section \<open>Reading after writing\<close>

lemma attempt_of_record:
  "attempt_of (RecordFailure l a s now) k =
     (if k = (a, s) then
        \<lparr>failures = (if lastFailed (attempt_of l k) \<noteq> 0 \<and> time_sub now (lastFailed (attempt_of l k)) \<ge> loginFailureReset
                    then 1 else failures (attempt_of l k) + 1),
         lastFailed = now\<rparr>
      else attempt_of l k)"
  by (auto simp: RecordFailure_def attempt_of_def Let_def)

lemma attempt_of_reset:
  "attempt_of (Reset l a s) k = (if k = (a, s) then \<lparr>failures = 0, lastFailed = 0\<rparr> else attempt_of l k)"
  by (auto simp: Reset_def attempt_of_def)

lemma attempt_of_new [simp]: "attempt_of NewLoginLimiter k = \<lparr>failures = 0, lastFailed = 0\<rparr>"
  by (simp add: NewLoginLimiter_def attempt_of_def)

lemma delay_after_bounds: "minutes 1 \<le> delay_after n" "delay_after n \<le> minutes 15"
  by (auto simp: delay_after_def minutes_def)

lemma RetryAfter_zero_iff:
  "RetryAfter l a s now = 0 \<longleftrightarrow>
     failures (attempt_of l (a, s)) < 5 \<or>
     lastFailed (attempt_of l (a, s)) + delay_after (failures (attempt_of l (a, s))) \<le> now"
proof -
  have "time_sub t now \<le> 0 \<longleftrightarrow> t \<le> now" for t
    using time_sub_le_iff [of 0 t now] by (simp add: max_duration_def min_duration_def)
  from this [of "lastFailed (attempt_of l (a, s)) + delay_after (failures (attempt_of l (a, s)))"]
  show ?thesis by (auto simp: RetryAfter_def Let_def)
qed

lemma RetryAfter_nonneg: "0 \<le> RetryAfter l a s now"
  by (simp add: RetryAfter_def Let_def)

section \<open>How fast one source can try\<close>

text \<open>
  The handler asks \<open>RetryAfter\<close> and calls \<open>RecordFailure\<close> in two critical sections: any
  number of requests may have passed the first and not yet reached the second. \<open>overlapping\<close> is
  the history of one account and source with at most \<open>p\<close> such requests at a time: \<open>m\<close> is
  how many there are now, \<open>ts\<close> when each attempt was let through, \<open>now\<close> the time of the
  last event. Refused and failed requests and those of other keys may come between.
\<close>

inductive overlapping ::
  "nat \<Rightarrow> string \<Rightarrow> string \<Rightarrow> login_limiter \<Rightarrow> nat \<Rightarrow> time list \<Rightarrow> time \<Rightarrow> login_limiter \<Rightarrow> bool"
  for p a s and start :: login_limiter where
  none: "overlapping p a s start 0 [] 0 start"
| other: "overlapping p a s start m ts now l \<Longrightarrow> attempt_of l' (a, s) = attempt_of l (a, s) \<Longrightarrow>
    overlapping p a s start m ts now l'"
| admit: "overlapping p a s start m ts now l \<Longrightarrow> m < p \<Longrightarrow> RetryAfter l a s t = 0 \<Longrightarrow> now \<le> t \<Longrightarrow> 0 < t \<Longrightarrow>
    overlapping p a s start (Suc m) (ts @ [t]) t l"
| recorded: "overlapping p a s start (Suc m) ts now l \<Longrightarrow> now \<le> t \<Longrightarrow>
    overlapping p a s start m ts t (RecordFailure l a s t)"

text \<open>
  The invariant. Of the attempts let through, \<open>F\<close> saw fewer than eight failures and \<open>S\<close>
  waited fifteen minutes since the last failure; the count was reset \<open>R\<close> times, \<open>c\<close> of the
  first kind came since. Since at most \<open>p\<close> requests overlap, the last failure is no older than
  the \<open>p\<close>-th last attempt; \<open>last_times\<close> sums the last \<open>p\<close> times and so grows by
  fifteen minutes with each attempt of the second kind.
\<close>

definition last_times :: "nat \<Rightarrow> time list \<Rightarrow> int" where
  "last_times p ts = sum_list (take p (rev ts @ replicate p (hd ts)))"

definition limiter_inv ::
  "nat \<Rightarrow> time list \<Rightarrow> nat \<Rightarrow> time \<Rightarrow> nat \<Rightarrow> time \<Rightarrow> nat \<Rightarrow> nat \<Rightarrow> nat \<Rightarrow> nat \<Rightarrow> bool" where
  "limiter_inv p ts m now f last_failed F S R c \<longleftrightarrow>
     length ts = F + S \<and> m \<le> p \<and> m \<le> length ts \<and> sorted ts \<and> (\<forall>t \<in> set ts. 0 < t \<and> t \<le> now) \<and>
     (length ts = m \<longrightarrow> f = 0 \<and> last_failed = 0 \<and> R = 0) \<and>
     (m < length ts \<longrightarrow> 0 < last_failed \<and> ts ! (length ts - m - 1) \<le> last_failed \<and> last_failed \<le> now \<and>
        hours 24 * int R \<le> last_failed - hd ts) \<and>
     c \<le> f + m \<and> c \<le> 7 + p \<and> F \<le> R * (7 + p) + c \<and>
     (ts \<noteq> [] \<longrightarrow> hours 24 * int F \<le> (7 + int p) * (last ts - hd ts + hours 24) \<and>
        minutes 15 * int S \<le> last_times p ts - int p * hd ts)"

lemma last_times_snoc:
  assumes "ts \<noteq> []" "0 < p"
  shows "last_times p (ts @ [t]) = last_times p ts + t - (if p \<le> length ts then ts ! (length ts - p) else hd ts)"
proof -
  obtain q where p: "p = Suc q" using assms(2) by (cases p) auto
  let ?xs = "rev ts @ replicate p (hd ts)"
  have "take p ?xs = take q ?xs @ [?xs ! q]" unfolding p by (rule take_Suc_conv_app_nth) simp
  then have "last_times p ts = sum_list (take q ?xs) + ?xs ! q" by (simp add: last_times_def)
  moreover have "last_times p (ts @ [t]) = t + sum_list (take q ?xs)"
    using assms(1) by (simp add: last_times_def p)
  moreover have "?xs ! q = (if p \<le> length ts then ts ! (length ts - p) else hd ts)"
    by (auto simp: nth_append p rev_nth nth_Cons' simp flip: replicate_Suc)
  ultimately show ?thesis by simp
qed

lemma sorted_le_last: "sorted ts \<Longrightarrow> x \<in> set ts \<Longrightarrow> x \<le> last (ts :: int list)"
  by (induction ts) auto

lemma last_times_bound:
  assumes "ts \<noteq> []" "sorted ts" shows "last_times p ts \<le> int p * last ts"
proof -
  let ?xs = "take p (rev ts @ replicate p (hd ts))"
  have "x \<le> last ts" if "x \<in> set ?xs" for x
    using in_set_takeD [OF that] assms sorted_le_last by auto
  then have "sum_list (map (\<lambda>x. x) ?xs) \<le> sum_list (map (\<lambda>x. last ts) ?xs)" by (rule sum_list_mono)
  also have "\<dots> = int (length ?xs) * last ts" by (simp only: sum_list_triv of_nat_eq_of_nat_power_cancel_iff)
  also have "length ?xs = p" by simp
  finally show ?thesis by (simp only: last_times_def map_ident)
qed

lemma limiter_inv_nth:
  "limiter_inv p ts m now f lf F S R c \<Longrightarrow> k < length ts \<Longrightarrow> 0 < ts ! k \<and> ts ! k \<le> now"
  by (auto simp: limiter_inv_def)

lemma limiter_inv_hd:
  "limiter_inv p ts m now f lf F S R c \<Longrightarrow> ts \<noteq> [] \<Longrightarrow> 0 < hd ts \<and> hd ts \<le> now"
  by (auto simp: limiter_inv_def)

text \<open>A moment at which a request is let through, for a count below eight and from eight on.\<close>

lemma limiter_admit_fast:
  assumes "limiter_inv p ts m now f lf F S R c" "f < 8" "m < p" "now \<le> t" "0 < t"
  shows "limiter_inv p (ts @ [t]) (Suc m) t f lf (Suc F) S R (Suc c)"
proof (cases "ts = []")
  case True
  with assms have "F = 0" "S = 0" "R = 0" "lf = 0" "f = 0" "m = 0" "c = 0" by (auto simp: limiter_inv_def)
  with True assms show ?thesis
    by (simp add: limiter_inv_def last_times_def sum_list_replicate hours_def algebra_simps flip: replicate_Suc replicate_append_same)
next
  case False
  with assms have inv: "length ts = F + S" "m \<le> length ts" "sorted ts" "\<And>u. u \<in> set ts \<Longrightarrow> 0 < u \<and> u \<le> now"
    "length ts = m \<longrightarrow> f = 0 \<and> lf = 0 \<and> R = 0"
    "m < length ts \<longrightarrow> 0 < lf \<and> ts ! (length ts - m - 1) \<le> lf \<and> lf \<le> now \<and> hours 24 * int R \<le> lf - hd ts"
    "c \<le> f + m" "F \<le> R * (7 + p) + c" "minutes 15 * int S \<le> last_times p ts - int p * hd ts"
    by (auto simp: limiter_inv_def)
  have hd: "hd ts \<le> t" using inv(4) [of "hd ts"] False assms(4) by simp
  have "last_times p ts \<le> last_times p (ts @ [t])"
  proof -
    have "(if p \<le> length ts then ts ! (length ts - p) else hd ts) \<le> t"
      using inv(4) [of "ts ! (length ts - p)"] hd assms(3,4) by auto
    then show ?thesis using last_times_snoc [OF False, of p t] assms(3) by simp
  qed
  moreover have c: "Suc c \<le> 7 + p" using inv(7) assms(2,3) by simp
  moreover have r: "hours 24 * int R \<le> t - hd ts"
    using inv(2,5,6) hd assms(4) by (cases "length ts = m") auto
  moreover have f: "int (Suc F) \<le> (7 + int p) * (int R + 1)"
  proof -
    have "Suc F \<le> R * (7 + p) + (7 + p)" using inv(8) c by simp
    then have "int (Suc F) \<le> int (R * (7 + p) + (7 + p))" by (rule zle_int [THEN iffD2])
    then show ?thesis by (simp add: algebra_simps)
  qed
  moreover have "hours 24 * int (Suc F) \<le> (7 + int p) * (t - hd ts + hours 24)"
  proof -
    have "hours 24 * int (Suc F) \<le> hours 24 * ((7 + int p) * (int R + 1))"
      using f by (intro mult_left_mono) (simp_all add: hours_def)
    also have "\<dots> = (7 + int p) * (hours 24 * int R + hours 24)" by (simp add: algebra_simps)
    also have "\<dots> \<le> (7 + int p) * (t - hd ts + hours 24)"
      using r by (intro mult_left_mono) simp_all
    finally show ?thesis .
  qed
  ultimately show ?thesis
    using False inv assms by (auto simp: limiter_inv_def sorted_append nth_append hd_append intro: order_trans)
qed

lemma limiter_admit_slow:
  assumes "limiter_inv p ts m now f lf F S R c" "8 \<le> f" "m < p" "now \<le> t" "0 < t" "lf + minutes 15 \<le> t"
  shows "limiter_inv p (ts @ [t]) (Suc m) t f lf F (Suc S) R c"
proof -
  from assms have some: "m < length ts" by (auto simp: limiter_inv_def)
  then have False: "ts \<noteq> []" by auto
  with assms some have inv: "length ts = F + S" "sorted ts" "\<And>u. u \<in> set ts \<Longrightarrow> 0 < u \<and> u \<le> now"
    "0 < lf" "ts ! (length ts - m - 1) \<le> lf" "lf \<le> now" "hours 24 * int R \<le> lf - hd ts"
    "c \<le> f + m" "c \<le> 7 + p" "F \<le> R * (7 + p) + c" "hours 24 * int F \<le> (7 + int p) * (last ts - hd ts + hours 24)"
    "minutes 15 * int S \<le> last_times p ts - int p * hd ts"
    by (auto simp: limiter_inv_def)
  have "(if p \<le> length ts then ts ! (length ts - p) else hd ts) \<le> ts ! (length ts - m - 1)"
    using inv(2) assms(3) some False by (auto simp: hd_conv_nth intro!: sorted_nth_mono)
  then have "minutes 15 * int (Suc S) \<le> last_times p (ts @ [t]) - int p * hd ts"
    using last_times_snoc [OF False, of p t] assms(3,6) inv(5,12) by (simp add: algebra_simps)
  moreover have "hours 24 * int F \<le> (7 + int p) * (t - hd ts + hours 24)"
  proof -
    have "last ts \<le> t" using inv(3) [of "last ts"] False assms(4) by simp
    then have "(7 + int p) * (last ts - hd ts + hours 24) \<le> (7 + int p) * (t - hd ts + hours 24)"
      by (intro mult_left_mono) simp_all
    with inv(11) show ?thesis by (rule order_trans)
  qed
  ultimately show ?thesis
    using False some inv assms by (auto simp: limiter_inv_def sorted_append nth_append hd_append intro: order_trans)
qed

text \<open>A failure is counted; after a day without one the count starts again.\<close>

lemma limiter_record:
  assumes "limiter_inv p ts (Suc m) now f lf F S R c" "now \<le> t" "\<not> (lf \<noteq> 0 \<and> hours 24 \<le> t - lf)"
  shows "limiter_inv p ts m t (Suc f) t F S R c"
proof -
  have ne: "ts \<noteq> []" using assms(1) by (auto simp: limiter_inv_def)
  have "ts ! (length ts - m - 1) \<le> t" "0 < t" "hd ts \<le> t"
    using limiter_inv_nth [OF assms(1), of "length ts - m - 1"] limiter_inv_hd [OF assms(1) ne] assms(2) ne by auto
  moreover have "hours 24 * int R \<le> t - hd ts"
    using assms(1,2) calculation(3) by (cases "length ts = Suc m") (auto simp: limiter_inv_def)
  ultimately show ?thesis using assms(1,2) by (auto simp: limiter_inv_def intro: order_trans)
qed

lemma limiter_record_reset:
  assumes "limiter_inv p ts (Suc m) now f lf F S R c" "now \<le> t" "lf \<noteq> 0" "hours 24 \<le> t - lf"
  shows "limiter_inv p ts m t 1 t F S (Suc R) 0"
proof -
  have some: "Suc m < length ts" using assms(1,3) by (auto simp: limiter_inv_def)
  then have ne: "ts \<noteq> []" by auto
  have "ts ! (length ts - m - 1) \<le> t" "0 < t"
    using limiter_inv_nth [OF assms(1), of "length ts - m - 1"] limiter_inv_hd [OF assms(1) ne] assms(2) ne by auto
  moreover have "hours 24 * int (Suc R) \<le> t - hd ts"
    using assms(1,4) some by (auto simp: limiter_inv_def algebra_simps)
  moreover have "F \<le> Suc R * (7 + p)" using assms(1) by (auto simp: limiter_inv_def)
  ultimately show ?thesis using assms(1,2) some by (auto simp: limiter_inv_def intro: order_trans)
qed

lemma overlapping_inv:
  assumes "overlapping p a s start m ts now l" "attempt_of start (a, s) = \<lparr>failures = 0, lastFailed = 0\<rparr>"
  shows "\<exists>F S R c. limiter_inv p ts m now (failures (attempt_of l (a, s))) (lastFailed (attempt_of l (a, s))) F S R c"
  using assms
proof induction
  case none
  then show ?case by (auto simp: limiter_inv_def)
next
  case (other m ts now l l')
  then show ?case by simp
next
  case (admit m ts now l t)
  let ?f = "failures (attempt_of l (a, s))" and ?lf = "lastFailed (attempt_of l (a, s))"
  from admit.IH [OF admit.prems] obtain F S R c where inv: "limiter_inv p ts m now ?f ?lf F S R c" by blast
  show ?case
  proof (cases "?f < 8")
    case True
    then show ?thesis using limiter_admit_fast [OF inv _ admit.hyps(2,4,5)] by blast
  next
    case False
    then have "?lf + minutes 15 \<le> t"
      using admit.hyps(3) by (auto simp: RetryAfter_zero_iff delay_after_def)
    with False show ?thesis using limiter_admit_slow [OF inv _ admit.hyps(2,4,5)] by (meson not_less)
  qed
next
  case (recorded m ts now l t)
  let ?f = "failures (attempt_of l (a, s))" and ?lf = "lastFailed (attempt_of l (a, s))"
  from recorded.IH [OF recorded.prems] obtain F S R c where inv: "limiter_inv p ts (Suc m) now ?f ?lf F S R c" by blast
  have day: "time_sub t ?lf \<ge> loginFailureReset \<longleftrightarrow> hours 24 \<le> t - ?lf"
    by (simp add: time_sub_ge_iff loginFailureReset_def hours_def max_duration_def min_duration_def)
  show ?case
  proof (cases "?lf \<noteq> 0 \<and> hours 24 \<le> t - ?lf")
    case True
    then show ?thesis
      using limiter_record_reset [OF inv recorded.hyps(2)] by (auto simp: attempt_of_record day)
  next
    case False
    then show ?thesis
      using limiter_record [OF inv recorded.hyps(2)] by (auto simp: attempt_of_record day)
  qed
qed

text \<open>
  The bound: beginning \<open>n\<close> attempts takes so long that
  \<open>180 n \<le> p (13 T + 24 \<cdot> 60)\<close>, in minutes and for the time \<open>T\<close> between the
  first and the last.
\<close>

lemma overlapping_bound:
  assumes "overlapping p a s start m ts now l" "attempt_of start (a, s) = \<lparr>failures = 0, lastFailed = 0\<rparr>" "ts \<noteq> []"
  shows "minutes 180 * int (length ts) \<le> int p * (13 * (last ts - hd ts) + hours 24)"
proof -
  from overlapping_inv [OF assms(1,2)] obtain F S f lf R c where "limiter_inv p ts m now f lf F S R c" by blast
  with assms(3) have inv: "length ts = F + S" "sorted ts"
    "hours 24 * int F \<le> (7 + int p) * (last ts - hd ts + hours 24)"
    "minutes 15 * int S \<le> last_times p ts - int p * hd ts" by (simp_all add: limiter_inv_def)
  have p: "0 < p" using assms(1,3) by (induction) auto
  have T: "0 \<le> last ts - hd ts" using sorted_le_last [OF inv(2), of "hd ts"] assms(3) by simp
  have "minutes 15 * int S \<le> int p * (last ts - hd ts)"
    using inv(4) last_times_bound [OF assms(3) inv(2), of p] by (simp add: algebra_simps)
  moreover have "(7 + int p) * (last ts - hd ts + hours 24) \<le> (8 * int p) * (last ts - hd ts + hours 24)"
    using p T by (intro mult_right_mono) (auto simp: hours_def)
  ultimately show ?thesis using inv(1,3) by (simp add: minutes_def hours_def algebra_simps)
qed

text \<open>
  Requests of one source that all come before the first is recorded all pass: the limiter delays
  attempts, it does not serialize them.
\<close>

lemma all_admitted_at_once:
  "0 < t \<Longrightarrow> n \<le> p \<Longrightarrow> overlapping p a s NewLoginLimiter n (replicate n t) (if n = 0 then 0 else t) NewLoginLimiter"
proof (induction n)
  case 0
  then show ?case using overlapping.none by simp
next
  case (Suc n)
  then have "overlapping p a s NewLoginLimiter n (replicate n t) (if n = 0 then 0 else t) NewLoginLimiter" by simp
  then have "overlapping p a s NewLoginLimiter (Suc n) (replicate n t @ [t]) t NewLoginLimiter"
    using Suc.prems by (intro overlapping.admit) (auto simp: RetryAfter_def Let_def)
  then show ?case by (simp add: replicate_append_same)
qed

end
