(* ===== verification/AuthService.thy ===== *)
theory AuthService
  imports AuditTrail LoginLimiter
begin

text \<open>
  \<open>internal/server/auth.go\<close>: bootstrap and invited registration, the two halves of an OPAQUE
  login with its pending state and rate limit, and access tokens. The OPAQUE library
  (\<open>github.com/bytemare/opaque\<close>) is a parameter: decoding of its messages, the answers the
  server computes, and the check of the client's last message; its values are their byte encodings.
  \<open>net/mail\<close>'s address parser is the parameter \<open>parseAddress\<close>. A handler is one step
  on the server's state; what \<open>time.Now\<close> and \<open>rand.Read\<close> return is looked up by place.
\<close>

section \<open>State and environment\<close>

datatype client_record = FakeRecord bytes | RegisteredRecord bytes string

record auth_env = audit_env +
  auditLog :: "audit_log option"
  parseAddress :: "string \<Rightarrow> string option"
  readRegistrationRequest :: "bytes \<Rightarrow> bytes option"
  makeRegistrationResponse :: "bytes \<Rightarrow> string \<Rightarrow> bytes option"
  readRegistrationRecord :: "bytes \<Rightarrow> bytes option"
  readKE1 :: "bytes \<Rightarrow> bytes option"
  fakeRecordFor :: "string \<Rightarrow> bytes option"
  generateKE2 :: "bytes \<Rightarrow> client_record \<Rightarrow> (bytes \<times> bytes \<times> bytes) option"
  readKE3 :: "bytes \<Rightarrow> bytes option"
  loginFinish :: "bytes \<Rightarrow> bytes \<Rightarrow> bool"

record pending_login =
  plAccount :: "stored_account option"
  plClientMAC :: bytes
  plSessionSecret :: bytes
  plHost :: string
  plSourceIP :: string
  plRateAccount :: string
  plExpiresAt :: time

record server_state =
  sDb :: auth_db
  sVault :: vault_db
  sPending :: "(string, pending_login) fmap"
  sLimiter :: login_limiter

definition audit_event_of :: "string \<Rightarrow> string \<Rightarrow> audit_event" where
  "audit_event_of type sourceIP =
     \<lparr>aeEventID = [], aeType = type, aeAccountID = [], aeActorID = [], aeSessionID = [], aeInviteID = [],
      aeSourceIP = sourceIP, aeOccurredAt = 0\<rparr>"

definition audit_state :: "'a auth_env_scheme \<Rightarrow> server_state \<Rightarrow> audit_event \<Rightarrow> server_state" where
  "audit_state env s event = s\<lparr>sDb := recordAudit env (auditLog env) (sDb s) event\<rparr>"

section \<open>Inputs\<close>

definition canonicalEmail :: "'a auth_env_scheme \<Rightarrow> string \<Rightarrow> string option" where
  "canonicalEmail env value =
     (let value = ToLower (TrimSpace value)
      in if parseAddress env value \<noteq> Some value then None else Some value)"

definition inviteTokenHash :: "'a store_env_scheme \<Rightarrow> string \<Rightarrow> bytes option" where
  "inviteTokenHash env value =
     (case DecodeString URLAlphabet value of
        None \<Rightarrow> None
      | Some raw \<Rightarrow> if length raw \<noteq> 32 then None else Some (sha256 (pg env) (string_bytes value)))"

text \<open>
  \<open>unicode.IsControl\<close> over the UTF-8 bytes: the ASCII controls, and U+0080 to U+009F, which
  UTF-8 writes as \<open>C2 80\<close> to \<open>C2 9F\<close>.
\<close>

fun has_control :: "nat list \<Rightarrow> bool" where
  "has_control (b # c # bs) \<longleftrightarrow> b < 32 \<or> b = 127 \<or> (b = 194 \<and> 128 \<le> c \<and> c < 160) \<or> has_control (c # bs)"
| "has_control [b] \<longleftrightarrow> b < 32 \<or> b = 127"
| "has_control [] \<longleftrightarrow> False"

definition validSessionHost :: "string \<Rightarrow> bool" where
  "validSessionHost host =
     (if length host > 255 then False else \<not> has_control (map of_char host))"

definition decode_nonempty :: "string \<Rightarrow> bytes option" where
  "decode_nonempty text =
     (case DecodeString StdAlphabet text of None \<Rightarrow> None | Some b \<Rightarrow> if length b = 0 then None else Some b)"

section \<open>Bootstrap\<close>

record bootstrap_start_request =
  bsEmail :: string
  bsRegistrationRequest :: string

record bootstrap_start_response =
  brAccountID :: string
  brRegistrationResponse :: string

record bootstrap_finish_request =
  bfAccountID :: string
  bfEmail :: string
  bfRegistrationRecord :: string
  bfPasswordVaultEnvelope :: string
  bfRecoveryVaultEnvelope :: string

definition writeBootstrapError :: "store_error option \<Rightarrow> 'b http_reply" where
  "writeBootstrapError err =
     (if err = Some ErrBootstrapClosed then HttpError 409 ''bootstrap registration is closed''
      else HttpError 400 ''invalid bootstrap request'')"

definition registrationResponse :: "'a auth_env_scheme \<Rightarrow> string \<Rightarrow> bytes \<Rightarrow> bytes option" where
  "registrationResponse env email encodedRequest =
     (case readRegistrationRequest env encodedRequest of
        None \<Rightarrow> None
      | Some request \<Rightarrow> makeRegistrationResponse env request email)"

text \<open>An error that is not the store's is \<open>None\<close>: the handlers treat all of them alike.\<close>

definition start :: "'a auth_env_scheme \<Rightarrow> auth_db \<Rightarrow> string \<Rightarrow> bytes \<Rightarrow> store_error option + bytes" where
  "start env db email encodedRequest =
     (case InstanceEmpty env db of
        Inl e \<Rightarrow> Inl (Some e)
      | Inr isEmpty \<Rightarrow>
          if \<not> isEmpty then Inl (Some ErrBootstrapClosed)
          else option_e None (registrationResponse env email encodedRequest))"

definition finish ::
  "'a auth_env_scheme \<Rightarrow> auth_db \<Rightarrow> string \<Rightarrow> string \<Rightarrow> bytes \<Rightarrow> bytes \<Rightarrow> bytes \<Rightarrow> store_error option + auth_db" where
  "finish env db accountID email encodedRecord passwordEnvelope recoveryEnvelope =
     (if accountID = [] then Inl None
      else case readRegistrationRecord env encodedRecord of
        None \<Rightarrow> Inl None
      | Some record \<Rightarrow>
          map_sum Some id (CreateBootstrap env db
            \<lparr>baAccountID = accountID, baEmail = email, baAdministrator = True, baOpaqueRecord = record,
             baPasswordVaultEnvelope = passwordEnvelope, baRecoveryVaultEnvelope = recoveryEnvelope\<rparr>))"

definition startBootstrap ::
  "'a auth_env_scheme \<Rightarrow> bootstrap_start_request http_request \<Rightarrow> server_state \<Rightarrow> bootstrap_start_response http_reply \<times> server_state" where
  "startBootstrap env r s =
     (case decodeRequest r of None \<Rightarrow> (invalid_body, s) | Some request \<Rightarrow>
      case canonicalEmail env (bsEmail request) of
        None \<Rightarrow> (HttpError 400 ''invalid bootstrap request'', s)
      | Some email \<Rightarrow>
      case DecodeString StdAlphabet (bsRegistrationRequest request) of
        None \<Rightarrow> (HttpError 400 ''invalid bootstrap request'', s)
      | Some encoded \<Rightarrow>
      case start env (sDb s) email encoded of
        Inl err \<Rightarrow> (writeBootstrapError err, s)
      | Inr response \<Rightarrow>
      case newAccountID (rnd env ''account'') of
        None \<Rightarrow> (HttpError 503 ''bootstrap unavailable'', s)
      | Some accountID \<Rightarrow>
          (writeJSON 200 \<lparr>brAccountID = accountID,
             brRegistrationResponse = EncodeToString StdAlphabet response\<rparr>, s))"

definition finishBootstrap ::
  "'a auth_env_scheme \<Rightarrow> bootstrap_finish_request http_request \<Rightarrow> server_state \<Rightarrow> unit http_reply \<times> server_state" where
  "finishBootstrap env r s =
     (case decodeRequest r of None \<Rightarrow> (invalid_body, s) | Some request \<Rightarrow>
      case canonicalEmail env (bfEmail request) of
        None \<Rightarrow> (HttpError 400 ''invalid bootstrap request'', s)
      | Some email \<Rightarrow>
      case DecodeString StdAlphabet (bfRegistrationRecord request) of
        None \<Rightarrow> (HttpError 400 ''invalid bootstrap request'', s)
      | Some record \<Rightarrow>
      case decode_nonempty (bfPasswordVaultEnvelope request) of
        None \<Rightarrow> (HttpError 400 ''invalid bootstrap request'', s)
      | Some passwordEnvelope \<Rightarrow>
      case decode_nonempty (bfRecoveryVaultEnvelope request) of
        None \<Rightarrow> (HttpError 400 ''invalid bootstrap request'', s)
      | Some recoveryEnvelope \<Rightarrow>
      case finish env (sDb s) (bfAccountID request) email record passwordEnvelope recoveryEnvelope of
        Inl err \<Rightarrow> (writeBootstrapError err, s)
      | Inr db \<Rightarrow> (HttpReply 201 None, s\<lparr>sDb := db\<rparr>))"

section \<open>Invited registration\<close>

record registration_start_request =
  rsEmail :: string
  rsInviteToken :: string
  rsRegistrationRequest :: string

record registration_finish_request =
  rfAccountID :: string
  rfEmail :: string
  rfInviteToken :: string
  rfRegistrationRecord :: string
  rfPasswordVaultEnvelope :: string
  rfRecoveryVaultEnvelope :: string

definition writeRegistrationError :: "store_error \<Rightarrow> 'b http_reply" where
  "writeRegistrationError err =
     (if err = ErrInvalidInvite then HttpError 401 ''invalid invitation''
      else HttpError 503 ''registration unavailable'')"

definition startRegistration ::
  "'a auth_env_scheme \<Rightarrow> registration_start_request http_request \<Rightarrow> server_state \<Rightarrow> bootstrap_start_response http_reply \<times> server_state" where
  "startRegistration env r s =
     (case decodeRequest r of None \<Rightarrow> (invalid_body, s) | Some request \<Rightarrow>
      case canonicalEmail env (rsEmail request) of
        None \<Rightarrow> (HttpError 400 ''invalid registration request'', s)
      | Some email \<Rightarrow>
      case inviteTokenHash env (rsInviteToken request) of
        None \<Rightarrow> (HttpError 401 ''invalid invitation'', s)
      | Some tokenHash \<Rightarrow>
      case ValidateInvite env (sDb s) tokenHash email (clock env ''startRegistration'') of
        Inl err \<Rightarrow> (writeRegistrationError err, s)
      | Inr _ \<Rightarrow>
      case DecodeString StdAlphabet (rsRegistrationRequest request) of
        None \<Rightarrow> (HttpError 400 ''invalid registration request'', s)
      | Some encoded \<Rightarrow>
      case registrationResponse env email encoded of
        None \<Rightarrow> (HttpError 400 ''invalid registration request'', s)
      | Some response \<Rightarrow>
      case newAccountID (rnd env ''account'') of
        None \<Rightarrow> (HttpError 503 ''registration unavailable'', s)
      | Some accountID \<Rightarrow>
          (writeJSON 200 \<lparr>brAccountID = accountID,
             brRegistrationResponse = EncodeToString StdAlphabet response\<rparr>, s))"

definition finishRegistration ::
  "'a auth_env_scheme \<Rightarrow> registration_finish_request http_request \<Rightarrow> server_state \<Rightarrow> unit http_reply \<times> server_state" where
  "finishRegistration env r s =
     (case decodeRequest r of None \<Rightarrow> (invalid_body, s) | Some request \<Rightarrow>
      case canonicalEmail env (rfEmail request) of
        None \<Rightarrow> (HttpError 400 ''invalid registration request'', s)
      | Some email \<Rightarrow>
      case inviteTokenHash env (rfInviteToken request) of
        None \<Rightarrow> (HttpError 401 ''invalid invitation'', s)
      | Some tokenHash \<Rightarrow>
      case DecodeString StdAlphabet (rfRegistrationRecord request) of
        None \<Rightarrow> (HttpError 400 ''invalid registration request'', s)
      | Some record \<Rightarrow>
      case decode_nonempty (rfPasswordVaultEnvelope request) of
        None \<Rightarrow> (HttpError 400 ''invalid registration request'', s)
      | Some passwordEnvelope \<Rightarrow>
      case decode_nonempty (rfRecoveryVaultEnvelope request) of
        None \<Rightarrow> (HttpError 400 ''invalid registration request'', s)
      | Some recoveryEnvelope \<Rightarrow>
      case readRegistrationRecord env record of
        None \<Rightarrow> (HttpError 400 ''invalid registration request'', s)
      | Some registrationRecord \<Rightarrow>
      if rfAccountID request = [] then (HttpError 400 ''invalid registration request'', s)
      else let now = clock env ''finishRegistration'' in
      case CreateInvitedAccount env (sDb s) tokenHash
             \<lparr>baAccountID = rfAccountID request, baEmail = email, baAdministrator = False,
              baOpaqueRecord = registrationRecord, baPasswordVaultEnvelope = passwordEnvelope,
              baRecoveryVaultEnvelope = recoveryEnvelope\<rparr> now of
        Inl err \<Rightarrow> (writeRegistrationError err, s)
      | Inr db \<Rightarrow>
          (HttpReply 201 None,
           audit_state env (s\<lparr>sDb := db\<rparr>)
             (audit_event_of ''registration.succeeded'' (rqClientIP r)
                \<lparr>aeAccountID := rfAccountID request, aeActorID := rfAccountID request, aeOccurredAt := now\<rparr>)))"

section \<open>Access tokens\<close>

datatype auth_error = AuthStoreError store_error | errInvalidAccessToken | AdministratorRequired

definition AuthenticateToken ::
  "'a store_env_scheme \<Rightarrow> auth_db \<Rightarrow> string \<Rightarrow> (auth_error + stored_access_token) \<times> auth_db" where
  "AuthenticateToken env db rawToken =
     (if rawToken = [] then (Inl (AuthStoreError ErrAccessTokenNotFound), db)
      else let hash = sha256 (pg env) (string_bytes rawToken) in
      case FindAccessToken env db hash of
        Inl e \<Rightarrow> (Inl (AuthStoreError e), db)
      | Inr token \<Rightarrow>
          if \<not> is_zero_time (stRevokedAt token) then (Inl errInvalidAccessToken, db)
          else let now = clock env ''AuthenticateToken'' in
          case TouchAccessToken env db hash now of
            Inl e \<Rightarrow> (Inl (AuthStoreError e), db)
          | Inr db \<Rightarrow> (Inr (token\<lparr>stLastUsedAt := now\<rparr>), db))"

text \<open>Two audit events follow the stored token; failing to record them does not undo the login.\<close>

definition issueAccessToken ::
  "'a auth_env_scheme \<Rightarrow> server_state \<Rightarrow> stored_account \<Rightarrow> string \<Rightarrow> string \<Rightarrow> unit + (string \<times> server_state)" where
  "issueAccessToken env s account host sourceIP =
     (case rnd env ''accessToken'' of None \<Rightarrow> Inl () | Some raw \<Rightarrow>
      let token = EncodeToString URLAlphabet raw;
          hash = sha256 (pg env) (string_bytes token) in
      case newAccountID (rnd env ''session'') of None \<Rightarrow> Inl () | Some sessionID \<Rightarrow>
      let now = clock env ''issueAccessToken'' in
      case CreateAccessToken env (sDb s)
             \<lparr>stTokenHash = hash, stSessionID = sessionID, stAccountID = saAccountID account,
              stEmail = saEmail account, stAdministrator = saAdministrator account, stHost = host,
              stSourceIP = sourceIP, stCreatedAt = now, stLastUsedAt = now, stRevokedAt = 0\<rparr> of
        Inl e \<Rightarrow> Inl ()
      | Inr db \<Rightarrow>
          let event = (\<lambda>type. audit_event_of type sourceIP
                \<lparr>aeAccountID := saAccountID account, aeActorID := saAccountID account,
                 aeSessionID := sessionID, aeOccurredAt := now\<rparr>)
          in Inr (token, audit_state env (audit_state env (s\<lparr>sDb := db\<rparr>) (event ''login.succeeded''))
                           (event ''session.created'')))"

section \<open>The two halves of a login\<close>

record login_start_request =
  lsEmail :: string
  lsKE1 :: string
  lsHost :: string

record login_start_response =
  lrLoginID :: string
  lrKE2 :: string

record login_finish_request =
  lfLoginID :: string
  lfKE3 :: string

record login_finish_response =
  lpAccountID :: string
  lpPasswordVaultEnvelope :: string
  lpRecoveryVaultEnvelope :: string
  lpAccessToken :: string

definition newLoginID :: "bytes option \<Rightarrow> string option" where
  "newLoginID value = map_option (EncodeToString URLAlphabet) value"

text \<open>
  The client record of a login: a fake one for an unknown account, so that the answer does not
  tell; the account is then absent from the pending login.
\<close>

definition login_record ::
  "'a auth_env_scheme \<Rightarrow> auth_db \<Rightarrow> string \<Rightarrow> (client_record \<times> stored_account option) option" where
  "login_record env db email =
     (case FindAccount env db email of
        Inl ErrAccountNotFound \<Rightarrow> map_option (\<lambda>rec. (FakeRecord rec, None)) (fakeRecordFor env email)
      | Inl _ \<Rightarrow> None
      | Inr account \<Rightarrow>
          map_option (\<lambda>rec. (RegisteredRecord rec email, Some account))
            (readRegistrationRecord env (saOpaqueRecord account)))"

definition beginLogin ::
  "'a auth_env_scheme \<Rightarrow> server_state \<Rightarrow> string \<Rightarrow> bytes \<Rightarrow> string \<Rightarrow> string \<Rightarrow> (string \<times> bytes \<times> server_state) option" where
  "beginLogin env s email encodedKE1 host sourceIP =
     (case readKE1 env encodedKE1 of None \<Rightarrow> None | Some ke1 \<Rightarrow>
      case login_record env (sDb s) email of None \<Rightarrow> None | Some (record, accountPtr) \<Rightarrow>
      case generateKE2 env ke1 record of None \<Rightarrow> None | Some (ke2, clientMAC, sessionSecret) \<Rightarrow>
      case newLoginID (rnd env ''login'') of None \<Rightarrow> None | Some loginID \<Rightarrow>
      Some (loginID, ke2, s\<lparr>sPending := fmupd loginID
        \<lparr>plAccount = accountPtr, plClientMAC = clientMAC, plSessionSecret = sessionSecret, plHost = host,
         plSourceIP = sourceIP, plRateAccount = email,
         plExpiresAt = clock env ''beginLogin'' + minutes 5\<rparr> (sPending s)\<rparr>))"

definition retry_seconds :: "duration \<Rightarrow> string" where
  "retry_seconds retry = int_text ((retry + seconds 1 - 1) div seconds 1)"

text \<open>
  \<open>startLogin\<close> asks the limiter, begins the login and counts it in three critical sections:
  between them other requests are served. \<open>admitLogin\<close> is everything up to the limiter's
  consent, with the reply when there is none, and \<open>countLogin\<close> the last step.
\<close>

definition admitLogin ::
  "'a auth_env_scheme \<Rightarrow> login_start_request http_request \<Rightarrow> server_state \<Rightarrow>
     login_start_response http_reply \<times> server_state + string \<times> bytes \<times> string \<times> string" where
  "admitLogin env r s =
     (case decodeRequest r of None \<Rightarrow> Inl (invalid_body, s) | Some request \<Rightarrow>
      case canonicalEmail env (lsEmail request) of
        None \<Rightarrow> Inl (HttpError 400 ''invalid login request'', s)
      | Some email \<Rightarrow>
      case DecodeString StdAlphabet (lsKE1 request) of
        None \<Rightarrow> Inl (HttpError 400 ''invalid login request'', s)
      | Some encoded \<Rightarrow>
      let host = TrimSpace (lsHost request);
          host = (if host = [] then ''unknown'' else host) in
      if \<not> validSessionHost host then Inl (HttpError 400 ''invalid login request'', s)
      else let sourceIP = rqClientIP r;
               retry = RetryAfter (sLimiter s) email sourceIP (clock env ''RetryAfter'') in
      if retry > 0 then
        Inl (HttpRetry (retry_seconds retry) ''login temporarily delayed'',
         audit_state env s (audit_event_of ''login.throttled'' sourceIP
           \<lparr>aeAccountID := (case FindAccount env (sDb s) email of Inl _ \<Rightarrow> [] | Inr account \<Rightarrow> saAccountID account)\<rparr>))
      else Inr (email, encoded, host, sourceIP))"

definition countLogin :: "'a auth_env_scheme \<Rightarrow> server_state \<Rightarrow> string \<Rightarrow> string \<Rightarrow> server_state" where
  "countLogin env s email sourceIP =
     s\<lparr>sLimiter := RecordFailure (sLimiter s) email sourceIP (clock env ''RecordFailure'')\<rparr>"

definition startLogin ::
  "'a auth_env_scheme \<Rightarrow> login_start_request http_request \<Rightarrow> server_state \<Rightarrow> login_start_response http_reply \<times> server_state" where
  "startLogin env r s =
     (case admitLogin env r s of Inl refused \<Rightarrow> refused | Inr (email, encoded, host, sourceIP) \<Rightarrow>
      case beginLogin env s email encoded host sourceIP of
        None \<Rightarrow> (HttpError 400 ''invalid login request'', s)
      | Some (loginID, response, s) \<Rightarrow>
          (writeJSON 200 \<lparr>lrLoginID = loginID, lrKE2 = EncodeToString StdAlphabet response\<rparr>,
           countLogin env s email sourceIP))"

text \<open>The zero \<open>pendingLogin\<close> a missing key yields; only its account and source address are read.\<close>

definition no_login :: pending_login where
  "no_login = \<lparr>plAccount = None, plClientMAC = [], plSessionSecret = [], plHost = [], plSourceIP = [],
     plRateAccount = [], plExpiresAt = 0\<rparr>"

definition take_pending :: "server_state \<Rightarrow> string \<Rightarrow> pending_login option \<times> server_state" where
  "take_pending s loginID = (fmlookup (sPending s) loginID, s\<lparr>sPending := fmdrop loginID (sPending s)\<rparr>)"

text \<open>
  The pending login is removed before anything is checked. A success returns the login together
  with its account, which is then known to be present.
\<close>

definition completeLogin ::
  "'a auth_env_scheme \<Rightarrow> server_state \<Rightarrow> string \<Rightarrow> bytes \<Rightarrow> (pending_login + pending_login \<times> stored_account) \<times> server_state" where
  "completeLogin env s loginID encodedKE3 =
     (case take_pending s loginID of
        (None, s) \<Rightarrow> (Inl no_login, s)
      | (Some pending, s) \<Rightarrow>
          if clock env ''completeLogin'' > plExpiresAt pending then (Inl pending, s)
          else case readKE3 env encodedKE3 of
            None \<Rightarrow> (Inl pending, s)
          | Some ke3 \<Rightarrow>
              if \<not> loginFinish env ke3 (plClientMAC pending) then (Inl pending, s)
              else (case plAccount pending of
                      None \<Rightarrow> (Inl pending, s)
                    | Some account \<Rightarrow> (Inr (pending, account), s)))"

definition login_failed_event :: "pending_login \<Rightarrow> audit_event" where
  "login_failed_event login =
     audit_event_of ''login.failed'' (plSourceIP login)
       \<lparr>aeAccountID := (case plAccount login of None \<Rightarrow> [] | Some account \<Rightarrow> saAccountID account)\<rparr>"

definition finishLogin ::
  "'a auth_env_scheme \<Rightarrow> login_finish_request http_request \<Rightarrow> server_state \<Rightarrow> login_finish_response http_reply \<times> server_state" where
  "finishLogin env r s =
     (case decodeRequest r of None \<Rightarrow> (invalid_body, s) | Some request \<Rightarrow>
      case DecodeString StdAlphabet (lfKE3 request) of
        None \<Rightarrow> (HttpError 401 ''invalid login'', s)
      | Some encoded \<Rightarrow>
      case completeLogin env s (lfLoginID request) encoded of
        (Inl login, s) \<Rightarrow> (HttpError 401 ''invalid login'', audit_state env s (login_failed_event login))
      | (Inr (login, account), s) \<Rightarrow>
          let s = s\<lparr>sLimiter := Reset (sLimiter s) (plRateAccount login) (plSourceIP login)\<rparr> in
          (case issueAccessToken env s account (plHost login) (plSourceIP login) of
             Inl _ \<Rightarrow> (HttpError 503 ''login unavailable'', s)
           | Inr (token, s) \<Rightarrow>
               (writeJSON 200 \<lparr>lpAccountID = saAccountID account,
                  lpPasswordVaultEnvelope = EncodeToString StdAlphabet (saPasswordVaultEnvelope account),
                  lpRecoveryVaultEnvelope = EncodeToString StdAlphabet (saRecoveryVaultEnvelope account),
                  lpAccessToken = token\<rparr>, s)))"

definition reportLoginFailure ::
  "'a auth_env_scheme \<Rightarrow> string http_request \<Rightarrow> server_state \<Rightarrow> unit http_reply \<times> server_state" where
  "reportLoginFailure env r s =
     (case decodeRequest r of None \<Rightarrow> (invalid_body, s) | Some loginID \<Rightarrow>
      (HttpReply 204 None,
       case take_pending s loginID of
         (None, s) \<Rightarrow> s
       | (Some login, s) \<Rightarrow> audit_state env s (login_failed_event login)))"

end
