(* ===== verification/Services.thy ===== *)
theory Services
  imports AuthService
begin

text \<open>
  The authenticated services: invitations (\<open>invite.go\<close>), sessions (\<open>session.go\<close>),
  accounts (\<open>account.go\<close>), the activity lists (\<open>audit.go\<close>) and the vault items with
  their synchronization (\<open>item.go\<close>). Each handler is one step on the server's state.
\<close>

section \<open>Who is asking\<close>

definition authenticate ::
  "'a auth_env_scheme \<Rightarrow> 'r http_request \<Rightarrow> server_state \<Rightarrow> (auth_error + stored_access_token) \<times> server_state" where
  "authenticate env r s =
     (case AuthenticateToken env (sDb s) (bearerToken r) of (result, db) \<Rightarrow> (result, s\<lparr>sDb := db\<rparr>))"

definition authenticateAdministrator ::
  "'a auth_env_scheme \<Rightarrow> 'r http_request \<Rightarrow> server_state \<Rightarrow> (auth_error + stored_access_token) \<times> server_state" where
  "authenticateAdministrator env r s =
     (if bearerToken r = [] then (Inl errInvalidAccessToken, s)
      else case authenticate env r s of
        (Inl e, s) \<Rightarrow> (Inl e, s)
      | (Inr token, s) \<Rightarrow> if \<not> stAdministrator token then (Inl AdministratorRequired, s) else (Inr token, s))"

definition unauthorized :: "'b http_reply" where
  "unauthorized = HttpError 401 ''unauthorized''"

section \<open>Invitations\<close>

definition invite_status :: "stored_invite \<Rightarrow> time \<Rightarrow> string" where
  "invite_status i now =
     (if \<not> is_zero_time (siRevokedAt i) then ''revoked''
      else if siConsumedBy i \<noteq> [] then ''consumed''
      else if now > siExpiresAt i then ''expired''
      else ''active'')"

record create_invite_response =
  crInviteID :: string
  crToken :: string
  crEmail :: string
  crExpiresAt :: time

record invite_json =
  ijInviteID :: string
  ijEmail :: string
  ijCreatedBy :: string
  ijCreatedAt :: time
  ijExpiresAt :: time
  ijConsumedBy :: string
  ijConsumedAt :: "time option"
  ijRevokedAt :: "time option"
  ijStatus :: string

definition createInvite ::
  "'a auth_env_scheme \<Rightarrow> string http_request \<Rightarrow> server_state \<Rightarrow> create_invite_response http_reply \<times> server_state" where
  "createInvite env r s =
     (case authenticateAdministrator env r s of
        (Inl _, s) \<Rightarrow> (unauthorized, s)
      | (Inr token, s) \<Rightarrow>
      case decodeRequest r of None \<Rightarrow> (invalid_body, s) | Some reqEmail \<Rightarrow>
      case canonicalEmail env reqEmail of
        None \<Rightarrow> (HttpError 400 ''invalid invite request'', s)
      | Some email \<Rightarrow>
      case rnd env ''invite'' of
        None \<Rightarrow> (HttpError 500 ''invite creation failed'', s)
      | Some raw \<Rightarrow>
      let tokenStr = EncodeToString URLAlphabet raw;
          tokenHash = sha256 (pg env) (string_bytes tokenStr) in
      case newAccountID (rnd env ''inviteID'') of
        None \<Rightarrow> (HttpError 500 ''invite creation failed'', s)
      | Some inviteID \<Rightarrow>
      let now = clock env ''createInvite'';
          invite = \<lparr>siInviteID = inviteID, siEmail = email, siTokenHash = tokenHash,
                    siCreatedBy = stAccountID token, siCreatedAt = now, siExpiresAt = now + hours 48,
                    siConsumedBy = [], siConsumedAt = 0, siRevokedAt = 0\<rparr> in
      case CreateInvite env (sDb s) invite of
        Inl e \<Rightarrow> (HttpError 500 ''invite creation failed'', s)
      | Inr db \<Rightarrow>
          (writeJSON 201 \<lparr>crInviteID = inviteID, crToken = tokenStr, crEmail = email,
             crExpiresAt = siExpiresAt invite\<rparr>,
           audit_state env (s\<lparr>sDb := db\<rparr>) (audit_event_of ''invite.created'' (rqClientIP r)
             \<lparr>aeAccountID := stAccountID token, aeActorID := stAccountID token, aeInviteID := inviteID,
              aeOccurredAt := now\<rparr>)))"

definition invite_json_of :: "time \<Rightarrow> stored_invite \<Rightarrow> invite_json" where
  "invite_json_of now i =
     \<lparr>ijInviteID = siInviteID i, ijEmail = siEmail i, ijCreatedBy = siCreatedBy i,
      ijCreatedAt = siCreatedAt i, ijExpiresAt = siExpiresAt i,
      ijConsumedBy = (if siConsumedBy i \<noteq> [] then siConsumedBy i else []),
      ijConsumedAt = (if siConsumedBy i \<noteq> [] then Some (siConsumedAt i) else None),
      ijRevokedAt = (if \<not> is_zero_time (siRevokedAt i) then Some (siRevokedAt i) else None),
      ijStatus = invite_status i now\<rparr>"

definition listInvites ::
  "'a auth_env_scheme \<Rightarrow> unit http_request \<Rightarrow> server_state \<Rightarrow> invite_json list http_reply \<times> server_state" where
  "listInvites env r s =
     (case authenticateAdministrator env r s of
        (Inl _, s) \<Rightarrow> (unauthorized, s)
      | (Inr _, s) \<Rightarrow>
      case ListInvites env (sDb s) of
        Inl e \<Rightarrow> (HttpError 500 ''failed to list invites'', s)
      | Inr invites \<Rightarrow> (writeJSON 200 (map (invite_json_of (clock env ''listInvites'')) invites), s))"

definition revokeInvite ::
  "'a auth_env_scheme \<Rightarrow> unit http_request \<Rightarrow> server_state \<Rightarrow> unit http_reply \<times> server_state" where
  "revokeInvite env r s =
     (case authenticateAdministrator env r s of
        (Inl _, s) \<Rightarrow> (unauthorized, s)
      | (Inr token, s) \<Rightarrow>
      let inviteID = rqPathID r in
      if inviteID = [] then (HttpError 400 ''invite ID required'', s)
      else case RevokeInvite env (sDb s) inviteID of
        Inl e \<Rightarrow> (if e = ErrInviteNotFound then HttpError 404 ''invite not found''
                 else HttpError 500 ''failed to revoke invite'', s)
      | Inr db \<Rightarrow>
          (HttpReply 204 None,
           audit_state env (s\<lparr>sDb := db\<rparr>) (audit_event_of ''invite.revoked'' (rqClientIP r)
             \<lparr>aeAccountID := stAccountID token, aeActorID := stAccountID token, aeInviteID := inviteID\<rparr>)))"

section \<open>Sessions\<close>

record online_session =
  osSessionID :: string
  osHost :: string
  osSourceIP :: string
  osCreatedAt :: time
  osLastUsed :: time
  osCurrent :: bool

definition revokeSession ::
  "'a auth_env_scheme \<Rightarrow> unit http_request \<Rightarrow> server_state \<Rightarrow> unit http_reply \<times> server_state" where
  "revokeSession env r s =
     (case authenticate env r s of
        (Inl _, s) \<Rightarrow> (unauthorized, s)
      | (Inr current, s) \<Rightarrow>
      let sessionID = (if rqPathID r = ''current'' then stSessionID current else rqPathID r) in
      case RevokeSession env (sDb s) (stAccountID current) sessionID (clock env ''revokeSession'') of
        Inl e \<Rightarrow> (if e = ErrSessionNotFound then HttpError 404 ''session not found''
                 else HttpError 500 ''failed to revoke session'', s)
      | Inr db \<Rightarrow>
          (HttpReply 204 None,
           audit_state env (s\<lparr>sDb := db\<rparr>) (audit_event_of ''session.revoked'' (rqClientIP r)
             \<lparr>aeAccountID := stAccountID current, aeActorID := stAccountID current, aeSessionID := sessionID\<rparr>)))"

definition listSessions ::
  "'a auth_env_scheme \<Rightarrow> unit http_request \<Rightarrow> server_state \<Rightarrow> online_session list http_reply \<times> server_state" where
  "listSessions env r s =
     (case authenticate env r s of
        (Inl _, s) \<Rightarrow> (unauthorized, s)
      | (Inr current, s) \<Rightarrow>
      case ListSessions env (sDb s) (stAccountID current) of
        Inl e \<Rightarrow> (HttpError 500 ''failed to list sessions'', s)
      | Inr stored \<Rightarrow>
          (writeJSON 200 (map (\<lambda>item.
             \<lparr>osSessionID = stSessionID item, osHost = stHost item, osSourceIP = stSourceIP item,
              osCreatedAt = stCreatedAt item, osLastUsed = stLastUsedAt item,
              osCurrent = (stSessionID item = stSessionID current)\<rparr>) stored), s))"

section \<open>Accounts and activity\<close>

definition listAccounts ::
  "'a auth_env_scheme \<Rightarrow> unit http_request \<Rightarrow> server_state \<Rightarrow> account_summary list http_reply \<times> server_state" where
  "listAccounts env r s =
     (case authenticateAdministrator env r s of
        (Inl _, s) \<Rightarrow> (unauthorized, s)
      | (Inr _, s) \<Rightarrow>
      case ListAccounts env (sDb s) of
        Inl e \<Rightarrow> (HttpError 500 ''failed to list accounts'', s)
      | Inr accounts \<Rightarrow> (writeJSON 200 accounts, s))"

text \<open>The activity service exists only with an audit log; it is the argument here.\<close>

definition listOwn ::
  "'a auth_env_scheme \<Rightarrow> audit_log \<Rightarrow> unit http_request \<Rightarrow> server_state \<Rightarrow> activity_page http_reply \<times> server_state" where
  "listOwn env l r s =
     (case authenticate env r s of
        (Inl _, s) \<Rightarrow> (unauthorized, s)
      | (Inr token, s) \<Rightarrow>
          (case activity_list env l (sDb s) r (stAccountID token) (stAdministrator token) of
             (reply, db) \<Rightarrow> (reply, s\<lparr>sDb := db\<rparr>)))"

definition listAll ::
  "'a auth_env_scheme \<Rightarrow> audit_log \<Rightarrow> unit http_request \<Rightarrow> server_state \<Rightarrow> activity_page http_reply \<times> server_state" where
  "listAll env l r s =
     (case authenticateAdministrator env r s of
        (Inl _, s) \<Rightarrow> (unauthorized, s)
      | (Inr _, s) \<Rightarrow>
          (case activity_list env l (sDb s) r [] True of (reply, db) \<Rightarrow> (reply, s\<lparr>sDb := db\<rparr>)))"

section \<open>Items\<close>

record put_item_request =
  piSchemaVersion :: int
  piRevision :: u64
  piEnvelope :: "bytes option"

record sync_request =
  syCursor :: string
  syMutations :: "vault_mutation list"

definition put ::
  "'a auth_env_scheme \<Rightarrow> put_item_request http_request \<Rightarrow> server_state \<Rightarrow> unit http_reply \<times> server_state" where
  "put env r s =
     (case authenticate env r s of
        (Inl _, s) \<Rightarrow> (unauthorized, s)
      | (Inr token, s) \<Rightarrow>
      case decodeRequest r of None \<Rightarrow> (invalid_body, s) | Some request \<Rightarrow>
      if rqPathID r = [] \<or> piSchemaVersion request < 1 \<or> piRevision request < 1 \<or>
         piRevision request > maximumItemRevision \<or>
         len (piEnvelope request) = 0 \<or> len (piEnvelope request) > maximumItemEnvelopeSize
      then (HttpError 400 ''invalid item'', s)
      else if fault env ''PutItem'' then (HttpError 500 ''failed to store item'', s)
      else case PutItem (pg env) (sVault s) (stAccountID token)
             \<lparr>oItemID = rqPathID r, oSchemaVersion = piSchemaVersion request, oRevision = piRevision request,
              oRevisionID = [], oParents = [], oDeleted = False, oPurged = False,
              oEnvelope = piEnvelope request\<rparr> of
        Inl e \<Rightarrow> (if e = ErrItemRevisionConflict then HttpError 409 ''item revision conflict''
                 else HttpError 500 ''failed to store item'', s)
      | Inr vault \<Rightarrow> (HttpReply 204 None, s\<lparr>sVault := vault\<rparr>))"

definition list_items ::
  "'a auth_env_scheme \<Rightarrow> unit http_request \<Rightarrow> server_state \<Rightarrow> opaque_item list http_reply \<times> server_state" where
  "list_items env r s =
     (case authenticate env r s of
        (Inl _, s) \<Rightarrow> (unauthorized, s)
      | (Inr token, s) \<Rightarrow>
          if fault env ''ListItems'' then (HttpError 500 ''failed to list items'', s)
          else (writeJSON 200 (ListItems (sVault s) (stAccountID token)), s))"

definition auditSyncFailure :: "'a auth_env_scheme \<Rightarrow> 'r http_request \<Rightarrow> server_state \<Rightarrow> string \<Rightarrow> server_state" where
  "auditSyncFailure env r s accountID =
     audit_state env s (audit_event_of ''sync.failed'' (rqClientIP r)
       \<lparr>aeAccountID := accountID, aeActorID := accountID\<rparr>)"

definition sync_error_reply :: "sync_error \<Rightarrow> 'b http_reply" where
  "sync_error_reply e =
     (case e of
        ErrItemRevisionConflict \<Rightarrow> HttpError 409 ''item revision conflict''
      | ErrMutationIDReuse \<Rightarrow> HttpError 409 ''mutation ID conflict''
      | ErrInvalidSyncCursor \<Rightarrow> HttpError 400 ''invalid synchronization cursor''
      | DbError \<Rightarrow> HttpError 500 ''synchronization failed'')"

definition sync ::
  "'a auth_env_scheme \<Rightarrow> sync_request http_request \<Rightarrow> server_state \<Rightarrow> vault_sync_result http_reply \<times> server_state" where
  "sync env r s =
     (case authenticate env r s of
        (Inl _, s) \<Rightarrow> (unauthorized, s)
      | (Inr token, s) \<Rightarrow>
      case decodeRequest r of
        None \<Rightarrow> (invalid_body, auditSyncFailure env r s (stAccountID token))
      | Some request \<Rightarrow>
      let mutations = normalizeMutations (syMutations request) in
      if length mutations > maximumSyncMutations \<or> \<not> validMutations mutations
      then (HttpError 400 ''invalid synchronization'', auditSyncFailure env r s (stAccountID token))
      else case (if fault env ''Sync'' then bind_e (parseSyncCursor (syCursor request)) (\<lambda>_. Inl DbError)
                 else Sync (pg env) (sVault s) (stAccountID token) (syCursor request) mutations (clock env ''Sync'')) of
        Inl e \<Rightarrow> (sync_error_reply e, auditSyncFailure env r s (stAccountID token))
      | Inr (result, vault) \<Rightarrow> (writeJSON 200 result, s\<lparr>sVault := vault\<rparr>))"

end
