(* ===== verification/SyncLemmas.thy ===== *)
theory SyncLemmas
  imports SyncStore
begin

text \<open>
  The laws of the server's tables: what one accepted mutation does to each of them, and the
  well-formedness of the vault that every transaction keeps. The heads of an item are then exactly
  the revisions no other revision of the item has as a parent, whatever order they arrived in.
\<close>

section \<open>What the database is relied on for\<close>

text \<open>
  \<open>text::uuid::text\<close> yields a canonical text, a fixed point of the cast, in the hexadecimal
  form; \<open>gen_random_uuid\<close> prints such a text. Two different UUIDs never have the same
  canonical text, which holds of any function.
\<close>

definition pg_ok :: "pg_env \<Rightarrow> bool" where
  "pg_ok pg \<longleftrightarrow> (\<forall>s c. uuidIn pg s = Some c \<longrightarrow> validUUID c \<and> uuidIn pg c = Some c) \<and>
     (\<forall>n. uuidIn pg (genUUID pg n) = Some (genUUID pg n))"

lemma pg_okD:
  "pg_ok pg \<Longrightarrow> uuidIn pg s = Some c \<Longrightarrow> validUUID c"
  "pg_ok pg \<Longrightarrow> uuidIn pg s = Some c \<Longrightarrow> uuidIn pg c = Some c"
  "pg_ok pg \<Longrightarrow> uuidIn pg (genUUID pg n) = Some (genUUID pg n)"
  "pg_ok pg \<Longrightarrow> validUUID (genUUID pg n)"
  by (auto simp: pg_ok_def)

lemma uuids_in_iff: "uuids_in pg ids = Some ps \<longleftrightarrow> list_all2 (\<lambda>s c. uuidIn pg s = Some c) ids ps"
  by (simp add: uuids_in_def those_Some_map)

lemma uuids_in_valid:
  assumes "pg_ok pg" "uuids_in pg ids = Some ps"
  shows "\<forall>p \<in> set ps. validUUID p"
proof
  fix p assume "p \<in> set ps"
  with assms(2) obtain s where "uuidIn pg s = Some p"
    unfolding uuids_in_iff by (induction rule: list_all2_induct) auto
  with assms(1) show "validUUID p" by (rule pg_okD)
qed

lemma uuids_in_length: "uuids_in pg ids = Some ps \<Longrightarrow> length ps = length ids"
  unfolding uuids_in_iff by (simp add: list_all2_lengthD)

lemma uuids_in_canonical: "pg_ok pg \<Longrightarrow> uuids_in pg ids = Some ps \<Longrightarrow> uuids_in pg ps = Some ps"
  unfolding uuids_in_iff by (auto simp: list_all2_conv_all_nth pg_ok_def)

section \<open>Revisions, heads and children\<close>

definition has_revision :: "vault_db \<Rightarrow> string \<Rightarrow> uuid \<Rightarrow> uuid \<Rightarrow> bool" where
  "has_revision db acc i r \<longleftrightarrow>
     (\<exists>x \<in> set (tRevisions db). rvAccount x = acc \<and> rvItemID x = i \<and> rvRevisionID x = r)"

definition is_head :: "vault_db \<Rightarrow> string \<Rightarrow> uuid \<Rightarrow> uuid \<Rightarrow> bool" where
  "is_head db acc i r \<longleftrightarrow> \<lparr>hdAccount = acc, hdItemID = i, hdRevisionID = r\<rparr> \<in> set (tHeads db)"

definition has_child :: "vault_db \<Rightarrow> string \<Rightarrow> uuid \<Rightarrow> uuid \<Rightarrow> bool" where
  "has_child db acc i r \<longleftrightarrow>
     (\<exists>x \<in> set (tRevisions db). rvAccount x = acc \<and> rvItemID x = i \<and> r \<in> set (rvParents x))"

definition row_key :: "revision_row \<Rightarrow> string \<times> uuid" where
  "row_key x = (rvAccount x, rvRevisionID x)"

definition row_ok :: "revision_row \<Rightarrow> bool" where
  "row_ok x \<longleftrightarrow> check_revision_row x \<and> validUUID (rvRevisionID x) \<and> validUUID (rvItemID x) \<and>
     (\<forall>p \<in> set (rvParents x). validUUID p) \<and> distinct (rvParents x)"

definition vault_wf :: "vault_db \<Rightarrow> bool" where
  "vault_wf db \<longleftrightarrow>
     distinct (map row_key (tRevisions db)) \<and> distinct (tHeads db) \<and>
     (\<forall>x \<in> set (tRevisions db). row_ok x) \<and>
     (\<forall>acc i r. is_head db acc i r \<longleftrightarrow> has_revision db acc i r \<and> \<not> has_child db acc i r) \<and>
     (\<forall>x \<in> set (tRevisions db). \<forall>p \<in> set (rvParents x). \<exists>y \<in> set (tRevisions db).
        rvAccount y = rvAccount x \<and> rvItemID y = rvItemID x \<and> rvRevisionID y = p \<and>
        unat (rvRevision y) < unat (rvRevision x)) \<and>
     (\<forall>c \<in> set (tChanges db). 0 < chCursor c \<and> chCursor c \<le> cursor_of db (chAccount c) \<and>
        (\<forall>p \<in> set (chParents c). validUUID p)) \<and>
     distinct (map (\<lambda>c. (chAccount c, chCursor c)) (tChanges db)) \<and>
     (\<forall>g \<in> set (tLedger db). has_revision db (lgAccount g) (lgItemID g) (lgRevisionID g))"

lemma vault_wfD:
  assumes "vault_wf db"
  shows "distinct (map row_key (tRevisions db))" "distinct (tHeads db)"
    "\<And>x. x \<in> set (tRevisions db) \<Longrightarrow> row_ok x"
    "\<And>acc i r. is_head db acc i r \<longleftrightarrow> has_revision db acc i r \<and> \<not> has_child db acc i r"
    "\<And>x p. x \<in> set (tRevisions db) \<Longrightarrow> p \<in> set (rvParents x) \<Longrightarrow> \<exists>y \<in> set (tRevisions db).
        rvAccount y = rvAccount x \<and> rvItemID y = rvItemID x \<and> rvRevisionID y = p \<and>
        unat (rvRevision y) < unat (rvRevision x)"
    "\<And>c. c \<in> set (tChanges db) \<Longrightarrow> 0 < chCursor c \<and> chCursor c \<le> cursor_of db (chAccount c)"
    "\<And>c p. c \<in> set (tChanges db) \<Longrightarrow> p \<in> set (chParents c) \<Longrightarrow> validUUID p"
    "distinct (map (\<lambda>c. (chAccount c, chCursor c)) (tChanges db))"
    "\<And>g. g \<in> set (tLedger db) \<Longrightarrow> has_revision db (lgAccount g) (lgItemID g) (lgRevisionID g)"
  using assms unfolding vault_wf_def by blast+

lemma row_unique:
  assumes "vault_wf db" "x \<in> set (tRevisions db)" "y \<in> set (tRevisions db)"
    "rvAccount x = rvAccount y" "rvRevisionID x = rvRevisionID y"
  shows "x = y"
proof -
  have "inj_on row_key (set (tRevisions db))" using vault_wfD(1)[OF assms(1)] by (simp add: distinct_map)
  moreover have "row_key x = row_key y" using assms(4,5) by (simp add: row_key_def)
  ultimately show ?thesis using assms(2,3) by (rule inj_onD)
qed

lemma find_revision_iff:
  "vault_wf db \<Longrightarrow> find_revision db acc r = Some x \<longleftrightarrow>
     x \<in> set (tRevisions db) \<and> rvAccount x = acc \<and> rvRevisionID x = r"
proof
  assume "find_revision db acc r = Some x"
  then show "x \<in> set (tRevisions db) \<and> rvAccount x = acc \<and> rvRevisionID x = r"
    by (auto simp: find_revision_def dest: find_SomeD)
next
  assume wf: "vault_wf db" and x: "x \<in> set (tRevisions db) \<and> rvAccount x = acc \<and> rvRevisionID x = r"
  then have "find_revision db acc r \<noteq> None" by (auto simp: find_revision_def find_None_iff_all)
  then obtain y where "find_revision db acc r = Some y" by blast
  moreover from this have "y \<in> set (tRevisions db) \<and> rvAccount y = acc \<and> rvRevisionID y = r"
    by (auto simp: find_revision_def dest: find_SomeD)
  ultimately show "find_revision db acc r = Some x" using row_unique[OF wf, of x y] x by simp
qed

lemma find_revision_None:
  "find_revision db acc r = None \<longleftrightarrow> (\<forall>x \<in> set (tRevisions db). \<not> (rvAccount x = acc \<and> rvRevisionID x = r))"
  by (simp add: find_revision_def find_None_iff_all)

lemma item_revisions_iff:
  "x \<in> set (item_revisions_of db acc i) \<longleftrightarrow> x \<in> set (tRevisions db) \<and> rvAccount x = acc \<and> rvItemID x = i"
  by (auto simp: item_revisions_of_def)

section \<open>One accepted mutation\<close>

definition scrub_row :: "revision_row \<Rightarrow> revision_row \<Rightarrow> revision_row" where
  "scrub_row row r =
     (if rvPurged row \<and> rvAccount r = rvAccount row \<and> rvItemID r = rvItemID row \<and> rvRevisionID r \<noteq> rvRevisionID row
      then r\<lparr>rvEnvelope := None, rvContentPurged := True\<rparr> else r)"

lemma scrub_row_sel [simp]:
  "rvAccount (scrub_row row r) = rvAccount r" "rvItemID (scrub_row row r) = rvItemID r"
  "rvRevisionID (scrub_row row r) = rvRevisionID r" "rvParents (scrub_row row r) = rvParents r"
  "rvRevision (scrub_row row r) = rvRevision r" "rvSchema (scrub_row row r) = rvSchema r"
  "rvDeleted (scrub_row row r) = rvDeleted r" "rvPurged (scrub_row row r) = rvPurged r"
  "rvTombstonedAt (scrub_row row r) = rvTombstonedAt r" "row_key (scrub_row row r) = row_key r"
  by (simp_all add: scrub_row_def row_key_def)

lemma scrub_row_self [simp]: "scrub_row row row = row"
  by (simp add: scrub_row_def)

definition change_of :: "revision_row \<Rightarrow> nat \<Rightarrow> time \<Rightarrow> change_row" where
  "change_of row c acceptedAt =
     \<lparr>chAccount = rvAccount row, chCursor = c, chItemID = rvItemID row, chSchema = rvSchema row,
      chRevision = rvRevision row, chRevisionID = rvRevisionID row, chParents = rvParents row,
      chDeleted = rvDeleted row, chPurged = rvPurged row, chEnvelope = rvEnvelope row, chCreatedAt = acceptedAt\<rparr>"

definition ledger_of :: "revision_row \<Rightarrow> uuid \<Rightarrow> u64 \<Rightarrow> bytes \<Rightarrow> nat \<Rightarrow> time \<Rightarrow> ledger_row" where
  "ledger_of row mid base digest c acceptedAt =
     \<lparr>lgAccount = rvAccount row, lgMutationID = mid, lgItemID = rvItemID row, lgBase = base,
      lgRevision = rvRevision row, lgRevisionID = rvRevisionID row, lgParents = rvParents row,
      lgDigest = digest, lgCursor = c, lgCreatedAt = acceptedAt\<rparr>"

text \<open>\<open>appended\<close>: the tables after the row was appended, apart from the projection \<open>tItems\<close>.\<close>

definition appended :: "vault_db \<Rightarrow> revision_row \<Rightarrow> uuid \<Rightarrow> u64 \<Rightarrow> bytes \<Rightarrow> time \<Rightarrow> vault_db \<Rightarrow> bool" where
  "appended db row mid base digest acceptedAt db' \<longleftrightarrow>
     (let acc = rvAccount row; c = cursor_of db acc + 1 in
      check_revision_row row \<and> find_revision db acc (rvRevisionID row) = None \<and>
      tRevisions db' = map (scrub_row row) (tRevisions db) @ [row] \<and>
      tHeads db' = filter (\<lambda>h. \<not> (hdAccount h = acc \<and> hdItemID h = rvItemID row \<and>
          hdRevisionID h \<in> set (rvParents row))) (tHeads db) @
        [\<lparr>hdAccount = acc, hdItemID = rvItemID row, hdRevisionID = rvRevisionID row\<rparr>] \<and>
      tChanges db' = filter (\<lambda>x. \<not> (rvPurged row \<and> chAccount x = acc \<and> chItemID x = rvItemID row)) (tChanges db) @
        [change_of row c acceptedAt] \<and>
      tCursors db' = fmupd acc c (tCursors db) \<and>
      tLedger db' = tLedger db @ [ledger_of row mid base digest c acceptedAt] \<and>
      rvRevision row = base + 1 \<and> find_ledger db acc mid = None)"

lemma scrub_item_eq:
  "scrub_item db row = db\<lparr>tRevisions := map (scrub_row row) (tRevisions db),
     tChanges := filter (\<lambda>x. \<not> (rvPurged row \<and> chAccount x = rvAccount row \<and> chItemID x = rvItemID row)) (tChanges db)\<rparr>"
proof (cases "rvPurged row")
  case True
  then show ?thesis by (simp add: scrub_item_def scrub_row_def cong: if_cong)
next
  case False
  then have "scrub_row row = (\<lambda>r. r)" by (auto simp: scrub_row_def)
  with False show ?thesis by (simp add: scrub_item_def)
qed

lemma project_item_frame:
  "project_item db row = Inr db' \<Longrightarrow> \<exists>items. db' = db\<lparr>tItems := items\<rparr>"
  by (auto simp: project_item_def bind_e_Inr_iff split: if_splits)
    (metis vault_db.surjective vault_db.update_convs(3))+

lemma append_mutation_success:
  assumes "append_mutation pg db acc m mid acceptedAt = Inr db'"
  obtains r i ps row where
    "uuidIn pg (oRevisionID (vmItem m)) = Some r" "uuidIn pg (oItemID (vmItem m)) = Some i"
    "uuids_in pg (oParents (vmItem m)) = Some ps" "row = new_revision_row acc m i r ps acceptedAt"
    "appended db row mid (vmBaseRevision m) (vaultMutationDigest pg m) acceptedAt db'"
proof -
  from assms obtain r i ps row d1 d2 d3 d4 c d5 where
    ids: "uuidIn pg (oRevisionID (vmItem m)) = Some r" "uuidIn pg (oItemID (vmItem m)) = Some i"
      "uuids_in pg (oParents (vmItem m)) = Some ps" and
    row: "row = new_revision_row acc m i r ps acceptedAt" and
    st: "insert_revision db row = Inr d1" "replace_heads d1 row = Inr d2"
      "project_item (scrub_item d2 row) row = Inr d3" "advance_cursor d3 acc = Inr (d4, c)"
      "record_change d4 row c acceptedAt = Inr d5"
      "record_ledger d5 row mid (vmBaseRevision m) (vaultMutationDigest pg m) c acceptedAt = Inr db'"
    by (auto simp: append_mutation_def bind_e_Inr_iff Let_def)
  have acc: "rvAccount row = acc" by (simp add: row new_revision_row_def Let_def)
  from st(3) obtain items where d3: "d3 = (scrub_item d2 row)\<lparr>tItems := items\<rparr>"
    using project_item_frame by blast
  have d1: "d1 = db\<lparr>tRevisions := tRevisions db @ [row]\<rparr>" "check_revision_row row"
      "find_revision db acc (rvRevisionID row) = None"
    using st(1) by (auto simp: insert_revision_def bind_e_Inr_iff acc)
  have "appended db row mid (vmBaseRevision m) (vaultMutationDigest pg m) acceptedAt db'"
    using st(2,4,5,6) d1 unfolding appended_def d3 scrub_item_eq
    by (auto simp: replace_heads_def advance_cursor_def record_change_def record_ledger_def
        bind_e_Inr_iff Let_def acc cursor_of_def change_of_def ledger_of_def find_ledger_def
        split: if_splits)
  from that[OF ids row this] show thesis .
qed

lemma appended_row:
  assumes "appended db row mid base digest acceptedAt db'"
  shows "row \<in> set (tRevisions db')"
  using assms by (simp add: appended_def Let_def)

lemma appended_rows_iff:
  assumes "appended db row mid base digest acceptedAt db'"
  shows "x \<in> set (tRevisions db') \<longleftrightarrow> x = row \<or> (\<exists>y \<in> set (tRevisions db). x = scrub_row row y)"
  using assms by (auto simp: appended_def Let_def)

lemma appended_has_revision:
  assumes "appended db row mid base digest acceptedAt db'"
  shows "has_revision db' acc i r \<longleftrightarrow>
    has_revision db acc i r \<or> (acc = rvAccount row \<and> i = rvItemID row \<and> r = rvRevisionID row)"
  unfolding has_revision_def Bex_def appended_rows_iff[OF assms] by auto

lemma appended_has_child:
  assumes "appended db row mid base digest acceptedAt db'"
  shows "has_child db' acc i r \<longleftrightarrow>
    has_child db acc i r \<or> (acc = rvAccount row \<and> i = rvItemID row \<and> r \<in> set (rvParents row))"
  unfolding has_child_def Bex_def appended_rows_iff[OF assms] by auto

lemma appended_is_head:
  assumes "appended db row mid base digest acceptedAt db'"
  shows "is_head db' acc i r \<longleftrightarrow>
    (acc = rvAccount row \<and> i = rvItemID row \<and> r = rvRevisionID row) \<or>
    is_head db acc i r \<and> \<not> (acc = rvAccount row \<and> i = rvItemID row \<and> r \<in> set (rvParents row))"
  using assms by (auto simp: appended_def is_head_def Let_def)

section \<open>Validated requests\<close>

lemma valid_parents_iff:
  "valid_parents seen ps \<longleftrightarrow> (\<forall>p \<in> set ps. validUUID p) \<and> distinct ps \<and> set ps \<inter> seen = {}"
  by (induction ps arbitrary: seen) auto

lemma validMutationD:
  assumes "validMutation m"
  shows "validUUID (vmMutationID m)" "oRevisionID (vmItem m) = vmMutationID m"
    "oRevision (vmItem m) = vmBaseRevision m + 1" "oRevision (vmItem m) \<noteq> 0"
    "oRevision (vmItem m) \<le> maximumItemRevision" "validOpaqueItemContent (vmItem m)"
    "vmBaseRevision m = 0 \<longleftrightarrow> oParents (vmItem m) = []"
    "\<forall>p \<in> set (oParents (vmItem m)). validUUID p" "distinct (oParents (vmItem m))"
    "oSchemaVersion (vmItem m) \<ge> 1"
  using assms by (auto simp: validMutation_def Let_def valid_parents_iff split: if_splits)

lemma validMutation_number:
  assumes "validMutation m" shows "unat (oRevision (vmItem m)) = unat (vmBaseRevision m) + 1"
proof -
  from validMutationD(3,4)[OF assms] have "vmBaseRevision m + 1 \<noteq> 0" by simp
  then have "unat (vmBaseRevision m + 1) = unat (vmBaseRevision m) + 1" by (rule u64_succ)
  with validMutationD(3)[OF assms] show ?thesis by simp
qed

lemma found_parents:
  assumes wf: "vault_wf db"
    and n: "length (filter (\<lambda>r. rvRevisionID r \<in> set ps) (item_revisions_of db acc i)) = length ps"
  shows "distinct ps \<and> set ps \<subseteq> rvRevisionID ` set (filter (\<lambda>r. rvRevisionID r \<in> set ps) (item_revisions_of db acc i))"
proof -
  let ?found = "filter (\<lambda>r. rvRevisionID r \<in> set ps) (item_revisions_of db acc i)"
  have "distinct (map row_key ?found)"
    using vault_wfD(1)[OF wf] by (simp add: item_revisions_of_def distinct_map_filter)
  moreover have "map row_key ?found = map (\<lambda>r. (acc, rvRevisionID r)) ?found"
    by (rule map_cong) (auto simp: row_key_def item_revisions_iff)
  ultimately have d: "distinct (map (\<lambda>r. (acc, rvRevisionID r)) ?found)" by simp
  have "distinct (map rvRevisionID ?found)"
    using d by (auto simp: distinct_map inj_on_def)
  then have c: "card (rvRevisionID ` set ?found) = length ps"
    using n by (metis distinct_card length_map list.set_map)
  have sub: "rvRevisionID ` set ?found \<subseteq> set ps" by auto
  from card_mono[OF finite_set sub] c card_length[of ps] have e: "card (set ps) = length ps" by linarith
  with c have "rvRevisionID ` set ?found = set ps" using card_subset_eq[OF finite_set sub] by simp
  with e card_distinct[of ps] show ?thesis by (intro conjI equalityD2) simp_all
qed

lemma ancestry_ok:
  assumes a: "ancestry_check pg db acc m = Inr u" and wf: "vault_wf db" and v: "validMutation m"
    and ids: "uuidIn pg (oItemID (vmItem m)) = Some i" "uuids_in pg (oParents (vmItem m)) = Some ps"
  shows "distinct ps"
    and "\<And>p. p \<in> set ps \<Longrightarrow> \<exists>y \<in> set (tRevisions db). rvAccount y = acc \<and> rvItemID y = i \<and>
      rvRevisionID y = p \<and> rvRevision y \<le> vmBaseRevision m"
    and "vmBaseRevision m = 0 \<Longrightarrow> ps = [] \<and> item_revisions_of db acc i = []"
    and "vmBaseRevision m \<noteq> 0 \<Longrightarrow> ps \<noteq> [] \<and> (\<exists>y \<in> set (tRevisions db). rvAccount y = acc \<and> rvItemID y = i \<and>
      rvRevisionID y \<in> set ps \<and> rvRevision y = vmBaseRevision m)"
proof -
  have *: "distinct ps \<and> (\<forall>p \<in> set ps. \<exists>y \<in> set (tRevisions db). rvAccount y = acc \<and> rvItemID y = i \<and>
      rvRevisionID y = p \<and> rvRevision y \<le> vmBaseRevision m) \<and>
    (vmBaseRevision m = 0 \<longrightarrow> ps = [] \<and> item_revisions_of db acc i = []) \<and>
    (vmBaseRevision m \<noteq> 0 \<longrightarrow> ps \<noteq> [] \<and> (\<exists>y \<in> set (tRevisions db). rvAccount y = acc \<and> rvItemID y = i \<and>
      rvRevisionID y \<in> set ps \<and> rvRevision y = vmBaseRevision m))"
  proof (cases "vmBaseRevision m = 0")
    case True
    with validMutationD(7)[OF v] ids(2) have "ps = []" using uuids_in_length[OF ids(2)] by simp
    with True a ids show ?thesis by (simp add: ancestry_check_def initial_check_def bind_e_Inr_iff)
  next
    case False
    let ?found = "filter (\<lambda>r. rvRevisionID r \<in> set ps) (item_revisions_of db acc i)"
    let ?mx = "fold (\<lambda>r mx. max mx (rvRevision r)) ?found 0"
    from a False ids have n: "length ?found = length (oParents (vmItem m))" and mx: "?mx = vmBaseRevision m"
      by (simp_all add: ancestry_check_def parents_check_def bind_e_Inr_iff Let_def)
    from n uuids_in_length[OF ids(2)] have "length ?found = length ps" by simp
    from found_parents[OF wf this] have ps: "distinct ps" "set ps \<subseteq> rvRevisionID ` set ?found" by blast+
    have le: "rvRevision y \<le> vmBaseRevision m" if "y \<in> set ?found" for y
      using fold_max_member[OF that, of rvRevision 0] mx by simp
    have found: "y \<in> set (tRevisions db) \<and> rvAccount y = acc \<and> rvItemID y = i" if "y \<in> set ?found" for y
      using that by (auto simp: item_revisions_iff)
    have 1: "\<exists>y \<in> set (tRevisions db). rvAccount y = acc \<and> rvItemID y = i \<and> rvRevisionID y = p \<and>
      rvRevision y \<le> vmBaseRevision m" if "p \<in> set ps" for p
    proof -
      from subsetD[OF ps(2) that] obtain y where "y \<in> set ?found" "rvRevisionID y = p" by blast
      with le found show ?thesis by blast
    qed
    from fold_max_cases[of rvRevision ?found 0] mx False
    obtain y where y: "y \<in> set ?found" "rvRevision y = vmBaseRevision m" by auto
    then have "rvRevisionID y \<in> set ps" by simp
    with y found[OF y(1)] have 2: "ps \<noteq> [] \<and> (\<exists>y \<in> set (tRevisions db). rvAccount y = acc \<and> rvItemID y = i \<and>
      rvRevisionID y \<in> set ps \<and> rvRevision y = vmBaseRevision m)" by auto
    show ?thesis
      by (intro conjI ballI impI ps(1) 1 2[THEN conjunct1] 2[THEN conjunct2]) (use False in simp_all)
  qed
  from * show "distinct ps" ..
  from * show "\<And>p. p \<in> set ps \<Longrightarrow> \<exists>y \<in> set (tRevisions db). rvAccount y = acc \<and> rvItemID y = i \<and>
      rvRevisionID y = p \<and> rvRevision y \<le> vmBaseRevision m"
    by (elim conjE bspec)
  from * show "vmBaseRevision m = 0 \<Longrightarrow> ps = [] \<and> item_revisions_of db acc i = []"
    by (elim conjE mp)
  from * show "vmBaseRevision m \<noteq> 0 \<Longrightarrow> ps \<noteq> [] \<and> (\<exists>y \<in> set (tRevisions db). rvAccount y = acc \<and> rvItemID y = i \<and>
      rvRevisionID y \<in> set ps \<and> rvRevision y = vmBaseRevision m)"
    by (elim conjE) (erule (1) mp)
qed

section \<open>Every accepted mutation keeps the vault well-formed\<close>

lemma row_ok_scrub: "row_ok x \<Longrightarrow> row_ok (scrub_row row x)"
  by (auto simp: row_ok_def check_revision_row_def scrub_row_def)

lemma has_childD:
  "vault_wf db \<Longrightarrow> has_child db acc i r \<Longrightarrow> has_revision db acc i r"
  unfolding has_child_def has_revision_def using vault_wfD(5) by metis

definition fresh_row :: "vault_db \<Rightarrow> revision_row \<Rightarrow> bool" where
  "fresh_row db row \<longleftrightarrow> row_ok row \<and> find_revision db (rvAccount row) (rvRevisionID row) = None \<and>
     (\<forall>p \<in> set (rvParents row). \<exists>y \<in> set (tRevisions db).
        rvAccount y = rvAccount row \<and> rvItemID y = rvItemID row \<and> rvRevisionID y = p \<and>
        unat (rvRevision y) < unat (rvRevision row))"

lemma fresh_row_new:
  assumes "vault_wf db" "fresh_row db row"
  shows "\<not> has_revision db (rvAccount row) i (rvRevisionID row)"
    "\<not> has_child db (rvAccount row) i (rvRevisionID row)"
    "rvRevisionID row \<notin> set (rvParents row)"
proof -
  from assms(2) have f: "find_revision db (rvAccount row) (rvRevisionID row) = None"
    by (simp add: fresh_row_def)
  then show 1: "\<not> has_revision db (rvAccount row) i (rvRevisionID row)" for i
    by (auto simp: find_revision_None has_revision_def)
  with has_childD[OF assms(1)] show "\<not> has_child db (rvAccount row) i (rvRevisionID row)" by blast
  show "rvRevisionID row \<notin> set (rvParents row)"
    using assms(2) f by (auto simp: fresh_row_def find_revision_None)
qed

lemma appended_heads:
  assumes wf: "vault_wf db" and f: "fresh_row db row"
    and a: "appended db row mid base digest acceptedAt db'"
  shows "is_head db' acc i r \<longleftrightarrow> has_revision db' acc i r \<and> \<not> has_child db' acc i r"
proof (cases "acc = rvAccount row \<and> i = rvItemID row \<and> r = rvRevisionID row")
  case True
  with fresh_row_new[OF wf f] show ?thesis
    by (auto simp: appended_is_head[OF a] appended_has_revision[OF a] appended_has_child[OF a])
next
  case False
  with vault_wfD(4)[OF wf] show ?thesis
    by (auto simp: appended_is_head[OF a] appended_has_revision[OF a] appended_has_child[OF a])
qed

lemma cursor_of_upd:
  assumes "appended db row mid base digest acceptedAt db'"
  shows "cursor_of db' acc = (if acc = rvAccount row then cursor_of db acc + 1 else cursor_of db acc)"
  using assms by (auto simp: appended_def cursor_of_def Let_def)

lemma appended_wf:
  assumes wf: "vault_wf db" and f: "fresh_row db row"
    and a: "appended db row mid base digest acceptedAt db'"
  shows "vault_wf db'"
  unfolding vault_wf_def
proof (intro conjI)
  have "map row_key (tRevisions db') = map row_key (tRevisions db) @ [row_key row]"
    using a by (simp add: appended_def Let_def comp_def)
  moreover have "row_key row \<notin> row_key ` set (tRevisions db)"
    using f by (auto simp: fresh_row_def find_revision_None row_key_def)
  ultimately show "distinct (map row_key (tRevisions db'))"
    using vault_wfD(1)[OF wf] by simp
  have "\<not> is_head db (rvAccount row) (rvItemID row) (rvRevisionID row)"
    using fresh_row_new(1)[OF wf f] by (simp add: vault_wfD(4)[OF wf])
  then show "distinct (tHeads db')"
    using a vault_wfD(2)[OF wf] by (simp add: appended_def Let_def is_head_def)
  show "\<forall>x \<in> set (tRevisions db'). row_ok x"
    using f vault_wfD(3)[OF wf] row_ok_scrub unfolding Ball_def appended_rows_iff[OF a] fresh_row_def by blast
  show "\<forall>acc i r. is_head db' acc i r \<longleftrightarrow> has_revision db' acc i r \<and> \<not> has_child db' acc i r"
    by (intro allI appended_heads[OF wf f a])
  show "\<forall>x \<in> set (tRevisions db'). \<forall>p \<in> set (rvParents x). \<exists>y \<in> set (tRevisions db').
      rvAccount y = rvAccount x \<and> rvItemID y = rvItemID x \<and> rvRevisionID y = p \<and>
      unat (rvRevision y) < unat (rvRevision x)"
  proof (intro ballI)
    fix x p assume x: "x \<in> set (tRevisions db')" and p: "p \<in> set (rvParents x)"
    have "\<exists>y \<in> set (tRevisions db). rvAccount y = rvAccount x \<and> rvItemID y = rvItemID x \<and>
        rvRevisionID y = p \<and> unat (rvRevision y) < unat (rvRevision x)"
      using x[unfolded appended_rows_iff[OF a]]
    proof
      assume "x = row" with p f show ?thesis by (simp add: fresh_row_def)
    next
      assume "\<exists>z \<in> set (tRevisions db). x = scrub_row row z"
      with p vault_wfD(5)[OF wf] show ?thesis by fastforce
    qed
    then obtain y where "y \<in> set (tRevisions db)" "rvAccount y = rvAccount x \<and> rvItemID y = rvItemID x \<and>
        rvRevisionID y = p \<and> unat (rvRevision y) < unat (rvRevision x)" by blast
    then show "\<exists>y \<in> set (tRevisions db'). rvAccount y = rvAccount x \<and> rvItemID y = rvItemID x \<and>
        rvRevisionID y = p \<and> unat (rvRevision y) < unat (rvRevision x)"
      unfolding Bex_def appended_rows_iff[OF a] by (intro exI[of _ "scrub_row row y"]) auto
  qed
  have ch: "set (tChanges db') \<subseteq> insert (change_of row (cursor_of db (rvAccount row) + 1) acceptedAt) (set (tChanges db))"
    using a by (auto simp: appended_def Let_def)
  show "\<forall>c \<in> set (tChanges db'). 0 < chCursor c \<and> chCursor c \<le> cursor_of db' (chAccount c) \<and>
      (\<forall>p \<in> set (chParents c). validUUID p)"
  proof
    fix c assume "c \<in> set (tChanges db')"
    with ch consider "c = change_of row (cursor_of db (rvAccount row) + 1) acceptedAt" | "c \<in> set (tChanges db)" by blast
    then show "0 < chCursor c \<and> chCursor c \<le> cursor_of db' (chAccount c) \<and> (\<forall>p \<in> set (chParents c). validUUID p)"
    proof cases
      case 1 with f show ?thesis by (simp add: change_of_def cursor_of_upd[OF a] fresh_row_def row_ok_def)
    next
      case 2
      from vault_wfD(6,7)[OF wf 2] show ?thesis by (auto simp: cursor_of_upd[OF a])
    qed
  qed
  have "(rvAccount row, cursor_of db (rvAccount row) + 1) \<notin> (\<lambda>c. (chAccount c, chCursor c)) ` set (tChanges db)"
    using vault_wfD(6)[OF wf] by fastforce
  then show "distinct (map (\<lambda>c. (chAccount c, chCursor c)) (tChanges db'))"
    using a vault_wfD(8)[OF wf]
    by (auto simp: appended_def Let_def change_of_def distinct_map_filter)
  show "\<forall>g \<in> set (tLedger db'). has_revision db' (lgAccount g) (lgItemID g) (lgRevisionID g)"
    using a vault_wfD(9)[OF wf]
    by (auto simp: appended_has_revision[OF a]) (auto simp: appended_def Let_def ledger_of_def)
qed

lemma append_mutation_fresh:
  assumes wf: "vault_wf db" and pg: "pg_ok pg" and v: "validMutation m"
    and anc: "ancestry_check pg db acc m = Inr u"
    and ids: "uuidIn pg (oRevisionID (vmItem m)) = Some r" "uuidIn pg (oItemID (vmItem m)) = Some i"
      "uuids_in pg (oParents (vmItem m)) = Some ps"
    and row: "row = new_revision_row acc m i r ps acceptedAt"
    and a: "appended db row mid base digest acceptedAt db'"
  shows "fresh_row db row"
proof -
  note an = ancestry_ok[OF anc wf v ids(2,3)]
  from a have c: "check_revision_row row" "find_revision db (rvAccount row) (rvRevisionID row) = None"
    by (simp_all add: appended_def Let_def)
  have "row_ok row"
    using c(1) an(1) uuids_in_valid[OF pg ids(3)] pg_okD(1)[OF pg ids(1)] pg_okD(1)[OF pg ids(2)]
    by (simp add: row_ok_def row new_revision_row_def Let_def)
  moreover have "\<exists>y \<in> set (tRevisions db). rvAccount y = rvAccount row \<and> rvItemID y = rvItemID row \<and>
      rvRevisionID y = p \<and> unat (rvRevision y) < unat (rvRevision row)" if p: "p \<in> set (rvParents row)" for p
  proof -
    from p have "p \<in> set ps" by (simp add: row new_revision_row_def Let_def)
    from an(2)[OF this] obtain y where y: "y \<in> set (tRevisions db)" "rvAccount y = acc" "rvItemID y = i"
      "rvRevisionID y = p" "rvRevision y \<le> vmBaseRevision m" by blast
    from y(5) validMutation_number[OF v] have "unat (rvRevision y) < unat (oRevision (vmItem m))"
      by (simp add: word_le_nat_alt)
    with y show ?thesis by (auto simp: row new_revision_row_def Let_def)
  qed
  ultimately show ?thesis using c(2) by (simp add: fresh_row_def)
qed

text \<open>An accepted mutation was already in the ledger, or its row was appended to a vault it fits.\<close>

lemma applyVaultMutation_cases:
  assumes ap: "applyVaultMutation pg db acc m acceptedAt = Inr (b, db')"
    and wf: "vault_wf db" and pg: "pg_ok pg" and v: "validMutation m"
  obtains (replay) mid g where "b" "db' = db" "uuidIn pg (vmMutationID m) = Some mid"
      "find_ledger db acc mid = Some g" "same_as_ledger pg m g"
  | (accept) mid i ps row where "b" "uuidIn pg (vmMutationID m) = Some mid"
      "find_ledger db acc mid = None" "ancestry_check pg db acc m = Inr ()"
      "uuidIn pg (oItemID (vmItem m)) = Some i" "uuids_in pg (oParents (vmItem m)) = Some ps"
      "row = new_revision_row acc m i mid ps acceptedAt" "fresh_row db row"
      "appended db row mid (vmBaseRevision m) (vaultMutationDigest pg m) acceptedAt db'" "vault_wf db'"
proof -
  from ap obtain mid where mid: "uuidIn pg (vmMutationID m) = Some mid"
    and c: "(case find_ledger db acc mid of
       Some r \<Rightarrow> if \<not> same_as_ledger pg m r then Inl ErrMutationIDReuse else Inr (True, db)
     | None \<Rightarrow> bind_e (ancestry_check pg db acc m) (\<lambda>_.
         bind_e (append_mutation pg db acc m mid acceptedAt) (\<lambda>db. Inr (True, db)))) = Inr (b, db')"
    by (auto simp: applyVaultMutation_def bind_e_Inr_iff)
  show thesis
  proof (cases "find_ledger db acc mid")
    case (Some g)
    with c mid replay show thesis by (auto split: if_splits)
  next
    case None
    with c have anc: "ancestry_check pg db acc m = Inr ()" and
      ap': "append_mutation pg db acc m mid acceptedAt = Inr db'" and "b"
      by (auto simp: bind_e_Inr_iff)
    from append_mutation_success[OF ap'] obtain r i ps row where
      ids: "uuidIn pg (oRevisionID (vmItem m)) = Some r" "uuidIn pg (oItemID (vmItem m)) = Some i"
        "uuids_in pg (oParents (vmItem m)) = Some ps" and
      row: "row = new_revision_row acc m i r ps acceptedAt" and
      a: "appended db row mid (vmBaseRevision m) (vaultMutationDigest pg m) acceptedAt db'" .
    have r: "r = mid" using ids(1) mid validMutationD(2)[OF v] by simp
    have f: "fresh_row db row" by (rule append_mutation_fresh[OF wf pg v anc ids row a])
    from accept[OF \<open>b\<close> mid None anc ids(2,3) row[unfolded r] f a appended_wf[OF wf f a]] show thesis .
  qed
qed

lemma applyVaultMutation_wf:
  "applyVaultMutation pg db acc m acceptedAt = Inr (b, db') \<Longrightarrow> vault_wf db \<Longrightarrow> pg_ok pg \<Longrightarrow>
   validMutation m \<Longrightarrow> vault_wf db'"
  by (erule applyVaultMutation_cases) auto

end
