(* ===== verification/SyncRuns.thy ===== *)
theory SyncRuns
  imports SyncLemmas
begin

text \<open>
  Whole transactions and runs of the server: purging expired trash, a batch, \<open>Sync\<close>, and
  the sequences of transactions a vault goes through. Every one of them keeps the vault well-formed,
  only ever extends the ledger, and touches no other account.
\<close>

section \<open>The tombstones the server makes itself\<close>

lemma positive_sint:
  fixes w :: u64
  assumes "0 < sint w" shows "sint w = uint w"
proof -
  have "0 \<le> sint w" "sint w < 2 ^ 63" using assms sint_lt[of w] by simp_all
  then show ?thesis unfolding uint_sint by (subst take_bit_int_eq_self) simp_all
qed

lemma tombstone_valid:
  assumes ok: "row_ok r" and small: "\<not> sint (rvRevision r) \<ge> sint maximumItemRevision" and u: "validUUID t"
  shows "validMutation (tombstone_mutation r t)"
proof -
  from ok have p: "0 < sint (rvRevision r)" "0 < rvSchema r" "validUUID (rvRevisionID r)" "validUUID (rvItemID r)"
    by (auto simp: row_ok_def check_revision_row_def)
  have "sint maximumItemRevision = uint maximumItemRevision"
    by (rule positive_sint) (simp add: maximumItemRevision_def)
  with small positive_sint[OF p(1)] have lt: "rvRevision r < maximumItemRevision"
    by (simp add: word_less_def)
  have "rvRevision r \<noteq> 0" using p(1) by auto
  moreover have "rvRevision r + 1 \<noteq> 0"
    using lt by (auto simp: add_eq_0_iff2 maximumItemRevision_def)
  ultimately show ?thesis
    using p u inc_le[OF lt] validUUID_nonempty
    by (auto simp: validMutation_def tombstone_mutation_def Let_def validOpaqueItemContent_def len_def
        not_less)
qed

text \<open>A well-formed row never has the content of a purged one left.\<close>

section \<open>Steps of a transaction\<close>

lemma same_cursor_of [simp]: "cursor_of (db\<lparr>tItems := t\<rparr>) = cursor_of db" "cursor_of (db\<lparr>tChanges := c\<rparr>) = cursor_of db"
  by (simp_all add: cursor_of_def fun_eq_iff)

lemma vault_wf_items [simp]: "vault_wf (db\<lparr>tItems := t\<rparr>) \<longleftrightarrow> vault_wf db"
  by (simp add: vault_wf_def is_head_def has_revision_def has_child_def)

lemma prune_wf: "vault_wf db \<Longrightarrow> vault_wf (prune_changes db acc cutoff)"
  unfolding vault_wf_def prune_changes_def
  by (auto simp: is_head_def has_revision_def has_child_def distinct_map_filter)

definition ledger_extends :: "vault_db \<Rightarrow> vault_db \<Rightarrow> bool" where
  "ledger_extends db db' \<longleftrightarrow> (\<exists>new. tLedger db' = tLedger db @ new)"

lemma ledger_extends_refl [simp]: "ledger_extends db db"
  by (simp add: ledger_extends_def)

lemma ledger_extends_trans: "ledger_extends a b \<Longrightarrow> ledger_extends b c \<Longrightarrow> ledger_extends a c"
  by (auto simp: ledger_extends_def)

lemma find_append_Some: "find P xs = Some x \<Longrightarrow> find P (xs @ ys) = Some x"
  by (induction xs) (auto split: if_splits)

lemma find_ledger_extends:
  "ledger_extends db db' \<Longrightarrow> find_ledger db acc mid = Some g \<Longrightarrow> find_ledger db' acc mid = Some g"
  by (auto simp: ledger_extends_def find_ledger_def find_append_Some)

text \<open>What a step on one account leaves alone: every row of every other account.\<close>

definition same_elsewhere :: "string \<Rightarrow> vault_db \<Rightarrow> vault_db \<Rightarrow> bool" where
  "same_elsewhere acc db db' \<longleftrightarrow> (\<forall>other. other \<noteq> acc \<longrightarrow>
     filter (\<lambda>r. rvAccount r = other) (tRevisions db') = filter (\<lambda>r. rvAccount r = other) (tRevisions db) \<and>
     filter (\<lambda>h. hdAccount h = other) (tHeads db') = filter (\<lambda>h. hdAccount h = other) (tHeads db) \<and>
     filter (\<lambda>r. itAccount r = other) (tItems db') = filter (\<lambda>r. itAccount r = other) (tItems db) \<and>
     filter (\<lambda>c. chAccount c = other) (tChanges db') = filter (\<lambda>c. chAccount c = other) (tChanges db) \<and>
     filter (\<lambda>g. lgAccount g = other) (tLedger db') = filter (\<lambda>g. lgAccount g = other) (tLedger db) \<and>
     cursor_of db' other = cursor_of db other)"

lemma same_elsewhere_refl [simp]: "same_elsewhere acc db db"
  by (simp add: same_elsewhere_def)

lemma same_elsewhere_trans: "same_elsewhere acc a b \<Longrightarrow> same_elsewhere acc b c \<Longrightarrow> same_elsewhere acc a c"
  by (simp add: same_elsewhere_def)

lemma filter_map_other:
  "(\<And>x. P (f x) = P x) \<Longrightarrow> (\<And>x. P x \<Longrightarrow> f x = x) \<Longrightarrow> filter P (map f xs) = filter P xs"
  by (induction xs) auto

lemma filter_filter_other: "(\<And>x. P x \<Longrightarrow> Q x) \<Longrightarrow> filter P (filter Q xs) = filter P xs"
  by (induction xs) auto

lemma upsert_item_other:
  "itAccount new \<noteq> other \<Longrightarrow>
   filter (\<lambda>r. itAccount r = other) (upsert_item rows new) = filter (\<lambda>r. itAccount r = other) rows"
  unfolding upsert_item_def by (auto intro!: filter_map_other)

lemma project_item_other:
  assumes "project_item db row = Inr db'" "other \<noteq> rvAccount row"
  shows "filter (\<lambda>r. itAccount r = other) (tItems db') = filter (\<lambda>r. itAccount r = other) (tItems db)"
  using assms by (auto simp: project_item_def bind_e_Inr_iff upsert_item_other split: if_splits)

lemma append_mutation_items:
  assumes "append_mutation pg db acc m mid acceptedAt = Inr db'" "other \<noteq> acc"
  shows "filter (\<lambda>r. itAccount r = other) (tItems db') = filter (\<lambda>r. itAccount r = other) (tItems db)"
proof -
  from assms(1) obtain r i ps row d1 d2 d3 d4 c d5 where
    row: "row = new_revision_row acc m i r ps acceptedAt" and
    st: "insert_revision db row = Inr d1" "replace_heads d1 row = Inr d2"
      "project_item (scrub_item d2 row) row = Inr d3" "advance_cursor d3 acc = Inr (d4, c)"
      "record_change d4 row c acceptedAt = Inr d5"
      "record_ledger d5 row mid (vmBaseRevision m) (vaultMutationDigest pg m) c acceptedAt = Inr db'"
    by (auto simp: append_mutation_def bind_e_Inr_iff Let_def)
  have acc: "rvAccount row = acc" by (simp add: row new_revision_row_def Let_def)
  have "tItems db' = tItems d3" using st(4-6)
    by (auto simp: advance_cursor_def record_change_def record_ledger_def bind_e_Inr_iff Let_def split: if_splits)
  moreover have "tItems (scrub_item d2 row) = tItems db" using st(1,2)
    by (auto simp: insert_revision_def replace_heads_def scrub_item_def bind_e_Inr_iff Let_def split: if_splits)
  ultimately show ?thesis using project_item_other[OF st(3)] assms(2) acc by simp
qed

lemma append_mutation_elsewhere:
  assumes ap: "append_mutation pg db acc m mid acceptedAt = Inr db'"
  shows "same_elsewhere acc db db'"
proof -
  from append_mutation_success[OF ap] obtain r i ps row where
    row: "row = new_revision_row acc m i r ps acceptedAt" and
    a: "appended db row mid (vmBaseRevision m) (vaultMutationDigest pg m) acceptedAt db'" by metis
  have acc: "rvAccount row = acc" by (simp add: row new_revision_row_def Let_def)
  have "filter (\<lambda>r. rvAccount r = other) (map (scrub_row row) (tRevisions db)) = filter (\<lambda>r. rvAccount r = other) (tRevisions db)"
    if "other \<noteq> acc" for other
    by (rule filter_map_other) (use that acc in \<open>auto simp: scrub_row_def\<close>)
  moreover have "filter (\<lambda>h. hdAccount h = other) (filter (\<lambda>h. \<not> (hdAccount h = acc \<and> hdItemID h = rvItemID row \<and>
      hdRevisionID h \<in> set (rvParents row))) (tHeads db)) = filter (\<lambda>h. hdAccount h = other) (tHeads db)"
    if "other \<noteq> acc" for other
    by (rule filter_filter_other) (use that in auto)
  moreover have "filter (\<lambda>c. chAccount c = other) (filter (\<lambda>x. \<not> (rvPurged row \<and> chAccount x = acc \<and>
      chItemID x = rvItemID row)) (tChanges db)) = filter (\<lambda>c. chAccount c = other) (tChanges db)"
    if "other \<noteq> acc" for other
    by (rule filter_filter_other) (use that in auto)
  ultimately show ?thesis
    using a append_mutation_items[OF ap] cursor_of_upd[OF a]
    by (simp add: same_elsewhere_def appended_def Let_def acc change_of_def ledger_of_def)
qed

lemma append_mutation_ledger:
  assumes "append_mutation pg db acc m mid acceptedAt = Inr db'" shows "ledger_extends db db'"
proof -
  from append_mutation_success[OF assms] obtain row where
    "appended db row mid (vmBaseRevision m) (vaultMutationDigest pg m) acceptedAt db'" by metis
  then show ?thesis by (auto simp: appended_def Let_def ledger_extends_def)
qed

lemma applyVaultMutation_frame:
  assumes "applyVaultMutation pg db acc m acceptedAt = Inr (b, db')"
  shows "b" "same_elsewhere acc db db'" "ledger_extends db db'"
  using assms append_mutation_elsewhere append_mutation_ledger
  by (auto simp: applyVaultMutation_def bind_e_Inr_iff split: option.splits if_splits)

section \<open>Transactions\<close>

lemma purge_all_induct_step:
  assumes "purge_all pg acc t n (r # rs) db = Inr db'"
  obtains b mid where "\<not> sint (rvRevision r) \<ge> sint maximumItemRevision"
    "applyVaultMutation pg db acc (tombstone_mutation r (genUUID pg n)) t = Inr (b, mid)"
    "purge_all pg acc t (Suc n) rs mid = Inr db'"
  using assms by (auto simp: bind_e_Inr_iff split: if_splits)

lemma purge_all_keeps:
  "purge_all pg acc t n rs db = Inr db' \<Longrightarrow> vault_wf db \<Longrightarrow> pg_ok pg \<Longrightarrow> \<forall>r \<in> set rs. row_ok r \<Longrightarrow>
   vault_wf db' \<and> same_elsewhere acc db db' \<and> ledger_extends db db'"
proof (induction rs arbitrary: n db)
  case (Cons r rs)
  from Cons.prems(1) obtain b mid where s: "\<not> sint (rvRevision r) \<ge> sint maximumItemRevision"
    and a: "applyVaultMutation pg db acc (tombstone_mutation r (genUUID pg n)) t = Inr (b, mid)"
    and p: "purge_all pg acc t (Suc n) rs mid = Inr db'" by (rule purge_all_induct_step)
  have v: "validMutation (tombstone_mutation r (genUUID pg n))"
    using tombstone_valid[OF _ s] pg_okD(4)[OF Cons.prems(3)] Cons.prems(4) by simp
  have wf: "vault_wf mid" by (rule applyVaultMutation_wf[OF a Cons.prems(2,3) v])
  from Cons.IH[OF p wf Cons.prems(3)] Cons.prems(4) applyVaultMutation_frame[OF a] show ?case
    using same_elsewhere_trans ledger_extends_trans by (metis list.set_intros(2))
qed simp

lemma map_filter_set: "x \<in> set (List.map_filter f xs) \<longleftrightarrow> (\<exists>y \<in> set xs. f y = Some x)"
  by (induction xs) (auto simp: map_filter_simps split: option.splits)

lemma find_row_iff:
  assumes "vault_wf db"
  shows "find (\<lambda>x. rvAccount x = acc \<and> rvItemID x = i \<and> rvRevisionID x = q) (tRevisions db) = Some r \<longleftrightarrow>
      r \<in> set (tRevisions db) \<and> rvAccount r = acc \<and> rvItemID r = i \<and> rvRevisionID r = q"
proof
  assume r: "r \<in> set (tRevisions db) \<and> rvAccount r = acc \<and> rvItemID r = i \<and> rvRevisionID r = q"
  then have "find (\<lambda>x. rvAccount x = acc \<and> rvItemID x = i \<and> rvRevisionID x = q) (tRevisions db) \<noteq> None"
    by (auto simp: find_None_iff_all)
  then obtain y where y: "find (\<lambda>x. rvAccount x = acc \<and> rvItemID x = i \<and> rvRevisionID x = q) (tRevisions db) = Some y"
    by blast
  from find_SomeD[OF y] r row_unique[OF assms, of y r] have "y = r" by simp
  with y show "find (\<lambda>x. rvAccount x = acc \<and> rvItemID x = i \<and> rvRevisionID x = q) (tRevisions db) = Some r" by simp
qed (auto dest: find_SomeD)

lemma expired_trash_iff:
  assumes "vault_wf db"
  shows "r \<in> set (expired_trash db acc cutoff) \<longleftrightarrow>
    r \<in> set (tRevisions db) \<and> rvAccount r = acc \<and> is_head db acc (rvItemID r) (rvRevisionID r) \<and>
    is_expired db acc cutoff \<lparr>hdAccount = acc, hdItemID = rvItemID r, hdRevisionID = rvRevisionID r\<rparr> r"
proof -
  have f: "find (\<lambda>x. rvAccount x = acc \<and> rvItemID x = i \<and> rvRevisionID x = q) (tRevisions db) = Some r \<longleftrightarrow>
      r \<in> set (tRevisions db) \<and> rvAccount r = acc \<and> rvItemID r = i \<and> rvRevisionID r = q" for i q
    by (rule find_row_iff[OF assms])
  show ?thesis
  proof
    assume "r \<in> set (expired_trash db acc cutoff)"
    then obtain h where "h \<in> set (tHeads db)" "hdAccount h = acc"
      "find (\<lambda>x. rvAccount x = acc \<and> rvItemID x = hdItemID h \<and> rvRevisionID x = hdRevisionID h) (tRevisions db) = Some r"
      "is_expired db acc cutoff h r"
      by (auto simp: expired_trash_def map_filter_set split: option.splits if_splits)
    then show "r \<in> set (tRevisions db) \<and> rvAccount r = acc \<and> is_head db acc (rvItemID r) (rvRevisionID r) \<and>
      is_expired db acc cutoff \<lparr>hdAccount = acc, hdItemID = rvItemID r, hdRevisionID = rvRevisionID r\<rparr> r"
      unfolding f is_head_def by (metis (full_types) head_row.surjective unit.exhaust)
  next
    assume a: "r \<in> set (tRevisions db) \<and> rvAccount r = acc \<and> is_head db acc (rvItemID r) (rvRevisionID r) \<and>
      is_expired db acc cutoff \<lparr>hdAccount = acc, hdItemID = rvItemID r, hdRevisionID = rvRevisionID r\<rparr> r"
    let ?h = "\<lparr>hdAccount = acc, hdItemID = rvItemID r, hdRevisionID = rvRevisionID r\<rparr>"
    have "(case find (\<lambda>x. rvAccount x = acc \<and> rvItemID x = hdItemID ?h \<and> rvRevisionID x = hdRevisionID ?h) (tRevisions db) of
       None \<Rightarrow> None | Some r \<Rightarrow> if is_expired db acc cutoff ?h r then Some r else None) = Some r"
      using a f[of "rvItemID r" "rvRevisionID r"] by simp
    with a show "r \<in> set (expired_trash db acc cutoff)"
      unfolding expired_trash_def set_sort map_filter_set is_head_def by (intro bexI[of _ ?h]) simp_all
  qed
qed

lemma purgeExpired_keeps:
  "purgeExpiredVaultItems pg db acc t = Inr db' \<Longrightarrow> vault_wf db \<Longrightarrow> pg_ok pg \<Longrightarrow>
   vault_wf db' \<and> same_elsewhere acc db db' \<and> ledger_extends db db'"
  unfolding purgeExpiredVaultItems_def
  by (erule purge_all_keeps) (auto simp: expired_trash_iff dest: vault_wfD(3))

lemma apply_all_keeps:
  "apply_all pg acc t ms db = Inr (ids, db') \<Longrightarrow> vault_wf db \<Longrightarrow> pg_ok pg \<Longrightarrow> validMutations ms \<Longrightarrow>
   vault_wf db' \<and> same_elsewhere acc db db' \<and> ledger_extends db db' \<and> ids = map vmMutationID ms"
proof (induction ms arbitrary: db ids)
  case (Cons m ms)
  then obtain b mid ids' where a: "applyVaultMutation pg db acc m t = Inr (b, mid)"
    and r: "apply_all pg acc t ms mid = Inr (ids', db')" and i: "ids = (if b then vmMutationID m # ids' else ids')"
    by (auto simp: bind_e_Inr_iff)
  have v: "validMutation m" "validMutations ms" using Cons.prems(4) by (simp_all add: validMutations_def)
  have wf: "vault_wf mid" by (rule applyVaultMutation_wf[OF a Cons.prems(2,3) v(1)])
  from Cons.IH[OF r wf Cons.prems(3) v(2)] applyVaultMutation_frame[OF a] i show ?case
    by (auto intro: same_elsewhere_trans ledger_extends_trans)
qed (simp add: same_elsewhere_def)

lemma prune_frame:
  "same_elsewhere acc db (prune_changes db acc cutoff)" "ledger_extends db (prune_changes db acc cutoff)"
proof -
  have "filter (\<lambda>c. chAccount c = other) (filter (\<lambda>c. \<not> (chAccount c = acc \<and> chCreatedAt c < cutoff)) (tChanges db)) =
      filter (\<lambda>c. chAccount c = other) (tChanges db)" if "other \<noteq> acc" for other
    by (rule filter_filter_other) (use that in simp)
  then show "same_elsewhere acc db (prune_changes db acc cutoff)"
    by (simp only: same_elsewhere_def prune_changes_def) simp
  show "ledger_extends db (prune_changes db acc cutoff)"
    by (simp add: prune_changes_def ledger_extends_def)
qed

lemma Sync_parts:
  assumes "Sync pg db acc cursor ms t = Inr (res, db')"
  obtains n d1 ids where "parseSyncCursor cursor = Inr n"
    "purgeExpiredVaultItems pg (prune_changes db acc (t - syncChangeRetention)) acc t = Inr d1"
    "apply_all pg acc t ms d1 = Inr (ids, db')" "answer db' acc n ids = Inr res"
  using assms by (auto simp: Sync_def bind_e_Inr_iff)

lemma Sync_keeps:
  assumes "Sync pg db acc cursor ms t = Inr (res, db')" "vault_wf db" "pg_ok pg" "validMutations ms"
  shows "vault_wf db' \<and> same_elsewhere acc db db' \<and> ledger_extends db db'"
proof -
  from assms(1) obtain n d1 ids where
    p: "purgeExpiredVaultItems pg (prune_changes db acc (t - syncChangeRetention)) acc t = Inr d1" and
    a: "apply_all pg acc t ms d1 = Inr (ids, db')" by (rule Sync_parts)
  from purgeExpired_keeps[OF p prune_wf[OF assms(2)] assms(3)]
  have 1: "vault_wf d1" "same_elsewhere acc (prune_changes db acc (t - syncChangeRetention)) d1"
    "ledger_extends (prune_changes db acc (t - syncChangeRetention)) d1" by simp_all
  from apply_all_keeps[OF a 1(1) assms(3,4)] 1 prune_frame[where acc = acc and db = db and cutoff = "t - syncChangeRetention"] show ?thesis
    using same_elsewhere_trans ledger_extends_trans by blast
qed

section \<open>Runs\<close>

definition empty_vault :: vault_db where
  "empty_vault = \<lparr>tRevisions = [], tHeads = [], tItems = [], tChanges = [], tLedger = [], tCursors = fmempty\<rparr>"

text \<open>
  The requests the handlers let through: a validated batch, or a put. The cast and the digest are
  the same functions throughout; the UUIDs generated differ from call to call.
\<close>

inductive vault_step :: "pg_env \<Rightarrow> vault_db \<Rightarrow> vault_db \<Rightarrow> bool" for base where
  sync: "Sync pg db acc cursor ms t = Inr (res, db') \<Longrightarrow> validMutations ms \<Longrightarrow> pg_ok pg \<Longrightarrow>
    uuidIn pg = uuidIn base \<Longrightarrow> sha256 pg = sha256 base \<Longrightarrow> vault_step base db db'"
| put: "PutItem pg db acc item = Inr db' \<Longrightarrow> uuidIn pg = uuidIn base \<Longrightarrow> vault_step base db db'"

inductive vault_run :: "pg_env \<Rightarrow> vault_db \<Rightarrow> vault_db \<Rightarrow> bool" for base and start where
  start: "vault_run base start start"
| step: "vault_run base start db \<Longrightarrow> vault_step base db db' \<Longrightarrow> vault_run base start db'"

lemma PutItem_frame: "PutItem pg db acc item = Inr db' \<Longrightarrow> \<exists>items. db' = db\<lparr>tItems := items\<rparr>"
proof -
  assume p: "PutItem pg db acc item = Inr db'"
  have u: "\<exists>items. db'' = db\<lparr>tItems := items\<rparr>" if "upsert_next db row = Inr (n, db'')" for row n db''
  proof -
    have "db = db\<lparr>tItems := tItems db\<rparr>" by simp
    then have "\<exists>items. db = db\<lparr>tItems := items\<rparr>" by blast
    with that show ?thesis by (auto simp: upsert_next_def Let_def split: if_splits option.splits)
  qed
  from p show ?thesis
    by (auto simp: PutItem_def put_rows_def bind_e_Inr_iff split: if_splits dest: u)
qed

lemma vault_step_keeps: "vault_step base db db' \<Longrightarrow> vault_wf db \<Longrightarrow> vault_wf db' \<and> ledger_extends db db'"
proof (induction rule: vault_step.induct)
  case (sync pg db acc cursor ms t res db')
  from Sync_keeps[OF sync(1,6,3,2)] show ?case by simp
next
  case (put pg db acc item db')
  from PutItem_frame[OF put(1)] put(3) show ?case by (auto simp: ledger_extends_def)
qed

lemma vault_run_keeps: "vault_run base start db \<Longrightarrow> vault_wf start \<Longrightarrow> vault_wf db \<and> ledger_extends start db"
proof (induction rule: vault_run.induct)
  case (step db db')
  then show ?case using vault_step_keeps ledger_extends_trans by blast
qed simp

lemma empty_vault_wf: "vault_wf empty_vault"
  by (simp add: vault_wf_def empty_vault_def is_head_def has_revision_def)

end
