(* ===== verification/AccountRuns.thy ===== *)
theory AccountRuns
  imports Services SyncRuns
begin

text \<open>
  The invariant of the account tables and the runs of the server. \<open>server_prim\<close> lists the
  changes a handler makes to the state, one constructor per kind of statement; each keeps the
  invariant, each handler is a sequence of them, and \<open>server_run\<close> is any sequence of requests.
\<close>

section \<open>The invariant\<close>

definition account_matches :: "auth_db \<Rightarrow> uuid \<Rightarrow> string \<Rightarrow> bool \<Rightarrow> bool" where
  "account_matches db i email admin \<longleftrightarrow>
     (\<exists>r \<in> set (dAccounts db). acID r = i \<and> acEmail r = email \<and> acAdministrator r = admin)"

text \<open>
  The accounts invitations were consumed by are, one for one, the accounts after the first.
\<close>

definition consumers :: "invite_row list \<Rightarrow> uuid list" where
  "consumers vs = List.map_filter ivConsumedBy vs"

definition invite_ok :: "auth_db \<Rightarrow> invite_row \<Rightarrow> bool" where
  "invite_ok db v \<longleftrightarrow> (ivConsumedBy v = None \<longleftrightarrow> ivConsumedAt v = None) \<and>
     dAccounts db \<noteq> [] \<and> ivCreatedBy v = acID (hd (dAccounts db)) \<and>
     (\<forall>a. ivConsumedBy v = Some a \<longrightarrow> ivRevokedAt v = None \<and> account_matches db a (ivEmail v) False)"

definition invites_wf :: "auth_db \<Rightarrow> bool" where
  "invites_wf db \<longleftrightarrow> distinct (map ivID (dInvites db)) \<and> list_all (invite_ok db) (dInvites db) \<and>
     mset (consumers (dInvites db)) = mset (map acID (tl (dAccounts db)))"

definition accounts_wf :: "pg_env \<Rightarrow> auth_db \<Rightarrow> bool" where
  "accounts_wf base db \<longleftrightarrow>
     distinct (map acID (dAccounts db)) \<and> distinct (map acEmail (dAccounts db)) \<and>
     (\<forall>r \<in> set (dAccounts db). uuidIn base (acID r) = Some (acID r)) \<and>
     (dAccounts db \<noteq> [] \<longrightarrow> acAdministrator (hd (dAccounts db))) \<and>
     (\<forall>r \<in> set (tl (dAccounts db)). \<not> acAdministrator r) \<and>
     fset (fmdom (dOpaque db)) = acID ` set (dAccounts db) \<and>
     fset (fmdom (dEnvelopes db)) = acID ` set (dAccounts db)"

definition tokens_wf :: "auth_db \<Rightarrow> bool" where
  "tokens_wf db \<longleftrightarrow>
     distinct (map tkHash (dTokens db)) \<and> distinct (map tkSession (dTokens db)) \<and>
     (\<forall>k \<in> set (dTokens db). account_matches db (tkAccount k) (tkEmail k) (tkAdministrator k))"

definition pending_wf :: "server_state \<Rightarrow> bool" where
  "pending_wf s \<longleftrightarrow> (\<forall>i p a. fmlookup (sPending s) i = Some p \<longrightarrow> plAccount p = Some a \<longrightarrow>
     account_matches (sDb s) (saAccountID a) (saEmail a) (saAdministrator a))"

definition server_wf :: "pg_env \<Rightarrow> server_state \<Rightarrow> bool" where
  "server_wf base s \<longleftrightarrow> accounts_wf base (sDb s) \<and> tokens_wf (sDb s) \<and> invites_wf (sDb s) \<and>
     pending_wf s \<and> vault_wf (sVault s)"

definition same_pg :: "pg_env \<Rightarrow> 'a store_env_scheme \<Rightarrow> bool" where
  "same_pg base env \<longleftrightarrow> pg_ok (pg env) \<and> uuidIn (pg env) = uuidIn base \<and> sha256 (pg env) = sha256 base"

lemma same_pgD:
  "same_pg base env \<Longrightarrow> pg_ok (pg env)" "same_pg base env \<Longrightarrow> uuidIn (pg env) = uuidIn base"
  "same_pg base env \<Longrightarrow> sha256 (pg env) = sha256 base"
  by (simp_all add: same_pg_def)

section \<open>Primitive changes\<close>

inductive server_prim :: "pg_env \<Rightarrow> server_state \<Rightarrow> server_state \<Rightarrow> bool" for base where
  touch: "TouchAccessToken (env :: auth_env) (sDb s) h t = Inr db \<Longrightarrow> server_prim base s (s\<lparr>sDb := db\<rparr>)"
| events: "server_prim base s (s\<lparr>sDb := (sDb s)\<lparr>dEvents := evs\<rparr>\<rparr>)"
| bootstrap: "CreateBootstrap (env :: auth_env) (sDb s) account = Inr db \<Longrightarrow> same_pg base env \<Longrightarrow>
    baAdministrator account \<Longrightarrow> server_prim base s (s\<lparr>sDb := db\<rparr>)"
| invited: "CreateInvitedAccount (env :: auth_env) (sDb s) h account t = Inr db \<Longrightarrow> same_pg base env \<Longrightarrow>
    server_prim base s (s\<lparr>sDb := db\<rparr>)"
| token: "CreateAccessToken (env :: auth_env) (sDb s) k = Inr db \<Longrightarrow> same_pg base env \<Longrightarrow>
    account_matches (sDb s) (stAccountID k) (stEmail k) (stAdministrator k) \<Longrightarrow>
    server_prim base s (s\<lparr>sDb := db\<rparr>)"
| revoke_session: "RevokeSession (env :: auth_env) (sDb s) a i t = Inr db \<Longrightarrow> server_prim base s (s\<lparr>sDb := db\<rparr>)"
| invite: "CreateInvite (env :: auth_env) (sDb s) v = Inr db \<Longrightarrow> same_pg base env \<Longrightarrow>
    account_matches (sDb s) (siCreatedBy v) email True \<Longrightarrow> server_prim base s (s\<lparr>sDb := db\<rparr>)"
| revoke_invite: "RevokeInvite (env :: auth_env) (sDb s) i = Inr db \<Longrightarrow> server_prim base s (s\<lparr>sDb := db\<rparr>)"
| begin_login: "(\<And>a. plAccount p = Some a \<Longrightarrow> account_matches (sDb s) (saAccountID a) (saEmail a) (saAdministrator a)) \<Longrightarrow>
    server_prim base s (s\<lparr>sPending := fmupd i p (sPending s)\<rparr>)"
| end_login: "server_prim base s (s\<lparr>sPending := fmdrop i (sPending s)\<rparr>)"
| limiter: "server_prim base s (s\<lparr>sLimiter := l\<rparr>)"
| vault: "vault_step base (sVault s) v \<Longrightarrow> server_prim base s (s\<lparr>sVault := v\<rparr>)"

lemma account_matches_cong: "dAccounts db' = dAccounts db \<Longrightarrow> account_matches db' = account_matches db"
  by (intro ext) (simp add: account_matches_def)

text \<open>What the parts of the invariant do not depend on.\<close>

lemma account_frames [table_simps]:
  "account_matches (db\<lparr>dTokens := ts\<rparr>) = account_matches db"
  "account_matches (db\<lparr>dInvites := vs\<rparr>) = account_matches db"
  "account_matches (db\<lparr>dEvents := es\<rparr>) = account_matches db"
  by (rule account_matches_cong, simp)+

lemma accounts_wf_frames [table_simps]:
  "accounts_wf base (db\<lparr>dTokens := ts\<rparr>) = accounts_wf base db"
  "accounts_wf base (db\<lparr>dInvites := vs\<rparr>) = accounts_wf base db"
  "accounts_wf base (db\<lparr>dEvents := es\<rparr>) = accounts_wf base db"
  by (simp_all add: accounts_wf_def)

lemma invite_ok_frames [table_simps]:
  "invite_ok (db\<lparr>dTokens := ts\<rparr>) = invite_ok db" "invite_ok (db\<lparr>dInvites := vs\<rparr>) = invite_ok db"
  "invite_ok (db\<lparr>dEvents := es\<rparr>) = invite_ok db"
  by (intro ext; simp add: invite_ok_def account_frames)+

lemma invites_tokens_frames [table_simps]:
  "invites_wf (db\<lparr>dTokens := ts\<rparr>) = invites_wf db"
  "invites_wf (db\<lparr>dEvents := es\<rparr>) = invites_wf db"
  "tokens_wf (db\<lparr>dInvites := vs\<rparr>) = tokens_wf db"
  "tokens_wf (db\<lparr>dEvents := es\<rparr>) = tokens_wf db"
  by (simp_all add: invites_wf_def tokens_wf_def account_frames invite_ok_frames)

lemma pending_frames [table_simps]:
  "account_matches db = account_matches (sDb s) \<Longrightarrow> pending_wf (s\<lparr>sDb := db\<rparr>) = pending_wf s"
  "pending_wf (s\<lparr>sLimiter := l\<rparr>) = pending_wf s"
  "pending_wf (s\<lparr>sVault := v\<rparr>) = pending_wf s"
  by (simp_all add: pending_wf_def)

lemma account_matches_append: "account_matches db i e a \<Longrightarrow> dAccounts db' = dAccounts db @ rs \<Longrightarrow> account_matches db' i e a"
  by (auto simp: account_matches_def)

lemma account_matches_admin:
  "accounts_wf base db \<Longrightarrow> account_matches db i e True \<Longrightarrow> dAccounts db \<noteq> [] \<and> i = acID (hd (dAccounts db))"
  by (cases "dAccounts db") (auto simp: account_matches_def accounts_wf_def)

lemma insert_account_success:
  assumes "insert_account env db account admin = Inr (i, db')"
  shows "uuidIn (pg env) (baAccountID account) = Some i" "\<forall>r \<in> set (dAccounts db). acID r \<noteq> i \<and> acEmail r \<noteq> baEmail account"
    "db' = db\<lparr>
       dAccounts := dAccounts db @ [\<lparr>acID = i, acEmail = baEmail account, acAdministrator = admin, acCreatedAt = dbNow env\<rparr>],
       dOpaque := fmupd i (baOpaqueRecord account) (dOpaque db),
       dEnvelopes := fmupd i (baPasswordVaultEnvelope account, baRecoveryVaultEnvelope account) (dEnvelopes db)\<rparr>"
  using assms by (auto simp: insert_account_def bind_e_Inr_iff as_uuid_def list_ex_iff)

text \<open>Adding the first account as administrator, or a later one without the right.\<close>

lemma insert_account_wf:
  assumes "insert_account env db account admin = Inr (i, db')" "same_pg base env" "accounts_wf base db"
    "admin \<longleftrightarrow> dAccounts db = []"
  shows "accounts_wf base db'"
proof -
  note ins = insert_account_success[OF assms(1)]
  have "uuidIn base i = Some i" using pg_okD(2)[OF same_pgD(1)[OF assms(2)] ins(1)] same_pgD(2)[OF assms(2)] by simp
  with ins assms(3,4) show ?thesis by (auto simp: accounts_wf_def)
qed

lemma map_e_distinct: "(\<And>x. x \<in> set xs \<Longrightarrow> f (g x) = f x) \<Longrightarrow> map f (map g xs) = map f xs"
  by simp

lemma touch_effect:
  assumes "TouchAccessToken env db h t = Inr db'"
  shows "db' = db\<lparr>dTokens := map (\<lambda>r. if tkHash r = h then r\<lparr>tkLastUsedAt := t\<rparr> else r) (dTokens db)\<rparr>"
  using assms by (auto simp: TouchAccessToken_def bind_e_Inr_iff split: if_splits)

lemma revoke_effect:
  assumes "RevokeSession env db a i t = Inr db'"
  shows "\<exists>a' i'. uuidIn (pg env) a = Some a' \<and> uuidIn (pg env) i = Some i' \<and> list_ex (revocable a' i') (dTokens db) \<and>
    db' = db\<lparr>dTokens := map (\<lambda>r. if revocable a' i' r then r\<lparr>tkRevokedAt := Some t\<rparr> else r) (dTokens db)\<rparr>"
  using assms by (auto simp: RevokeSession_def as_uuid_def bind_e_Inr_iff split: if_splits)

text \<open>Rewriting tokens without touching their identity keeps the tables well-formed.\<close>

lemma tokens_rewrite:
  assumes "tokens_wf db" "\<And>k. tkHash (f k) = tkHash k \<and> tkSession (f k) = tkSession k \<and> tkAccount (f k) = tkAccount k \<and>
    tkEmail (f k) = tkEmail k \<and> tkAdministrator (f k) = tkAdministrator k"
  shows "tokens_wf (db\<lparr>dTokens := map f (dTokens db)\<rparr>)"
  using assms by (auto simp: tokens_wf_def comp_def account_matches_def)

lemma CreateAccessToken_effect:
  assumes "CreateAccessToken env db k = Inr db'"
  obtains i a where "uuidIn (pg env) (stSessionID k) = Some i" "uuidIn (pg env) (stAccountID k) = Some a"
    "\<forall>r \<in> set (dTokens db). tkHash r \<noteq> stTokenHash k \<and> tkSession r \<noteq> i"
    "db' = db\<lparr>dTokens := dTokens db @
       [\<lparr>tkHash = stTokenHash k, tkSession = i, tkAccount = a, tkEmail = stEmail k,
         tkAdministrator = stAdministrator k, tkHost = stHost k, tkSourceIP = stSourceIP k,
         tkCreatedAt = stCreatedAt k, tkLastUsedAt = stLastUsedAt k, tkRevokedAt = None\<rparr>]\<rparr>"
  using assms by (auto simp: CreateAccessToken_def as_uuid_def bind_e_Inr_iff list_ex_iff)

lemma CreateInvite_effect:
  assumes "CreateInvite env db v = Inr db'"
  obtains i a where "uuidIn (pg env) (siInviteID v) = Some i" "uuidIn (pg env) (siCreatedBy v) = Some a"
    "\<forall>r \<in> set (dInvites db). ivID r \<noteq> i"
    "db' = db\<lparr>dInvites := dInvites db @
       [\<lparr>ivID = i, ivEmail = siEmail v, ivTokenHash = siTokenHash v, ivCreatedBy = a,
         ivCreatedAt = siCreatedAt v, ivExpiresAt = siExpiresAt v, ivConsumedBy = None,
         ivConsumedAt = None, ivRevokedAt = None\<rparr>]\<rparr>"
  using assms by (auto simp: CreateInvite_def as_uuid_def bind_e_Inr_iff list_ex_iff)

lemma RevokeInvite_effect:
  assumes "RevokeInvite env db i = Inr db'"
  shows "\<exists>i' t. db' = db\<lparr>dInvites := map (\<lambda>r. if ivID r = i' \<and> pending_invite r then r\<lparr>ivRevokedAt := Some t\<rparr> else r) (dInvites db)\<rparr>"
  using assms by (auto simp: RevokeInvite_def as_uuid_def bind_e_Inr_iff split: if_splits)

lemma CreateBootstrap_effect:
  assumes "CreateBootstrap env db account = Inr db'"
  shows "dAccounts db = [] \<and> (\<exists>i. insert_account env db account (baAdministrator account) = Inr (i, db'))"
  using assms by (auto simp: CreateBootstrap_def bind_e_Inr_iff split: if_splits)

lemma CreateInvitedAccount_effect:
  assumes "CreateInvitedAccount env db h account t = Inr db'"
  obtains v i db1 where "v \<in> set (dInvites db)" "usable_invite h (baEmail account) t v"
    "insert_account env db account False = Inr (i, db1)"
    "db' = db1\<lparr>dInvites := map (\<lambda>r. if ivID r = ivID v then r\<lparr>ivConsumedBy := Some i, ivConsumedAt := Some t\<rparr> else r)
       (dInvites db1)\<rparr>"
  using assms by (auto simp: CreateInvitedAccount_def bind_e_Inr_iff split: option.splits dest!: find_SomeD)

section \<open>Each primitive change keeps the invariant\<close>

lemma tokens_wf_append:
  assumes "tokens_wf db" "\<forall>r \<in> set (dTokens db). tkHash r \<noteq> tkHash k \<and> tkSession r \<noteq> tkSession k"
    "account_matches db (tkAccount k) (tkEmail k) (tkAdministrator k)"
  shows "tokens_wf (db\<lparr>dTokens := dTokens db @ [k]\<rparr>)"
  using assms by (auto simp: tokens_wf_def table_simps)

lemma accounts_canonical: "accounts_wf base db \<Longrightarrow> account_matches db i e a \<Longrightarrow> uuidIn base i = Some i"
  by (auto simp: accounts_wf_def account_matches_def)

lemma more_accounts:
  assumes "dAccounts db' = dAccounts db @ rs" "dTokens db' = dTokens db"
  shows "tokens_wf db \<Longrightarrow> tokens_wf db'" "pending_wf s \<Longrightarrow> sDb s = db \<Longrightarrow> pending_wf (s\<lparr>sDb := db'\<rparr>)"
  using account_matches_append[OF _ assms(1)] assms(2) by (auto simp: tokens_wf_def pending_wf_def)

lemma consumers_simps [simp]:
  "consumers [] = []" "consumers (vs @ ws) = consumers vs @ consumers ws"
  "consumers (v # vs) = (case ivConsumedBy v of None \<Rightarrow> consumers vs | Some a \<Rightarrow> a # consumers vs)"
  by (simp_all add: consumers_def List.map_filter_def split: option.splits)

lemma consumers_map: "(\<And>v. ivConsumedBy (f v) = ivConsumedBy v) \<Longrightarrow> consumers (map f vs) = consumers vs"
  by (induction vs) (auto split: option.splits)

lemma invites_wf_append:
  assumes "invites_wf db" "\<forall>r \<in> set (dInvites db). ivID r \<noteq> ivID v" "invite_ok db v" "ivConsumedBy v = None"
  shows "invites_wf (db\<lparr>dInvites := dInvites db @ [v]\<rparr>)"
  using assms by (auto simp: invites_wf_def table_simps)

lemma invites_wf_map:
  assumes "invites_wf db" "\<And>v. invite_ok db v \<Longrightarrow> invite_ok db (f v)" "\<And>v. ivID (f v) = ivID v"
    "\<And>v. ivConsumedBy (f v) = ivConsumedBy v"
  shows "invites_wf (db\<lparr>dInvites := map f (dInvites db)\<rparr>)"
  using assms by (auto simp: invites_wf_def table_simps list_all_iff consumers_map comp_def)

lemma invites_wf_revoke:
  assumes "invites_wf db"
  shows "invites_wf (db\<lparr>dInvites := map (\<lambda>r. if ivID r = i \<and> pending_invite r then r\<lparr>ivRevokedAt := Some t\<rparr> else r) (dInvites db)\<rparr>)"
proof (rule invites_wf_map[OF assms])
  fix v
  show "invite_ok db v \<Longrightarrow> invite_ok db (if ivID v = i \<and> pending_invite v then v\<lparr>ivRevokedAt := Some t\<rparr> else v)"
    by (cases "ivConsumedBy v") (auto simp: invite_ok_def pending_invite_def)
qed auto

text \<open>Consuming an invitation adds its account to the consumers.\<close>

lemma consume_one:
  assumes "distinct (map ivID vs)" "v \<in> set vs" "ivConsumedBy v = None"
  shows "mset (consumers (map (\<lambda>r. if ivID r = ivID v then r\<lparr>ivConsumedBy := Some i, ivConsumedAt := Some t\<rparr> else r) vs)) =
    add_mset i (mset (consumers vs))"
proof -
  let ?f = "\<lambda>r. if ivID r = ivID v then r\<lparr>ivConsumedBy := Some i, ivConsumedAt := Some t\<rparr> else r"
  from assms(2) obtain xs ys where vs: "vs = xs @ v # ys" by (meson split_list)
  with assms(1) have "map ?f xs = xs" "map ?f ys = ys" by (auto intro!: map_idI) (metis imageI)+
  with vs assms(3) show ?thesis by simp
qed

lemma invites_wf_consume:
  assumes "invites_wf db" "v \<in> set (dInvites db)" "pending_invite v" "dAccounts db' = dAccounts db @ [r]"
    "acID r = i" "acEmail r = ivEmail v" "\<not> acAdministrator r" "dInvites db' = dInvites db"
  shows "invites_wf (db'\<lparr>dInvites := map (\<lambda>r. if ivID r = ivID v then r\<lparr>ivConsumedBy := Some i, ivConsumedAt := Some t\<rparr> else r)
    (dInvites db')\<rparr>)"
proof -
  define f where "f = (\<lambda>r :: invite_row. if ivID r = ivID v then r\<lparr>ivConsumedBy := Some i, ivConsumedAt := Some t\<rparr> else r)"
  have wf: "distinct (map ivID (dInvites db))" "\<And>w. w \<in> set (dInvites db) \<Longrightarrow> invite_ok db w"
    "mset (consumers (dInvites db)) = mset (map acID (tl (dAccounts db)))"
    using assms(1) by (auto simp: invites_wf_def list_all_iff)
  have ne: "dAccounts db \<noteq> []" "ivConsumedBy v = None"
    using wf(2)[OF assms(2)] assms(3) by (auto simp: invite_ok_def pending_invite_def)
  have ok: "invite_ok db' (f w)" if w: "w \<in> set (dInvites db)" for w
  proof (cases "ivID w = ivID v")
    case True
    then have "w = v" using wf(1) w assms(2) by (auto simp: distinct_map inj_on_def)
    then show ?thesis using wf(2)[OF assms(2)] assms ne
      by (auto simp: f_def invite_ok_def pending_invite_def account_matches_def)
  next
    case False
    then show ?thesis using wf(2)[OF w] assms(4) ne
      by (auto simp: f_def invite_ok_def intro: account_matches_append)
  qed
  have "map (ivID \<circ> f) (dInvites db) = map ivID (dInvites db)" by (simp add: f_def)
  moreover have "mset (consumers (map f (dInvites db))) = add_mset i (mset (map acID (tl (dAccounts db))))"
    using consume_one[OF wf(1) assms(2) ne(2), where i = i and t = t] wf(3) by (simp add: f_def)
  ultimately have "invites_wf (db'\<lparr>dInvites := map f (dInvites db')\<rparr>)"
    using ok wf(1) ne assms(4,5,8) unfolding invites_wf_def
    by (intro conjI) (simp_all add: table_simps list_all_iff del: map_eq_conv)
  then show ?thesis by (simp add: f_def)
qed

lemma pending_cong: "sPending s' = sPending s \<Longrightarrow> account_matches (sDb s') = account_matches (sDb s) \<Longrightarrow> pending_wf s' = pending_wf s"
  by (simp add: pending_wf_def)

lemma server_wf_tokens:
  assumes "server_wf base s" "tokens_wf ((sDb s)\<lparr>dTokens := ts\<rparr>)"
  shows "server_wf base (s\<lparr>sDb := (sDb s)\<lparr>dTokens := ts\<rparr>\<rparr>)"
  using assms by (simp add: server_wf_def table_simps)

lemma server_wf_invites:
  assumes "server_wf base s" "invites_wf ((sDb s)\<lparr>dInvites := vs\<rparr>)"
  shows "server_wf base (s\<lparr>sDb := (sDb s)\<lparr>dInvites := vs\<rparr>\<rparr>)"
  using assms by (simp add: server_wf_def table_simps)

lemma wf_bootstrap:
  assumes "server_wf base s" "CreateBootstrap env (sDb s) account = Inr db" "same_pg base env" "baAdministrator account"
  shows "server_wf base (s\<lparr>sDb := db\<rparr>)"
proof -
  obtain i where e: "dAccounts (sDb s) = []" and ins: "insert_account env (sDb s) account True = Inr (i, db)"
    using CreateBootstrap_effect[OF assms(2)] assms(4) by auto
  note d = insert_account_success(3)[OF ins]
  have a: "accounts_wf base db" using insert_account_wf[OF ins assms(3)] assms(1) e by (simp add: server_wf_def)
  have "dInvites (sDb s) = []"
    using assms(1) e by (cases "dInvites (sDb s)") (auto simp: server_wf_def invites_wf_def invite_ok_def)
  then have "invites_wf db" using e by (simp add: d invites_wf_def)
  moreover have "tokens_wf db" "pending_wf (s\<lparr>sDb := db\<rparr>)"
    using assms(1) more_accounts[of db "sDb s"] by (auto simp: server_wf_def d)
  ultimately show ?thesis using a assms(1) by (simp add: server_wf_def)
qed

lemma wf_invited:
  assumes "server_wf base s" "CreateInvitedAccount env (sDb s) h account t = Inr db" "same_pg base env"
  shows "server_wf base (s\<lparr>sDb := db\<rparr>)"
proof -
  from assms(2) obtain v i db1 where v: "v \<in> set (dInvites (sDb s))" "usable_invite h (baEmail account) t v"
    and ins: "insert_account env (sDb s) account False = Inr (i, db1)"
    and db: "db = db1\<lparr>dInvites := map (\<lambda>r. if ivID r = ivID v then r\<lparr>ivConsumedBy := Some i, ivConsumedAt := Some t\<rparr> else r)
       (dInvites db1)\<rparr>"
    by (rule CreateInvitedAccount_effect)
  note d = insert_account_success(3)[OF ins]
  have wf: "accounts_wf base (sDb s)" "tokens_wf (sDb s)" "invites_wf (sDb s)" "pending_wf s"
    using assms(1) by (simp_all add: server_wf_def)
  have ne: "dAccounts (sDb s) \<noteq> []" using wf(3) v(1) by (auto simp: invites_wf_def list_all_iff invite_ok_def)
  have a: "accounts_wf base db1" using insert_account_wf[OF ins assms(3) wf(1)] ne by simp
  let ?r = "\<lparr>acID = i, acEmail = baEmail account, acAdministrator = False, acCreatedAt = dbNow env\<rparr>"
  have "invites_wf db" unfolding db
    by (rule invites_wf_consume[OF wf(3) v(1), where r = ?r]) (use v(2) in \<open>auto simp: d usable_invite_def pending_invite_def\<close>)
  moreover have "tokens_wf db1" "pending_wf (s\<lparr>sDb := db1\<rparr>)"
    using wf more_accounts[of db1 "sDb s"] by (auto simp: d)
  moreover have "pending_wf (s\<lparr>sDb := db\<rparr>) = pending_wf (s\<lparr>sDb := db1\<rparr>)"
    by (rule pending_cong) (simp_all add: db account_frames)
  ultimately show ?thesis using a assms(1) by (simp add: server_wf_def db table_simps)
qed

lemma wf_token:
  assumes "server_wf base s" "CreateAccessToken env (sDb s) k = Inr db" "same_pg base env"
    "account_matches (sDb s) (stAccountID k) (stEmail k) (stAdministrator k)"
  shows "server_wf base (s\<lparr>sDb := db\<rparr>)"
proof -
  from assms(2) obtain i a where e: "uuidIn (pg env) (stAccountID k) = Some a"
    "\<forall>r \<in> set (dTokens (sDb s)). tkHash r \<noteq> stTokenHash k \<and> tkSession r \<noteq> i"
    "db = (sDb s)\<lparr>dTokens := dTokens (sDb s) @
       [\<lparr>tkHash = stTokenHash k, tkSession = i, tkAccount = a, tkEmail = stEmail k,
         tkAdministrator = stAdministrator k, tkHost = stHost k, tkSourceIP = stSourceIP k,
         tkCreatedAt = stCreatedAt k, tkLastUsedAt = stLastUsedAt k, tkRevokedAt = None\<rparr>]\<rparr>"
    by (rule CreateAccessToken_effect)
  have "a = stAccountID k"
    using e(1) accounts_canonical[OF _ assms(4)] assms(1) same_pgD(2)[OF assms(3)] by (auto simp: server_wf_def)
  then show ?thesis unfolding e(3)
    by (intro server_wf_tokens[OF assms(1)] tokens_wf_append) (use assms(1,4) e(2) in \<open>auto simp: server_wf_def\<close>)
qed

lemma wf_invite:
  assumes "server_wf base s" "CreateInvite env (sDb s) v = Inr db" "same_pg base env"
    "account_matches (sDb s) (siCreatedBy v) email True"
  shows "server_wf base (s\<lparr>sDb := db\<rparr>)"
proof -
  from assms(2) obtain i a where e: "uuidIn (pg env) (siCreatedBy v) = Some a" "\<forall>r \<in> set (dInvites (sDb s)). ivID r \<noteq> i"
    "db = (sDb s)\<lparr>dInvites := dInvites (sDb s) @
       [\<lparr>ivID = i, ivEmail = siEmail v, ivTokenHash = siTokenHash v, ivCreatedBy = a,
         ivCreatedAt = siCreatedAt v, ivExpiresAt = siExpiresAt v, ivConsumedBy = None,
         ivConsumedAt = None, ivRevokedAt = None\<rparr>]\<rparr>"
    by (rule CreateInvite_effect)
  have wf: "accounts_wf base (sDb s)" using assms(1) by (simp add: server_wf_def)
  have "a = siCreatedBy v" using e(1) accounts_canonical[OF wf assms(4)] same_pgD(2)[OF assms(3)] by simp
  with account_matches_admin[OF wf assms(4)] have "dAccounts (sDb s) \<noteq> []" "a = acID (hd (dAccounts (sDb s)))" by auto
  then show ?thesis unfolding e(3)
    by (intro server_wf_invites[OF assms(1)] invites_wf_append)
      (use assms(1) e(2) in \<open>auto simp: server_wf_def invite_ok_def\<close>)
qed

lemma server_prim_wf: "server_prim base s s' \<Longrightarrow> server_wf base s \<Longrightarrow> server_wf base s'"
proof (induction rule: server_prim.induct)
  case (touch env s h t db)
  then show ?case
    unfolding touch_effect[OF touch(1)]
    by (intro server_wf_tokens tokens_rewrite) (auto simp: server_wf_def)
next
  case (revoke_session env s a i t db)
  from revoke_effect[OF this(1)] obtain a' i' where
    db: "db = (sDb s)\<lparr>dTokens := map (\<lambda>r. if revocable a' i' r then r\<lparr>tkRevokedAt := Some t\<rparr> else r) (dTokens (sDb s))\<rparr>" by blast
  show ?case unfolding db
    by (intro server_wf_tokens tokens_rewrite) (use revoke_session in \<open>auto simp: server_wf_def\<close>)
next
  case (revoke_invite env s i db)
  from RevokeInvite_effect[OF this(1)] obtain i' t where
    db: "db = (sDb s)\<lparr>dInvites := map (\<lambda>r. if ivID r = i' \<and> pending_invite r then r\<lparr>ivRevokedAt := Some t\<rparr> else r) (dInvites (sDb s))\<rparr>"
    by blast
  show ?case unfolding db
    by (intro server_wf_invites invites_wf_revoke) (use revoke_invite in \<open>auto simp: server_wf_def\<close>)
next
  case (begin_login p s i)
  then show ?case by (auto simp: server_wf_def pending_wf_def)
next
  case (end_login s i)
  then show ?case by (auto simp: server_wf_def pending_wf_def split: if_splits)
next
  case (vault s v)
  then show ?case using vault_step_keeps by (auto simp: server_wf_def table_simps)
next
  case events
  then show ?case by (simp add: server_wf_def table_simps)
next
  case limiter
  then show ?case by (simp add: server_wf_def table_simps)
qed (blast intro: wf_bootstrap wf_invited wf_token wf_invite)+

lemma server_prims_wf: "(server_prim base)\<^sup>*\<^sup>* s s' \<Longrightarrow> server_wf base s \<Longrightarrow> server_wf base s'"
  by (induction rule: rtranclp_induct) (auto intro: server_prim_wf)

end
