(* ===== verification/ServerRuns.thy ===== *)
theory ServerRuns
  imports AccountRuns
begin

text \<open>
  Every handler is a sequence of primitive changes, so it keeps the invariant; the runs of the
  server; and what lasts along them: accounts, revocations and consumed invitations.
\<close>

abbreviation server_prims :: "pg_env \<Rightarrow> server_state \<Rightarrow> server_state \<Rightarrow> bool" where
  "server_prims base \<equiv> (server_prim base)\<^sup>*\<^sup>*"

section \<open>Auditing and authenticating\<close>

lemma Record_frame: "\<exists>evs. snd (Record env l db e) = db\<lparr>dEvents := evs\<rparr>"
proof -
  have 1: "\<exists>evs. db' = db\<lparr>dEvents := evs\<rparr>" if "DeleteAuditEventsBefore env db c = Inr db'" for db' c
    using that by (auto simp: DeleteAuditEventsBefore_def bind_e_Inr_iff)
  have 2: "\<exists>evs. db' = db1\<lparr>dEvents := evs\<rparr>" if "CreateAuditEvent env db1 ev = Inr db'" for db1 db' ev
    using that by (auto simp: CreateAuditEvent_def bind_e_Inr_iff)
  have 0: "\<exists>evs. db = db\<lparr>dEvents := evs\<rparr>" by (rule exI [of _ "dEvents db"]) simp
  show ?thesis
    using 0 by (auto simp: Record_def split: sum.splits dest!: 1 2)
qed

lemma recordAudit_frame: "\<exists>evs. recordAudit env a db e = db\<lparr>dEvents := evs\<rparr>"
proof (cases a)
  case None
  then show ?thesis by (auto simp: recordAudit_def intro: exI [of _ "dEvents db"])
next
  case (Some l)
  then show ?thesis using Record_frame [of env l db e] by (simp add: recordAudit_def)
qed

lemma audit_list_frame: "audit_list env l db q = (r, db') \<Longrightarrow> \<exists>evs. db' = db\<lparr>dEvents := evs\<rparr>"
  by (auto simp: audit_list_def DeleteAuditEventsBefore_def bind_e_Inr_iff split: sum.splits
      intro: exI [of _ "dEvents db"])

lemma activity_list_frame: "activity_list env l db r a v = (reply, db') \<Longrightarrow> \<exists>evs. db' = db\<lparr>dEvents := evs\<rparr>"
  by (auto simp: activity_list_def split: option.splits prod.splits sum.splits dest: audit_list_frame
      intro: exI [of _ "dEvents db"])

lemma prim_events: "\<exists>evs. db = (sDb s)\<lparr>dEvents := evs\<rparr> \<Longrightarrow> server_prim base s (s\<lparr>sDb := db\<rparr>)"
  by (auto intro: server_prim.events)

lemma prim_audit: "server_prim base s (audit_state env s e)"
  using recordAudit_frame unfolding audit_state_def by (rule prim_events)

lemma prims_trans: "server_prims base a b \<Longrightarrow> server_prim base b c \<Longrightarrow> server_prims base a c"
  by (rule rtranclp.rtrancl_into_rtrancl [of "server_prim base"])

lemma prims_audit: "server_prims base s s' \<Longrightarrow> server_prims base s (audit_state env s' e)"
  by (erule prims_trans) (rule prim_audit)

text \<open>A token row as the server believes it: known by its hash and not revoked.\<close>

definition live_token :: "token_row \<Rightarrow> bool" where
  "live_token k \<longleftrightarrow> (case tkRevokedAt k of None \<Rightarrow> True | Some t \<Rightarrow> is_zero_time t)"

lemma AuthenticateToken_success:
  assumes "AuthenticateToken env db raw = (Inr token, db')"
  obtains k where "k \<in> set (dTokens db)" "tkHash k = sha256 (pg env) (string_bytes raw)" "live_token k"
    "token = (token_of_row k)\<lparr>stLastUsedAt := clock env ''AuthenticateToken''\<rparr>"
    "TouchAccessToken env db (tkHash k) (clock env ''AuthenticateToken'') = Inr db'"
proof -
  from assms obtain t where f: "FindAccessToken env db (sha256 (pg env) (string_bytes raw)) = Inr t"
    "is_zero_time (stRevokedAt t)" "token = t\<lparr>stLastUsedAt := clock env ''AuthenticateToken''\<rparr>"
    "TouchAccessToken env db (sha256 (pg env) (string_bytes raw)) (clock env ''AuthenticateToken'') = Inr db'"
    by (auto simp: AuthenticateToken_def Let_def split: if_splits sum.splits)
  from f(1) obtain k where "k \<in> set (dTokens db)" "tkHash k = sha256 (pg env) (string_bytes raw)" "t = token_of_row k"
    by (auto simp: FindAccessToken_def bind_e_Inr_iff split: option.splits dest!: find_SomeD)
  with f that show thesis by (auto simp: live_token_def token_of_row_def split: option.splits)
qed

lemma AuthenticateToken_frame:
  "AuthenticateToken env db raw = (Inl e, db') \<Longrightarrow> db' = db"
  by (auto simp: AuthenticateToken_def Let_def split: if_splits sum.splits)

lemma authenticate_refused: "authenticate env r s = (Inl e, s') \<Longrightarrow> s' = s"
  by (auto simp: authenticate_def split: prod.splits dest: AuthenticateToken_frame)

lemma authenticate_success:
  assumes "authenticate env r s = (Inr token, s')"
  obtains k db where "k \<in> set (dTokens (sDb s))" "tkHash k = sha256 (pg env) (string_bytes (bearerToken r))" "live_token k"
    "token = (token_of_row k)\<lparr>stLastUsedAt := clock env ''AuthenticateToken''\<rparr>"
    "TouchAccessToken env (sDb s) (tkHash k) (clock env ''AuthenticateToken'') = Inr db" "s' = s\<lparr>sDb := db\<rparr>"
  using assms by (auto simp: authenticate_def split: prod.splits elim!: AuthenticateToken_success)

lemma prims_authenticate: "authenticate (env :: auth_env) r s = (res, s') \<Longrightarrow> server_prims base s s'"
proof (cases res)
  case (Inl e)
  moreover assume "authenticate env r s = (res, s')"
  ultimately show ?thesis by (auto dest: authenticate_refused)
next
  case (Inr token)
  moreover assume "authenticate env r s = (res, s')"
  ultimately show ?thesis by (auto elim!: authenticate_success intro: server_prim.touch)
qed

lemma authenticateAdministrator_success:
  assumes "authenticateAdministrator env r s = (Inr token, s')"
  shows "authenticate env r s = (Inr token, s') \<and> stAdministrator token"
  using assms by (auto simp: authenticateAdministrator_def split: if_splits prod.splits sum.splits)

lemma prims_administrator: "authenticateAdministrator (env :: auth_env) r s = (res, s') \<Longrightarrow> server_prims base s s'"
  by (auto simp: authenticateAdministrator_def split: if_splits prod.splits sum.splits intro: prims_authenticate)

lemma TouchAccessToken_tables:
  assumes "TouchAccessToken env db h t = Inr db'"
  shows "dAccounts db' = dAccounts db" "dInvites db' = dInvites db" "dEvents db' = dEvents db"
    "account_matches db' = account_matches db"
  by (simp_all add: touch_effect[OF assms] account_frames)

lemma authenticate_account:
  assumes "authenticate env r s = (Inr token, s')" "server_wf base s"
  shows "account_matches (sDb s') (stAccountID token) (stEmail token) (stAdministrator token)"
proof -
  from assms(1) obtain k db where k: "k \<in> set (dTokens (sDb s))"
    "token = (token_of_row k)\<lparr>stLastUsedAt := clock env ''AuthenticateToken''\<rparr>"
    "TouchAccessToken env (sDb s) (tkHash k) (clock env ''AuthenticateToken'') = Inr db" "s' = s\<lparr>sDb := db\<rparr>"
    by (rule authenticate_success)
  from k(1) assms(2) have "account_matches (sDb s) (tkAccount k) (tkEmail k) (tkAdministrator k)"
    by (auto simp: server_wf_def tokens_wf_def)
  with k(2-4) TouchAccessToken_tables(4)[OF k(3)] show ?thesis by (simp add: token_of_row_def)
qed

section \<open>Handlers\<close>

lemma FindAccount_matches:
  "FindAccount env db email = Inr a \<Longrightarrow> account_matches db (saAccountID a) (saEmail a) (saAdministrator a) \<and> saEmail a = email"
  by (auto simp: FindAccount_def account_matches_def bind_e_Inr_iff split: option.splits dest!: find_SomeD)

lemma login_record_matches:
  "login_record env db email = Some (rec, Some a) \<Longrightarrow>
     account_matches db (saAccountID a) (saEmail a) (saAdministrator a) \<and> saEmail a = email"
  by (auto simp: login_record_def split: sum.splits store_error.splits dest: FindAccount_matches)

lemma beginLogin_success:
  assumes "beginLogin env s email ke1 host ip = Some (i, ke2, s')"
  obtains p where "s' = s\<lparr>sPending := fmupd i p (sPending s)\<rparr>" "plSourceIP p = ip" "plRateAccount p = email"
    "plExpiresAt p = clock env ''beginLogin'' + minutes 5" "plHost p = host"
    "\<And>a. plAccount p = Some a \<Longrightarrow>
       account_matches (sDb s) (saAccountID a) (saEmail a) (saAdministrator a) \<and> saEmail a = email"
proof -
  from assms obtain rec ptr mac secret where l: "login_record env (sDb s) email = Some (rec, ptr)"
    "s' = s\<lparr>sPending := fmupd i
        \<lparr>plAccount = ptr, plClientMAC = mac, plSessionSecret = secret, plHost = host, plSourceIP = ip,
         plRateAccount = email, plExpiresAt = clock env ''beginLogin'' + minutes 5\<rparr> (sPending s)\<rparr>"
    by (auto simp: beginLogin_def split: option.splits prod.splits)
  show thesis by (rule that[OF l(2)]) (use l(1) in \<open>auto dest: login_record_matches\<close>)
qed

lemma prims_beginLogin: "beginLogin env s email ke1 host ip = Some (i, ke2, s') \<Longrightarrow> server_prims base s s'"
  by (elim beginLogin_success) (auto intro: server_prim.begin_login)

lemma prims_limiter: "server_prims base s s' \<Longrightarrow> server_prims base s (s'\<lparr>sLimiter := l\<rparr>)"
  by (erule prims_trans) (rule server_prim.limiter)

lemma prims_startLogin: "startLogin env r s = (reply, s') \<Longrightarrow> server_prims base s s'"
  by (auto simp: startLogin_def admitLogin_def countLogin_def Let_def split: option.splits if_splits prod.splits
      intro: prims_audit prims_limiter prims_beginLogin)

lemma prims_countLogin: "server_prims base s (countLogin env s email ip)"
  unfolding countLogin_def by (rule prims_limiter) simp

lemma issueAccessToken_success:
  assumes "issueAccessToken env s account host ip = Inr (text, s')"
  obtains k db raw e1 e2 where "CreateAccessToken env (sDb s) k = Inr db" "rnd env ''accessToken'' = Some raw"
    "text = EncodeToString URLAlphabet raw" "stTokenHash k = sha256 (pg env) (string_bytes text)"
    "stAccountID k = saAccountID account" "stEmail k = saEmail account"
    "stAdministrator k = saAdministrator account" "stHost k = host" "stSourceIP k = ip" "stRevokedAt k = 0"
    "s' = audit_state env (audit_state env (s\<lparr>sDb := db\<rparr>) e1) e2"
  using assms by (auto simp: issueAccessToken_def Let_def split: option.splits sum.splits)

lemma prims_issueAccessToken:
  assumes "issueAccessToken (env :: auth_env) s account host ip = Inr (text, s')" "same_pg base env"
    "account_matches (sDb s) (saAccountID account) (saEmail account) (saAdministrator account)"
  shows "server_prims base s s'"
  using assms by (auto elim!: issueAccessToken_success intro!: prims_audit server_prim.token)

lemma completeLogin_state:
  assumes "completeLogin env s i ke3 = (res, s')"
  shows "s' = s\<lparr>sPending := fmdrop i (sPending s)\<rparr>"
  using assms by (auto simp: completeLogin_def take_pending_def split: option.splits if_splits prod.splits)

lemma completeLogin_success:
  assumes "completeLogin env s i ke3 = (Inr (p, a), s')"
  obtains m where "fmlookup (sPending s) i = Some p" "plAccount p = Some a" "clock env ''completeLogin'' \<le> plExpiresAt p"
    "readKE3 env ke3 = Some m" "loginFinish env m (plClientMAC p)"
  using assms by (auto simp: completeLogin_def take_pending_def split: option.splits if_splits prod.splits)

lemma prims_finishLogin:
  assumes "finishLogin (env :: auth_env) r s = (reply, s')" "same_pg base env" "server_wf base s"
  shows "server_prims base s s'"
proof -
  have drop: "server_prims base s (s\<lparr>sPending := fmdrop i (sPending s)\<rparr>)" for i
    by (rule r_into_rtranclp) (rule server_prim.end_login)
  have issue: "server_prims base s s2"
    if "completeLogin env s i ke3 = (Inr (p, a), s1)"
      "issueAccessToken env (s1\<lparr>sLimiter := l\<rparr>) a h ip = Inr (tok, s2)" for i ke3 p a s1 l h ip tok s2
  proof -
    from completeLogin_success[OF that(1)] assms(3)
    have "account_matches (sDb s) (saAccountID a) (saEmail a) (saAdministrator a)"
      by (metis pending_wf_def server_wf_def)
    with that completeLogin_state[OF that(1)]
    have "server_prims base (s1\<lparr>sLimiter := l\<rparr>) s2"
      by (intro prims_issueAccessToken[OF that(2) assms(2)]) simp
    moreover have "server_prims base s (s1\<lparr>sLimiter := l\<rparr>)"
      using drop completeLogin_state[OF that(1)] by (auto intro: prims_limiter)
    ultimately show ?thesis by (rule rtranclp_trans[rotated])
  qed
  from assms(1) consider "s' = s"
    | i ke3 p s1 e where "completeLogin env s i ke3 = (Inl p, s1)" "s' = audit_state env s1 e"
    | i ke3 p a s1 l where "completeLogin env s i ke3 = (Inr (p, a), s1)" "s' = s1\<lparr>sLimiter := l\<rparr>"
    | i ke3 p a s1 l h ip tok where "completeLogin env s i ke3 = (Inr (p, a), s1)"
        "issueAccessToken env (s1\<lparr>sLimiter := l\<rparr>) a h ip = Inr (tok, s')"
    by (auto simp: finishLogin_def Let_def split: option.splits prod.splits sum.splits)
  then show ?thesis
  proof cases
    case 2
    then show ?thesis using drop completeLogin_state[OF 2(1)] by (auto intro: prims_audit)
  next
    case 3
    then show ?thesis using drop completeLogin_state[OF 3(1)] by (auto intro: prims_limiter)
  next
    case 4
    from issue[OF 4] show ?thesis .
  qed simp
qed

lemma prims_reportLoginFailure: "reportLoginFailure env r s = (reply, s') \<Longrightarrow> server_prims base s s'"
  by (auto simp: reportLoginFailure_def take_pending_def split: option.splits
      intro!: prims_audit server_prim.end_login)

lemma map_sum_Inr: "map_sum f g x = Inr b \<longleftrightarrow> (\<exists>a. x = Inr a \<and> b = g a)"
  by (cases x) auto

lemma finish_success:
  "finish env db i email rec e1 e2 = Inr db' \<Longrightarrow>
     \<exists>account. baAdministrator account \<and> baEmail account = email \<and> CreateBootstrap env db account = Inr db'"
  by (auto simp: finish_def map_sum_Inr split: if_splits option.splits intro!: exI)

lemma prims_startBootstrap: "startBootstrap env r s = (reply, s') \<Longrightarrow> s' = s"
  by (auto simp: startBootstrap_def split: option.splits sum.splits)

lemma prims_finishBootstrap:
  "finishBootstrap (env :: auth_env) r s = (reply, s') \<Longrightarrow> same_pg base env \<Longrightarrow> server_prims base s s'"
  by (auto simp: finishBootstrap_def split: option.splits sum.splits dest!: finish_success
      intro!: server_prim.bootstrap)

lemma prims_startRegistration: "startRegistration env r s = (reply, s') \<Longrightarrow> s' = s"
  by (auto simp: startRegistration_def split: option.splits sum.splits)

lemma prims_finishRegistration:
  "finishRegistration (env :: auth_env) r s = (reply, s') \<Longrightarrow> same_pg base env \<Longrightarrow> server_prims base s s'"
  by (auto simp: finishRegistration_def Let_def split: option.splits sum.splits if_splits
      intro!: prims_audit server_prim.invited)

lemma createInvite_cases:
  assumes "createInvite env r s = (reply, s')"
  obtains (unchanged) res where "authenticateAdministrator env r s = (res, s')" "\<not> succeeded reply"
  | (created) token s1 v db e where "authenticateAdministrator env r s = (Inr token, s1)"
      "CreateInvite env (sDb s1) v = Inr db" "siCreatedBy v = stAccountID token"
      "s' = audit_state env (s1\<lparr>sDb := db\<rparr>) e"
proof -
  obtain res s1 where a: "authenticateAdministrator env r s = (res, s1)" by fastforce
  show thesis
  proof (cases "s' = s1 \<and> \<not> succeeded reply")
    case True
    with a show thesis by (intro unchanged[of res]) auto
  next
    case False
    note go = a False assms[unfolded createInvite_def Let_def]
    from go obtain token where t: "res = Inr token" by (cases res) (auto simp: unauthorized_def)
    note go = go[unfolded t, simplified]
    from go obtain m where m: "decodeRequest r = Some m" by (cases "decodeRequest r") (auto simp: invalid_body_def)
    from go m obtain email where e: "canonicalEmail env m = Some email" by (cases "canonicalEmail env m") auto
    from go m e obtain raw where w: "rnd env ''invite'' = Some raw" by (cases "rnd env ''invite''") auto
    from go m e w obtain i where i: "newAccountID (rnd env ''inviteID'') = Some i"
      by (cases "newAccountID (rnd env ''inviteID'')") auto
    let ?v = "\<lparr>siInviteID = i, siEmail = email,
      siTokenHash = sha256 (pg env) (string_bytes (EncodeToString URLAlphabet raw)),
      siCreatedBy = stAccountID token, siCreatedAt = clock env ''createInvite'',
      siExpiresAt = clock env ''createInvite'' + hours 48, siConsumedBy = [], siConsumedAt = 0, siRevokedAt = 0\<rparr>"
    from go m e w i obtain db where d: "CreateInvite env (sDb s1) ?v = Inr db"
      by (cases "CreateInvite env (sDb s1) ?v") auto
    show thesis
      by (rule created[OF a[unfolded t] d]) (use go m e w i d in auto)
  qed
qed

lemma prims_createInvite:
  assumes "createInvite (env :: auth_env) r s = (reply, s')" "same_pg base env" "server_wf base s"
  shows "server_prims base s s'"
  using assms(1)
proof (cases rule: createInvite_cases)
  case (unchanged res)
  then show ?thesis by (intro prims_administrator)
next
  case (created token s1 v db e)
  from authenticateAdministrator_success[OF created(1)] authenticate_account[OF _ assms(3)]
  have "account_matches (sDb s1) (siCreatedBy v) (stEmail token) True"
    using created(3) by fastforce
  from server_prim.invite[OF created(2) assms(2) this] prims_administrator[OF created(1)] show ?thesis
    unfolding created(4) by (intro prims_audit) (rule prims_trans)
qed

lemma prims_listInvites: "listInvites (env :: auth_env) r s = (reply, s') \<Longrightarrow> server_prims base s s'"
  by (auto simp: listInvites_def split: sum.splits prod.splits intro: prims_administrator)

lemma prims_revokeInvite:
  assumes "revokeInvite (env :: auth_env) r s = (reply, s')"
  shows "server_prims base s s'"
proof -
  obtain res s1 where a: "authenticateAdministrator env r s = (res, s1)" by fastforce
  note p = prims_administrator[OF a]
  show ?thesis
  proof (cases "RevokeInvite env (sDb s1) (rqPathID r)")
    case (Inl e)
    with a assms p show ?thesis by (cases res) (simp_all add: revokeInvite_def Let_def split: if_splits)
  next
    case (Inr db)
    from prims_trans[OF p server_prim.revoke_invite[OF Inr]] have "server_prims base s (s1\<lparr>sDb := db\<rparr>)" .
    with a Inr assms p show ?thesis
      by (cases res) (auto simp: revokeInvite_def Let_def split: if_splits intro: prims_audit)
  qed
qed

lemma revokeSession_cases:
  assumes "revokeSession env r s = (reply, s')"
  obtains (unchanged) res where "authenticate env r s = (res, s')" "\<not> succeeded reply"
  | (revoked) token s1 db e where "authenticate env r s = (Inr token, s1)"
      "RevokeSession env (sDb s1) (stAccountID token)
         (if rqPathID r = ''current'' then stSessionID token else rqPathID r) (clock env ''revokeSession'') = Inr db"
      "s' = audit_state env (s1\<lparr>sDb := db\<rparr>) e"
proof -
  obtain res s1 where a: "authenticate env r s = (res, s1)" by fastforce
  show thesis
  proof (cases res)
    case (Inl e)
    with a assms show thesis by (intro unchanged[of res]) (auto simp: revokeSession_def unauthorized_def)
  next
    case (Inr token)
    show thesis
    proof (cases "RevokeSession env (sDb s1) (stAccountID token)
        (if rqPathID r = ''current'' then stSessionID token else rqPathID r) (clock env ''revokeSession'')")
      case (Inl e)
      from a Inr Inl assms have "s' = s1 \<and> \<not> succeeded reply"
        unfolding revokeSession_def Let_def by (auto split: if_splits)
      with unchanged[of "Inr token"] a Inr show thesis by simp
    next
      case r: (Inr db)
      show thesis
        by (rule revoked[OF a[unfolded Inr] r])
          (use a Inr r assms in \<open>auto simp: revokeSession_def Let_def\<close>)
    qed
  qed
qed

lemma prims_revokeSession:
  assumes "revokeSession (env :: auth_env) r s = (reply, s')"
  shows "server_prims base s s'"
  using assms
proof (cases rule: revokeSession_cases)
  case (unchanged res)
  then show ?thesis by (intro prims_authenticate)
next
  case (revoked token s1 db e)
  show ?thesis unfolding revoked(3)
    by (intro prims_audit prims_trans[OF prims_authenticate[OF revoked(1)]] server_prim.revoke_session[OF revoked(2)])
qed

lemma prims_listSessions: "listSessions (env :: auth_env) r s = (reply, s') \<Longrightarrow> server_prims base s s'"
  by (auto simp: listSessions_def split: sum.splits prod.splits intro: prims_authenticate)

lemma prims_listAccounts: "listAccounts (env :: auth_env) r s = (reply, s') \<Longrightarrow> server_prims base s s'"
  by (auto simp: listAccounts_def split: sum.splits prod.splits intro: prims_administrator)

lemma prims_activity:
  "activity_list env l (sDb s1) r a v = (reply, db) \<Longrightarrow> server_prims base s s1 \<Longrightarrow> server_prims base s (s1\<lparr>sDb := db\<rparr>)"
  by (erule prims_trans) (rule prim_events, erule activity_list_frame)

lemma prims_listOwn: "listOwn (env :: auth_env) l r s = (reply, s') \<Longrightarrow> server_prims base s s'"
  by (auto simp: listOwn_def split: sum.splits prod.splits intro: prims_activity[OF _ prims_authenticate]
      dest: prims_authenticate)

lemma prims_listAll: "listAll (env :: auth_env) l r s = (reply, s') \<Longrightarrow> server_prims base s s'"
  by (auto simp: listAll_def split: sum.splits prod.splits intro: prims_activity[OF _ prims_administrator]
      dest: prims_administrator)

lemma prims_put:
  assumes "put (env :: auth_env) r s = (reply, s')" "same_pg base env"
  shows "server_prims base s s'"
proof -
  obtain res s1 where a: "authenticate env r s = (res, s1)" by fastforce
  note p = prims_authenticate[OF a]
  show ?thesis
  proof (cases "s' = s1")
    case False
    with a assms(1) obtain token item v where "res = Inr token" "PutItem (pg env) (sVault s1) (stAccountID token) item = Inr v"
      "s' = s1\<lparr>sVault := v\<rparr>"
      unfolding put_def by (simp split: sum.splits option.splits if_splits)
    with vault_step.put[OF this(2) same_pgD(2)[OF assms(2)]] show ?thesis
      by (auto intro: prims_trans[OF p] server_prim.vault)
  qed (use p in simp)
qed

lemma prims_list_items: "list_items (env :: auth_env) r s = (reply, s') \<Longrightarrow> server_prims base s s'"
  by (auto simp: list_items_def split: sum.splits prod.splits if_splits intro: prims_authenticate)

lemma sync_cases:
  assumes "sync env r s = (reply, s')"
  obtains (refused) e where "authenticate env r s = (Inl e, s')" "reply = unauthorized"
  | (failed) token s1 where "authenticate env r s = (Inr token, s1)" "\<not> succeeded reply"
      "s' = auditSyncFailure env r s1 (stAccountID token)"
  | (accepted) token s1 request result v where "authenticate env r s = (Inr token, s1)" "decodeRequest r = Some request"
      "validMutations (normalizeMutations (syMutations request))" "length (syMutations request) \<le> maximumSyncMutations"
      "Sync (pg env) (sVault s1) (stAccountID token) (syCursor request)
         (normalizeMutations (syMutations request)) (clock env ''Sync'') = Inr (result, v)"
      "reply = writeJSON 200 result" "s' = s1\<lparr>sVault := v\<rparr>"
proof -
  obtain res s1 where a: "authenticate env r s = (res, s1)" by fastforce
  show thesis
  proof (cases res)
    case (Inl e)
    with a assms refused show thesis by (simp add: sync_def)
  next
    case (Inr token)
    show thesis
    proof (cases "decodeRequest r")
      case None
      with a Inr assms failed[of token s1] show thesis by (auto simp: sync_def invalid_body_def)
    next
      case (Some request)
      let ?ms = "normalizeMutations (syMutations request)"
      let ?res = "if fault env ''Sync'' then bind_e (parseSyncCursor (syCursor request)) (\<lambda>_. Inl DbError)
        else Sync (pg env) (sVault s1) (stAccountID token) (syCursor request) ?ms (clock env ''Sync'')"
      show thesis
      proof (cases "length ?ms > maximumSyncMutations \<or> \<not> validMutations ?ms")
        case True
        with a Inr Some assms failed[of token s1] show thesis by (auto simp: sync_def)
      next
        case ok: False
        show thesis
        proof (cases ?res)
          case (Inl e)
          with a Inr Some ok assms failed[of token s1] show thesis
            by (auto simp: sync_def sync_error_reply_def split: sync_error.splits)
        next
          case r: (Inr p)
          obtain result v where p: "p = (result, v)" by fastforce
          from r p have "Sync (pg env) (sVault s1) (stAccountID token) (syCursor request) ?ms (clock env ''Sync'') = Inr (result, v)"
            by (auto simp: bind_e_Inr_iff split: if_splits)
          moreover from r p a Inr Some ok assms have "reply = writeJSON 200 result \<and> s' = s1\<lparr>sVault := v\<rparr>"
            by (simp add: sync_def)
          ultimately show thesis
            using accepted[of token s1 request result v] a Inr Some ok by (simp add: normalizeMutations_def)
        qed
      qed
    qed
  qed
qed

lemma prims_sync:
  assumes "sync (env :: auth_env) r s = (reply, s')" "same_pg base env"
  shows "server_prims base s s'"
  using assms(1)
proof (cases rule: sync_cases)
  case (refused e)
  then show ?thesis by (auto intro: prims_authenticate)
next
  case (failed token s1)
  then show ?thesis by (auto simp: auditSyncFailure_def intro: prims_audit prims_authenticate)
next
  case (accepted token s1 request result v)
  from vault_step.sync[OF accepted(5,3) same_pgD[OF assms(2)]]
  show ?thesis unfolding accepted(7) by (intro prims_trans[OF prims_authenticate[OF accepted(1)]] server_prim.vault)
qed

section \<open>Runs of the server\<close>

text \<open>
  One request, answered by its handler, in any environment over the same PostgreSQL casts and
  digest: clocks, randomness, failures and the OPAQUE library's answers are arbitrary each time.
  The start of a login is not one critical section: its second and third step may also come on
  their own, later than the limiter's consent and in any order with other requests.
\<close>

inductive server_step :: "pg_env \<Rightarrow> server_state \<Rightarrow> server_state \<Rightarrow> bool" for base where
  "same_pg base (env :: auth_env) \<Longrightarrow> startBootstrap env r s = (reply, s') \<Longrightarrow> server_step base s s'"
| "same_pg base (env :: auth_env) \<Longrightarrow> finishBootstrap env r s = (reply, s') \<Longrightarrow> server_step base s s'"
| "same_pg base (env :: auth_env) \<Longrightarrow> startRegistration env r s = (reply, s') \<Longrightarrow> server_step base s s'"
| "same_pg base (env :: auth_env) \<Longrightarrow> finishRegistration env r s = (reply, s') \<Longrightarrow> server_step base s s'"
| "same_pg base (env :: auth_env) \<Longrightarrow> startLogin env r s = (reply, s') \<Longrightarrow> server_step base s s'"
| "same_pg base (env :: auth_env) \<Longrightarrow> finishLogin env r s = (reply, s') \<Longrightarrow> server_step base s s'"
| "same_pg base (env :: auth_env) \<Longrightarrow> reportLoginFailure env r s = (reply, s') \<Longrightarrow> server_step base s s'"
| "same_pg base (env :: auth_env) \<Longrightarrow> createInvite env r s = (reply, s') \<Longrightarrow> server_step base s s'"
| "same_pg base (env :: auth_env) \<Longrightarrow> listInvites env r s = (reply, s') \<Longrightarrow> server_step base s s'"
| "same_pg base (env :: auth_env) \<Longrightarrow> revokeInvite env r s = (reply, s') \<Longrightarrow> server_step base s s'"
| "same_pg base (env :: auth_env) \<Longrightarrow> revokeSession env r s = (reply, s') \<Longrightarrow> server_step base s s'"
| "same_pg base (env :: auth_env) \<Longrightarrow> listSessions env r s = (reply, s') \<Longrightarrow> server_step base s s'"
| "same_pg base (env :: auth_env) \<Longrightarrow> listAccounts env r s = (reply, s') \<Longrightarrow> server_step base s s'"
| "same_pg base (env :: auth_env) \<Longrightarrow> listOwn env l r s = (reply, s') \<Longrightarrow> server_step base s s'"
| "same_pg base (env :: auth_env) \<Longrightarrow> listAll env l r s = (reply, s') \<Longrightarrow> server_step base s s'"
| "same_pg base (env :: auth_env) \<Longrightarrow> put env r s = (reply, s') \<Longrightarrow> server_step base s s'"
| "same_pg base (env :: auth_env) \<Longrightarrow> list_items env r s = (reply, s') \<Longrightarrow> server_step base s s'"
| "same_pg base (env :: auth_env) \<Longrightarrow> sync env r s = (reply, s') \<Longrightarrow> server_step base s s'"
| "same_pg base (env :: auth_env) \<Longrightarrow> beginLogin env s email ke1 host ip = Some (i, ke2, s') \<Longrightarrow> server_step base s s'"
| "same_pg base (env :: auth_env) \<Longrightarrow> server_step base s (countLogin env s email ip)"

inductive server_run :: "pg_env \<Rightarrow> server_state \<Rightarrow> server_state \<Rightarrow> bool" for base and start where
  initially: "server_run base start start"
| request: "server_run base start s \<Longrightarrow> server_step base s s' \<Longrightarrow> server_run base start s'"

lemmas handler_prims = prims_finishBootstrap prims_finishRegistration prims_startLogin prims_finishLogin
  prims_reportLoginFailure prims_createInvite prims_listInvites prims_revokeInvite prims_revokeSession
  prims_listSessions prims_listAccounts prims_listOwn prims_listAll prims_put prims_list_items prims_sync
  prims_beginLogin prims_countLogin

lemma server_step_prims: "server_step base s s' \<Longrightarrow> server_wf base s \<Longrightarrow> server_prims base s s'"
  by (induction rule: server_step.induct)
    (auto dest: prims_startBootstrap prims_startRegistration intro: handler_prims)

lemma server_run_prims: "server_run base s s' \<Longrightarrow> server_wf base s \<Longrightarrow> server_prims base s s' \<and> server_wf base s'"
proof (induction rule: server_run.induct)
  case (request t t')
  then show ?case using server_step_prims server_prims_wf by (meson rtranclp_trans)
qed simp

definition empty_server :: server_state where
  "empty_server = \<lparr>sDb = \<lparr>dAccounts = [], dOpaque = fmempty, dEnvelopes = fmempty, dTokens = [], dInvites = [], dEvents = []\<rparr>,
     sVault = empty_vault, sPending = fmempty, sLimiter = NewLoginLimiter\<rparr>"

lemma empty_server_wf: "server_wf base empty_server"
  by (simp add: server_wf_def empty_server_def accounts_wf_def tokens_wf_def invites_wf_def pending_wf_def empty_vault_wf)

section \<open>What lasts\<close>

definition accounts_extend :: "auth_db \<Rightarrow> auth_db \<Rightarrow> bool" where
  "accounts_extend db db' \<longleftrightarrow> (\<exists>more. dAccounts db' = dAccounts db @ more)"

text \<open>A revoked token keeps its hash, session and time of revocation.\<close>

definition revoked_at :: "auth_db \<Rightarrow> bytes \<Rightarrow> uuid \<Rightarrow> time \<Rightarrow> bool" where
  "revoked_at db h i t \<longleftrightarrow> (\<exists>k \<in> set (dTokens db). tkHash k = h \<and> tkSession k = i \<and> tkRevokedAt k = Some t)"

text \<open>An invitation that was consumed or revoked stays so, under the same identifier and token.\<close>

definition spent_invite :: "auth_db \<Rightarrow> uuid \<Rightarrow> bytes \<Rightarrow> bool" where
  "spent_invite db i h \<longleftrightarrow> (\<exists>v \<in> set (dInvites db). ivID v = i \<and> ivTokenHash v = h \<and> \<not> pending_invite v)"

lemma revoked_map:
  assumes "revoked_at db h i t" "\<And>k. tkHash (f k) = tkHash k \<and> tkSession (f k) = tkSession k"
    "\<And>k. tkRevokedAt k \<noteq> None \<Longrightarrow> tkRevokedAt (f k) = tkRevokedAt k"
  shows "revoked_at (db\<lparr>dTokens := map f (dTokens db)\<rparr>) h i t"
  using assms by (fastforce simp: revoked_at_def)

lemma spent_map:
  assumes "spent_invite db i h" "\<And>v. ivID (f v) = ivID v \<and> ivTokenHash (f v) = ivTokenHash v"
    "\<And>v. \<not> pending_invite v \<Longrightarrow> \<not> pending_invite (f v)"
  shows "spent_invite (db\<lparr>dInvites := map f (dInvites db)\<rparr>) i h"
  using assms by (fastforce simp: spent_invite_def)

lemma revoked_cong: "dTokens db' = dTokens db \<Longrightarrow> revoked_at db' = revoked_at db"
  by (intro ext) (simp add: revoked_at_def)

lemma spent_cong: "dInvites db' = dInvites db \<Longrightarrow> spent_invite db' = spent_invite db"
  by (intro ext) (simp add: spent_invite_def)

lemma insert_account_tables:
  assumes "insert_account env db account admin = Inr (i, db')"
  shows "dTokens db' = dTokens db" "dInvites db' = dInvites db" "accounts_extend db db'"
  by (simp_all add: insert_account_success(3)[OF assms] accounts_extend_def)

lemma same_tables_last:
  assumes "dAccounts db' = dAccounts db" "dTokens db' = dTokens db" "dInvites db' = dInvites db"
  shows "accounts_extend db db' \<and> revoked_at db' = revoked_at db \<and> spent_invite db' = spent_invite db"
  using assms by (simp add: accounts_extend_def revoked_cong[OF assms(2)] spent_cong[OF assms(3)])

lemma insert_account_last:
  assumes "insert_account env db account admin = Inr (i, db')"
  shows "accounts_extend db db' \<and> revoked_at db' = revoked_at db \<and> spent_invite db' = spent_invite db"
  using insert_account_tables[OF assms] by (simp add: revoked_cong[of db' db] spent_cong[of db' db])

lemma prim_lasts:
  assumes "server_prim base s s'"
  shows "accounts_extend (sDb s) (sDb s') \<and> (revoked_at (sDb s) h i t \<longrightarrow> revoked_at (sDb s') h i t) \<and>
    (spent_invite (sDb s) j g \<longrightarrow> spent_invite (sDb s') j g)"
  using assms
proof cases
  case (touch env h' t' db)
  have "revoked_at db h i t" if "revoked_at (sDb s) h i t"
    unfolding touch_effect[OF touch(2)] by (rule revoked_map[OF that]) auto
  moreover have "spent_invite db = spent_invite (sDb s)"
    by (rule spent_cong) (simp add: touch_effect[OF touch(2)])
  moreover have "dAccounts db = dAccounts (sDb s)" by (simp add: touch_effect[OF touch(2)])
  ultimately show ?thesis using touch(1) by (simp add: accounts_extend_def)
next
  case (bootstrap env account db)
  from CreateBootstrap_effect[OF bootstrap(2)] obtain i where
    "insert_account env (sDb s) account (baAdministrator account) = Inr (i, db)" by blast
  from insert_account_last[OF this] bootstrap(1) show ?thesis by simp
next
  case (invited env h' account t' db)
  from invited(2) obtain v :: invite_row and i' db1 where e: "insert_account env (sDb s) account False = Inr (i', db1)"
    "db = db1\<lparr>dInvites := map (\<lambda>r. if ivID r = ivID v then r\<lparr>ivConsumedBy := Some i', ivConsumedAt := Some t'\<rparr> else r)
       (dInvites db1)\<rparr>"
    by (rule CreateInvitedAccount_effect)
  note same = insert_account_last[OF e(1)]
  have "spent_invite db j g" if "spent_invite (sDb s) j g"
    unfolding e(2) by (rule spent_map) (use that same in \<open>auto simp: pending_invite_def\<close>)
  moreover have "revoked_at db = revoked_at db1" by (rule revoked_cong) (simp add: e(2))
  moreover have "accounts_extend (sDb s) db" using same by (simp add: e(2) accounts_extend_def)
  ultimately show ?thesis using invited(1) same by simp
next
  case (token env k db)
  from token(2) obtain i' a where
    db: "db = (sDb s)\<lparr>dTokens := dTokens (sDb s) @
       [\<lparr>tkHash = stTokenHash k, tkSession = i', tkAccount = a, tkEmail = stEmail k,
         tkAdministrator = stAdministrator k, tkHost = stHost k, tkSourceIP = stSourceIP k,
         tkCreatedAt = stCreatedAt k, tkLastUsedAt = stLastUsedAt k, tkRevokedAt = None\<rparr>]\<rparr>"
    by (rule CreateAccessToken_effect)
  have "spent_invite db = spent_invite (sDb s)" by (rule spent_cong) (simp add: db)
  then show ?thesis using token(1) by (auto simp: db accounts_extend_def revoked_at_def)
next
  case (revoke_session env a i' t' db)
  from revoke_effect[OF revoke_session(2)] obtain a' b' where
    db: "db = (sDb s)\<lparr>dTokens := map (\<lambda>r. if revocable a' b' r then r\<lparr>tkRevokedAt := Some t'\<rparr> else r) (dTokens (sDb s))\<rparr>" by blast
  have "revoked_at db h i t" if "revoked_at (sDb s) h i t"
    unfolding db by (rule revoked_map[OF that]) (auto simp: revocable_def)
  moreover have "spent_invite db = spent_invite (sDb s)" by (rule spent_cong) (simp add: db)
  ultimately show ?thesis using revoke_session(1) by (simp add: db accounts_extend_def)
next
  case (invite env v db email)
  from invite(2) obtain i' a where
    db: "db = (sDb s)\<lparr>dInvites := dInvites (sDb s) @
       [\<lparr>ivID = i', ivEmail = siEmail v, ivTokenHash = siTokenHash v, ivCreatedBy = a,
         ivCreatedAt = siCreatedAt v, ivExpiresAt = siExpiresAt v, ivConsumedBy = None,
         ivConsumedAt = None, ivRevokedAt = None\<rparr>]\<rparr>"
    by (rule CreateInvite_effect)
  have "revoked_at db = revoked_at (sDb s)" by (rule revoked_cong) (simp add: db)
  then show ?thesis using invite(1) by (auto simp: db accounts_extend_def spent_invite_def)
next
  case (revoke_invite env i' db)
  from RevokeInvite_effect[OF revoke_invite(2)] obtain a' t' where
    db: "db = (sDb s)\<lparr>dInvites := map (\<lambda>r. if ivID r = a' \<and> pending_invite r then r\<lparr>ivRevokedAt := Some t'\<rparr> else r) (dInvites (sDb s))\<rparr>"
    by blast
  have "spent_invite db j g" if "spent_invite (sDb s) j g"
    unfolding db by (rule spent_map[OF that]) (auto simp: pending_invite_def)
  moreover have "revoked_at db = revoked_at (sDb s)" by (rule revoked_cong) (simp add: db)
  ultimately show ?thesis using revoke_invite(1) by (simp add: db accounts_extend_def)
next
  case (events evs)
  then show ?thesis using same_tables_last[of "sDb s'" "sDb s"] by simp
qed (simp_all add: accounts_extend_def)

lemma prims_last:
  assumes "server_prims base s s'"
  shows "accounts_extend (sDb s) (sDb s')" "revoked_at (sDb s) h i t \<Longrightarrow> revoked_at (sDb s') h i t"
    "spent_invite (sDb s) j g \<Longrightarrow> spent_invite (sDb s') j g"
proof -
  have "accounts_extend (sDb s) (sDb s') \<and> (revoked_at (sDb s) h i t \<longrightarrow> revoked_at (sDb s') h i t) \<and>
    (spent_invite (sDb s) j g \<longrightarrow> spent_invite (sDb s') j g)"
    using assms
  proof (induction rule: rtranclp_induct)
    case (step x y)
    then show ?case using prim_lasts[OF step(2), of h i t j g] by (auto simp: accounts_extend_def)
  qed (simp add: accounts_extend_def)
  then show "accounts_extend (sDb s) (sDb s')" "revoked_at (sDb s) h i t \<Longrightarrow> revoked_at (sDb s') h i t"
    "spent_invite (sDb s) j g \<Longrightarrow> spent_invite (sDb s') j g" by simp_all
qed

end
