(* ===== verification/SyncProps.thy ===== *)
theory SyncProps
  imports SyncRuns
begin

text \<open>
  What the server's synchronization promises: heads derived from the graph, retry safety, permanent
  Tombstones that scrub content and are never silently undone, answers without gaps, expiry of the
  trash and separation of the accounts; and where the code falls short of it.
\<close>

section \<open>A database to run the operations on\<close>

definition lower_hex :: "char \<Rightarrow> char" where
  "lower_hex c = (if c = CHR ''A'' then CHR ''a'' else if c = CHR ''B'' then CHR ''b''
     else if c = CHR ''C'' then CHR ''c'' else if c = CHR ''D'' then CHR ''d''
     else if c = CHR ''E'' then CHR ''e'' else if c = CHR ''F'' then CHR ''f'' else c)"

definition lower_uuid :: "string \<Rightarrow> uuid option" where
  "lower_uuid s = (if validUUID s then Some (map lower_hex s) else None)"

definition sample_pg :: pg_env where
  "sample_pg = \<lparr>uuidIn = lower_uuid, genUUID = (\<lambda>n. format_uuid (replicate 15 0 @ [of_nat n])),
     sha256 = (\<lambda>b. b)\<rparr>"

lemma lower_hex_idem: "lower_hex (lower_hex c) = lower_hex c"
  by (simp add: lower_hex_def)

lemma lower_hex_hyphen [simp]: "lower_hex c = CHR ''-'' \<longleftrightarrow> c = CHR ''-''"
  by (auto simp: lower_hex_def)

lemma is_hex_lower: "is_hex c \<Longrightarrow> is_hex (lower_hex c)"
  by (auto simp: lower_hex_def is_hex_def less_eq_char_def)

lemma validUUID_lower: "validUUID s \<Longrightarrow> validUUID (map lower_hex s)"
  by (auto simp: validUUID_def validUUID_loop_iff is_hex_lower split: if_splits)

lemma lower_uuid_canonical: "lower_uuid s = Some c \<Longrightarrow> validUUID c \<and> lower_uuid c = Some c"
  by (auto simp: lower_uuid_def validUUID_lower lower_hex_idem comp_def split: if_splits)

lemma lower_hex_id: "c \<notin> {CHR ''A'', CHR ''B'', CHR ''C'', CHR ''D'', CHR ''E'', CHR ''F''} \<Longrightarrow> lower_hex c = c"
  by (simp add: lower_hex_def)

lemma hex_char_lower: "n < 16 \<Longrightarrow> lower_hex (hex_char n) = hex_char n"
proof -
  assume n: "n < 16"
  have "hex_char n \<notin> {CHR ''A'', CHR ''B'', CHR ''C'', CHR ''D'', CHR ''E'', CHR ''F''}"
  proof
    assume "hex_char n \<in> {CHR ''A'', CHR ''B'', CHR ''C'', CHR ''D'', CHR ''E'', CHR ''F''}"
    then have "(of_char (hex_char n) :: nat) \<in> {65, 66, 67, 68, 69, 70}" by auto
    moreover have "(of_char (hex_char n) :: nat) = (if n < 10 then 48 + n else 87 + n)"
      using n by (simp add: hex_char_def)
    ultimately show False using n by (auto split: if_splits)
  qed
  then show ?thesis by (rule lower_hex_id)
qed

lemma hex_bytes_lower: "map lower_hex (hex_bytes bs) = hex_bytes bs"
proof -
  have "lower_hex c = c" if "c \<in> set (hex_byte b)" for b c
  proof -
    have "unat b < 256" using unsigned_less [of b] by simp
    then have "unat b div 16 < 16" "unat b mod 16 < 16" by auto
    with that show ?thesis by (auto simp: hex_byte_def hex_char_lower)
  qed
  then show ?thesis by (intro map_idI) (auto simp: hex_bytes_def)
qed

lemma sample_pg_ok: "pg_ok sample_pg"
proof -
  have "lower_uuid (format_uuid bs) = Some (format_uuid bs)" if "length bs = 16" for bs
    using validUUID_format_uuid[OF that]
    by (simp add: lower_uuid_def) (simp add: format_uuid_def hex_bytes_lower lower_hex_def)
  then show ?thesis using lower_uuid_canonical by (simp add: pg_ok_def sample_pg_def)
qed

definition uA :: uuid where "uA = ''aaaaaaaa-0000-4000-8000-000000000001''"
definition uB :: uuid where "uB = ''bbbbbbbb-0000-4000-8000-000000000002''"
definition uC :: uuid where "uC = ''cccccccc-0000-4000-8000-000000000003''"
definition uI :: uuid where "uI = ''11111111-0000-4000-8000-000000000009''"

lemma lower_samples [simp]:
  "lower_uuid uA = Some uA" "lower_uuid uB = Some uB" "lower_uuid uC = Some uC" "lower_uuid uI = Some uI"
  by (code_simp)+

lemma valid_samples [simp]: "validUUID uA" "validUUID uB" "validUUID uC" "validUUID uI"
  using lower_samples by (auto simp: lower_uuid_def split: if_splits)

lemma distinct_samples [simp]:
  "uA \<noteq> uB" "uB \<noteq> uA" "uA \<noteq> uC" "uC \<noteq> uA" "uB \<noteq> uC" "uC \<noteq> uB" "uI \<noteq> []" "uA \<noteq> []" "uB \<noteq> []" "uC \<noteq> []"
  by (simp_all add: uA_def uB_def uC_def uI_def)

lemma sample_pg_sel [simp]: "uuidIn sample_pg = lower_uuid" "sha256 sample_pg = (\<lambda>b. b)"
  by (simp_all add: sample_pg_def)

definition create :: "uuid \<Rightarrow> vault_mutation" where
  "create r = \<lparr>vmMutationID = r, vmBaseRevision = 0, vmItem = \<lparr>oItemID = uI, oSchemaVersion = 1,
     oRevision = 1, oRevisionID = r, oParents = [], oDeleted = False, oPurged = False, oEnvelope = Some [7]\<rparr>\<rparr>"

definition edit :: "uuid \<Rightarrow> uuid \<Rightarrow> vault_mutation" where
  "edit p r = \<lparr>vmMutationID = r, vmBaseRevision = 1, vmItem = \<lparr>oItemID = uI, oSchemaVersion = 1,
     oRevision = 2, oRevisionID = r, oParents = [p], oDeleted = False, oPurged = False, oEnvelope = Some [8]\<rparr>\<rparr>"

definition purge :: "uuid \<Rightarrow> uuid \<Rightarrow> vault_mutation" where
  "purge p r = \<lparr>vmMutationID = r, vmBaseRevision = 1, vmItem = \<lparr>oItemID = uI, oSchemaVersion = 1,
     oRevision = 2, oRevisionID = r, oParents = [p], oDeleted = True, oPurged = True, oEnvelope = None\<rparr>\<rparr>"

lemma sample_mutation_sel [simp]:
  "vmMutationID (create r) = r" "oItemID (vmItem (create r)) = uI" "oRevisionID (vmItem (create r)) = r"
  "vmMutationID (edit p r) = r" "oItemID (vmItem (edit p r)) = uI" "oParents (vmItem (edit p r)) = [p]"
  "vmMutationID (purge p r) = r" "oItemID (vmItem (purge p r)) = uI" "oParents (vmItem (purge p r)) = [p]"
  "oDeleted (vmItem (edit p r)) = False" "oPurged (vmItem (edit p r)) = False"
  "oDeleted (vmItem (purge p r)) = True" "oPurged (vmItem (purge p r)) = True"
  "vmBaseRevision (edit p r) = 1" "vmBaseRevision (purge p r) = 1"
  by (simp_all add: create_def edit_def purge_def)

lemma sample_mutations_valid:
  "validUUID r \<Longrightarrow> validMutation (create r)"
  "validUUID r \<Longrightarrow> validUUID p \<Longrightarrow> validMutation (edit p r)"
  "validUUID r \<Longrightarrow> validUUID p \<Longrightarrow> validMutation (purge p r)"
  by (simp_all add: validMutation_def create_def edit_def purge_def Let_def validOpaqueItemContent_def
      len_def maximumItemRevision_def maximumItemEnvelopeSize_def validUUID_nonempty)

definition row_A :: "time \<Rightarrow> revision_row" where
  "row_A t = new_revision_row ''a'' (create uA) uI uA [] t"

definition vault1 :: vault_db where
  "vault1 = \<lparr>tRevisions = [row_A 0], tHeads = [\<lparr>hdAccount = ''a'', hdItemID = uI, hdRevisionID = uA\<rparr>],
     tItems = [\<lparr>itAccount = ''a'', itItemID = uI, itSchema = 1, itRevision = 1, itDeleted = False,
                itPurged = False, itEnvelope = Some [7]\<rparr>],
     tChanges = [change_of (row_A 0) 1 0],
     tLedger = [ledger_of (row_A 0) uA 0 (vaultMutationDigest sample_pg (create uA)) 1 0],
     tCursors = fmupd ''a'' 1 fmempty\<rparr>"

lemma apply_create: "applyVaultMutation sample_pg empty_vault ''a'' (create uA) 0 = Inr (True, vault1)"
  by (simp add: applyVaultMutation_def find_ledger_def empty_vault_def ancestry_check_def initial_check_def
      create_def append_mutation_def uuids_in_def new_revision_row_def insert_revision_def
      check_revision_row_def find_revision_def replace_heads_def scrub_item_def project_item_def
      item_heads_of_def check_content_def upsert_item_def advance_cursor_def cursor_of_def
      record_change_def record_ledger_def item_revisions_of_def vault1_def row_A_def change_of_def ledger_of_def Let_def)

definition edited :: "vault_mutation \<Rightarrow> vault_db" where
  "edited m = (case applyVaultMutation sample_pg vault1 ''a'' m 5 of Inr (_, db) \<Rightarrow> db | Inl _ \<Rightarrow> empty_vault)"

lemma vault1_sel [simp]:
  "tRevisions vault1 = [row_A 0]" "tHeads vault1 = [\<lparr>hdAccount = ''a'', hdItemID = uI, hdRevisionID = uA\<rparr>]"
  "tChanges vault1 = [change_of (row_A 0) 1 0]"
  "tLedger vault1 = [ledger_of (row_A 0) uA 0 (vaultMutationDigest sample_pg (create uA)) 1 0]"
  "tCursors vault1 = fmupd ''a'' 1 fmempty" "tItems vault1 = [\<lparr>itAccount = ''a'', itItemID = uI, itSchema = 1,
      itRevision = 1, itDeleted = False, itPurged = False, itEnvelope = Some [7]\<rparr>]"
  by (simp_all add: vault1_def)

lemma row_A_sel [simp]:
  "rvAccount (row_A t) = ''a''" "rvItemID (row_A t) = uI" "rvRevisionID (row_A t) = uA" "rvRevision (row_A t) = 1"
  "rvPurged (row_A t) = False" "rvDeleted (row_A t) = False" "rvParents (row_A t) = []"
  "rvEnvelope (row_A t) = Some [7]" "rvTombstonedAt (row_A t) = None"
  by (simp_all add: row_A_def new_revision_row_def create_def)

lemma vault1_wf: "vault_wf vault1"
  by (rule applyVaultMutation_wf[OF apply_create empty_vault_wf sample_pg_ok]) (simp add: sample_mutations_valid)

lemma apply_edits:
  "\<exists>db'. applyVaultMutation sample_pg vault1 ''a'' (edit uA uB) 5 = Inr (True, db')"
  "\<exists>db'. applyVaultMutation sample_pg vault1 ''a'' (purge uA uB) 5 = Inr (True, db')"
  by (simp_all add: applyVaultMutation_def find_ledger_def ancestry_check_def parents_check_def
      edit_def purge_def append_mutation_def uuids_in_def new_revision_row_def insert_revision_def
      check_revision_row_def find_revision_def replace_heads_def scrub_item_def project_item_def
      head_revisions_def map_filter_simps item_heads_of_def check_content_def upsert_item_def advance_cursor_def
      cursor_of_def record_change_def record_ledger_def item_revisions_of_def change_of_def ledger_of_def Let_def)

section \<open>The revision graph\<close>

lemma some_head:
  assumes wf: "vault_wf db" and "has_revision db acc i r"
  shows "\<exists>h. is_head db acc i h"
proof -
  let ?S = "set (item_revisions_of db acc i)"
  from assms(2) obtain x0 where "x0 \<in> ?S" by (auto simp: has_revision_def item_revisions_iff)
  then have "?S \<noteq> {}" by (metis empty_iff)
  then have mx: "Max ((\<lambda>x. unat (rvRevision x)) ` ?S) \<in> (\<lambda>x. unat (rvRevision x)) ` ?S"
    by (intro Max_in) auto
  then obtain x where x: "x \<in> ?S" "unat (rvRevision x) = Max ((\<lambda>x. unat (rvRevision x)) ` ?S)" by auto
  have le: "unat (rvRevision y) \<le> unat (rvRevision x)" if "y \<in> ?S" for y
    unfolding x(2) using that by (intro Max_ge) auto
  from x(1) have xr: "x \<in> set (tRevisions db)" "rvAccount x = acc" "rvItemID x = i" by (simp_all add: item_revisions_iff)
  have "\<not> has_child db acc i (rvRevisionID x)"
  proof
    assume "has_child db acc i (rvRevisionID x)"
    then obtain y where y: "y \<in> set (tRevisions db)" "rvAccount y = acc" "rvItemID y = i"
      "rvRevisionID x \<in> set (rvParents y)" by (auto simp: has_child_def)
    from vault_wfD(5)[OF wf y(1,4)] obtain z where z: "z \<in> set (tRevisions db)" "rvAccount z = rvAccount y"
      "rvRevisionID z = rvRevisionID x" "unat (rvRevision z) < unat (rvRevision y)" by blast
    have "z = x" by (rule row_unique[OF wf z(1) xr(1)]) (use z y xr in simp_all)
    moreover have "y \<in> ?S" using y by (simp add: item_revisions_iff)
    ultimately show False using z(4) le by fastforce
  qed
  moreover have "has_revision db acc i (rvRevisionID x)" using xr by (auto simp: has_revision_def)
  ultimately show ?thesis using vault_wfD(4)[OF wf] by blast
qed

text \<open>C11: The heads of an item are derived from the graph, not from arrival order. In every vault that
  validated requests can produce, a revision is a head exactly when it is stored and no stored
  revision of its item names it as a parent, and every item with revisions has a head.\<close>

theorem heads_are_childless:
  assumes "vault_run base empty_vault db"
  shows "(is_head db acc i r \<longleftrightarrow> has_revision db acc i r \<and> \<not> has_child db acc i r) \<and>
    (has_revision db acc i r \<longrightarrow> (\<exists>h. is_head db acc i h))"
proof -
  from vault_run_keeps[OF assms empty_vault_wf] have wf: "vault_wf db" by simp
  show ?thesis by (auto simp: vault_wfD(4)[OF wf] intro: some_head[OF wf, unfolded vault_wfD(4)[OF wf]])
qed

lemma run_create:
  "\<exists>res. Sync sample_pg empty_vault ''a'' [] [create uA] 0 = Inr (res, vault1)"
proof -
  have p: "purgeExpiredVaultItems sample_pg (prune_changes empty_vault ''a'' c) ''a'' 0 = Inr empty_vault" for c
    by (simp add: purgeExpiredVaultItems_def prune_changes_def empty_vault_def expired_trash_def map_filter_simps)
  have a: "apply_all sample_pg ''a'' 0 [create uA] empty_vault = Inr ([uA], vault1)"
    by (simp add: apply_create)
  have "\<exists>res. answer vault1 ''a'' 0 [uA] = Inr res"
    by (simp add: answer_def cursor_of_def retained_changes_def change_of_def changes_after_def read_change_def
        uuid_array_text_def parsePostgresUUIDArray_def Let_def)
  then obtain res where "answer vault1 ''a'' 0 [uA] = Inr res" ..
  with p a show ?thesis by (simp add: Sync_def parseSyncCursor_def del: apply_all.simps)
qed

lemma run_vault1: "vault_run sample_pg empty_vault vault1"
proof -
  from run_create obtain res where s: "Sync sample_pg empty_vault ''a'' [] [create uA] 0 = Inr (res, vault1)" by blast
  show ?thesis
    by (rule vault_run.step[OF vault_run.start vault_step.sync[OF s]])
      (simp_all add: validMutations_def sample_mutations_valid sample_pg_ok)
qed

theorem heads_are_childless_witness:
  "is_head vault1 ''a'' uI uA \<and> \<not> has_child vault1 ''a'' uI uA"
  using heads_are_childless[OF run_vault1, of "''a''" uI uA]
  by (auto simp: has_revision_def has_child_def)

lemma accepted_row:
  assumes "row = new_revision_row acc m i mid ps t"
  shows "rvAccount row = acc" "rvItemID row = i" "rvRevisionID row = mid" "rvParents row = ps"
    "rvRevision row = oRevision (vmItem m)" "rvPurged row = oPurged (vmItem m)" "rvDeleted row = oDeleted (vmItem m)"
    "rvEnvelope row = oEnvelope (vmItem m)"
  by (simp_all add: assms new_revision_row_def Let_def)

text \<open>C15: Accepting a mutation replaces exactly its parents. When a mutation that is not in the ledger
  is accepted, its revision becomes a head of its item, the parents it names, all of them stored
  revisions of the item and none numbered above its base, stop being heads, every other head of
  every item stays, and it is numbered one above the highest parent.\<close>

theorem accepted_mutation_heads:
  assumes "applyVaultMutation pg db acc m t = Inr (b, db')" "vault_wf db" "pg_ok pg" "validMutation m"
    and "uuidIn pg (vmMutationID m) = Some mid" "find_ledger db acc mid = None"
    and "uuidIn pg (oItemID (vmItem m)) = Some i" "uuids_in pg (oParents (vmItem m)) = Some ps"
  shows "(is_head db' acc' i' r \<longleftrightarrow> (acc' = acc \<and> i' = i \<and> r = mid) \<or>
      is_head db acc' i' r \<and> \<not> (acc' = acc \<and> i' = i \<and> r \<in> set ps)) \<and>
    (\<forall>p \<in> set ps. \<exists>x \<in> set (tRevisions db). rvAccount x = acc \<and> rvItemID x = i \<and> rvRevisionID x = p \<and>
       unat (rvRevision x) < unat (oRevision (vmItem m))) \<and>
    (ps \<noteq> [] \<longrightarrow> (\<exists>x \<in> set (tRevisions db). rvRevisionID x \<in> set ps \<and>
       unat (oRevision (vmItem m)) = unat (rvRevision x) + 1)) \<and>
    \<not> has_revision db acc i mid"
  using assms(1-4)
proof (cases rule: applyVaultMutation_cases)
  case (replay mid' g)
  with assms(5,6) show ?thesis by simp
next
  case (accept mid' i' ps' row)
  from accept assms(5,7,8) have eq: "mid' = mid" "i' = i" "ps' = ps" by simp_all
  note row = accepted_row[OF accept(7)[unfolded eq]]
  have base: "ps = [] \<longleftrightarrow> vmBaseRevision m = 0"
    using validMutationD(7)[OF assms(4)] uuids_in_length[OF assms(8)] by auto
  have mx: "\<exists>x \<in> set (tRevisions db). rvRevisionID x \<in> set ps \<and>
      unat (oRevision (vmItem m)) = unat (rvRevision x) + 1" if "ps \<noteq> []"
    using ancestry_ok(4)[OF accept(4) assms(2,4,7,8)] that base validMutation_number[OF assms(4)] by auto
  have par: "\<forall>p \<in> set ps. \<exists>x \<in> set (tRevisions db). rvAccount x = acc \<and> rvItemID x = i \<and> rvRevisionID x = p \<and>
      unat (rvRevision x) < unat (oRevision (vmItem m))"
    using accept(8) by (simp add: fresh_row_def row)
  have heads: "is_head db' acc' i' r \<longleftrightarrow> (acc' = acc \<and> i' = i \<and> r = mid) \<or>
      is_head db acc' i' r \<and> \<not> (acc' = acc \<and> i' = i \<and> r \<in> set ps)" for acc' i' r
    using appended_is_head[OF accept(9), of acc' i' r] unfolding row .
  have new: "\<not> has_revision db acc i mid"
    using fresh_row_new(1)[OF assms(2) accept(8), of i] unfolding row .
  show ?thesis by (intro conjI heads par new impI mx)
qed

theorem accepted_mutation_heads_witness:
  "\<exists>db'. applyVaultMutation sample_pg vault1 ''a'' (edit uA uB) 5 = Inr (True, db') \<and>
     is_head db' ''a'' uI uB \<and> \<not> is_head db' ''a'' uI uA"
proof -
  from apply_edits obtain db' where a: "applyVaultMutation sample_pg vault1 ''a'' (edit uA uB) 5 = Inr (True, db')" by blast
  have p: "uuidIn sample_pg (vmMutationID (edit uA uB)) = Some uB" "find_ledger vault1 ''a'' uB = None"
    "uuidIn sample_pg (oItemID (vmItem (edit uA uB))) = Some uI"
    "uuids_in sample_pg (oParents (vmItem (edit uA uB))) = Some [uA]"
    by (simp_all add: edit_def find_ledger_def ledger_of_def uuids_in_def)
  note t = accepted_mutation_heads[OF a vault1_wf sample_pg_ok _ p]
  from t[of "''a''" uI uB] t[of "''a''" uI uA] a show ?thesis by (auto simp: sample_mutations_valid)
qed

section \<open>Retry safety\<close>

lemma find_snoc_new: "find P xs = None \<Longrightarrow> P x \<Longrightarrow> find P (xs @ [x]) = Some x"
  by (induction xs) (auto split: if_splits)

lemma accepted_ledger_entry:
  assumes "applyVaultMutation pg db acc m t = Inr (b, db')" "vault_wf db" "pg_ok pg" "validMutation m"
    and "uuidIn pg (vmMutationID m) = Some mid" "uuidIn pg (oItemID (vmItem m)) = Some i"
  shows "\<exists>g. find_ledger db' acc mid = Some g \<and>
    (same_as_ledger pg m g \<longleftrightarrow> (mid = vmMutationID m \<and> i = oItemID (vmItem m)) \<or> find_ledger db acc mid \<noteq> None)"
  using assms(1-4)
proof (cases rule: applyVaultMutation_cases)
  case (replay mid' g)
  with assms(5) show ?thesis by auto
next
  case (accept mid' i' ps row)
  from accept assms(5,6) have eq: "mid' = mid" "i' = i" by simp_all
  note row = accepted_row[OF accept(7)]
  let ?g = "ledger_of row mid' (vmBaseRevision m) (vaultMutationDigest pg m) (cursor_of db (rvAccount row) + 1) t"
  have l: "tLedger db' = tLedger db @ [?g]" using accept(9) by (simp add: appended_def Let_def)
  have "find_ledger db' acc mid' = Some ?g"
    unfolding find_ledger_def l
    by (rule find_snoc_new) (use accept(3) in \<open>simp_all add: find_ledger_def ledger_of_def row\<close>)
  moreover have "same_as_ledger pg m ?g \<longleftrightarrow> mid' = vmMutationID m \<and> i' = oItemID (vmItem m)"
    using validMutationD(2)[OF assms(4)] by (auto simp: same_as_ledger_def ledger_of_def row)
  ultimately show ?thesis using accept(3) by (simp add: eq)
qed

lemma accepted_in_ledger:
  assumes "applyVaultMutation pg db acc m t = Inr (b, db')" "vault_wf db" "pg_ok pg" "validMutation m"
    and "uuidIn pg (vmMutationID m) = Some (vmMutationID m)" "uuidIn pg (oItemID (vmItem m)) = Some (oItemID (vmItem m))"
  shows "\<exists>g. find_ledger db' acc (vmMutationID m) = Some g \<and> same_as_ledger pg m g"
  using accepted_ledger_entry[OF assms] by auto

lemma same_as_ledger_cong: "sha256 pg = sha256 pg' \<Longrightarrow> same_as_ledger pg m g = same_as_ledger pg' m g"
  by (simp add: same_as_ledger_def vaultMutationDigest_def)

text \<open>C16: Retry safety. Once a mutation has been accepted, sending it again at any later time, after any
  further transactions of any account and even after pruning and purging removed its change or its
  content, changes nothing; and it is reported applied if its mutation and item ID are written the
  way PostgreSQL writes them (in lower case, as the client does) or the acceptance was itself a
  retry. If they are not, the retry of a mutation the server stored is refused as a reuse of the
  ID.\<close>

theorem replay_is_idempotent:
  assumes "applyVaultMutation pg db acc m t = Inr (b, db1)" "vault_wf db" "pg_ok pg" "validMutation m"
    and "uuidIn pg (vmMutationID m) = Some mid" "uuidIn pg (oItemID (vmItem m)) = Some i"
    and "vault_run pg db1 db2" "uuidIn pg' = uuidIn pg" "sha256 pg' = sha256 pg"
  shows "applyVaultMutation pg' db2 acc m t' =
    (if (mid = vmMutationID m \<and> i = oItemID (vmItem m)) \<or> find_ledger db acc mid \<noteq> None
     then Inr (True, db2) else Inl ErrMutationIDReuse)"
proof -
  from accepted_ledger_entry[OF assms(1-6)] obtain g where g: "find_ledger db1 acc mid = Some g"
    "same_as_ledger pg m g \<longleftrightarrow> (mid = vmMutationID m \<and> i = oItemID (vmItem m)) \<or> find_ledger db acc mid \<noteq> None" by blast
  have "vault_wf db1" by (rule applyVaultMutation_wf[OF assms(1-4)])
  from vault_run_keeps[OF assms(7) this] have "find_ledger db2 acc mid = Some g"
    using find_ledger_extends g(1) by blast
  with g(2) assms(5,8) show ?thesis
    by (simp add: applyVaultMutation_def same_as_ledger_cong[OF assms(9)])
qed

theorem replay_is_idempotent_witness:
  "applyVaultMutation sample_pg vault1 ''a'' (create uA) 9 = Inr (True, vault1)"
proof -
  have ids: "vmMutationID (create uA) = uA" "oItemID (vmItem (create uA)) = uI" by (simp_all add: create_def)
  have "uuidIn sample_pg (vmMutationID (create uA)) = Some uA" "uuidIn sample_pg (oItemID (vmItem (create uA))) = Some uI"
    by (simp_all add: ids)
  from replay_is_idempotent[OF apply_create empty_vault_wf sample_pg_ok _ this vault_run.start refl refl, of 9]
  show ?thesis by (simp add: sample_mutations_valid ids)
qed

text \<open>Retry safety stops at the letter case. The server accepts mutation IDs in upper case, stores
  PostgreSQL's lower-case text of them, and compares that with the text sent: the identical retry of
  an accepted request is refused as a reuse of the ID with different content.\<close>

lemma uppercase_retry_refused:
  "let m = create ''AAAAAAAA-0000-4000-8000-000000000001'' in
   validMutation m \<and> (\<exists>db. applyVaultMutation sample_pg empty_vault ''a'' m 0 = Inr (True, db) \<and>
     applyVaultMutation sample_pg db ''a'' m 0 = Inl ErrMutationIDReuse)"
proof -
  let ?u = "''AAAAAAAA-0000-4000-8000-000000000001''"
  have u: "validUUID ?u" "lower_uuid ?u = Some uA" "?u \<noteq> uA" by code_simp+
  have v: "validMutation (create ?u)" using u(1) by (rule sample_mutations_valid)
  obtain db where a: "applyVaultMutation sample_pg empty_vault ''a'' (create ?u) 0 = Inr (True, db)"
    and l: "tLedger db = [ledger_of (row_A 0) uA 0 (vaultMutationDigest sample_pg (create ?u)) 1 0]"
    using u(2)
    by (simp add: applyVaultMutation_def find_ledger_def empty_vault_def ancestry_check_def initial_check_def
      create_def append_mutation_def uuids_in_def new_revision_row_def insert_revision_def
      check_revision_row_def find_revision_def replace_heads_def scrub_item_def project_item_def
      item_heads_of_def check_content_def upsert_item_def advance_cursor_def cursor_of_def
      record_change_def record_ledger_def item_revisions_of_def row_A_def ledger_of_def Let_def)
  have "applyVaultMutation sample_pg db ''a'' (create ?u) 0 = Inl ErrMutationIDReuse"
    using u(2,3) l
    by (simp add: applyVaultMutation_def find_ledger_def ledger_of_def same_as_ledger_def)
  with a v show ?thesis by (auto simp: Let_def)
qed

section \<open>Tombstones\<close>

text \<open>A purging mutation must name every head of its item.\<close>

lemma head_row_eta: "\<lparr>hdAccount = hdAccount h, hdItemID = hdItemID h, hdRevisionID = hdRevisionID h\<rparr> = h"
  by simp

lemma head_revisions_ids:
  assumes "vault_wf db"
  shows "map rvRevisionID (head_revisions db acc i) = map hdRevisionID (item_heads_of db acc i)"
proof -
  have "\<exists>x. find_revision db acc (hdRevisionID h) = Some x \<and> rvRevisionID x = hdRevisionID h"
    if "h \<in> set (item_heads_of db acc i)" for h
  proof -
    from that have "is_head db acc i (hdRevisionID h)" by (auto simp: item_heads_of_def is_head_def head_row_eta)
    then have "has_revision db acc i (hdRevisionID h)" by (simp add: vault_wfD(4)[OF assms])
    then obtain x where "x \<in> set (tRevisions db)" "rvAccount x = acc" "rvRevisionID x = hdRevisionID h"
      by (auto simp: has_revision_def)
    then have "find_revision db acc (hdRevisionID h) = Some x" by (simp add: find_revision_iff[OF assms])
    with \<open>rvRevisionID x = hdRevisionID h\<close> show ?thesis by blast
  qed
  then have "map rvRevisionID (List.map_filter (\<lambda>h. find_revision db acc (hdRevisionID h)) hs) = map hdRevisionID hs"
    if "set hs \<subseteq> set (item_heads_of db acc i)" for hs
    using that
  proof (induction hs)
    case (Cons h hs)
    then obtain x where "find_revision db acc (hdRevisionID h) = Some x" "rvRevisionID x = hdRevisionID h"
      by (metis list.set_intros(1) subset_iff)
    with Cons show ?case by (simp add: map_filter_simps)
  qed (simp add: map_filter_simps)
  then show ?thesis by (simp add: head_revisions_def)
qed

lemma is_head_iff: "is_head db acc i r \<longleftrightarrow> r \<in> set (map hdRevisionID (item_heads_of db acc i))"
  unfolding is_head_def item_heads_of_def by (auto simp: image_iff) (metis head_row.surjective unit.exhaust)

lemma purge_covers_heads:
  assumes "parents_check pg db acc m = Inr ()" "vault_wf db" "oPurged (vmItem m)"
    and "uuidIn pg (oItemID (vmItem m)) = Some i" "uuids_in pg (oParents (vmItem m)) = Some ps"
    and "is_head db acc i h"
  shows "h \<in> set ps"
proof -
  let ?heads = "head_revisions db acc i"
  from assms(1,3-5) have "length (filter (\<lambda>r. rvRevisionID r \<in> set ps) ?heads) = length ?heads"
    by (auto simp: parents_check_def bind_e_Inr_iff Let_def)
  from length_filter_all[OF this] have "\<forall>x \<in> set ?heads. rvRevisionID x \<in> set ps" by simp
  moreover from assms(6) have "h \<in> set (map rvRevisionID ?heads)"
    unfolding head_revisions_ids[OF assms(2)] is_head_iff .
  ultimately show ?thesis by auto
qed

text \<open>C12: Permanent deletion. When a Tombstone is accepted it is the only head of its item; no other
  stored revision of the item keeps any ciphertext, the only change still delivered for the item
  is the Tombstone itself, and identifiers, parent links and revision numbers all survive.\<close>

theorem purge_scrubs_server:
  assumes "applyVaultMutation pg db acc m t = Inr (b, db')" "vault_wf db" "pg_ok pg" "validMutation m"
    and "uuidIn pg (vmMutationID m) = Some mid" "find_ledger db acc mid = None"
    and "uuidIn pg (oItemID (vmItem m)) = Some i" "oPurged (vmItem m)" "vmBaseRevision m \<noteq> 0"
  shows "(is_head db' acc i r \<longleftrightarrow> r = mid) \<and>
    (\<forall>x \<in> set (tRevisions db'). rvAccount x = acc \<longrightarrow> rvItemID x = i \<longrightarrow> rvEnvelope x = None) \<and>
    (\<forall>c \<in> set (tChanges db'). chAccount c = acc \<longrightarrow> chItemID c = i \<longrightarrow> chRevisionID c = mid \<and> chEnvelope c = None) \<and>
    (\<forall>x \<in> set (tRevisions db). \<exists>y \<in> set (tRevisions db'). rvAccount y = rvAccount x \<and> rvItemID y = rvItemID x \<and>
       rvRevisionID y = rvRevisionID x \<and> rvParents y = rvParents x \<and> rvRevision y = rvRevision x)"
  using assms(1-4)
proof (cases rule: applyVaultMutation_cases)
  case (replay mid' g)
  with assms(5,6) show ?thesis by simp
next
  case (accept mid' i' ps row)
  from accept assms(5,7) have eq: "mid' = mid" "i' = i" by simp_all
  note row = accepted_row[OF accept(7)[unfolded eq]]
  from accept(4) assms(9) have pc: "parents_check pg db acc m = Inr ()" by (simp add: ancestry_check_def)
  from accept(9) have chk: "check_revision_row row" by (simp add: appended_def Let_def)
  with assms(8) have env: "rvEnvelope row = None"
    unfolding check_revision_row_def by (auto simp: row)
  have heads: "is_head db' acc i r \<longleftrightarrow> r = mid"
    using appended_is_head[OF accept(9), of acc i r]
      purge_covers_heads[OF pc assms(2,8,7) accept(6), of r] unfolding row by blast
  have rows: "\<forall>x \<in> set (tRevisions db'). rvAccount x = acc \<longrightarrow> rvItemID x = i \<longrightarrow> rvEnvelope x = None"
  proof (intro ballI impI)
    fix x assume x: "x \<in> set (tRevisions db')" "rvAccount x = acc" "rvItemID x = i"
    from x(1)[unfolded appended_rows_iff[OF accept(9)]] show "rvEnvelope x = None"
    proof
      assume "x = row" with env show ?thesis by simp
    next
      assume "\<exists>y \<in> set (tRevisions db). x = scrub_row row y"
      then obtain y where y: "y \<in> set (tRevisions db)" "x = scrub_row row y" ..
      with x have "rvAccount y = acc" "rvItemID y = i" by simp_all
      with y(1) fresh_row_new(1)[OF assms(2) accept(8), of i] have "rvRevisionID y \<noteq> mid"
        unfolding row by (auto simp: has_revision_def)
      with \<open>rvAccount y = acc\<close> \<open>rvItemID y = i\<close> y(2) assms(8) show ?thesis
        by (simp add: scrub_row_def row)
    qed
  qed
  have chg: "\<forall>c \<in> set (tChanges db'). chAccount c = acc \<longrightarrow> chItemID c = i \<longrightarrow> chRevisionID c = mid \<and> chEnvelope c = None"
    using accept(9) env assms(8) by (auto simp: appended_def Let_def change_of_def row)
  have keep: "\<forall>x \<in> set (tRevisions db). \<exists>y \<in> set (tRevisions db'). rvAccount y = rvAccount x \<and> rvItemID y = rvItemID x \<and>
       rvRevisionID y = rvRevisionID x \<and> rvParents y = rvParents x \<and> rvRevision y = rvRevision x"
  proof
    fix x assume "x \<in> set (tRevisions db)"
    then have "scrub_row row x \<in> set (tRevisions db')" unfolding appended_rows_iff[OF accept(9)] by blast
    then show "\<exists>y \<in> set (tRevisions db'). rvAccount y = rvAccount x \<and> rvItemID y = rvItemID x \<and>
       rvRevisionID y = rvRevisionID x \<and> rvParents y = rvParents x \<and> rvRevision y = rvRevision x"
      by (intro bexI[of _ "scrub_row row x"]) simp_all
  qed
  show ?thesis by (intro conjI heads rows chg keep)
qed

lemma sample_purge_facts:
  "uuidIn sample_pg (vmMutationID (purge uA uB)) = Some uB" "find_ledger vault1 ''a'' uB = None"
  "uuidIn sample_pg (oItemID (vmItem (purge uA uB))) = Some uI"
  by (simp_all add: find_ledger_def ledger_of_def)

theorem purge_scrubs_server_witness:
  "\<exists>db'. applyVaultMutation sample_pg vault1 ''a'' (purge uA uB) 5 = Inr (True, db') \<and> is_head db' ''a'' uI uB \<and>
     \<not> is_head db' ''a'' uI uA"
proof -
  from apply_edits obtain db' where a: "applyVaultMutation sample_pg vault1 ''a'' (purge uA uB) 5 = Inr (True, db')" by blast
  note t = purge_scrubs_server[OF a vault1_wf sample_pg_ok _ sample_purge_facts]
  from t[of uB] t[of uA] a show ?thesis by (auto simp: sample_mutations_valid)
qed

text \<open>C17: No silent resurrection. If the sole parent of a live edit is a Tombstone that is still a head,
  the edit is refused as a conflict.\<close>

theorem tombstone_not_resurrected:
  assumes "vault_wf db" "pg_ok pg" "validMutation m" "\<not> oDeleted (vmItem m)"
    and "uuidIn pg (vmMutationID m) = Some mid" "find_ledger db acc mid = None"
    and "uuidIn pg (oItemID (vmItem m)) = Some i" "uuids_in pg (oParents (vmItem m)) = Some [p]"
    and "is_head db acc i p" "find_revision db acc p = Some row" "rvPurged row"
  shows "applyVaultMutation pg db acc m t = Inl ErrItemRevisionConflict"
proof -
  from assms(8) uuids_in_length have one: "length (oParents (vmItem m)) = 1" by fastforce
  with validMutationD(7)[OF assms(3)] have base: "vmBaseRevision m \<noteq> 0" by auto
  have row: "rvRevisionID row = p" using assms(10) by (simp add: find_revision_iff[OF assms(1)])
  let ?heads = "head_revisions db acc i"
  have ids: "distinct (map rvRevisionID ?heads)"
    unfolding head_revisions_ids[OF assms(1)]
    using vault_wfD(2)[OF assms(1)]
    by (auto simp: item_heads_of_def distinct_map inj_on_def intro!: head_row.equality)
  from assms(9) have "p \<in> set (map rvRevisionID ?heads)" unfolding head_revisions_ids[OF assms(1)] is_head_iff .
  then obtain x where x: "x \<in> set ?heads" "rvRevisionID x = p" by auto
  from x(1) have "find_revision db acc p = Some x"
    unfolding head_revisions_def map_filter_set using x(2) find_revision_iff[OF assms(1)] by force
  with assms(10,11) have "rvPurged x" by simp
  have only: "y = x" if "y \<in> set ?heads" "rvRevisionID y = p" for y
    using ids that x by (auto simp: distinct_map dest: inj_onD)
  have "filter (\<lambda>r. rvRevisionID r = p) ?heads = [x]"
  proof -
    have "distinct (filter (\<lambda>r. rvRevisionID r = p) ?heads)" using ids by (simp add: distinct_map)
    moreover have "set (filter (\<lambda>r. rvRevisionID r = p) ?heads) = {x}"
      unfolding set_filter using x only by blast
    ultimately show ?thesis by (rule distinct_set_singleton)
  qed
  with \<open>rvPurged x\<close> have "parents_check pg db acc m = Inl ErrItemRevisionConflict"
    using assms(4,7,8) one by (simp add: parents_check_def Let_def bind_e_def guard_e_def)
  with base assms(5,6) show ?thesis by (simp add: applyVaultMutation_def ancestry_check_def)
qed

lemma accepted_find:
  assumes "applyVaultMutation pg db acc m t = Inr (b, db')" "vault_wf db" "pg_ok pg" "validMutation m"
    and "uuidIn pg (vmMutationID m) = Some mid" "find_ledger db acc mid = None"
    and "uuidIn pg (oItemID (vmItem m)) = Some i" "uuids_in pg (oParents (vmItem m)) = Some ps"
  shows "find_revision db' acc mid = Some (new_revision_row acc m i mid ps t) \<and> vault_wf db' \<and>
    is_head db' acc i mid \<and> (\<forall>r. r \<noteq> mid \<longrightarrow> find_ledger db' acc r = find_ledger db acc r)"
  using assms(1-4)
proof (cases rule: applyVaultMutation_cases)
  case (replay mid' g)
  with assms(5,6) show ?thesis by simp
next
  case (accept mid' i' ps' row)
  from accept assms(5,7,8) have m: "mid' = mid" and eq: "row = new_revision_row acc m i mid ps t" by simp_all
  note row = accepted_row[OF eq]
  have "find_revision db' acc mid = Some (new_revision_row acc m i mid ps t)"
    using appended_row[OF accept(9)] row unfolding find_revision_iff[OF accept(10)] eq by simp
  moreover have "is_head db' acc i mid"
    using appended_is_head[OF accept(9)] unfolding row by blast
  moreover have "find_ledger db' acc r = find_ledger db acc r" if "r \<noteq> mid" for r
  proof -
    have "tLedger db' = tLedger db @ [ledger_of row mid (vmBaseRevision m) (vaultMutationDigest pg m) (cursor_of db acc + 1) t]"
      using accept(9) by (simp add: appended_def Let_def row m)
    moreover have "find P (xs @ [x]) = find P xs" if "\<not> P x" for P x and xs :: "ledger_row list"
      using that by (induction xs) auto
    ultimately show ?thesis using that by (simp add: find_ledger_def ledger_of_def)
  qed
  ultimately show ?thesis using accept(10) by blast
qed

definition revive :: vault_mutation where
  "revive = \<lparr>vmMutationID = uC, vmBaseRevision = 2, vmItem = \<lparr>oItemID = uI, oSchemaVersion = 1,
     oRevision = 3, oRevisionID = uC, oParents = [uB], oDeleted = False, oPurged = False, oEnvelope = Some [9]\<rparr>\<rparr>"

theorem tombstone_not_resurrected_witness:
  "\<exists>db'. applyVaultMutation sample_pg vault1 ''a'' (purge uA uB) 5 = Inr (True, db') \<and>
     applyVaultMutation sample_pg db' ''a'' revive 6 = Inl ErrItemRevisionConflict"
proof -
  from apply_edits obtain db' where a: "applyVaultMutation sample_pg vault1 ''a'' (purge uA uB) 5 = Inr (True, db')" by blast
  have v: "validMutation (purge uA uB)" by (simp add: sample_mutations_valid)
  have ps: "uuids_in sample_pg (oParents (vmItem (purge uA uB))) = Some [uA]" by (simp add: uuids_in_def)
  note f = accepted_find[OF a vault1_wf sample_pg_ok v sample_purge_facts ps]
  then have l: "find_ledger db' ''a'' uC = None" by (simp add: find_ledger_def ledger_of_def)
  have vr: "validMutation revive"
    by (simp add: validMutation_def revive_def Let_def validOpaqueItemContent_def len_def
        maximumItemRevision_def maximumItemEnvelopeSize_def)
  have "applyVaultMutation sample_pg db' ''a'' revive 6 = Inl ErrItemRevisionConflict"
    by (rule tombstone_not_resurrected[where p = uB and i = uI and mid = uC and
          row = "new_revision_row ''a'' (purge uA uB) uI uB [uA] 5"])
      (use f l sample_pg_ok vr in \<open>simp_all add: revive_def uuids_in_def new_revision_row_def Let_def\<close>)
  with a show ?thesis by blast
qed

text \<open>No silent loss. A stale offline edit that reaches the server after the item was purged, and so
  does not name the Tombstone as a parent, is kept beside it: both are heads, an explicit
  conflict. An edit of a revision that another edit already replaced is kept the same way.\<close>

lemma stale_edit_is_second_head:
  assumes "applyVaultMutation pg db acc m t = Inr (b, db')" "vault_wf db" "pg_ok pg" "validMutation m"
    and "uuidIn pg (vmMutationID m) = Some mid" "find_ledger db acc mid = None"
    and "uuidIn pg (oItemID (vmItem m)) = Some i" "uuids_in pg (oParents (vmItem m)) = Some ps"
    and "is_head db acc i h" "h \<notin> set ps"
  shows "is_head db' acc i h \<and> is_head db' acc i mid \<and> h \<noteq> mid \<and>
    (\<forall>x. find_revision db acc h = Some x \<longrightarrow> \<not> oPurged (vmItem m) \<longrightarrow> find_revision db' acc h = Some x)"
  using assms(1-4)
proof (cases rule: applyVaultMutation_cases)
  case (replay mid' g)
  with assms(5,6) show ?thesis by simp
next
  case (accept mid' i' ps' row)
  from accept assms(5,7,8) have eq: "mid' = mid" "i' = i" "ps' = ps" by simp_all
  note row = accepted_row[OF accept(7)[unfolded eq]]
  have heads: "is_head db' acc i h" "is_head db' acc i mid"
    using appended_is_head[OF accept(9)] assms(9,10) unfolding row by blast+
  have new: "h \<noteq> mid"
    using fresh_row_new(1)[OF assms(2) accept(8), of i] assms(9) unfolding row vault_wfD(4)[OF assms(2)] by blast
  have "find_revision db' acc h = Some x" if "find_revision db acc h = Some x" "\<not> oPurged (vmItem m)" for x
  proof -
    from that have x: "x \<in> set (tRevisions db)" "rvAccount x = acc" "rvRevisionID x = h" "scrub_row row x = x"
      by (auto simp: find_revision_iff[OF assms(2)] scrub_row_def row)
    then have "x \<in> set (tRevisions db')" unfolding appended_rows_iff[OF accept(9)] by metis
    with x show ?thesis by (simp add: find_revision_iff[OF accept(10)])
  qed
  with heads new show ?thesis by blast
qed

lemma stale_edit_is_second_head_witness:
  "\<exists>db1 db2. applyVaultMutation sample_pg vault1 ''a'' (edit uA uB) 5 = Inr (True, db1) \<and>
     applyVaultMutation sample_pg db1 ''a'' (edit uA uC) 6 = Inr (True, db2) \<and>
     is_head db2 ''a'' uI uB \<and> is_head db2 ''a'' uI uC"
proof -
  from apply_edits obtain db1 where a: "applyVaultMutation sample_pg vault1 ''a'' (edit uA uB) 5 = Inr (True, db1)" by blast
  have l: "find_ledger vault1 ''a'' uB = None" "find_ledger vault1 ''a'' uC = None"
    by (simp_all add: find_ledger_def ledger_of_def)
  have f: "find_revision db1 ''a'' uB = Some (new_revision_row ''a'' (edit uA uB) uI uB [uA] 5) \<and> vault_wf db1 \<and>
    is_head db1 ''a'' uI uB \<and> (\<forall>r. r \<noteq> uB \<longrightarrow> find_ledger db1 ''a'' r = find_ledger vault1 ''a'' r)"
    by (rule accepted_find[OF a vault1_wf sample_pg_ok]) (simp_all add: sample_mutations_valid uuids_in_def l)
  from a have "\<exists>db2. applyVaultMutation sample_pg db1 ''a'' (edit uA uC) 6 = Inr (True, db2)"
    by (auto simp: applyVaultMutation_def find_ledger_def ancestry_check_def parents_check_def
      edit_def append_mutation_def uuids_in_def new_revision_row_def insert_revision_def
      check_revision_row_def find_revision_def replace_heads_def scrub_item_def project_item_def
      head_revisions_def map_filter_simps item_heads_of_def check_content_def upsert_item_def advance_cursor_def
      cursor_of_def record_change_def record_ledger_def item_revisions_of_def change_of_def ledger_of_def Let_def)
  then obtain db2 where b: "applyVaultMutation sample_pg db1 ''a'' (edit uA uC) 6 = Inr (True, db2)" ..
  have "is_head db2 ''a'' uI uB \<and> is_head db2 ''a'' uI uC \<and> uB \<noteq> uC \<and>
    (\<forall>x. find_revision db1 ''a'' uB = Some x \<longrightarrow> \<not> oPurged (vmItem (edit uA uC)) \<longrightarrow> find_revision db2 ''a'' uB = Some x)"
    by (rule stale_edit_is_second_head[OF b, where ps = "[uA]"]) (use f l in \<open>simp_all add: sample_mutations_valid sample_pg_ok uuids_in_def\<close>)
  with a b show ?thesis by blast
qed

section \<open>Expired trash\<close>

lemma purged_row_empty: "check_revision_row x \<Longrightarrow> rvPurged x \<Longrightarrow> rvEnvelope x = None"
  by (auto simp: check_revision_row_def)

lemma other_head_not_expired:
  "is_head db acc (hdItemID h) q \<Longrightarrow> q \<noteq> hdRevisionID h \<Longrightarrow> \<not> is_expired db acc cutoff h r"
  unfolding is_head_iff is_expired_def list_ex_iff by auto

lemma appended_expired:
  assumes wf: "vault_wf db" "vault_wf db'" and f: "fresh_row db row" and late: "cutoff < t"
    and a: "appended db row mid base digest t db'" and row: "row = new_revision_row acc m i r ps t"
    and x: "x \<in> set (expired_trash db' acc cutoff)"
  shows "x \<in> set (expired_trash db acc cutoff) \<and> rvItemID x \<noteq> i"
proof -
  note rw = accepted_row[OF row]
  from x[unfolded expired_trash_iff[OF wf(2)]] have x: "x \<in> set (tRevisions db')" "rvAccount x = acc"
    "is_head db' acc (rvItemID x) (rvRevisionID x)"
    "is_expired db' acc cutoff \<lparr>hdAccount = acc, hdItemID = rvItemID x, hdRevisionID = rvRevisionID x\<rparr> x" by auto
  have "x \<noteq> row"
    using x(4) late by (auto simp: is_expired_def row new_revision_row_def Let_def split: if_splits)
  with x(1) obtain y where y: "y \<in> set (tRevisions db)" "x = scrub_row row y"
    unfolding appended_rows_iff[OF a] by blast
  have i: "rvItemID x \<noteq> i"
  proof
    assume "rvItemID x = i"
    moreover have "rvRevisionID x \<noteq> r"
      using fresh_row_new(1)[OF wf(1) f, of i] y x(2) \<open>rvItemID x = i\<close> unfolding rw by (auto simp: has_revision_def)
    moreover have "is_head db' acc i r" using appended_is_head[OF a] unfolding rw by blast
    ultimately show False
      using other_head_not_expired[of db' acc "\<lparr>hdAccount = acc, hdItemID = rvItemID x, hdRevisionID = rvRevisionID x\<rparr>" r] x(4)
      by fastforce
  qed
  with y have xy: "x = y" by (auto simp: scrub_row_def rw)
  have heads: "is_head db' acc (rvItemID x) q \<longleftrightarrow> is_head db acc (rvItemID x) q" for q
    using appended_is_head[OF a, of acc "rvItemID x" q] i unfolding rw by blast
  have "list_ex (\<lambda>other. hdRevisionID other \<noteq> q) (item_heads_of d acc j) \<longleftrightarrow> (\<exists>p. is_head d acc j p \<and> p \<noteq> q)" for d j q
    unfolding is_head_iff list_ex_iff by auto
  with x(4) heads have "is_expired db acc cutoff \<lparr>hdAccount = acc, hdItemID = rvItemID x, hdRevisionID = rvRevisionID x\<rparr> x"
    by (simp add: is_expired_def)
  with x y xy heads i show ?thesis by (simp add: expired_trash_iff[OF wf(1)])
qed

definition rows_of :: "vault_db \<Rightarrow> string \<Rightarrow> uuid \<Rightarrow> revision_row list" where
  "rows_of db acc i = filter (\<lambda>x. rvAccount x = acc \<and> rvItemID x = i) (tRevisions db)"

lemma appended_rows_of:
  assumes a: "appended db row mid base digest t db'"
  shows "rvItemID row \<noteq> j \<Longrightarrow> rows_of db' acc j = rows_of db acc j"
    and "rvPurged row \<Longrightarrow> fresh_row db row \<Longrightarrow> vault_wf db \<Longrightarrow>
      \<forall>x \<in> set (rows_of db' (rvAccount row) (rvItemID row)). rvEnvelope x = None"
proof -
  have "filter (\<lambda>x. rvAccount x = acc \<and> rvItemID x = j) (map (scrub_row row) (tRevisions db)) =
      filter (\<lambda>x. rvAccount x = acc \<and> rvItemID x = j) (tRevisions db)" if "rvItemID row \<noteq> j"
    by (rule filter_map_other) (use that in \<open>auto simp: scrub_row_def\<close>)
  with a show "rvItemID row \<noteq> j \<Longrightarrow> rows_of db' acc j = rows_of db acc j"
    by (simp add: rows_of_def appended_def Let_def)
next
  assume p: "rvPurged row" and f: "fresh_row db row" and wf: "vault_wf db"
  have "rvEnvelope row = None" using a p purged_row_empty by (simp add: appended_def Let_def)
  moreover have "rvEnvelope (scrub_row row y) = None"
    if "y \<in> set (tRevisions db)" "rvAccount y = rvAccount row" "rvItemID y = rvItemID row" for y
    using fresh_row_new(1)[OF wf f, of "rvItemID row"] that p by (auto simp: has_revision_def scrub_row_def)
  ultimately show "\<forall>x \<in> set (rows_of db' (rvAccount row) (rvItemID row)). rvEnvelope x = None"
    using appended_rows_iff[OF a] by (auto simp: rows_of_def)
qed

lemma tombstone_sel [simp]:
  "vmMutationID (tombstone_mutation r u) = u" "oItemID (vmItem (tombstone_mutation r u)) = rvItemID r"
  "oPurged (vmItem (tombstone_mutation r u))" "oDeleted (vmItem (tombstone_mutation r u))"
  by (simp_all add: tombstone_mutation_def)

lemma tombstone_step:
  assumes a: "applyVaultMutation pg db acc (tombstone_mutation r u) t = Inr (b, db')"
    and wf: "vault_wf db" and pg: "pg_ok pg" and v: "validMutation (tombstone_mutation r u)"
    and u: "uuidIn pg u = Some u" "find_ledger db acc u = None" and late: "cutoff < t"
    and i: "uuidIn pg (rvItemID r) = Some (rvItemID r)"
  shows "vault_wf db'" "set (expired_trash db' acc cutoff) \<subseteq> {x \<in> set (expired_trash db acc cutoff). rvItemID x \<noteq> rvItemID r}"
    "\<And>j. j \<noteq> rvItemID r \<Longrightarrow> rows_of db' acc j = rows_of db acc j \<and> (\<forall>q. is_head db' acc j q \<longleftrightarrow> is_head db acc j q)"
    "\<forall>x \<in> set (rows_of db' acc (rvItemID r)). rvEnvelope x = None"
    "\<And>w. w \<noteq> u \<Longrightarrow> find_ledger db' acc w = find_ledger db acc w"
proof -
  have "vault_wf db' \<and> set (expired_trash db' acc cutoff) \<subseteq> {x \<in> set (expired_trash db acc cutoff). rvItemID x \<noteq> rvItemID r} \<and>
    (\<forall>j. j \<noteq> rvItemID r \<longrightarrow> rows_of db' acc j = rows_of db acc j \<and> (\<forall>q. is_head db' acc j q \<longleftrightarrow> is_head db acc j q)) \<and>
    (\<forall>x \<in> set (rows_of db' acc (rvItemID r)). rvEnvelope x = None) \<and>
    (\<forall>w. w \<noteq> u \<longrightarrow> find_ledger db' acc w = find_ledger db acc w)"
    using a wf pg v
  proof (cases rule: applyVaultMutation_cases)
    case (replay mid g)
    with u show ?thesis by simp
  next
    case (accept mid i' ps row)
    from accept u i have eq: "mid = u" "i' = rvItemID r" by simp_all
    note rw = accepted_row[OF accept(7)[unfolded eq]]
    have pr: "rvPurged row" by (simp add: rw)
    have "find_ledger db' acc w = find_ledger db acc w" if "w \<noteq> u" for w
      using accepted_find[OF a wf pg v _ _ _ accept(6)] u i that by simp
    moreover have "\<forall>j. j \<noteq> rvItemID r \<longrightarrow> rows_of db' acc j = rows_of db acc j \<and> (\<forall>q. is_head db' acc j q \<longleftrightarrow> is_head db acc j q)"
      by (simp add: appended_rows_of(1)[OF accept(9)] appended_is_head[OF accept(9)] rw)
    moreover have "\<forall>x \<in> set (rows_of db' acc (rvItemID r)). rvEnvelope x = None"
      using appended_rows_of(2)[OF accept(9) pr accept(8) wf] unfolding rw .
    moreover have "set (expired_trash db' acc cutoff) \<subseteq> {x \<in> set (expired_trash db acc cutoff). rvItemID x \<noteq> rvItemID r}"
      using appended_expired[OF wf accept(10,8) late accept(9,7)] by (auto simp: eq)
    ultimately show ?thesis using accept(10) by blast
  qed
  then show "vault_wf db'" "set (expired_trash db' acc cutoff) \<subseteq> {x \<in> set (expired_trash db acc cutoff). rvItemID x \<noteq> rvItemID r}"
    "\<And>j. j \<noteq> rvItemID r \<Longrightarrow> rows_of db' acc j = rows_of db acc j \<and> (\<forall>q. is_head db' acc j q \<longleftrightarrow> is_head db acc j q)"
    "\<forall>x \<in> set (rows_of db' acc (rvItemID r)). rvEnvelope x = None"
    "\<And>w. w \<noteq> u \<Longrightarrow> find_ledger db' acc w = find_ledger db acc w"
    by simp_all
qed

lemma purge_all_exact:
  "purge_all pg acc t n rs db = Inr db' \<Longrightarrow> vault_wf db \<Longrightarrow> pg_ok pg \<Longrightarrow> cutoff < t \<Longrightarrow>
   \<forall>r \<in> set rs. row_ok r \<and> uuidIn pg (rvItemID r) = Some (rvItemID r) \<Longrightarrow>
   distinct (map (genUUID pg) [n ..< n + length rs]) \<Longrightarrow>
   \<forall>k. n \<le> k \<longrightarrow> k < n + length rs \<longrightarrow> find_ledger db acc (genUUID pg k) = None \<Longrightarrow>
   set (expired_trash db' acc cutoff) \<subseteq> {x \<in> set (expired_trash db acc cutoff). rvItemID x \<notin> rvItemID ` set rs} \<and>
   (\<forall>j. j \<notin> rvItemID ` set rs \<longrightarrow> rows_of db' acc j = rows_of db acc j \<and> (\<forall>q. is_head db' acc j q \<longleftrightarrow> is_head db acc j q)) \<and>
   (\<forall>j. j \<in> rvItemID ` set rs \<or> (\<forall>x \<in> set (rows_of db acc j). rvEnvelope x = None) \<longrightarrow>
      (\<forall>x \<in> set (rows_of db' acc j). rvEnvelope x = None))"
proof (induction rs arbitrary: n db)
  case (Cons r rs)
  from Cons.prems(1) obtain b mid where s: "\<not> sint (rvRevision r) \<ge> sint maximumItemRevision"
    and a: "applyVaultMutation pg db acc (tombstone_mutation r (genUUID pg n)) t = Inr (b, mid)"
    and p: "purge_all pg acc t (Suc n) rs mid = Inr db'" by (rule purge_all_induct_step)
  have v: "validMutation (tombstone_mutation r (genUUID pg n))"
    using tombstone_valid[OF _ s] pg_okD(4)[OF Cons.prems(3)] Cons.prems(5) by simp
  have "find_ledger db acc (genUUID pg n) = None" using Cons.prems(7) by simp
  from tombstone_step[OF a Cons.prems(2,3) v pg_okD(3)[OF Cons.prems(3)] this Cons.prems(4)] Cons.prems(5)
  have st: "vault_wf mid" "set (expired_trash mid acc cutoff) \<subseteq> {x \<in> set (expired_trash db acc cutoff). rvItemID x \<noteq> rvItemID r}"
    "\<And>j. j \<noteq> rvItemID r \<Longrightarrow> rows_of mid acc j = rows_of db acc j \<and> (\<forall>q. is_head mid acc j q \<longleftrightarrow> is_head db acc j q)"
    "\<forall>x \<in> set (rows_of mid acc (rvItemID r)). rvEnvelope x = None"
    "\<And>w. w \<noteq> genUUID pg n \<Longrightarrow> find_ledger mid acc w = find_ledger db acc w"
    by simp_all
  have up: "[n ..< n + length (r # rs)] = n # [Suc n ..< Suc n + length rs]" by (simp add: upt_rec)
  have dis: "distinct (map (genUUID pg) [Suc n ..< Suc n + length rs])" using Cons.prems(6) unfolding up by simp
  have led: "\<forall>k. Suc n \<le> k \<longrightarrow> k < Suc n + length rs \<longrightarrow> find_ledger mid acc (genUUID pg k) = None"
  proof (intro allI impI)
    fix k assume k: "Suc n \<le> k" "k < Suc n + length rs"
    then have "k \<in> set [Suc n ..< Suc n + length rs]" unfolding set_upt by simp
    moreover have "genUUID pg n \<notin> genUUID pg ` set [Suc n ..< Suc n + length rs]"
      using Cons.prems(6) unfolding up list.map distinct.simps set_map by (rule conjunct1)
    ultimately have "genUUID pg k \<noteq> genUUID pg n" by (metis image_eqI)
    from st(5)[OF this] Cons.prems(7) k show "find_ledger mid acc (genUUID pg k) = None" by simp
  qed
  have ok: "\<forall>r \<in> set rs. row_ok r \<and> uuidIn pg (rvItemID r) = Some (rvItemID r)" using Cons.prems(5) by simp
  note ih = Cons.IH[OF p st(1) Cons.prems(3,4) ok dis led]
  have 1: "set (expired_trash db' acc cutoff) \<subseteq> {x \<in> set (expired_trash db acc cutoff). rvItemID x \<notin> rvItemID ` set (r # rs)}"
    using ih st(2) by auto
  have 2: "rows_of db' acc j = rows_of db acc j \<and> (\<forall>q. is_head db' acc j q \<longleftrightarrow> is_head db acc j q)"
    if "j \<notin> rvItemID ` set (r # rs)" for j
    using ih st(3)[of j] that by simp
  have 3: "\<forall>x \<in> set (rows_of db' acc j). rvEnvelope x = None"
    if "j \<in> rvItemID ` set (r # rs) \<or> (\<forall>x \<in> set (rows_of db acc j). rvEnvelope x = None)" for j
  proof -
    have "j \<in> rvItemID ` set rs \<or> (\<forall>x \<in> set (rows_of mid acc j). rvEnvelope x = None)"
      using that st(3)[of j] st(4) by (cases "j = rvItemID r") auto
    with ih show ?thesis by blast
  qed
  from 1 2 3 show ?case by blast
qed simp

text \<open>
  What the product promises of the trash, without the code's query: an item is expired when it has a
  single head, that head is a stored revision that is deleted but not yet a Tombstone, and thirty
  days (720 hours) have passed since it was moved to the trash.
\<close>

definition trash_expired :: "vault_db \<Rightarrow> string \<Rightarrow> time \<Rightarrow> uuid \<Rightarrow> bool" where
  "trash_expired db acc t j \<longleftrightarrow>
     (\<exists>q x s. (\<forall>p. is_head db acc j p \<longleftrightarrow> p = q) \<and> x \<in> set (tRevisions db) \<and>
        rvAccount x = acc \<and> rvItemID x = j \<and> rvRevisionID x = q \<and> rvDeleted x \<and> \<not> rvPurged x \<and>
        rvTombstonedAt x = Some s \<and> s + hours 720 \<le> t)"

lemma sole_head_iff:
  "is_head db acc j q \<Longrightarrow> \<not> list_ex (\<lambda>other. hdRevisionID other \<noteq> q) (item_heads_of db acc j) \<longleftrightarrow>
     (\<forall>p. is_head db acc j p \<longleftrightarrow> p = q)"
  unfolding is_head_iff list_ex_iff by auto

lemma trash_expired_iff:
  assumes "vault_wf db"
  shows "trash_expired db acc t j \<longleftrightarrow> j \<in> rvItemID ` set (expired_trash db acc (trashExpirationCutoff t))"
proof -
  have cut: "s \<le> trashExpirationCutoff t \<longleftrightarrow> s + hours 720 \<le> t" for s
    by (simp add: trashExpirationCutoff_def trashRetention_def hours_def algebra_simps)
  have row: "x \<in> set (expired_trash db acc (trashExpirationCutoff t)) \<longleftrightarrow>
      x \<in> set (tRevisions db) \<and> rvAccount x = acc \<and> (\<forall>p. is_head db acc (rvItemID x) p \<longleftrightarrow> p = rvRevisionID x) \<and>
      rvDeleted x \<and> \<not> rvPurged x \<and> (\<exists>s. rvTombstonedAt x = Some s \<and> s + hours 720 \<le> t)" for x
    using sole_head_iff[of db acc "rvItemID x" "rvRevisionID x"]
    by (cases "rvTombstonedAt x") (auto simp: expired_trash_iff[OF assms] is_expired_def cut)
  show ?thesis
  proof
    assume "trash_expired db acc t j"
    then obtain q x s where "\<forall>p. is_head db acc j p \<longleftrightarrow> p = q" "x \<in> set (tRevisions db)" "rvAccount x = acc"
      "rvItemID x = j" "rvRevisionID x = q" "rvDeleted x" "\<not> rvPurged x" "rvTombstonedAt x = Some s" "s + hours 720 \<le> t"
      unfolding trash_expired_def by blast
    then have "x \<in> set (expired_trash db acc (trashExpirationCutoff t))" unfolding row by simp
    with \<open>rvItemID x = j\<close> show "j \<in> rvItemID ` set (expired_trash db acc (trashExpirationCutoff t))" by blast
  next
    assume "j \<in> rvItemID ` set (expired_trash db acc (trashExpirationCutoff t))"
    then obtain x where "j = rvItemID x" "x \<in> set (expired_trash db acc (trashExpirationCutoff t))" by blast
    then show "trash_expired db acc t j"
      unfolding trash_expired_def row by (intro exI[of _ "rvRevisionID x"] exI[of _ x]) blast
  qed
qed

lemma length_map_filter_le: "length (List.map_filter f xs) \<le> length xs"
  by (induction xs) (auto simp: map_filter_simps split: option.splits)

lemma expired_trash_length: "length (expired_trash db acc cutoff) \<le> length (tHeads db)"
proof -
  have "length (expired_trash db acc cutoff) \<le> length (filter (\<lambda>h. hdAccount h = acc) (tHeads db))"
    unfolding expired_trash_def length_sort by (rule length_map_filter_le)
  also have "\<dots> \<le> length (tHeads db)" by (rule length_filter_le)
  finally show ?thesis .
qed

text \<open>C18: The trash expires after thirty days, and nothing else does. An item is expired when its only head
  is deleted, not yet a Tombstone, and was moved to the trash at least 720 hours ago. After a
  successful purge of a vault whose stored item IDs are canonical, with UUIDs that are new, no item
  is expired; an item that was keeps no ciphertext in any revision; and an item that was not keeps
  its revisions and its heads as they were.\<close>

theorem purge_expired_exact:
  assumes p: "purgeExpiredVaultItems pg db acc t = Inr db'" and wf: "vault_wf db" and pg: "pg_ok pg"
    and ids: "\<forall>x \<in> set (tRevisions db). uuidIn pg (rvItemID x) = Some (rvItemID x)"
    and new: "distinct (map (genUUID pg) [0 ..< length (tHeads db)])"
      "\<forall>k < length (tHeads db). find_ledger db acc (genUUID pg k) = None"
  shows "\<not> trash_expired db' acc t j \<and>
    (if trash_expired db acc t j then \<forall>x \<in> set (tRevisions db'). rvAccount x = acc \<and> rvItemID x = j \<longrightarrow> rvEnvelope x = None
     else rows_of db' acc j = rows_of db acc j \<and> (\<forall>q. is_head db' acc j q \<longleftrightarrow> is_head db acc j q))"
proof -
  let ?rs = "expired_trash db acc (trashExpirationCutoff t)"
  have rows: "x \<in> set (tRevisions db)" if "x \<in> set ?rs" for x
    using that by (simp add: expired_trash_iff[OF wf])
  have ok: "\<forall>r \<in> set ?rs. row_ok r \<and> uuidIn pg (rvItemID r) = Some (rvItemID r)"
    using rows ids vault_wfD(3)[OF wf] by blast
  have late: "trashExpirationCutoff t < t"
    by (simp add: trashExpirationCutoff_def trashRetention_def hours_def)
  have len: "length ?rs \<le> length (tHeads db)" by (rule expired_trash_length)
  then have "[0 ..< length (tHeads db)] = [0 ..< length ?rs] @ [length ?rs ..< length (tHeads db)]"
    by (metis le0 le_add_diff_inverse upt_add_eq_append)
  with new(1) have dis: "distinct (map (genUUID pg) [0 ..< 0 + length ?rs])" by simp
  have led: "\<forall>k. 0 \<le> k \<longrightarrow> k < 0 + length ?rs \<longrightarrow> find_ledger db acc (genUUID pg k) = None"
    using new(2) len by simp
  note exact = purge_all_exact[OF p[unfolded purgeExpiredVaultItems_def] wf pg late ok dis led]
  have wf': "vault_wf db'" using purgeExpired_keeps[OF p wf pg] by blast
  have "{x \<in> set ?rs. rvItemID x \<notin> rvItemID ` set ?rs} = {}" by blast
  with exact have "set (expired_trash db' acc (trashExpirationCutoff t)) = {}" by (metis subset_empty)
  then have "\<not> trash_expired db' acc t j" by (simp add: trash_expired_iff[OF wf'])
  moreover have "\<forall>x \<in> set (tRevisions db'). rvAccount x = acc \<and> rvItemID x = j \<longrightarrow> rvEnvelope x = None"
    if "trash_expired db acc t j"
    using exact that unfolding trash_expired_iff[OF wf] by (simp add: rows_of_def)
  ultimately show ?thesis using exact by (simp add: trash_expired_iff[OF wf])
qed

definition trash :: "uuid \<Rightarrow> uuid \<Rightarrow> vault_mutation" where
  "trash p r = \<lparr>vmMutationID = r, vmBaseRevision = 1, vmItem = \<lparr>oItemID = uI, oSchemaVersion = 1,
     oRevision = 2, oRevisionID = r, oParents = [p], oDeleted = True, oPurged = False, oEnvelope = Some [8]\<rparr>\<rparr>"

definition row_B :: revision_row where
  "row_B = new_revision_row ''a'' (trash uA uB) uI uB [uA] 0"

definition vault2 :: vault_db where
  "vault2 = \<lparr>tRevisions = [row_A 0, row_B], tHeads = [\<lparr>hdAccount = ''a'', hdItemID = uI, hdRevisionID = uB\<rparr>],
     tItems = [\<lparr>itAccount = ''a'', itItemID = uI, itSchema = 1, itRevision = 2, itDeleted = True,
                itPurged = False, itEnvelope = Some [8]\<rparr>],
     tChanges = [change_of (row_A 0) 1 0, change_of row_B 2 0],
     tLedger = [ledger_of (row_A 0) uA 0 (vaultMutationDigest sample_pg (create uA)) 1 0,
                ledger_of row_B uB 1 (vaultMutationDigest sample_pg (trash uA uB)) 2 0],
     tCursors = fmupd ''a'' 2 fmempty\<rparr>"

lemma apply_trash: "applyVaultMutation sample_pg vault1 ''a'' (trash uA uB) 0 = Inr (True, vault2)"
proof -
  have "fmupd ''a'' (2::nat) (fmupd ''a'' 1 fmempty) = fmupd ''a'' 2 fmempty"
    by (rule fmap_ext) simp
  then show ?thesis
  by (simp add: applyVaultMutation_def find_ledger_def ancestry_check_def parents_check_def
      trash_def append_mutation_def uuids_in_def new_revision_row_def insert_revision_def
      check_revision_row_def find_revision_def replace_heads_def scrub_item_def project_item_def
      head_revisions_def map_filter_simps item_heads_of_def check_content_def upsert_item_def advance_cursor_def
      cursor_of_def record_change_def record_ledger_def item_revisions_of_def change_of_def ledger_of_def Let_def
      vault2_def row_B_def)
    (simp add: vault1_def change_of_def ledger_of_def numeral_2_eq_2)
qed

lemma vault2_wf: "vault_wf vault2"
  by (rule applyVaultMutation_wf[OF apply_trash vault1_wf sample_pg_ok])
    (simp add: validMutation_def trash_def Let_def validOpaqueItemContent_def len_def
      maximumItemRevision_def maximumItemEnvelopeSize_def)

lemma vault2_sel [simp]:
  "tRevisions vault2 = [row_A 0, row_B]" "tHeads vault2 = [\<lparr>hdAccount = ''a'', hdItemID = uI, hdRevisionID = uB\<rparr>]"
  "tLedger vault2 = [ledger_of (row_A 0) uA 0 (vaultMutationDigest sample_pg (create uA)) 1 0,
     ledger_of row_B uB 1 (vaultMutationDigest sample_pg (trash uA uB)) 2 0]"
  "tCursors vault2 = fmupd ''a'' 2 fmempty" "tChanges vault2 = [change_of (row_A 0) 1 0, change_of row_B 2 0]"
  "tItems vault2 = [\<lparr>itAccount = ''a'', itItemID = uI, itSchema = 1, itRevision = 2, itDeleted = True,
                itPurged = False, itEnvelope = Some [8]\<rparr>]"
  by (simp_all add: vault2_def)

lemma row_B_sel [simp]:
  "rvAccount row_B = ''a''" "rvItemID row_B = uI" "rvRevisionID row_B = uB" "rvRevision row_B = 2" "rvSchema row_B = 1"
  "rvPurged row_B = False" "rvDeleted row_B = True" "rvParents row_B = [uA]" "rvTombstonedAt row_B = Some 0"
  "rvEnvelope row_B = Some [8]" "row_B \<noteq> row_A t" "row_A t \<noteq> row_B"
  by (auto simp: row_B_def row_A_def new_revision_row_def trash_def create_def)

lemma expired_vault2: "expired_trash vault2 ''a'' (trashExpirationCutoff trashRetention) = [row_B]"
  by (simp add: expired_trash_def map_filter_simps is_expired_def item_heads_of_def trashExpirationCutoff_def)

abbreviation uG :: uuid where "uG \<equiv> genUUID sample_pg 0"

lemma uG_new [simp]: "uG \<noteq> uA" "uG \<noteq> uB" "uA \<noteq> uG" "uB \<noteq> uG" "lower_uuid uG = Some uG"
proof -
  have "uG \<noteq> uA \<and> uG \<noteq> uB" by code_simp
  then show "uG \<noteq> uA" "uG \<noteq> uB" "uA \<noteq> uG" "uB \<noteq> uG" by auto
  show "lower_uuid uG = Some uG" using pg_okD(3)[OF sample_pg_ok, of 0] by simp
qed

lemma purge_vault2: "\<exists>db'. purgeExpiredVaultItems sample_pg vault2 ''a'' trashRetention = Inr db'"
proof -
  have "\<exists>db'. applyVaultMutation sample_pg vault2 ''a'' (tombstone_mutation row_B uG) trashRetention = Inr (True, db')"
    by (simp add: applyVaultMutation_def find_ledger_def ancestry_check_def parents_check_def
      tombstone_mutation_def append_mutation_def uuids_in_def new_revision_row_def insert_revision_def
      check_revision_row_def find_revision_def replace_heads_def scrub_item_def project_item_def
      head_revisions_def map_filter_simps item_heads_of_def check_content_def upsert_item_def advance_cursor_def
      cursor_of_def record_change_def record_ledger_def item_revisions_of_def change_of_def ledger_of_def Let_def)
  then obtain db' where a: "applyVaultMutation sample_pg vault2 ''a'' (tombstone_mutation row_B uG) trashRetention = Inr (True, db')" ..
  have "\<not> sint (rvRevision row_B) \<ge> sint maximumItemRevision" by (simp add: maximumItemRevision_def)
  with a show ?thesis
    by (simp only: purgeExpiredVaultItems_def expired_vault2 purge_all.simps if_False bind_e_simps prod.case) simp
qed

theorem purge_expired_exact_witness:
  "\<exists>db'. purgeExpiredVaultItems sample_pg vault2 ''a'' trashRetention = Inr db' \<and>
     trash_expired vault2 ''a'' trashRetention uI \<and> \<not> trash_expired db' ''a'' trashRetention uI \<and>
     (\<forall>x \<in> set (tRevisions db'). rvAccount x = ''a'' \<and> rvItemID x = uI \<longrightarrow> rvEnvelope x = None)"
proof -
  from purge_vault2 obtain db' where p: "purgeExpiredVaultItems sample_pg vault2 ''a'' trashRetention = Inr db'" ..
  have e: "trash_expired vault2 ''a'' trashRetention uI" by (simp add: trash_expired_iff[OF vault2_wf] expired_vault2)
  have "find_ledger vault2 ''a'' uG = None" by (simp add: find_ledger_def ledger_of_def)
  with purge_expired_exact[OF p vault2_wf sample_pg_ok, of uI] e p show ?thesis by simp
qed

section \<open>Answers without gaps\<close>

lemma sorted_distinct_interval:
  assumes "sorted xs" "distinct xs" "set xs = {lo <.. hi}"
  shows "xs = [Suc lo ..< Suc hi]"
proof (rule sorted_distinct_set_unique[OF assms(1,2) sorted_upt distinct_upt])
  show "set xs = set [Suc lo ..< Suc hi]" unfolding assms(3) set_upt by auto
qed

lemma retained_all:
  assumes wf: "vault_wf db" and n: "retained_changes db acc lo hi = hi - lo" and le: "lo \<le> hi" and hi: "hi = cursor_of db acc"
  shows "map chCursor (sort_key chCursor (filter (\<lambda>c. chAccount c = acc \<and> lo < chCursor c) (tChanges db))) = [Suc lo ..< Suc hi]"
proof -
  let ?cs = "filter (\<lambda>c. chAccount c = acc \<and> lo < chCursor c) (tChanges db)"
  have eq: "filter (\<lambda>c. chAccount c = acc \<and> lo < chCursor c \<and> chCursor c \<le> hi) (tChanges db) = ?cs"
    by (rule filter_cong) (use vault_wfD(6)[OF wf] hi in auto)
  have d: "distinct (map chCursor ?cs)"
  proof -
    have "distinct (map (\<lambda>c. (chAccount c, chCursor c)) ?cs)" using vault_wfD(8)[OF wf] by (rule distinct_map_filter)
    then show ?thesis by (auto simp: distinct_map inj_on_def)
  qed
  have sub: "set (map chCursor ?cs) \<subseteq> {lo <.. hi}" using vault_wfD(6)[OF wf] hi by auto
  have "card (set (map chCursor ?cs)) = hi - lo"
    using distinct_card[OF d] n eq by (simp add: retained_changes_def)
  then have "set (map chCursor ?cs) = {lo <.. hi}"
    by (intro card_subset_eq sub) simp_all
  then have "set (map chCursor (sort_key chCursor ?cs)) = {lo <.. hi}"
    unfolding set_map set_sort .
  moreover have "distinct (map chCursor (sort_key chCursor ?cs))" using d unfolding distinct_map set_sort by simp
  moreover have "sorted (map chCursor (sort_key chCursor ?cs))" by simp
  ultimately show ?thesis by (intro sorted_distinct_interval)
qed

lemma split_comma_plain: "CHR '','' \<notin> set x \<Longrightarrow> split_comma acc x = [acc @ x]"
  by (induction x arbitrary: acc) auto

lemma split_comma_comma:
  "CHR '','' \<notin> set x \<Longrightarrow> split_comma acc (x @ CHR '','' # rest) = (acc @ x) # split_comma [] rest"
  by (induction x arbitrary: acc) auto

lemma split_join_comma:
  "ids \<noteq> [] \<Longrightarrow> \<forall>x \<in> set ids. CHR '','' \<notin> set x \<Longrightarrow> split_comma [] (join_comma ids) = ids"
  by (induction ids rule: join_comma.induct) (simp_all add: split_comma_plain split_comma_comma)

lemma validUUID_no_comma: "validUUID x \<Longrightarrow> CHR '','' \<notin> set x"
proof
  assume "validUUID x" "CHR '','' \<in> set x"
  from validUUID_chars[OF this] show False by (auto simp: is_hex_def less_eq_char_def)
qed

lemma parse_uuid_array:
  assumes "\<forall>x \<in> set ids. validUUID x"
  shows "parsePostgresUUIDArray (uuid_array_text ids) = Some ids"
proof (cases "ids = []")
  case True
  then show ?thesis by (simp add: parsePostgresUUIDArray_def uuid_array_text_def)
next
  case False
  from assms validUUID_no_comma have nc: "\<forall>x \<in> set ids. CHR '','' \<notin> set x" by blast
  obtain x xs where ids: "ids = x # xs" using False by (cases ids) auto
  have "x \<noteq> []" using assms validUUID_nonempty by (simp add: ids)
  then have "join_comma ids \<noteq> []" by (cases xs) (simp_all add: ids)
  with split_join_comma[OF False nc] assms show ?thesis
    by (simp add: parsePostgresUUIDArray_def uuid_array_text_def Let_def list_all_iff butlast_append)
qed

lemma map_e_all: "(\<And>x. x \<in> set xs \<Longrightarrow> f x = Inr (g x)) \<Longrightarrow> map_e f xs = Inr (map g xs)"
  by (induction xs) auto

definition change_item :: "change_row \<Rightarrow> opaque_item" where
  "change_item c = \<lparr>oItemID = chItemID c, oSchemaVersion = chSchema c, oRevision = chRevision c,
     oRevisionID = chRevisionID c, oParents = chParents c, oDeleted = chDeleted c, oPurged = chPurged c,
     oEnvelope = chEnvelope c\<rparr>"

definition revision_item :: "revision_row \<Rightarrow> opaque_item" where
  "revision_item r = \<lparr>oItemID = rvItemID r, oSchemaVersion = rvSchema r, oRevision = rvRevision r,
     oRevisionID = rvRevisionID r, oParents = rvParents r, oDeleted = rvDeleted r, oPurged = rvPurged r,
     oEnvelope = rvEnvelope r\<rparr>"

lemma read_changes:
  "vault_wf db \<Longrightarrow> set cs \<subseteq> set (tChanges db) \<Longrightarrow> map_e read_change cs = Inr (map change_item cs)"
proof (rule map_e_all)
  fix c assume "vault_wf db" "set cs \<subseteq> set (tChanges db)" "c \<in> set cs"
  then have "\<forall>p \<in> set (chParents c). validUUID p" using vault_wfD(7) by blast
  then show "read_change c = Inr (change_item c)"
    by (simp add: read_change_def parse_uuid_array change_item_def)
qed

lemma read_revisions:
  "vault_wf db \<Longrightarrow> set rs \<subseteq> set (tRevisions db) \<Longrightarrow> map_e read_revision rs = Inr (map revision_item rs)"
proof (rule map_e_all)
  fix x assume "vault_wf db" "set rs \<subseteq> set (tRevisions db)" "x \<in> set rs"
  then have "row_ok x" using vault_wfD(3) by blast
  then show "read_revision x = Inr (revision_item x)"
    by (simp add: read_revision_def row_ok_def parse_uuid_array revision_item_def)
qed

lemma snapshot_rows_iff:
  assumes "vault_wf db"
  shows "r \<in> set (snapshot_rows db acc) \<longleftrightarrow>
    r \<in> set (tRevisions db) \<and> rvAccount r = acc \<and> is_head db acc (rvItemID r) (rvRevisionID r)"
proof -
  have f: "find (\<lambda>x. rvAccount x = acc \<and> rvItemID x = i \<and> rvRevisionID x = q) (tRevisions db) = Some r \<longleftrightarrow>
      r \<in> set (tRevisions db) \<and> rvAccount r = acc \<and> rvItemID r = i \<and> rvRevisionID r = q" for i q
    by (rule find_row_iff[OF assms])
  show ?thesis
  proof
    assume "r \<in> set (snapshot_rows db acc)"
    then obtain h where h: "h \<in> set (tHeads db)" "hdAccount h = acc"
      "find (\<lambda>x. rvAccount x = acc \<and> rvItemID x = hdItemID h \<and> rvRevisionID x = hdRevisionID h) (tRevisions db) = Some r"
      by (auto simp: snapshot_rows_def map_filter_set)
    then have "\<lparr>hdAccount = acc, hdItemID = hdItemID h, hdRevisionID = hdRevisionID h\<rparr> \<in> set (tHeads db)"
      by (metis head_row_eta)
    with h(3)[unfolded f] show "r \<in> set (tRevisions db) \<and> rvAccount r = acc \<and>
      is_head db acc (rvItemID r) (rvRevisionID r)" unfolding is_head_def by simp
  next
    assume a: "r \<in> set (tRevisions db) \<and> rvAccount r = acc \<and> is_head db acc (rvItemID r) (rvRevisionID r)"
    let ?h = "\<lparr>hdAccount = acc, hdItemID = rvItemID r, hdRevisionID = rvRevisionID r\<rparr>"
    from a f[of "rvItemID r" "rvRevisionID r"] show "r \<in> set (snapshot_rows db acc)"
      unfolding snapshot_rows_def set_sort map_filter_set is_head_def by (intro bexI[of _ ?h]) simp_all
  qed
qed

lemma answer_incremental:
  assumes wf: "vault_wf db" and a: "answer db acc n ids = Inr res" and f: "\<not> vsFullSnapshot res"
  shows "\<exists>k rows. k = min 500 (cursor_of db acc - n) \<and> set rows \<subseteq> {c \<in> set (tChanges db). chAccount c = acc} \<and>
    map chCursor rows = [Suc n ..< Suc (n + k)] \<and> vsChanges res = map change_item rows \<and> vsCursor res = dec (n + k)"
proof -
  let ?all = "sort_key chCursor (filter (\<lambda>c. chAccount c = acc \<and> n < chCursor c) (tChanges db))"
  from a f have le: "n \<le> cursor_of db acc" and all: "retained_changes db acc n (cursor_of db acc) = cursor_of db acc - n"
    and m: "map_e read_change (changes_after db acc n) = Inr (vsChanges res)"
    and c: "vsCursor res = dec (if changes_after db acc n = [] then n else chCursor (last (changes_after db acc n)))"
    by (auto simp: answer_def Let_def bind_e_Inr_iff split: if_splits)
  let ?rows = "changes_after db acc n" and ?k = "min 500 (cursor_of db acc - n)"
  have sub: "set ?rows \<subseteq> {c \<in> set (tChanges db). chAccount c = acc}"
    unfolding changes_after_def by (auto dest: in_set_takeD)
  have "map chCursor ?rows = take 500 (map chCursor ?all)" by (simp add: changes_after_def take_map)
  also have "\<dots> = [Suc n ..< Suc (n + ?k)]"
  proof -
    have "take 500 [Suc n ..< Suc (cursor_of db acc)] = [Suc n ..< min (Suc n + 500) (Suc (cursor_of db acc))]"
      by (cases "Suc n + 500 \<le> Suc (cursor_of db acc)") (simp_all add: min_def del: upt_Suc)
    moreover have "min (Suc n + 500) (Suc (cursor_of db acc)) = Suc (n + ?k)" using le by (auto simp: min_def)
    ultimately show ?thesis unfolding retained_all[OF wf all le refl] by simp
  qed
  finally have cur: "map chCursor ?rows = [Suc n ..< Suc (n + ?k)]" .
  from arg_cong[OF cur, of length] have len: "length ?rows = ?k" by (simp del: upt_Suc)
  have "(if ?rows = [] then n else chCursor (last ?rows)) = n + ?k"
  proof (cases "?rows = []")
    case True with len show ?thesis by simp
  next
    case False
    then have "chCursor (last ?rows) = last (map chCursor ?rows)" by (simp add: last_map)
    also have "\<dots> = n + ?k" unfolding cur using len False by (subst last_upt) (cases ?rows, simp_all)
    finally show ?thesis using False by simp
  qed
  with m c read_changes[OF wf, of ?rows] sub cur show ?thesis by (intro exI[of _ ?k] exI[of _ ?rows]) auto
qed

lemma answer_full:
  assumes wf: "vault_wf db" and a: "answer db acc n ids = Inr res" and f: "vsFullSnapshot res"
  shows "vsCursor res = dec (cursor_of db acc) \<and> vsChanges res = map revision_item (snapshot_rows db acc)"
proof -
  from a f have m: "map_e read_revision (snapshot_rows db acc) = Inr (vsChanges res)"
    and c: "vsCursor res = dec (cursor_of db acc)"
    by (auto simp: answer_def appendVaultSnapshot_def Let_def bind_e_Inr_iff split: if_splits)
  have "set (snapshot_rows db acc) \<subseteq> set (tRevisions db)" by (auto simp: snapshot_rows_iff[OF wf])
  from read_revisions[OF wf this] m c show ?thesis by simp
qed

text \<open>C13: A client never misses a change. An incremental answer carries an unbroken run of the account's
  change cursors starting right after the client's cursor, at most 500 of them, and moves the
  cursor to the last one delivered; whenever any of the changes it lacks has been pruned or
  scrubbed, the answer is instead the full set of the account's heads at the current cursor.\<close>

theorem Sync_answer_complete:
  assumes s: "Sync pg db acc cursor ms t = Inr (res, db')" and wf: "vault_wf db" and pg: "pg_ok pg"
    and v: "validMutations ms" and n: "parseSyncCursor cursor = Inr n"
  shows "if vsFullSnapshot res
    then vsCursor res = dec (cursor_of db' acc) \<and>
      (\<forall>i r. (\<exists>x. x \<in> set (vsChanges res) \<and> oItemID x = i \<and> oRevisionID x = r) \<longleftrightarrow> is_head db' acc i r)
    else (\<exists>rows. set rows \<subseteq> {c. c \<in> set (tChanges db') \<and> chAccount c = acc} \<and>
      map chCursor rows = [n + 1 ..< n + 1 + min 500 (cursor_of db' acc - n)] \<and>
      vsChanges res = map change_item rows \<and> vsCursor res = dec (n + min 500 (cursor_of db' acc - n)))"
proof -
  from s obtain ids where a: "answer db' acc n ids = Inr res" using n by (elim Sync_parts) simp
  have wf': "vault_wf db'" using Sync_keeps[OF s wf pg v] by simp
  show ?thesis
  proof (cases "vsFullSnapshot res")
    case False
    from answer_incremental[OF wf' a False] False show ?thesis by auto
  next
    case True
    note f = answer_full[OF wf' a True]
    have "(\<exists>x. x \<in> set (vsChanges res) \<and> oItemID x = i \<and> oRevisionID x = r) \<longleftrightarrow> is_head db' acc i r" for i r
    proof
      assume "\<exists>x. x \<in> set (vsChanges res) \<and> oItemID x = i \<and> oRevisionID x = r"
      with f show "is_head db' acc i r" by (auto simp: snapshot_rows_iff[OF wf'] revision_item_def)
    next
      assume h: "is_head db' acc i r"
      then obtain y where y: "y \<in> set (tRevisions db')" "rvAccount y = acc" "rvItemID y = i" "rvRevisionID y = r"
        by (auto simp: vault_wfD(4)[OF wf'] has_revision_def)
      with h have "y \<in> set (snapshot_rows db' acc)" by (simp add: snapshot_rows_iff[OF wf'])
      with f have "revision_item y \<in> set (vsChanges res)" by simp
      with y show "\<exists>x. x \<in> set (vsChanges res) \<and> oItemID x = i \<and> oRevisionID x = r"
        by (intro exI[of _ "revision_item y"] conjI) (simp, simp_all add: revision_item_def)
    qed
    with f True show ?thesis by simp
  qed
qed

theorem Sync_answer_complete_witness:
  "\<exists>res. Sync sample_pg empty_vault ''a'' [] [create uA] 0 = Inr (res, vault1) \<and>
     (\<not> vsFullSnapshot res \<longrightarrow> vsCursor res = dec 1)"
proof -
  from run_create obtain res where s: "Sync sample_pg empty_vault ''a'' [] [create uA] 0 = Inr (res, vault1)" ..
  have "parseSyncCursor [] = Inr 0" by (simp add: parseSyncCursor_def)
  from Sync_answer_complete[OF s empty_vault_wf sample_pg_ok _ this] s show ?thesis
    by (auto simp: validMutations_def sample_mutations_valid cursor_of_def)
qed

section \<open>Separation of the accounts\<close>

text \<open>C14: Accounts are separate. A synchronization changes no row of any other account in any table, and
  everything it answers is a revision or a change stored under the account itself.\<close>

theorem Sync_separates_accounts:
  assumes s: "Sync pg db acc cursor ms t = Inr (res, db')" and "vault_wf db" "pg_ok pg" "validMutations ms"
  shows "same_elsewhere acc db db' \<and>
    (\<forall>x \<in> set (vsChanges res). (\<exists>r \<in> set (tRevisions db'). rvAccount r = acc \<and> x = revision_item r) \<or>
       (\<exists>c \<in> set (tChanges db'). chAccount c = acc \<and> x = change_item c))"
proof -
  from s obtain n ids where a: "answer db' acc n ids = Inr res" by (elim Sync_parts)
  have k: "vault_wf db'" "same_elsewhere acc db db'" using Sync_keeps[OF assms] by simp_all
  have "(\<exists>r \<in> set (tRevisions db'). rvAccount r = acc \<and> x = revision_item r) \<or>
       (\<exists>c \<in> set (tChanges db'). chAccount c = acc \<and> x = change_item c)" if x: "x \<in> set (vsChanges res)" for x
  proof (cases "vsFullSnapshot res")
    case True
    with answer_full[OF k(1) a] x show ?thesis by (auto simp: snapshot_rows_iff[OF k(1)])
  next
    case False
    from answer_incremental[OF k(1) a False] obtain rows where
      "set rows \<subseteq> {c \<in> set (tChanges db'). chAccount c = acc}" "vsChanges res = map change_item rows" by blast
    with x show ?thesis by auto
  qed
  with k show ?thesis by blast
qed

theorem Sync_separates_accounts_witness: "same_elsewhere ''a'' empty_vault vault1"
proof -
  from run_create obtain res where s: "Sync sample_pg empty_vault ''a'' [] [create uA] 0 = Inr (res, vault1)" ..
  from Sync_separates_accounts[OF s empty_vault_wf sample_pg_ok] show ?thesis
    by (simp add: validMutations_def sample_mutations_valid)
qed

section \<open>Where the code falls short\<close>

text \<open>C19: \<open>PutItem\<close> never updates. It is documented to accept exactly the next revision of an existing
  item, but its INSERT selects no row unless the revision is 1, so the conflict clause that would
  update never runs: every revision above 1 is refused, also the next one of a stored item, and a
  repeated revision 1 is refused as well. Only creation succeeds.\<close>

theorem PutItem_never_updates:
  assumes "PutItem pg db acc item = Inr db'" "\<forall>r. r \<in> set (tItems db) \<longrightarrow> 0 < sint (itRevision r)"
    and "uuidIn pg (oItemID item) = Some i"
  shows "oRevision item = 1 \<and> (\<nexists>r. r \<in> set (tItems db) \<and> itAccount r = acc \<and> itItemID r = i)"
proof -
  from assms(1,3) have one: "oRevision item = 1"
    by (auto simp: PutItem_def put_rows_def bind_e_Inr_iff split: if_splits)
  have "\<not> (r \<in> set (tItems db) \<and> itAccount r = acc \<and> itItemID r = i)" for r
  proof
    assume r: "r \<in> set (tItems db) \<and> itAccount r = acc \<and> itItemID r = i"
    then have "find (\<lambda>r. itAccount r = acc \<and> itItemID r = i) (tItems db) \<noteq> None"
      by (auto simp: find_None_iff_all)
    then obtain old where old: "find (\<lambda>r. itAccount r = acc \<and> itItemID r = i) (tItems db) = Some old" by blast
    with assms(2) have "0 < sint (itRevision old)" by (auto dest: find_SomeD)
    then have "itRevision old + 1 \<noteq> 1" by auto
    with assms(1,3) one old show False
      by (auto simp: PutItem_def put_rows_def upsert_next_def bind_e_Inr_iff split: if_splits)
  qed
  with one show ?thesis by blast
qed

theorem PutItem_never_updates_witness:
  "\<exists>db'. PutItem sample_pg empty_vault ''a'' (vmItem (create uA)) = Inr db' \<and> oRevision (vmItem (create uA)) = 1 \<and>
     PutItem sample_pg db' ''a'' (vmItem (edit uA uB)) = Inl ErrItemRevisionConflict"
proof -
  obtain db' where p: "PutItem sample_pg empty_vault ''a'' (vmItem (create uA)) = Inr db'"
    by (simp add: PutItem_def put_rows_def create_def upsert_next_def check_content_def empty_vault_def)
  have c: "\<forall>r. r \<in> set (tItems empty_vault) \<longrightarrow> 0 < sint (itRevision r)" "uuidIn sample_pg (oItemID (vmItem (create uA))) = Some uI"
    by (simp_all add: empty_vault_def)
  have "PutItem sample_pg db' ''a'' (vmItem (edit uA uB)) = Inl ErrItemRevisionConflict"
    by (simp add: PutItem_def put_rows_def edit_def)
  with p PutItem_never_updates[OF p c] show ?thesis by blast
qed

definition merge_two :: vault_mutation where
  "merge_two = \<lparr>vmMutationID = uC, vmBaseRevision = 2, vmItem = \<lparr>oItemID = uI, oSchemaVersion = 1,
     oRevision = 3, oRevisionID = uC, oParents = [uA, uB], oDeleted = False, oPurged = False, oEnvelope = Some [8]\<rparr>\<rparr>"

definition merge_one :: vault_mutation where
  "merge_one = \<lparr>vmMutationID = uC, vmBaseRevision = 2, vmItem = \<lparr>oItemID = uI, oSchemaVersion = 1,
     oRevision = 3, oRevisionID = uC, oParents = [uA], oDeleted = False, oPurged = False,
     oEnvelope = Some (string_bytes (uB @ lf) @ [8])\<rparr>\<rparr>"

lemma merge_digest: "digest_preimage merge_one = digest_preimage merge_two"
proof -
  have "uA \<le> uB" by (simp add: uA_def uB_def less_eq_char_def)
  then show ?thesis
    by (simp add: digest_preimage_def digest_text_def merge_one_def merge_two_def Let_def)
      (simp add: string_bytes_def)
qed

lemma length_string_bytes [simp]: "length (string_bytes s) = length s"
  by (simp add: string_bytes_def)

lemma merges_valid: "validMutation merge_one" "validMutation merge_two"
proof -
  have "length uB = 36" by (simp add: uB_def)
  then show "validMutation merge_one" "validMutation merge_two"
    by (simp_all add: validMutation_def merge_one_def merge_two_def Let_def validOpaqueItemContent_def
      len_def maximumItemRevision_def maximumItemEnvelopeSize_def)
qed

lemma apply_merge_two:
  "\<exists>db1 db2. applyVaultMutation sample_pg vault1 ''a'' (edit uA uB) 5 = Inr (True, db1) \<and>
     applyVaultMutation sample_pg db1 ''a'' merge_two 6 = Inr (True, db2)"
proof -
  from apply_edits obtain db1 where a: "applyVaultMutation sample_pg vault1 ''a'' (edit uA uB) 5 = Inr (True, db1)" by blast
  from a have "\<exists>db2. applyVaultMutation sample_pg db1 ''a'' merge_two 6 = Inr (True, db2)"
    by (auto simp: applyVaultMutation_def find_ledger_def ancestry_check_def parents_check_def
      edit_def merge_two_def append_mutation_def uuids_in_def new_revision_row_def insert_revision_def
      check_revision_row_def find_revision_def replace_heads_def scrub_item_def project_item_def
      head_revisions_def map_filter_simps item_heads_of_def check_content_def upsert_item_def advance_cursor_def
      cursor_of_def record_change_def record_ledger_def item_revisions_of_def change_of_def ledger_of_def Let_def)
  with a show ?thesis by blast
qed

text \<open>C20: The mutation digest is ambiguous. The sorted parent list and the raw envelope are written one
  after the other without a length, so moving a parent identifier into the front of the envelope
  gives another valid mutation with the same digest; and the ledger comparison reads the stored
  parents but never compares them, so the second mutation is reported applied though its content
  was not stored.\<close>

theorem digest_is_ambiguous:
  "validMutation merge_one \<and> validMutation merge_two \<and> oEnvelope (vmItem merge_one) \<noteq> oEnvelope (vmItem merge_two) \<and>
   (\<exists>db1 db2. applyVaultMutation sample_pg db1 ''a'' merge_two 6 = Inr (True, db2) \<and>
      applyVaultMutation sample_pg db2 ''a'' merge_one 7 = Inr (True, db2))"
proof -
  from apply_merge_two obtain db1 db2 where
    a: "applyVaultMutation sample_pg vault1 ''a'' (edit uA uB) 5 = Inr (True, db1)" and
    b: "applyVaultMutation sample_pg db1 ''a'' merge_two 6 = Inr (True, db2)" by blast
  have wf: "vault_wf db1"
    by (rule applyVaultMutation_wf[OF a vault1_wf sample_pg_ok]) (simp add: sample_mutations_valid)
  have "\<exists>g. find_ledger db2 ''a'' (vmMutationID merge_two) = Some g \<and> same_as_ledger sample_pg merge_two g"
    by (rule accepted_in_ledger[OF b wf sample_pg_ok merges_valid(2)]) (simp_all add: merge_two_def)
  moreover have "same_as_ledger sample_pg merge_one g = same_as_ledger sample_pg merge_two g" for g
    using merge_digest by (simp add: same_as_ledger_def vaultMutationDigest_def) (simp add: merge_one_def merge_two_def)
  ultimately have "applyVaultMutation sample_pg db2 ''a'' merge_one 7 = Inr (True, db2)"
    by (auto simp: applyVaultMutation_def merge_two_def) (simp_all add: merge_one_def)
  moreover have "oEnvelope (vmItem merge_one) \<noteq> oEnvelope (vmItem merge_two)"
    by (simp add: merge_one_def merge_two_def string_bytes_def)
  ultimately show ?thesis using b merges_valid by blast
qed

text \<open>C21: Validation is weaker than the tables. A batch entry that purges with an empty, not absent,
  envelope, or whose schema version exceeds the INTEGER column, passes the request validation but
  can never be stored: the statement violates a constraint, an internal error instead of a bad
  request.\<close>

theorem validated_but_unstorable:
  assumes "validMutation m" "find_ledger db acc mid = None" "uuidIn pg (vmMutationID m) = Some mid"
    and "oPurged (vmItem m) \<and> oEnvelope (vmItem m) = Some [] \<or> oSchemaVersion (vmItem m) \<ge> 2 ^ 31"
  shows "\<exists>e. applyVaultMutation pg db acc m t = Inl e \<and>
    (ancestry_check pg db acc m = Inr () \<and> uuidIn pg (oItemID (vmItem m)) \<noteq> None \<and>
     uuids_in pg (oParents (vmItem m)) \<noteq> None \<longrightarrow> e = DbError)"
proof -
  have bad: "\<not> check_revision_row (new_revision_row acc m i r ps t)" for i r ps
    using assms(4) by (auto simp: check_revision_row_def new_revision_row_def Let_def)
  have "\<exists>e. append_mutation pg db acc m mid t = Inl e \<and> e = DbError"
    using bad by (cases "uuidIn pg (oRevisionID (vmItem m))"; cases "uuidIn pg (oItemID (vmItem m))";
      cases "uuids_in pg (oParents (vmItem m))") (auto simp: append_mutation_def insert_revision_def Let_def)
  with assms(2,3) show ?thesis
    by (cases "ancestry_check pg db acc m") (auto simp: applyVaultMutation_def)
qed

theorem validated_but_unstorable_witness:
  "validMutation (purge uA uB\<lparr>vmItem := vmItem (purge uA uB)\<lparr>oEnvelope := Some []\<rparr>\<rparr>) \<and>
   (\<exists>e. applyVaultMutation sample_pg vault1 ''a'' (purge uA uB\<lparr>vmItem := vmItem (purge uA uB)\<lparr>oEnvelope := Some []\<rparr>\<rparr>) 5 = Inl e)"
proof -
  let ?m = "purge uA uB\<lparr>vmItem := vmItem (purge uA uB)\<lparr>oEnvelope := Some []\<rparr>\<rparr>"
  have v: "validMutation ?m"
    by (simp add: validMutation_def purge_def Let_def validOpaqueItemContent_def len_def
      maximumItemRevision_def maximumItemEnvelopeSize_def)
  have l: "find_ledger vault1 ''a'' uB = None" "uuidIn sample_pg (vmMutationID ?m) = Some uB"
    by (simp_all add: find_ledger_def ledger_of_def)
  have "oPurged (vmItem ?m) \<and> oEnvelope (vmItem ?m) = Some [] \<or> oSchemaVersion (vmItem ?m) \<ge> 2 ^ 31" by simp
  from validated_but_unstorable[OF v l this, of 5] v show ?thesis by blast
qed

end
