(* ===== verification/ServerSamples.thy ===== *)
theory ServerSamples
  imports ServerRuns SyncProps
begin

text \<open>
  A concrete server and requests, evaluated step by step from the empty state: a bootstrap, a login,
  an invitation and its registration, a revocation. They show the hypotheses of the server's
  properties to hold together.
\<close>

definition raw_token :: bytes where "raw_token = replicate 32 7"
definition raw_login :: bytes where "raw_login = replicate 32 9"
definition raw_invite :: bytes where "raw_invite = replicate 32 11"
definition sample_token :: string where "sample_token = EncodeToString URLAlphabet raw_token"
definition sample_login :: string where "sample_login = EncodeToString URLAlphabet raw_login"
definition sample_invite :: string where "sample_invite = EncodeToString URLAlphabet raw_invite"

definition uS :: uuid where "uS = format_uuid (set_version_bits (replicate 16 1))"
definition uV :: uuid where "uV = format_uuid (set_version_bits (replicate 16 2))"

definition sample_rnd :: "string \<Rightarrow> bytes option" where
  "sample_rnd site =
     (if site = ''accessToken'' then Some raw_token else if site = ''login'' then Some raw_login
      else if site = ''invite'' then Some raw_invite else if site = ''session'' then Some (replicate 16 1)
      else Some (replicate 16 2))"

definition sample_env :: auth_env where
  "sample_env =
     \<lparr>pg = sample_pg, fault = (\<lambda>_. False), dbNow = 1, clock = (\<lambda>_. 1), rnd = sample_rnd,
      marshalCursor = (\<lambda>(t, i). string_bytes i), unmarshalCursor = (\<lambda>b. if b = string_bytes uA then Some (5, uA) else Some (3, uB)),
      auditLog = None, parseAddress = Some, readRegistrationRequest = Some, makeRegistrationResponse = (\<lambda>b e. Some b),
      readRegistrationRecord = Some, readKE1 = Some, fakeRecordFor = (\<lambda>_. Some []),
      generateKE2 = (\<lambda>k r. Some ([2], [3], [4])), readKE3 = Some, loginFinish = (\<lambda>k m. k = m)\<rparr>"

lemma sample_env_sel [simp]:
  "pg sample_env = sample_pg" "\<not> fault sample_env m" "dbNow sample_env = 1" "clock sample_env c = 1"
  "rnd sample_env = sample_rnd" "auditLog sample_env = None" "parseAddress sample_env = Some"
  "readRegistrationRecord sample_env = Some" "readKE1 sample_env = Some"
  "generateKE2 sample_env = (\<lambda>k r. Some ([2], [3], [4]))" "readKE3 sample_env = Some"
  "loginFinish sample_env = (\<lambda>k m. k = m)"
  by (simp_all add: sample_env_def)

lemma sample_same_pg: "same_pg sample_pg sample_env"
  by (simp add: same_pg_def sample_pg_ok)

lemma sample_audit [simp]: "audit_state sample_env s e = s"
  by (simp add: audit_state_def recordAudit_def)

lemma stmt_sample [simp]: "stmt sample_env m = Inr ()"
  by (simp add: stmt_def)

lemma lower_generated:
  assumes "length bs = 16"
  shows "lower_uuid (format_uuid (set_version_bits bs)) = Some (format_uuid (set_version_bits bs))"
proof -
  have "length (set_version_bits bs) = 16" using assms by simp
  from validUUID_format_uuid[OF this] show ?thesis
    by (simp add: lower_uuid_def) (simp add: format_uuid_def hex_bytes_lower lower_hex_def)
qed

lemma sample_ids [simp]:
  "lower_uuid uS = Some uS" "lower_uuid uV = Some uV" "newAccountID (Some (replicate 16 1)) = Some uS"
  "newAccountID (Some (replicate 16 2)) = Some uV"
  using lower_generated[of "replicate 16 1"] lower_generated[of "replicate 16 2"]
  by (simp_all add: uS_def uV_def newAccountID_def)

lemma sample_texts [simp]:
  "sample_token \<noteq> []" "sample_login \<noteq> []" "newLoginID (Some raw_login) = Some sample_login"
  "EncodeToString URLAlphabet raw_token = sample_token" "EncodeToString URLAlphabet raw_invite = sample_invite"
  "DecodeString URLAlphabet sample_invite = Some raw_invite" "length raw_invite = 32"
  by (simp_all add: sample_token_def sample_login_def sample_invite_def raw_token_def raw_login_def raw_invite_def
      newLoginID_def decode_encode)

definition body_of :: "'r \<Rightarrow> 'r http_body" where
  "body_of v = \<lparr>bodyValue = Some v, bodyValueLength = 0, bodyRest = []\<rparr>"

definition request_of :: "string \<Rightarrow> string \<Rightarrow> 'r \<Rightarrow> 'r http_request" where
  "request_of auth path v = \<lparr>rqAuthorization = auth, rqClientIP = ''1'', rqPathID = path, rqQuery = (\<lambda>_. []), rqBody = body_of v\<rparr>"

lemma request_sel [simp]:
  "decodeRequest (request_of auth path v) = Some v" "rqPathID (request_of auth path v) = path"
  "rqClientIP (request_of auth path v) = ''1''" "rqAuthorization (request_of auth path v) = auth"
  by (simp_all add: request_of_def body_of_def decodeRequest_def decoder_more_def)

definition bearer_text :: string where "bearer_text = ''Bearer '' @ sample_token"

lemma bearer_text_sel [simp]: "bearerToken (request_of bearer_text path v) = sample_token"
  by (simp add: bearer_text_def bearerToken_def HasPrefix_def)

definition enc :: "bytes \<Rightarrow> string" where "enc b = EncodeToString StdAlphabet b"

lemma enc_simps [simp]: "DecodeString StdAlphabet (enc b) = Some b" "b \<noteq> [] \<Longrightarrow> decode_nonempty (enc b) = Some b"
  by (simp_all add: enc_def decode_encode decode_nonempty_def)

lemma sample_emails [simp]: "canonicalEmail sample_env ''a@x'' = Some ''a@x''" "canonicalEmail sample_env ''b@x'' = Some ''b@x''"
proof -
  have "ToLower (TrimSpace ''a@x'') = ''a@x''" "ToLower (TrimSpace ''b@x'') = ''b@x''" by code_simp+
  then show "canonicalEmail sample_env ''a@x'' = Some ''a@x''" "canonicalEmail sample_env ''b@x'' = Some ''b@x''"
    by (simp_all add: canonicalEmail_def)
qed

lemma sample_host [simp]: "TrimSpace ''h'' = ''h''" "validSessionHost ''h''"
  by code_simp+

section \<open>Bootstrap\<close>

definition boot_request :: bootstrap_finish_request where
  "boot_request = \<lparr>bfAccountID = uA, bfEmail = ''a@x'', bfRegistrationRecord = enc [1],
     bfPasswordVaultEnvelope = enc [5], bfRecoveryVaultEnvelope = enc [6]\<rparr>"

definition admin_row :: account_row where
  "admin_row = \<lparr>acID = uA, acEmail = ''a@x'', acAdministrator = True, acCreatedAt = 1\<rparr>"

definition booted :: server_state where
  "booted = empty_server\<lparr>sDb := (sDb empty_server)\<lparr>dAccounts := [admin_row],
     dOpaque := fmupd uA [1] fmempty, dEnvelopes := fmupd uA ([5], [6]) fmempty\<rparr>\<rparr>"

lemma boot: "finishBootstrap sample_env (request_of [] [] boot_request) empty_server = (HttpReply 201 None, booted)"
  by (simp add: finishBootstrap_def boot_request_def finish_def CreateBootstrap_def insert_account_def as_uuid_def
      empty_server_def booted_def admin_row_def)

lemma run_booted: "server_run sample_pg empty_server booted"
  by (rule server_run.request[OF server_run.initially server_step.intros(2)[OF sample_same_pg boot]])

section \<open>A login\<close>

definition login_request :: login_start_request where
  "login_request = \<lparr>lsEmail = ''a@x'', lsKE1 = enc [1], lsHost = ''h''\<rparr>"

definition admin_account :: stored_account where
  "admin_account = \<lparr>saAccountID = uA, saEmail = ''a@x'', saAdministrator = True, saOpaqueRecord = [1],
     saPasswordVaultEnvelope = [5], saRecoveryVaultEnvelope = [6]\<rparr>"

definition sample_pending :: pending_login where
  "sample_pending = \<lparr>plAccount = Some admin_account, plClientMAC = [3], plSessionSecret = [4], plHost = ''h'',
     plSourceIP = ''1'', plRateAccount = ''a@x'', plExpiresAt = 1 + minutes 5\<rparr>"

definition waiting :: server_state where
  "waiting = booted\<lparr>sPending := fmupd sample_login sample_pending fmempty,
     sLimiter := RecordFailure NewLoginLimiter ''a@x'' ''1'' 1\<rparr>"

lemma booted_sel [simp]:
  "sPending booted = fmempty" "sLimiter booted = NewLoginLimiter" "sVault booted = empty_vault"
  "dAccounts (sDb booted) = [admin_row]" "dTokens (sDb booted) = []" "dInvites (sDb booted) = []"
  "fmlookup (dOpaque (sDb booted)) uA = Some [1]" "fmlookup (dEnvelopes (sDb booted)) uA = Some ([5], [6])"
  "fmdom (dOpaque (sDb booted)) = {|uA|}" "fmdom (dEnvelopes (sDb booted)) = {|uA|}"
  by (simp_all add: booted_def empty_server_def)

lemma admin_row_sel [simp]: "acID admin_row = uA" "acEmail admin_row = ''a@x''" "acAdministrator admin_row"
  by (simp_all add: admin_row_def)

lemma find_admin [simp]: "FindAccount sample_env (sDb booted) ''a@x'' = Inr admin_account"
  by (simp add: FindAccount_def admin_account_def)

lemma login: "\<exists>response. startLogin sample_env (request_of [] [] login_request) booted = (writeJSON 200 response, waiting)"
  by (simp add: startLogin_def admitLogin_def countLogin_def login_request_def Let_def RetryAfter_def beginLogin_def login_record_def
      sample_rnd_def sample_pending_def waiting_def admin_account_def) blast

definition finish_request :: login_finish_request where
  "finish_request = \<lparr>lfLoginID = sample_login, lfKE3 = enc [3]\<rparr>"

definition admin_token :: token_row where
  "admin_token = \<lparr>tkHash = string_bytes sample_token, tkSession = uS, tkAccount = uA, tkEmail = ''a@x'',
     tkAdministrator = True, tkHost = ''h'', tkSourceIP = ''1'', tkCreatedAt = 1, tkLastUsedAt = 1, tkRevokedAt = None\<rparr>"

definition inside :: server_state where
  "inside = booted\<lparr>sDb := (sDb booted)\<lparr>dTokens := [admin_token]\<rparr>\<rparr>"

lemma waiting_sel [simp]:
  "sPending waiting = fmupd sample_login sample_pending fmempty" "sDb waiting = sDb booted" "sVault waiting = empty_vault"
  by (simp_all add: waiting_def)

lemma pending_sel [simp]:
  "plAccount sample_pending = Some admin_account" "plClientMAC sample_pending = [3]" "plHost sample_pending = ''h''"
  "plSourceIP sample_pending = ''1''" "plRateAccount sample_pending = ''a@x''" "plExpiresAt sample_pending = 1 + minutes 5"
  by (simp_all add: sample_pending_def)

lemma reset_limiter: "Reset (sLimiter waiting) ''a@x'' ''1'' = NewLoginLimiter"
proof -
  have "fmdrop k (fmupd k v fmempty) = fmempty" for k :: "string \<times> string" and v :: login_attempt
    by (rule fmap_ext) simp
  then show ?thesis by (simp add: waiting_def RecordFailure_def Reset_def NewLoginLimiter_def Let_def)
qed

lemma no_pending: "fmdrop sample_login (fmupd sample_login sample_pending fmempty) = fmempty"
  by (rule fmap_ext) simp

lemma complete: "completeLogin sample_env waiting sample_login [3] = (Inr (sample_pending, admin_account), waiting\<lparr>sPending := fmempty\<rparr>)"
  by (simp add: completeLogin_def take_pending_def no_pending minutes_def)

lemma issue: "issueAccessToken sample_env (waiting\<lparr>sPending := fmempty, sLimiter := NewLoginLimiter\<rparr>) admin_account ''h'' ''1'' =
    Inr (sample_token, inside)"
  by (simp add: issueAccessToken_def sample_rnd_def CreateAccessToken_def as_uuid_def admin_account_def inside_def
      admin_token_def waiting_def Let_def)

lemma login_done:
  "\<exists>response. finishLogin sample_env (request_of [] [] finish_request) waiting = (writeJSON 200 response, inside)"
  using reset_limiter
  by (simp add: finishLogin_def finish_request_def complete issue Let_def) blast

lemma run_inside: "server_run sample_pg empty_server inside"
proof -
  from login obtain a where "startLogin sample_env (request_of [] [] login_request) booted = (a, waiting)" by blast
  from server_run.request[OF run_booted server_step.intros(5)[OF sample_same_pg this]]
  have w: "server_run sample_pg empty_server waiting" .
  from login_done obtain b where "finishLogin sample_env (request_of [] [] finish_request) waiting = (b, inside)" by blast
  from server_run.request[OF w server_step.intros(6)[OF sample_same_pg this]] show ?thesis .
qed

section \<open>With the token\<close>

lemma inside_sel [simp]:
  "dTokens (sDb inside) = [admin_token]" "dAccounts (sDb inside) = [admin_row]" "dInvites (sDb inside) = []"
  "sVault inside = empty_vault" "sLimiter inside = NewLoginLimiter"
  by (simp_all add: inside_def)

lemma admin_token_sel [simp]:
  "tkHash admin_token = string_bytes sample_token" "tkSession admin_token = uS" "tkAccount admin_token = uA"
  "tkAdministrator admin_token" "tkRevokedAt admin_token = None" "admin_token\<lparr>tkLastUsedAt := 1\<rparr> = admin_token"
  by (simp_all add: admin_token_def)

definition admin_session :: stored_access_token where
  "admin_session = (token_of_row admin_token)\<lparr>stLastUsedAt := 1\<rparr>"

lemma admin_session_sel [simp]:
  "stAccountID admin_session = uA" "stSessionID admin_session = uS" "stAdministrator admin_session"
  by (simp_all add: admin_session_def token_of_row_def)

lemma authenticate_inside: "authenticate sample_env (request_of bearer_text path v) inside = (Inr admin_session, inside)"
  by (simp add: authenticate_def AuthenticateToken_def FindAccessToken_def TouchAccessToken_def Let_def
      admin_session_def token_of_row_def)

definition dead_token :: token_row where "dead_token = admin_token\<lparr>tkRevokedAt := Some 1\<rparr>"

definition outside :: server_state where
  "outside = inside\<lparr>sDb := (sDb inside)\<lparr>dTokens := [dead_token]\<rparr>\<rparr>"

lemma revoke: "revokeSession sample_env (request_of bearer_text ''current'' ()) inside = (HttpReply 204 None, outside)"
  by (simp add: revokeSession_def authenticate_inside RevokeSession_def as_uuid_def revocable_def outside_def dead_token_def Let_def)

lemma run_outside: "server_run sample_pg empty_server outside"
  by (rule server_run.request[OF run_inside server_step.intros(11)[OF sample_same_pg revoke]])

section \<open>An invitation\<close>

definition invite_row0 :: invite_row where
  "invite_row0 = \<lparr>ivID = uV, ivEmail = ''b@x'', ivTokenHash = string_bytes sample_invite, ivCreatedBy = uA, ivCreatedAt = 1,
     ivExpiresAt = 1 + hours 48, ivConsumedBy = None, ivConsumedAt = None, ivRevokedAt = None\<rparr>"

definition inviting :: server_state where
  "inviting = inside\<lparr>sDb := (sDb inside)\<lparr>dInvites := [invite_row0]\<rparr>\<rparr>"

lemma invite_made:
  "\<exists>response. createInvite sample_env (request_of bearer_text [] ''b@x'') inside = (writeJSON 201 response, inviting)"
  by (simp add: createInvite_def authenticateAdministrator_def authenticate_inside sample_rnd_def CreateInvite_def
      as_uuid_def Let_def inviting_def invite_row0_def) blast

lemma run_inviting: "server_run sample_pg empty_server inviting"
proof -
  from invite_made obtain a where "createInvite sample_env (request_of bearer_text [] ''b@x'') inside = (a, inviting)" by blast
  from server_run.request[OF run_inside server_step.intros(8)[OF sample_same_pg this]] show ?thesis .
qed

definition join_request :: registration_finish_request where
  "join_request = \<lparr>rfAccountID = uB, rfEmail = ''b@x'', rfInviteToken = sample_invite, rfRegistrationRecord = enc [1],
     rfPasswordVaultEnvelope = enc [5], rfRecoveryVaultEnvelope = enc [6]\<rparr>"

definition joined :: server_state where
  "joined = inviting\<lparr>sDb := (sDb inviting)\<lparr>
     dAccounts := [admin_row, \<lparr>acID = uB, acEmail = ''b@x'', acAdministrator = False, acCreatedAt = 1\<rparr>],
     dOpaque := fmupd uB [1] (dOpaque (sDb inviting)), dEnvelopes := fmupd uB ([5], [6]) (dEnvelopes (sDb inviting)),
     dInvites := [invite_row0\<lparr>ivConsumedBy := Some uB, ivConsumedAt := Some 1\<rparr>]\<rparr>\<rparr>"

lemma join: "finishRegistration sample_env (request_of [] [] join_request) inviting = (HttpReply 201 None, joined)"
  by (simp add: finishRegistration_def join_request_def inviteTokenHash_def CreateInvitedAccount_def usable_invite_def
      inviting_def invite_row0_def hours_def insert_account_def as_uuid_def inside_def Let_def joined_def validUUID_nonempty)

lemma run_joined: "server_run sample_pg empty_server joined"
  by (rule server_run.request[OF run_inviting server_step.intros(4)[OF sample_same_pg join]])

end
