(* ===== verification/ServerProps.thy ===== *)
theory ServerProps
  imports ServerSamples
begin

text \<open>
  What the server's handlers guarantee along every run: who can have an account and which of them
  is the administrator, that a session ended stays ended and an invitation works once, what a login
  needs, how fast one source can try, who may see what, and whose vault a synchronization touches.
\<close>

section \<open>Accounts\<close>

text \<open>C22: Accounts come from invitations. In every state the server can reach, exactly the first
  account is the administrator; no e-mail has two accounts; the accounts that consumed an invitation
  are, one for one, the accounts after the first, each under the e-mail its invitation was made for;
  and every invitation was made by the administrator.\<close>

theorem accounts_by_invitation:
  assumes "server_run base empty_server s"
  shows "(\<forall>r \<in> set (dAccounts (sDb s)). acAdministrator r \<longleftrightarrow> r = hd (dAccounts (sDb s))) \<and>
    distinct (map acEmail (dAccounts (sDb s))) \<and>
    mset (consumers (dInvites (sDb s))) = mset (map acID (tl (dAccounts (sDb s)))) \<and>
    (\<forall>v \<in> set (dInvites (sDb s)). ivCreatedBy v = acID (hd (dAccounts (sDb s))) \<and>
       (\<forall>a. ivConsumedBy v = Some a \<longrightarrow> account_matches (sDb s) a (ivEmail v) False))"
proof -
  have wf: "accounts_wf base (sDb s)" "invites_wf (sDb s)"
    using server_run_prims[OF assms empty_server_wf] by (auto simp: server_wf_def)
  have "acAdministrator r \<longleftrightarrow> r = hd (dAccounts (sDb s))" if "r \<in> set (dAccounts (sDb s))" for r
    using that wf(1) by (cases "dAccounts (sDb s)") (auto simp: accounts_wf_def)
  then show ?thesis using wf by (auto simp: accounts_wf_def invites_wf_def list_all_iff invite_ok_def)
qed

section \<open>Sessions\<close>

text \<open>A revoked session answers no bearer token, whatever the environment of the request.\<close>

lemma revoked_refused:
  assumes "server_wf base s" "revoked_at (sDb s) h i t" "t \<noteq> 0"
    "sha256 (pg env) (string_bytes (bearerToken r)) = h"
  shows "\<exists>e. authenticate env r s = (Inl e, s)"
proof (cases "authenticate env r s")
  case (Pair res s')
  show ?thesis
  proof (cases res)
    case (Inl e)
    with Pair authenticate_refused show ?thesis by auto
  next
    case (Inr token)
    from assms(2) obtain k where k: "k \<in> set (dTokens (sDb s))" "tkHash k = h" "tkRevokedAt k = Some t"
      by (auto simp: revoked_at_def)
    from Pair[unfolded Inr] obtain k' where k': "k' \<in> set (dTokens (sDb s))" "tkHash k' = h" "live_token k'"
      by (rule authenticate_success) (use assms(4) in auto)
    have "inj_on tkHash (set (dTokens (sDb s)))" using assms(1) by (simp add: server_wf_def tokens_wf_def distinct_map)
    from inj_onD[OF this, of k' k] k k' have "k' = k" by simp
    with k k' assms(3) show ?thesis by (simp add: live_token_def)
  qed
qed

text \<open>The session a revocation request addresses, as PostgreSQL reads its identifier.\<close>

definition addressed_session :: "'a auth_env_scheme \<Rightarrow> 'r http_request \<Rightarrow> server_state \<Rightarrow> uuid option" where
  "addressed_session env r s =
     (case authenticate env r s of
        (Inr token, _) \<Rightarrow> uuidIn (pg env) (if rqPathID r = ''current'' then stSessionID token else rqPathID r)
      | _ \<Rightarrow> None)"

text \<open>C24: A session ended stays ended. Once a revocation has been answered with success, a bearer token
  of the addressed session is refused by every later request, after any further requests.\<close>

theorem revoked_session_refused:
  assumes run: "server_run base empty_server s" "same_pg base (env :: auth_env)"
    and revoke: "revokeSession env r s = (reply, s1)" "succeeded reply" "addressed_session env r s = Some i"
      "clock env ''revokeSession'' \<noteq> 0"
    and later: "server_run base s1 s2" "same_pg base (env2 :: auth_env)"
    and bearer: "k \<in> set (dTokens (sDb s2))" "tkSession k = i" "tkHash k = sha256 base (string_bytes (bearerToken r2))"
  shows "\<exists>e. authenticate env2 r2 s2 = (Inl e, s2)"
proof -
  have wf: "server_wf base s" using server_run_prims[OF run(1) empty_server_wf] by simp
  have wf1: "server_wf base s1" using server_prims_wf[OF prims_revokeSession[OF revoke(1)] wf] .
  from server_run_prims[OF later(1) wf1] have later': "server_prims base s1 s2" and wf2: "server_wf base s2" by auto
  from revoke(1) obtain token sa db e where a: "authenticate env r s = (Inr token, sa)"
    "RevokeSession env (sDb sa) (stAccountID token)
       (if rqPathID r = ''current'' then stSessionID token else rqPathID r) (clock env ''revokeSession'') = Inr db"
    "s1 = audit_state env (sa\<lparr>sDb := db\<rparr>) e"
    by (cases rule: revokeSession_cases) (use revoke(2) in auto)
  from revoke_effect[OF a(2)] a(1) revoke(3) obtain a' where db: "list_ex (revocable a' i) (dTokens (sDb sa))"
    "db = (sDb sa)\<lparr>dTokens := map (\<lambda>r. if revocable a' i r then r\<lparr>tkRevokedAt := Some (clock env ''revokeSession'')\<rparr> else r)
       (dTokens (sDb sa))\<rparr>"
    by (auto simp: addressed_session_def)
  obtain k0 where k0: "k0 \<in> set (dTokens (sDb sa))" "revocable a' i k0"
    using db(1) by (auto simp: list_ex_iff)
  have "k0\<lparr>tkRevokedAt := Some (clock env ''revokeSession'')\<rparr> \<in> set (dTokens db)"
    unfolding db(2) using k0 by (auto intro: rev_image_eqI)
  then have "revoked_at db (tkHash k0) i (clock env ''revokeSession'')"
    unfolding revoked_at_def by (rule bexI[rotated]) (use k0(2) in \<open>simp add: revocable_def\<close>)
  then obtain h where "revoked_at db h i (clock env ''revokeSession'')" ..
  then have "revoked_at (sDb (sa\<lparr>sDb := db\<rparr>)) h i (clock env ''revokeSession'')" by simp
  from prims_last(2)[OF r_into_rtranclp[of "server_prim base", OF prim_audit] this, of env e]
  have "revoked_at (sDb s1) h i (clock env ''revokeSession'')" unfolding a(3) .
  then have rev: "revoked_at (sDb s2) h i (clock env ''revokeSession'')" by (rule prims_last(2)[OF later'])
  then obtain k' where k': "k' \<in> set (dTokens (sDb s2))" "tkHash k' = h" "tkSession k' = i" by (auto simp: revoked_at_def)
  have "inj_on tkSession (set (dTokens (sDb s2)))" using wf2 by (simp add: server_wf_def tokens_wf_def distinct_map)
  from inj_onD[OF this, of k k'] bearer(1,2) k' have "tkHash k = h" by simp
  with bearer(3) same_pgD(3)[OF later(2)] show ?thesis by (intro revoked_refused[OF wf2 rev revoke(4)]) simp
qed

section \<open>Invitations\<close>

lemma finishRegistration_success:
  assumes "finishRegistration env r s = (reply, s')" "succeeded reply"
  obtains request email h account t db e where "decodeRequest r = Some request"
    "canonicalEmail env (rfEmail request) = Some email" "inviteTokenHash env (rfInviteToken request) = Some h"
    "CreateInvitedAccount env (sDb s) h account t = Inr db" "baEmail account = email" "s' = audit_state env (s\<lparr>sDb := db\<rparr>) e"
proof -
  obtain request where d: "decodeRequest r = Some request"
    using assms by (cases "decodeRequest r") (auto simp: finishRegistration_def invalid_body_def)
  obtain email where m: "canonicalEmail env (rfEmail request) = Some email"
    using assms d by (cases "canonicalEmail env (rfEmail request)") (auto simp: finishRegistration_def)
  obtain h where h: "inviteTokenHash env (rfInviteToken request) = Some h"
    using assms d m by (cases "inviteTokenHash env (rfInviteToken request)") (auto simp: finishRegistration_def)
  note go = assms[unfolded finishRegistration_def Let_def] d m h
  from go obtain rec where r: "DecodeString StdAlphabet (rfRegistrationRecord request) = Some rec"
    by (cases "DecodeString StdAlphabet (rfRegistrationRecord request)") auto
  from go r obtain p where p: "decode_nonempty (rfPasswordVaultEnvelope request) = Some p"
    by (cases "decode_nonempty (rfPasswordVaultEnvelope request)") auto
  from go r p obtain q where q: "decode_nonempty (rfRecoveryVaultEnvelope request) = Some q"
    by (cases "decode_nonempty (rfRecoveryVaultEnvelope request)") auto
  from go r p q obtain reg where g: "readRegistrationRecord env rec = Some reg"
    by (cases "readRegistrationRecord env rec") auto
  let ?account = "\<lparr>baAccountID = rfAccountID request, baEmail = email, baAdministrator = False,
    baOpaqueRecord = reg, baPasswordVaultEnvelope = p, baRecoveryVaultEnvelope = q\<rparr>"
  from go r p q g obtain db where db: "CreateInvitedAccount env (sDb s) h ?account (clock env ''finishRegistration'') = Inr db"
    by (cases "CreateInvitedAccount env (sDb s) h ?account (clock env ''finishRegistration'')")
      (auto simp: writeRegistrationError_def split: if_splits)
  show thesis
    by (rule that[OF d m h db]) (use go r p q g db in \<open>auto split: if_splits\<close>)
qed

lemma spent_not_usable:
  assumes "spent_invite db i h" "distinct (map ivTokenHash (dInvites db))" "v \<in> set (dInvites db)"
  shows "\<not> usable_invite h email t v"
  using assms by (auto simp: spent_invite_def usable_invite_def pending_invite_def distinct_map inj_on_def)

text \<open>C25: An invitation works once. After a registration was completed with a token, no later attempt
  with it succeeds, by anyone and for any e-mail, as long as no other invitation has the same token.\<close>

theorem invitation_single_use:
  assumes run: "server_wf base s" "same_pg base (env :: auth_env)"
    and first: "finishRegistration env r s = (reply, s1)" "succeeded reply" "decodeRequest r = Some request"
    and later: "server_run base s1 s2" "same_pg base (env2 :: auth_env)" "distinct (map ivTokenHash (dInvites (sDb s2)))"
    and second: "finishRegistration env2 r2 s2 = (reply2, s3)" "decodeRequest r2 = Some request2"
      "rfInviteToken request2 = rfInviteToken request"
  shows "\<not> succeeded reply2"
proof
  assume ok: "succeeded reply2"
  from finishRegistration_success[OF first(1,2)] first(3) obtain h account t db e where
    h: "inviteTokenHash env (rfInviteToken request) = Some h" and
    c: "CreateInvitedAccount env (sDb s) h account t = Inr db" and s1: "s1 = audit_state env (s\<lparr>sDb := db\<rparr>) e"
    by (metis option.inject)
  from c obtain v :: invite_row and i db1 where v: "v \<in> set (dInvites (sDb s))" "usable_invite h (baEmail account) t v"
    and ins: "insert_account env (sDb s) account False = Inr (i, db1)"
    and db: "db = db1\<lparr>dInvites := map (\<lambda>r. if ivID r = ivID v then r\<lparr>ivConsumedBy := Some i, ivConsumedAt := Some t\<rparr> else r)
       (dInvites db1)\<rparr>"
    by (rule CreateInvitedAccount_effect)
  have "v\<lparr>ivConsumedBy := Some i, ivConsumedAt := Some t\<rparr> \<in> set (dInvites db)"
    using v(1) insert_account_tables(2)[OF ins] by (auto simp: db intro: rev_image_eqI)
  then have "spent_invite db (ivID v) h"
    unfolding spent_invite_def by (rule bexI[rotated]) (use v(2) in \<open>simp add: pending_invite_def usable_invite_def\<close>)
  then have "spent_invite (sDb (s\<lparr>sDb := db\<rparr>)) (ivID v) h" by simp
  from prims_last(3)[OF r_into_rtranclp[of "server_prim base", OF prim_audit] this, of env e]
  have "spent_invite (sDb s1) (ivID v) h" unfolding s1 .
  moreover have "server_prims base s1 s2"
    using server_run_prims[OF later(1)] server_prims_wf[OF prims_finishRegistration[OF first(1) run(2)] run(1)] by blast
  ultimately have spent: "spent_invite (sDb s2) (ivID v) h" using prims_last(3) by blast
  from finishRegistration_success[OF second(1) ok] second(2) obtain h2 account2 t2 db2 where
    h2: "inviteTokenHash env2 (rfInviteToken request2) = Some h2" and
    c2: "CreateInvitedAccount env2 (sDb s2) h2 account2 t2 = Inr db2"
    by (metis option.inject)
  have "h2 = h"
    using h h2 second(3) same_pgD(3)[OF run(2)] same_pgD(3)[OF later(2)]
    by (simp add: inviteTokenHash_def split: option.splits if_splits)
  with c2 spent_not_usable[OF spent later(3)] show False
    by (auto elim!: CreateInvitedAccount_effect)
qed

section \<open>Logins\<close>

lemma audit_state_tables [simp]:
  "dTokens (sDb (audit_state env s e)) = dTokens (sDb s)" "dAccounts (sDb (audit_state env s e)) = dAccounts (sDb s)"
  "sPending (audit_state env s e) = sPending s" "sVault (audit_state env s e) = sVault s"
  "sLimiter (audit_state env s e) = sLimiter s"
  using recordAudit_frame[of env "auditLog env" "sDb s" e] by (auto simp: audit_state_def)

text \<open>C23: A login needs its proof. An access token is handed out only for a pending login of a known
  account, not expired, whose last OPAQUE message the library accepted; the pending login is gone
  afterwards, so its answer cannot be used twice; exactly one token is stored, for that account and
  with its administrator right, under the digest of the text handed out. A refused login stores none.\<close>

theorem login_needs_proof:
  assumes "finishLogin env r s = (reply, s')"
  shows "(succeeded reply \<longrightarrow> (\<exists>request p a ke3 m k tok response.
      decodeRequest r = Some request \<and> reply = writeJSON 200 response \<and> lpAccessToken response = tok \<and>
      fmlookup (sPending s) (lfLoginID request) = Some p \<and> plAccount p = Some a \<and>
      clock env ''completeLogin'' \<le> plExpiresAt p \<and>
      DecodeString StdAlphabet (lfKE3 request) = Some ke3 \<and> readKE3 env ke3 = Some m \<and>
      loginFinish env m (plClientMAC p) \<and>
      fmlookup (sPending s') (lfLoginID request) = None \<and>
      dTokens (sDb s') = dTokens (sDb s) @ [k] \<and> uuidIn (pg env) (saAccountID a) = Some (tkAccount k) \<and>
      tkAdministrator k = saAdministrator a \<and> tkHash k = sha256 (pg env) (string_bytes tok))) \<and>
    (\<not> succeeded reply \<longrightarrow> dTokens (sDb s') = dTokens (sDb s))"
proof -
  show ?thesis
  proof (cases "decodeRequest r")
    case None
    with assms show ?thesis by (auto simp: finishLogin_def invalid_body_def)
  next
    case d: (Some request)
    show ?thesis
    proof (cases "DecodeString StdAlphabet (lfKE3 request)")
      case None
      with assms d show ?thesis by (auto simp: finishLogin_def)
    next
      case b: (Some ke3)
      obtain res s1 where c: "completeLogin env s (lfLoginID request) ke3 = (res, s1)" by fastforce
      note s1 = completeLogin_state[OF c]
      show ?thesis
      proof (cases res)
        case (Inl p)
        with assms d b c s1 show ?thesis by (auto simp: finishLogin_def)
      next
        case (Inr q)
        obtain p a where q: "q = (p, a)" by fastforce
        let ?s = "s1\<lparr>sLimiter := Reset (sLimiter s1) (plRateAccount p) (plSourceIP p)\<rparr>"
        show ?thesis
        proof (cases "issueAccessToken env ?s a (plHost p) (plSourceIP p)")
          case (Inl u)
          with assms d b c Inr q s1 show ?thesis by (auto simp: finishLogin_def)
        next
          case i: (Inr o2)
          obtain tok s2 where o2: "o2 = (tok, s2)" by fastforce
          from i[unfolded o2] obtain k db raw e1 e2 where
            k: "CreateAccessToken env (sDb ?s) k = Inr db" "stTokenHash k = sha256 (pg env) (string_bytes tok)"
              "stAccountID k = saAccountID a" "stAdministrator k = saAdministrator a"
              "s2 = audit_state env (audit_state env (?s\<lparr>sDb := db\<rparr>) e1) e2"
            by (rule issueAccessToken_success)
          from k(1) obtain row where row: "dTokens db = dTokens (sDb s) @ [row]"
            "uuidIn (pg env) (saAccountID a) = Some (tkAccount row)" "tkAdministrator row = saAdministrator a"
            "tkHash row = sha256 (pg env) (string_bytes tok)"
            by (rule CreateAccessToken_effect) (use k s1 in auto)
          from assms d b c Inr q i o2 obtain response where
            "reply = writeJSON 200 response" "lpAccessToken response = tok" "s' = s2"
            by (auto simp: finishLogin_def)
          moreover from c[unfolded Inr q] obtain m where "fmlookup (sPending s) (lfLoginID request) = Some p"
            "plAccount p = Some a" "clock env ''completeLogin'' \<le> plExpiresAt p" "readKE3 env ke3 = Some m"
            "loginFinish env m (plClientMAC p)" by (rule completeLogin_success)
          ultimately show ?thesis using d b row k(5) s1 by auto
        qed
      qed
    qed
  qed
qed

section \<open>Who may see what\<close>

text \<open>The request's bearer token is a stored, unrevoked one of the account \<open>i\<close>.\<close>

definition bearer_of :: "pg_env \<Rightarrow> 'r http_request \<Rightarrow> server_state \<Rightarrow> uuid \<Rightarrow> bool" where
  "bearer_of base r s i \<longleftrightarrow> (\<exists>k \<in> set (dTokens (sDb s)).
     tkHash k = sha256 base (string_bytes (bearerToken r)) \<and> live_token k \<and> tkAccount k = i)"

lemma authenticate_bearer:
  assumes "authenticate env r s = (Inr token, s')" "same_pg base env"
  shows "bearer_of base r s (stAccountID token)"
  using assms(1) by (rule authenticate_success)
    (auto simp: bearer_of_def token_of_row_def same_pgD(3)[OF assms(2)] intro!: bexI)

lemma administrator_bearer:
  assumes "authenticateAdministrator env r s = (Inr token, s')" "same_pg base env" "server_wf base s"
  shows "bearer_of base r s (acID (hd (dAccounts (sDb s))))"
proof -
  note a = authenticateAdministrator_success[OF assms(1)]
  from a obtain k db where k: "k \<in> set (dTokens (sDb s))" "token = (token_of_row k)\<lparr>stLastUsedAt := clock env ''AuthenticateToken''\<rparr>"
    by (blast elim: authenticate_success)
  have "tkAdministrator k" using a k(2) by (simp add: token_of_row_def)
  with k(1) assms(3) have "account_matches (sDb s) (tkAccount k) (tkEmail k) True"
    by (auto simp: server_wf_def tokens_wf_def)
  with assms(3) have "tkAccount k = acID (hd (dAccounts (sDb s)))"
    using account_matches_admin by (auto simp: server_wf_def)
  with authenticate_bearer[OF _ assms(2), of r s token s'] a k(2) show ?thesis by (simp add: token_of_row_def)
qed

text \<open>Each administrative handler stops at a failed authentication.\<close>

lemma administrator_gate:
  assumes "authenticateAdministrator env r s = (Inl e, s')"
  shows "\<not> succeeded (fst (createInvite env r s))"
  using assms by (simp add: createInvite_def unauthorized_def)

lemma administrator_gates:
  assumes "authenticateAdministrator env r s = (Inl e, s')"
  shows "\<not> succeeded (fst (listAccounts env r s))" "\<not> succeeded (fst (listInvites env r s))"
    "\<not> succeeded (fst (listAll env l r s))" "\<not> succeeded (fst (revokeInvite env r s))"
  using assms by (simp_all add: listAccounts_def listInvites_def listAll_def revokeInvite_def unauthorized_def)

lemma administrator_cases:
  assumes "same_pg base env" "server_wf base s"
  obtains (closed) e s' where "authenticateAdministrator env r s = (Inl e, s')"
  | (opened) "bearer_of base r s (acID (hd (dAccounts (sDb s))))"
proof (cases "authenticateAdministrator env r s")
  case (Pair res s')
  with closed opened administrator_bearer[OF _ assms] show thesis by (cases res) auto
qed

text \<open>C26: Administration is the administrator's. In every state the server can reach, the account list,
  the invitation list, the activity of all accounts, and creating or revoking an invitation are
  answered with success only to a stored, unrevoked token of the first account.\<close>

theorem administration_needs_administrator:
  assumes "server_run base empty_server s" "same_pg base (env :: auth_env)"
    "succeeded (fst (listAccounts env r1 s)) \<or> succeeded (fst (listInvites env r1 s)) \<or>
     succeeded (fst (listAll env l r1 s)) \<or> succeeded (fst (revokeInvite env r1 s)) \<or>
     succeeded (fst (createInvite env r2 s)) \<and> rqAuthorization r2 = rqAuthorization r1"
  shows "bearer_of base r1 s (acID (hd (dAccounts (sDb s))))"
proof -
  have wf: "server_wf base s" using server_run_prims[OF assms(1) empty_server_wf] by simp
  have same: "rqAuthorization r2 = rqAuthorization r1 \<Longrightarrow> bearer_of base r2 s i = bearer_of base r1 s i" for i
    by (simp add: bearer_of_def bearerToken_def)
  show ?thesis
  proof (cases "succeeded (fst (createInvite env r2 s)) \<and> rqAuthorization r2 = rqAuthorization r1")
    case True
    with administrator_cases[OF assms(2) wf, of r2] administrator_gate same show ?thesis by metis
  next
    case False
    with administrator_cases[OF assms(2) wf, of r1] administrator_gates assms(3) show ?thesis by metis
  qed
qed

section \<open>Whose vault a synchronization touches\<close>

lemma authenticate_vault: "authenticate env r s = (res, s') \<Longrightarrow> sVault s' = sVault s"
  by (auto simp: authenticate_def split: prod.splits)

lemma apply_all_length: "apply_all p a t ms db = Inr (ids, db') \<Longrightarrow> length ids \<le> length ms"
  by (induction ms arbitrary: db ids) (fastforce simp: bind_e_Inr_iff split: if_splits prod.splits)+

lemma answer_applied: "answer db acc n ids = Inr res \<Longrightarrow> vsApplied res = ids"
  by (auto simp: answer_def Let_def bind_e_Inr_iff split: if_splits)

lemma Sync_applied: "Sync p db acc c ms t = Inr (res, db') \<Longrightarrow> length (vsApplied res) \<le> length ms"
  by (elim Sync_parts) (simp add: answer_applied apply_all_length)

text \<open>C27: A synchronization touches one vault. A successful one carries a stored, unrevoked token of some
  account, changes no vault row of any other account, and keeps the vault well-formed; at most a
  hundred mutations were applied. Every refused one leaves all vaults as they were.\<close>

theorem sync_request_scope:
  assumes "sync (env :: auth_env) r s = (reply, s')" "same_pg base env" "server_wf base s"
  shows "(succeeded reply \<longrightarrow> (\<exists>i result. bearer_of base r s i \<and> reply = writeJSON 200 result \<and>
      same_elsewhere i (sVault s) (sVault s') \<and> vault_wf (sVault s') \<and> length (vsApplied result) \<le> 100)) \<and>
    (\<not> succeeded reply \<longrightarrow> sVault s' = sVault s)"
  using assms(1)
proof (cases rule: sync_cases)
  case (refused e)
  then show ?thesis by (auto simp: unauthorized_def dest: authenticate_vault)
next
  case (failed token s1)
  then show ?thesis by (auto simp: auditSyncFailure_def dest: authenticate_vault)
next
  case (accepted token s1 request result v)
  have "vault_wf (sVault s1)" using authenticate_vault[OF accepted(1)] assms(3) by (simp add: server_wf_def)
  from Sync_keeps[OF accepted(5) this same_pgD(1)[OF assms(2)] accepted(3)]
  have keeps: "vault_wf v" "same_elsewhere (stAccountID token) (sVault s1) v" by auto
  have "length (vsApplied result) \<le> length (syMutations request)"
    using Sync_applied[OF accepted(5)] by (simp add: normalizeMutations_def)
  with accepted(4) have "length (vsApplied result) \<le> 100" by (simp add: maximumSyncMutations_def)
  with accepted keeps authenticate_bearer[OF accepted(1) assms(2)] authenticate_vault[OF accepted(1)] show ?thesis by auto
qed

section \<open>How fast one source can try\<close>

text \<open>
  The logins one source begins for one e-mail. \<open>admitted\<close> is the moment the limiter lets a
  request through, \<open>counted\<close> the moment it is recorded; the two are apart, and \<open>m\<close> requests,
  at most \<open>p\<close>, are in between. \<open>ts\<close> lists when the requests were let through, \<open>now\<close>
  is the time of the last event. Anything else that leaves this source's count alone may happen:
  other sources and accounts, refused requests and requests that fail before they are recorded;
  not the completion of a login of this account from this source, which resets the count.
\<close>

inductive begun ::
  "nat \<Rightarrow> string \<Rightarrow> string \<Rightarrow> server_state \<Rightarrow> nat \<Rightarrow> time list \<Rightarrow> time \<Rightarrow> server_state \<Rightarrow> bool" for p a ip s0 where
  none: "begun p a ip s0 0 [] 0 s0"
| other: "begun p a ip s0 m ts now s \<Longrightarrow> attempt_of (sLimiter s') (a, ip) = attempt_of (sLimiter s) (a, ip) \<Longrightarrow>
    begun p a ip s0 m ts now s'"
| admitted: "begun p a ip s0 m ts now s \<Longrightarrow> m < p \<Longrightarrow>
    admitLogin (env :: auth_env) r s = Inr (a, encoded, host, ip) \<Longrightarrow>
    clock env ''RetryAfter'' = t \<Longrightarrow> now \<le> t \<Longrightarrow> 0 < t \<Longrightarrow> begun p a ip s0 (Suc m) (ts @ [t]) t s"
| counted: "begun p a ip s0 (Suc m) ts now s \<Longrightarrow> countLogin (env :: auth_env) s a ip = s' \<Longrightarrow>
    clock env ''RecordFailure'' = t \<Longrightarrow> now \<le> t \<Longrightarrow> begun p a ip s0 m ts t s'"

lemma admitLogin_waits:
  assumes "admitLogin env r s = Inr (email, encoded, host, ip)"
  shows "RetryAfter (sLimiter s) email ip (clock env ''RetryAfter'') = 0"
proof -
  have "RetryAfter (sLimiter s) email ip (clock env ''RetryAfter'') \<le> 0"
    using assms by (auto simp: admitLogin_def Let_def split: option.splits if_splits)
  with RetryAfter_nonneg show ?thesis by (rule antisym [rotated])
qed

lemma begun_overlapping:
  "begun p a ip s0 m ts now s \<Longrightarrow> overlapping p a ip (sLimiter s0) m ts now (sLimiter s)"
proof (induction rule: begun.induct)
  case none
  show ?case by (rule overlapping.none)
next
  case (other m ts now s s')
  then show ?case by (blast intro: overlapping.other)
next
  case (admitted m ts now s env r encoded host t)
  from admitLogin_waits[OF admitted.hyps(3)] admitted.hyps(4)
  have "RetryAfter (sLimiter s) a ip t = 0" by simp
  with admitted show ?case by (blast intro: overlapping.admit)
next
  case (counted m ts now s env s' t)
  then have "sLimiter s' = RecordFailure (sLimiter s) a ip t" by (auto simp: countLogin_def)
  with counted show ?case by (auto intro: overlapping.recorded)
qed

text \<open>A \<open>startLogin\<close> that is not interleaved is both events at once.\<close>

lemma startLogin_begun:
  assumes "begun p a ip s0 m ts now s" "m < p" "startLogin (env :: auth_env) r s = (reply, s')" "succeeded reply"
    "decodeRequest r = Some request" "canonicalEmail env (lsEmail request) = Some a" "rqClientIP r = ip"
    "now \<le> clock env ''RetryAfter''" "0 < clock env ''RetryAfter''" "clock env ''RetryAfter'' \<le> clock env ''RecordFailure''"
  shows "begun p a ip s0 m (ts @ [clock env ''RetryAfter'']) (clock env ''RecordFailure'') s'"
proof -
  from assms(3-7) obtain encoded host i ke2 s1 where login: "admitLogin env r s = Inr (a, encoded, host, ip)"
    "beginLogin env s a encoded host ip = Some (i, ke2, s1)" "s' = countLogin env s1 a ip"
    by (auto simp: startLogin_def admitLogin_def Let_def split: option.splits if_splits prod.splits)
  from begun.admitted[OF assms(1,2) login(1) refl assms(8,9)]
  have "begun p a ip s0 (Suc m) (ts @ [clock env ''RetryAfter'']) (clock env ''RetryAfter'') s1"
    by (rule begun.other) (use login(2) in \<open>auto elim!: beginLogin_success\<close>)
  then show ?thesis using assms(10) login(3) by (blast intro: begun.counted)
qed

text \<open>C28: Guessing is slow. From the moment the count of an account and a source is zero (of a new
  limiter, or after a completed login) and as long as no login of that account from that source is
  completed, a source that keeps at most \<open>p\<close> requests between the limiter's check and its
  record at a time begins few logins: if \<open>n\<close> requests are let through within \<open>T\<close>
  minutes, then \<open>180 n \<le> p (13 T + 24 \<cdot> 60)\<close>, so at most \<open>8 p\<close> at once and
  in the long run \<open>13 p\<close> in three hours, however they are spread, interleaved and recorded and
  although a day's pause resets the count. The factor \<open>p\<close> is real: requests that are checked
  before any of them is recorded all pass.\<close>

theorem guessing_is_slow:
  assumes "begun p a ip s m ts now s'" "attempt_of (sLimiter s) (a, ip) = \<lparr>failures = 0, lastFailed = 0\<rparr>" "ts \<noteq> []"
  shows "minutes 180 * int (length ts) \<le> int p * (13 * (last ts - hd ts) + hours 24)"
  using overlapping_bound[OF begun_overlapping[OF assms(1)] assms(2,3)] .

section \<open>The client address\<close>

text \<open>C30: A client cannot choose its address. From a peer that is not a trusted proxy the forwarding header
  is ignored; behind a trusted one, whatever the client wrote in front of the entries the proxies
  appended is ignored: the address is the first entry from the right that is not a trusted hop.\<close>

theorem client_address_not_forged:
  assumes "parseAddr net (case splitHostPort net remoteAddr of None \<Rightarrow> remoteAddr | Some h \<Rightarrow> h) = Some remote"
  shows "(\<not> isTrusted net remote trusted \<longrightarrow> clientIP net remoteAddr xff trusted = addrString net remote) \<and>
    (isTrusted net remote trusted \<longrightarrow> CHR '','' \<notin> set entry \<longrightarrow> parseAddr net (TrimSpace entry) = Some ip \<longrightarrow>
       \<not> isTrusted net ip trusted \<longrightarrow> (\<forall>hop \<in> set hops. trusted_hop net trusted hop \<and> CHR '','' \<notin> set hop) \<longrightarrow>
       clientIP net remoteAddr (forged @ '','' @ entry @ concat (map (\<lambda>hop. '','' @ hop) hops)) trusted = TrimSpace entry)"
proof -
  have split: "\<forall>hop \<in> set hops. CHR '','' \<notin> set hop \<Longrightarrow>
      Split (s @ concat (map (\<lambda>hop. '','' @ hop) hops)) (CHR '','') = Split s (CHR '','') @ hops" for s
  proof (induction hops arbitrary: s)
    case (Cons hop hops)
    from Cons.IH[of "s @ '','' @ hop"] Cons.prems Split_snoc[of hop s] show ?case by simp
  qed simp
  have "clientIP net remoteAddr (forged @ '','' @ entry @ concat (map (\<lambda>hop. '','' @ hop) hops)) trusted = TrimSpace entry"
    if "isTrusted net remote trusted" "CHR '','' \<notin> set entry" "parseAddr net (TrimSpace entry) = Some ip"
      "\<not> isTrusted net ip trusted" "\<forall>hop \<in> set hops. trusted_hop net trusted hop \<and> CHR '','' \<notin> set hop"
  proof -
    have "Split (forged @ '','' @ entry @ concat (map (\<lambda>hop. '','' @ hop) hops)) (CHR '','') =
        (Split forged (CHR '','') @ [entry]) @ hops"
      using split[of "forged @ '','' @ entry"] Split_snoc[OF that(2)] that(5) by simp
    then show ?thesis
      using that assms walk_forwarded_skip[of "rev hops" net trusted "addrString net remote" "entry # rev (Split forged (CHR '',''))"]
      by (simp add: clientIP_def Let_def)
  qed
  then show ?thesis using assms by (auto simp: clientIP_def Let_def)
qed

section \<open>The audit log\<close>

text \<open>The configured retention never overflows. An accepted text gives a whole number of days, at least
  one, that fits a 64-bit duration, and a log made with it keeps exactly that retention.\<close>

lemma audit_retention_bounds:
  assumes "ParseAuditRetention value = Some d"
  shows "hours 24 \<le> d \<and> d \<le> max_duration \<and> d mod hours 24 = 0 \<and> alRetention (NewAuditLog d) = d"
proof -
  have "n * hours 24 \<le> max_duration" if "n \<le> max_duration div hours 24" for n
    using that by (simp add: max_duration_def hours_def)
  moreover have "1 * hours 24 \<le> n * hours 24" if "1 \<le> n" for n
    using that by (intro mult_right_mono) (simp_all add: hours_def)
  ultimately show ?thesis
    using assms by (auto simp: ParseAuditRetention_def NewAuditLog_def Let_def defaultAuditRetention_def hours_def
        max_duration_def split: if_splits option.splits)
qed

text \<open>Reading the activity list to its end: each page's cursor asks for the next, at most \<open>fuel\<close> pages.\<close>

definition page_request :: "string \<Rightarrow> string \<Rightarrow> unit http_request" where
  "page_request limit cursor =
     \<lparr>rqAuthorization = [], rqClientIP = [], rqPathID = [],
      rqQuery = (\<lambda>k. if k = ''limit'' then limit else if k = ''cursor'' then cursor else []),
      rqBody = \<lparr>bodyValue = None, bodyValueLength = 0, bodyRest = []\<rparr>\<rparr>"

fun read_pages ::
  "auth_env \<Rightarrow> audit_log \<Rightarrow> auth_db \<Rightarrow> string \<Rightarrow> string \<Rightarrow> nat \<Rightarrow> string \<Rightarrow> audit_event list option" where
  "read_pages env l db account limit 0 cursor = None"
| "read_pages env l db account limit (Suc fuel) cursor =
     (case fst (activity_list env l db (page_request limit cursor) account True) of
        HttpReply _ (Some page) \<Rightarrow>
          if pgNextCursor page = [] then Some (pgEvents page)
          else map_option (\<lambda>rest. pgEvents page @ rest) (read_pages env l db account limit fuel (pgNextCursor page))
      | _ \<Rightarrow> None)"

definition event_key :: "event_row \<Rightarrow> time \<times> uuid" where
  "event_key r = (evOccurredAt r, evID r)"

definition visible_events :: "auth_db \<Rightarrow> string \<Rightarrow> event_row list" where
  "visible_events db account =
     ordered_events (filter (\<lambda>r. account = [] \<or> evAccount r = Some account) (dEvents db))"

text \<open>The listing works: no statement fails, nothing has expired, and rows and cursors are regular.\<close>

definition listable :: "auth_env \<Rightarrow> audit_log \<Rightarrow> auth_db \<Rightarrow> string \<Rightarrow> bool" where
  "listable env l db account \<longleftrightarrow>
     \<not> fault env ''DeleteAuditEventsBefore'' \<and> \<not> fault env ''ListAuditEvents'' \<and>
     (account = [] \<or> uuidIn (pg env) account = Some account) \<and>
     distinct (map evID (dEvents db)) \<and>
     (\<forall>r \<in> set (dEvents db). unmarshalCursor env (marshalCursor env (event_key r)) = Some (event_key r) \<and>
        marshalCursor env (event_key r) \<noteq> []) \<and>
     (\<forall>r \<in> set (dEvents db). evOccurredAt r \<noteq> 0 \<and> evID r \<noteq> [] \<and> uuidIn (pg env) (evID r) = Some (evID r) \<and>
        clock env ''list/cutoff'' - alRetention l \<le> evOccurredAt r)"

lemma ordered_filter: "ordered_events (filter P xs) = filter P (ordered_events xs)"
  by (simp add: ordered_events_def rev_filter flip: filter_sort)

lemma ordered_decreasing:
  assumes "distinct (map evID xs)"
  shows "sorted_wrt (\<lambda>x y. event_key y < event_key x) (ordered_events xs)"
proof -
  let ?ys = "sort_key (\<lambda>r. (evOccurredAt r, evID r)) xs"
  have "sorted (map event_key ?ys)" by (simp add: event_key_def[abs_def])
  moreover have "distinct (map event_key ?ys)"
    using assms by (auto simp: distinct_map inj_on_def event_key_def)
  ultimately have "sorted_wrt (<) (map event_key ?ys)" by (simp add: strict_sorted_iff)
  then show ?thesis by (simp add: ordered_events_def sorted_wrt_rev sorted_wrt_map)
qed

lemma after_last:
  assumes "sorted_wrt (\<lambda>x y. event_key y < event_key x) (xs @ [x] @ ys)"
  shows "filter (\<lambda>r. event_key r < event_key x) (xs @ [x] @ ys) = ys"
proof -
  have "filter (\<lambda>r. event_key r < event_key x) xs = []"
    using assms by (auto simp: sorted_wrt_append filter_empty_conv dest: less_asym)
  moreover have "filter (\<lambda>r. event_key r < event_key x) ys = ys"
    using assms by (auto simp: sorted_wrt_append filter_id_conv)
  ultimately show ?thesis by simp
qed

lemma listing:
  assumes ok: "listable env l db account" and "page_limit limit = Some n"
    and cursor: "cursor = [] \<and> rest = visible_events db account \<or>
      (\<exists>x \<in> set (dEvents db). cursor = encodeAuditCursor env (event_of_row x) \<and>
         rest = filter (\<lambda>r. event_key r < event_key x) (visible_events db account))"
  shows "fst (activity_list env l db (page_request limit cursor) account True) =
    writeJSON 200 (page_of env n True (map event_of_row (take (Suc n) rest)))"
proof -
  have keep: "DeleteAuditEventsBefore env db (clock env ''list/cutoff'' - alRetention l) = Inr db"
  proof -
    have "filter (\<lambda>r. \<not> evOccurredAt r < clock env ''list/cutoff'' - alRetention l) (dEvents db) = dEvents db"
      using ok by (auto simp: listable_def filter_id_conv)
    then show ?thesis using ok by (simp add: listable_def DeleteAuditEventsBefore_def stmt_def)
  qed
  have account: "(if account \<noteq> [] then map_sum id Some (as_uuid env account) else Inr None) =
      (Inr (if account = [] then None else Some account) :: store_error + uuid option)"
    using ok by (auto simp: listable_def as_uuid_def)
  have visible: "(\<lambda>r. (if account = [] then None else Some account) = None \<or>
      evAccount r = (if account = [] then None else Some account)) = (\<lambda>r. account = [] \<or> evAccount r = Some account)"
    by auto
  show ?thesis using cursor
  proof (elim disjE conjE bexE)
    assume c: "cursor = []" "rest = visible_events db account"
    then have "auditQuery env (page_request limit cursor) account =
        Some \<lparr>aqAccountID = account, aqBeforeAt = 0, aqBeforeID = [], aqLimit = n + 1\<rparr>"
      using assms(2) by (simp add: auditQuery_def page_request_def)
    then show ?thesis using ok account visible c(2)
      by (simp add: activity_list_def audit_list_def keep ListAuditEvents_def stmt_def listable_def visible_events_def
          cong: if_cong)
  next
    fix x assume x: "x \<in> set (dEvents db)" "cursor = encodeAuditCursor env (event_of_row x)"
      "rest = filter (\<lambda>r. event_key r < event_key x) (visible_events db account)"
    have d: "decodeAuditCursor env cursor = Some (evOccurredAt x, evID x)" "cursor \<noteq> []"
      using ok x(1,2) by (auto simp: decodeAuditCursor_def encodeAuditCursor_def decode_encode listable_def
          event_of_row_def Let_def event_key_def)
    then have q: "auditQuery env (page_request limit cursor) account =
        Some \<lparr>aqAccountID = account, aqBeforeAt = evOccurredAt x, aqBeforeID = evID x, aqLimit = n + 1\<rparr>"
      using assms(2) by (simp add: auditQuery_def page_request_def Let_def)
    have "evOccurredAt x \<noteq> 0" "as_uuid env (evID x) = Inr (evID x)"
      using ok x(1) by (auto simp: listable_def as_uuid_def)
    moreover have "rest = ordered_events (filter (\<lambda>r. (account = [] \<or> evAccount r = Some account) \<and>
        before_page (evOccurredAt x, evID x) r) (dEvents db))"
      by (simp add: x(3) visible_events_def before_page_def event_key_def conj_commute flip: ordered_filter)
    ultimately show ?thesis using ok account visible q
      by (simp add: activity_list_def audit_list_def keep ListAuditEvents_def stmt_def listable_def cong: if_cong)
  qed
qed

lemma page_limit_bounds: "page_limit limit = Some n \<Longrightarrow> 1 \<le> n \<and> n \<le> 100"
  by (auto simp: page_limit_def defaultAuditPageSize_def maximumAuditPageSize_def split: if_splits option.splits)

lemma visible_member: "x \<in> set (visible_events db account) \<Longrightarrow> x \<in> set (dEvents db)"
  by (auto simp: visible_events_def ordered_events_def)

lemma visible_decreasing:
  "distinct (map evID (dEvents db)) \<Longrightarrow> sorted_wrt (\<lambda>x y. event_key y < event_key x) (visible_events db account)"
  unfolding visible_events_def by (rule ordered_decreasing) (simp add: distinct_map_filter)

lemma read_rest:
  assumes ok: "listable env l db account" and n: "page_limit limit = Some n"
  shows "length rest < fuel \<Longrightarrow> visible_events db account = pre @ rest \<Longrightarrow>
    (pre = [] \<and> cursor = [] \<or> pre \<noteq> [] \<and> cursor = encodeAuditCursor env (event_of_row (last pre))) \<Longrightarrow>
    read_pages env l db account limit fuel cursor = Some (map event_of_row rest)"
proof (induction fuel arbitrary: rest pre cursor)
  case (Suc fuel)
  have pre: "rest = filter (\<lambda>r. event_key r < event_key (last pre)) (visible_events db account)" if "pre \<noteq> []"
  proof -
    have v: "visible_events db account = butlast pre @ [last pre] @ rest"
      using that Suc.prems(2) append_butlast_last_id[OF that] by (metis append_assoc)
    have "sorted_wrt (\<lambda>x y. event_key y < event_key x) (visible_events db account)"
      using ok by (intro visible_decreasing) (simp add: listable_def)
    from after_last[OF this[unfolded v]] show ?thesis unfolding v by (rule sym)
  qed
  have "last pre \<in> set (dEvents db)" if "pre \<noteq> []"
    using that Suc.prems(2) visible_member[of "last pre" db account] by simp
  with Suc.prems(2,3) pre have "fst (activity_list env l db (page_request limit cursor) account True) =
      writeJSON 200 (page_of env n True (map event_of_row (take (Suc n) rest)))"
    by (intro listing[OF ok n]) auto
  note page = this[unfolded writeJSON_def]
  show ?case
  proof (cases "n < length rest")
    case False
    with page show ?thesis by (simp add: page_of_def)
  next
    case True
    let ?first = "take n rest"
    have first: "?first \<noteq> []" "length (drop n rest) < fuel"
      using True Suc.prems(1) page_limit_bounds[OF n] by auto
    have p: "page_of env n True (map event_of_row (take (Suc n) rest)) =
        \<lparr>pgEvents = map event_of_row ?first, pgNextCursor = encodeAuditCursor env (event_of_row (last ?first)), pgCanViewAll = True\<rparr>"
      using True first(1) by (simp add: page_of_def take_map last_map min_def)
    have "read_pages env l db account limit fuel (encodeAuditCursor env (event_of_row (last ?first))) =
        Some (map event_of_row (drop n rest))"
      by (rule Suc.IH[OF first(2), of "pre @ ?first"]) (use Suc.prems(2) first(1) in auto)
    moreover have "encodeAuditCursor env (event_of_row (last ?first)) \<noteq> []"
    proof -
      have "last ?first \<in> set (visible_events db account)"
        using Suc.prems(2) last_in_set[OF first(1)] by (auto dest: in_set_takeD)
      then have "last ?first \<in> set (dEvents db)" by (rule visible_member)
      then show ?thesis using ok by (simp add: encodeAuditCursor_def listable_def event_of_row_def Let_def event_key_def)
    qed
    ultimately show ?thesis using page p by (simp flip: map_append)
  qed
qed simp

text \<open>C29: The activity list is complete. Following the cursors page by page, with any page size the
  service accepts, shows every stored event the account may see exactly once, newest first.\<close>

theorem activity_pages_complete:
  assumes "listable env l db account" "page_limit limit = Some n" "length (visible_events db account) < fuel"
  shows "read_pages env l db account limit fuel [] = Some (map event_of_row (visible_events db account)) \<and>
    mset (visible_events db account) = mset (filter (\<lambda>r. account = [] \<or> evAccount r = Some account) (dEvents db)) \<and>
    sorted_wrt (\<lambda>x y. event_key y < event_key x) (visible_events db account)"
  using read_rest[OF assms(1,2,3), of "[]" "[]"] visible_decreasing[of db account] assms(1)
  by (simp add: visible_events_def ordered_events_def listable_def)

section \<open>The properties on concrete requests\<close>

theorem accounts_by_invitation_witness:
  "mset (consumers (dInvites (sDb joined))) = mset [uB] \<and> account_matches (sDb joined) uB ''b@x'' False"
  using accounts_by_invitation[OF run_joined] by (simp add: joined_def invite_row0_def)

theorem revoked_session_refused_witness:
  "\<exists>e. authenticate sample_env (request_of bearer_text [] ()) outside = (Inl e, outside)"
proof (rule revoked_session_refused[OF run_inside sample_same_pg revoke _ _ _ server_run.initially sample_same_pg])
  show "addressed_session sample_env (request_of bearer_text ''current'' ()) inside = Some uS"
    by (simp add: addressed_session_def authenticate_inside)
  show "dead_token \<in> set (dTokens (sDb outside))" by (simp add: outside_def)
  show "tkSession dead_token = uS" by (simp add: dead_token_def)
  show "tkHash dead_token = sha256 sample_pg (string_bytes (bearerToken (request_of bearer_text [] ())))"
    by (simp add: dead_token_def)
qed simp_all

theorem invitation_single_use_witness:
  "\<not> succeeded (fst (finishRegistration sample_env (request_of [] [] join_request) joined))"
proof -
  have wf: "server_wf sample_pg inviting" using server_run_prims[OF run_inviting empty_server_wf] by simp
  obtain reply s3 where f: "finishRegistration sample_env (request_of [] [] join_request) joined = (reply, s3)" by fastforce
  have "\<not> succeeded reply"
    by (rule invitation_single_use[OF wf sample_same_pg join _ _ server_run.initially sample_same_pg _ f])
      (simp_all add: joined_def invite_row0_def)
  with f show ?thesis by simp
qed

theorem login_needs_proof_witness:
  "dTokens (sDb inside) = dTokens (sDb waiting) @ [admin_token] \<and> fmlookup (sPending inside) sample_login = None"
proof -
  from login_done obtain response where
    d: "finishLogin sample_env (request_of [] [] finish_request) waiting = (writeJSON 200 response, inside)" by blast
  from login_needs_proof[OF d] show ?thesis by (auto simp: finish_request_def)
qed

lemma list_inside: "succeeded (fst (listAccounts sample_env (request_of bearer_text [] ()) inside))"
  by (simp add: listAccounts_def authenticateAdministrator_def authenticate_inside ListAccounts_def)

theorem administration_needs_administrator_witness:
  "bearer_of sample_pg (request_of bearer_text [] ()) inside uA"
  using administration_needs_administrator[OF run_inside sample_same_pg, of "request_of bearer_text [] ()" undefined undefined]
    list_inside by simp

lemma sync_inside:
  "\<exists>result. sync sample_env (request_of bearer_text [] \<lparr>syCursor = [], syMutations = []\<rparr>) inside =
     (writeJSON 200 result, inside)"
proof -
  have "Sync sample_pg empty_vault uA [] [] 1 = Inr (\<lparr>vsCursor = dec 0, vsFullSnapshot = False, vsApplied = [], vsChanges = []\<rparr>, empty_vault)"
    by (simp add: Sync_def parseSyncCursor_def prune_changes_def purgeExpiredVaultItems_def expired_trash_def
        map_filter_simps answer_def cursor_of_def retained_changes_def changes_after_def empty_vault_def Let_def)
  then show ?thesis
    by (simp add: sync_def authenticate_inside normalizeMutations_def validMutations_def Let_def) blast
qed

theorem sync_request_scope_witness:
  "\<exists>i. bearer_of sample_pg (request_of bearer_text [] \<lparr>syCursor = [], syMutations = []\<rparr>) inside i \<and>
     same_elsewhere i (sVault inside) (sVault inside)"
proof -
  from sync_inside obtain result where
    s: "sync sample_env (request_of bearer_text [] \<lparr>syCursor = [], syMutations = []\<rparr>) inside = (writeJSON 200 result, inside)"
    by blast
  have "server_wf sample_pg inside" using server_run_prims[OF run_inside empty_server_wf] by simp
  from sync_request_scope[OF s sample_same_pg this] show ?thesis by auto
qed

theorem guessing_is_slow_witness: "minutes 180 * 2 \<le> 2 * (13 * (1 - 1 :: int) + hours 24)"
proof -
  have admit: "admitLogin sample_env (request_of [] [] login_request) booted = Inr (''a@x'', [1], ''h'', ''1'')"
    by (simp add: admitLogin_def login_request_def Let_def RetryAfter_def)
  have t: "clock sample_env ''RetryAfter'' = 1" by simp
  have "begun 2 ''a@x'' ''1'' booted (Suc 0) ([] @ [1]) 1 booted"
    by (rule begun.admitted[OF begun.none _ admit t]) simp_all
  then have "begun 2 ''a@x'' ''1'' booted (Suc (Suc 0)) (([] @ [1]) @ [1]) 1 booted"
    by (rule begun.admitted[OF _ _ admit t]) simp_all
  then have "begun 2 ''a@x'' ''1'' booted (Suc 0) (([] @ [1]) @ [1]) 1 (countLogin sample_env booted ''a@x'' ''1'')"
    by (rule begun.counted[OF _ refl]) simp_all
  from guessing_is_slow[OF this] show ?thesis by simp
qed

definition sample_net :: "(string, string) net_env" where
  "sample_net = \<lparr>splitHostPort = Some, parseAddr = Some, addrString = id, prefixContains = (=)\<rparr>"

theorem client_address_not_forged_witness:
  "clientIP sample_net ''p'' ''evil,c,p'' [''p''] = ''c'' \<and> clientIP sample_net ''q'' ''evil,c,p'' [''p''] = ''q''"
proof -
  have c: "TrimSpace ''c'' = ''c''" "TrimSpace ''p'' = ''p''" by code_simp+
  show ?thesis
    using client_address_not_forged[of sample_net "''p''" "''p''" "[''p'']" _ "''c''" "''c''" "[''p'']" "''evil''"]
      client_address_not_forged[of sample_net "''q''" "''q''" "[''p'']" "''evil,c,p''"]
    by (simp add: sample_net_def isTrusted_def trusted_hop_def c)
qed

lemma audit_retention_bounds_witness:
  "ParseAuditRetention ''30'' = Some (30 * hours 24) \<and> 30 * hours 24 \<le> max_duration"
proof -
  have t: "TrimSpace ''30'' = ''30''" by code_simp
  have "ParseInt ''30'' = Some 30" by (simp add: ParseInt_def ParseUint_def digit_val_def)
  then have "ParseAuditRetention ''30'' = Some (30 * hours 24)"
    by (simp add: ParseAuditRetention_def t max_duration_def hours_def)
  from audit_retention_bounds[OF this] this show ?thesis by simp
qed

definition event_a :: event_row where
  "event_a = \<lparr>evID = uA, evType = ''login.failed'', evAccount = None, evActor = None, evSession = None, evInvite = None,
     evSourceIP = ''1'', evOccurredAt = 5\<rparr>"

definition event_b :: event_row where "event_b = event_a\<lparr>evID := uB, evOccurredAt := 3\<rparr>"

definition two_events :: auth_db where "two_events = (sDb empty_server)\<lparr>dEvents := [event_b, event_a]\<rparr>"

lemma string_bytes_uuids: "string_bytes uA \<noteq> string_bytes uB" "string_bytes uA \<noteq> []" "string_bytes uB \<noteq> []"
  by (simp_all add: string_bytes_def uA_def uB_def)

theorem activity_pages_complete_witness:
  "read_pages sample_env (NewAuditLog 0) two_events [] ''1'' 3 [] = Some [event_of_row event_a, event_of_row event_b]"
proof -
  have v: "visible_events two_events [] = [event_a, event_b]"
    by (simp add: visible_events_def ordered_events_def two_events_def event_a_def event_b_def)
  have "ParseInt ''1'' = Some 1" by (simp add: ParseInt_def ParseUint_def digit_val_def)
  then have l: "page_limit ''1'' = Some 1" by (simp add: page_limit_def maximumAuditPageSize_def)
  have "listable sample_env (NewAuditLog 0) two_events []"
    using string_bytes_uuids
    by (simp add: listable_def two_events_def event_a_def event_b_def sample_env_def event_key_def NewAuditLog_def
        defaultAuditRetention_def hours_def validUUID_nonempty)
  from activity_pages_complete[OF this l, of 3] v show ?thesis by simp
qed

end
