(* ===== verification/PasswordGenerator.thy ===== *)
theory PasswordGenerator
  imports Prelude
begin

text \<open>
  The password generator (\<open>internal/client/password_generator.go\<close>). Randomness is a source
  that answers the \<open>n\<close>-th call of \<open>rand.Int\<close> for a given bound, or fails; the number
  of calls made so far is passed through the computation.
\<close>

section \<open>Configuration\<close>

definition PasswordUppercaseCharacters :: string where "PasswordUppercaseCharacters = ''ABCDEFGHIJKLMNOPQRSTUVWXYZ''"
definition PasswordLowercaseCharacters :: string where "PasswordLowercaseCharacters = ''abcdefghijklmnopqrstuvwxyz''"
definition PasswordDigits :: string where "PasswordDigits = ''0123456789''"
definition PasswordSpecialCharacters :: string where "PasswordSpecialCharacters = ''!@#$%^&*()-_=+[]{};:,.?/|''"
definition PasswordAmbiguousCharacters :: string where "PasswordAmbiguousCharacters = ''Il1O0o|''"

lemmas password_characters = PasswordUppercaseCharacters_def PasswordLowercaseCharacters_def
  PasswordDigits_def PasswordSpecialCharacters_def PasswordAmbiguousCharacters_def

record password_generator_config =
  pgLength :: int
  pgUppercase :: bool
  pgLowercase :: bool
  pgDigits :: bool
  pgSpecial :: bool
  pgMinimumDigits :: int
  pgMinimumSpecial :: int
  pgExcludeAmbiguous :: bool

definition passwordCharacters :: "password_generator_config \<Rightarrow> string \<Rightarrow> string" where
  "passwordCharacters config characters =
     (if \<not> pgExcludeAmbiguous config then characters
      else filter (\<lambda>c. c \<notin> set PasswordAmbiguousCharacters) characters)"

definition passwordCharacterSet :: "password_generator_config \<Rightarrow> string" where
  "passwordCharacterSet config =
     passwordCharacters config
       ((if pgUppercase config then PasswordUppercaseCharacters else []) @
        (if pgLowercase config then PasswordLowercaseCharacters else []) @
        (if pgDigits config then PasswordDigits else []) @
        (if pgSpecial config then PasswordSpecialCharacters else []))"

definition ValidatePasswordGeneratorConfig :: "password_generator_config \<Rightarrow> bool" where
  "ValidatePasswordGeneratorConfig config \<longleftrightarrow>
     \<not> (pgLength config < 5 \<or> pgLength config > 128 \<or>
        pgMinimumDigits config < 0 \<or> pgMinimumSpecial config < 0 \<or>
        (pgMinimumDigits config > 0 \<and> \<not> pgDigits config) \<or>
        (pgMinimumSpecial config > 0 \<and> \<not> pgSpecial config) \<or>
        pgMinimumDigits config > pgLength config \<or>
        pgMinimumSpecial config > pgLength config - pgMinimumDigits config \<or>
        passwordCharacterSet config = [])"

section \<open>Drawing characters\<close>

datatype password_error = ErrInvalidPasswordGeneratorConfig | RandomFailed | RandIntPanic | IndexPanic

type_synonym random_source = "nat \<Rightarrow> int \<Rightarrow> int option"

definition randomPasswordIndex :: "random_source \<Rightarrow> int \<Rightarrow> nat \<Rightarrow> password_error + (int \<times> nat)" where
  "randomPasswordIndex rnd limit k =
     (if limit \<le> 0 then Inl RandIntPanic
      else case rnd k limit of None \<Rightarrow> Inl RandomFailed | Some v \<Rightarrow> Inr (v, k + 1))"

definition randomPasswordCharacter :: "random_source \<Rightarrow> string \<Rightarrow> nat \<Rightarrow> password_error + (char \<times> nat)" where
  "randomPasswordCharacter rnd characters k =
     bind_e (randomPasswordIndex rnd (int (length characters)) k) (\<lambda>(i, k).
       if i < 0 \<or> int (length characters) \<le> i then Inl IndexPanic else Inr (characters ! nat i, k))"

fun append_random :: "random_source \<Rightarrow> string \<Rightarrow> nat \<Rightarrow> string \<Rightarrow> nat \<Rightarrow> password_error + (string \<times> nat)" where
  "append_random rnd characters 0 password k = Inr (password, k)"
| "append_random rnd characters (Suc n) password k =
     bind_e (randomPasswordCharacter rnd characters k) (\<lambda>(c, k).
       append_random rnd characters n (password @ [c]) k)"

text \<open>The loop over \<open>index\<close> from the last position down to 1.\<close>

fun shuffle :: "random_source \<Rightarrow> nat \<Rightarrow> string \<Rightarrow> nat \<Rightarrow> password_error + (string \<times> nat)" where
  "shuffle rnd 0 password k = Inr (password, k)"
| "shuffle rnd (Suc i) password k =
     bind_e (randomPasswordIndex rnd (int (Suc i) + 1) k) (\<lambda>(swap, k).
       if swap < 0 \<or> int (length password) \<le> swap then Inl IndexPanic
       else shuffle rnd i (password[Suc i := password ! nat swap, nat swap := password ! Suc i]) k)"

definition GeneratePassword :: "random_source \<Rightarrow> password_generator_config \<Rightarrow> nat \<Rightarrow> password_error + (string \<times> nat)" where
  "GeneratePassword rnd config k =
     (if \<not> ValidatePasswordGeneratorConfig config then Inl ErrInvalidPasswordGeneratorConfig
      else bind_e (append_random rnd (passwordCharacters config PasswordDigits) (nat (pgMinimumDigits config)) [] k) (\<lambda>(password, k).
      bind_e (append_random rnd (passwordCharacters config PasswordSpecialCharacters) (nat (pgMinimumSpecial config)) password k) (\<lambda>(password, k).
      bind_e (append_random rnd (passwordCharacterSet config) (nat (pgLength config - int (length password))) password k) (\<lambda>(password, k).
      shuffle rnd (length password - 1) password k))))"

section \<open>The policy\<close>

definition allowed_character :: "password_generator_config \<Rightarrow> char \<Rightarrow> bool" where
  "allowed_character config c \<longleftrightarrow>
     (pgUppercase config \<and> c \<in> set PasswordUppercaseCharacters \<or>
      pgLowercase config \<and> c \<in> set PasswordLowercaseCharacters \<or>
      pgDigits config \<and> c \<in> set PasswordDigits \<or> pgSpecial config \<and> c \<in> set PasswordSpecialCharacters) \<and>
     (pgExcludeAmbiguous config \<longrightarrow> c \<notin> set PasswordAmbiguousCharacters)"

definition count_in :: "string \<Rightarrow> string \<Rightarrow> int" where
  "count_in characters password = int (length (filter (\<lambda>c. c \<in> set characters) password))"

definition meets_policy :: "password_generator_config \<Rightarrow> string \<Rightarrow> bool" where
  "meets_policy config password \<longleftrightarrow>
     int (length password) = pgLength config \<and> list_all (allowed_character config) password \<and>
     pgMinimumDigits config \<le> count_in PasswordDigits password \<and>
     pgMinimumSpecial config \<le> count_in PasswordSpecialCharacters password"

text \<open>The contract of \<open>rand.Int\<close>: an answer lies between 0 and the bound.\<close>

definition random_ok :: "random_source \<Rightarrow> bool" where
  "random_ok rnd \<longleftrightarrow> (\<forall>k n v. rnd k n = Some v \<longrightarrow> 0 \<le> v \<and> v < n)"

lemma passwordCharacters_iff:
  "c \<in> set (passwordCharacters config cs) \<longleftrightarrow>
     c \<in> set cs \<and> (pgExcludeAmbiguous config \<longrightarrow> c \<notin> set PasswordAmbiguousCharacters)"
  by (auto simp: passwordCharacters_def)

lemma passwordCharacterSet_iff: "c \<in> set (passwordCharacterSet config) \<longleftrightarrow> allowed_character config c"
  by (auto simp: passwordCharacterSet_def passwordCharacters_iff allowed_character_def)

lemma digits_nonempty: "passwordCharacters config PasswordDigits \<noteq> []"
proof -
  have "CHR ''2'' \<in> set (passwordCharacters config PasswordDigits)"
    by (simp add: passwordCharacters_iff password_characters)
  then show ?thesis by auto
qed

lemma specials_nonempty: "passwordCharacters config PasswordSpecialCharacters \<noteq> []"
proof -
  have "CHR ''!'' \<in> set (passwordCharacters config PasswordSpecialCharacters)"
    by (simp add: passwordCharacters_iff password_characters)
  then show ?thesis by auto
qed

lemma digit_not_special: "set PasswordDigits \<inter> set PasswordSpecialCharacters = {}"
  by (simp add: password_characters)

section \<open>What a successful call returns\<close>

lemma randomPasswordIndex_success:
  "randomPasswordIndex rnd limit k = Inr (v, k') \<longleftrightarrow> 0 < limit \<and> rnd k limit = Some v \<and> k' = k + 1"
  by (auto simp: randomPasswordIndex_def split: option.splits)

lemma append_random_success:
  "append_random rnd cs n password k = Inr (password', k') \<Longrightarrow>
   \<exists>new. password' = password @ new \<and> length new = n \<and> set new \<subseteq> set cs"
proof (induction n arbitrary: password k)
  case (Suc n)
  then obtain c k1 where c: "randomPasswordCharacter rnd cs k = Inr (c, k1)"
    and r: "append_random rnd cs n (password @ [c]) k1 = Inr (password', k')"
    by (auto simp: bind_e_Inr_iff)
  from c have "c \<in> set cs"
    by (auto simp: randomPasswordCharacter_def bind_e_Inr_iff split: if_splits)
  moreover from Suc.IH[OF r] obtain new where "password' = password @ [c] @ new" "length new = n" "set new \<subseteq> set cs"
    by auto
  ultimately show ?case by (intro exI[of _ "c # new"]) simp
qed simp

lemma shuffle_success:
  "shuffle rnd i password k = Inr (password', k') \<Longrightarrow> i < length password \<Longrightarrow> mset password' = mset password"
proof (induction i arbitrary: password k)
  case (Suc i)
  then obtain v k1 where "0 \<le> v" "v < int (length password)"
    and r: "shuffle rnd i (password[Suc i := password ! nat v, nat v := password ! Suc i]) k1 = Inr (password', k')"
    by (auto simp: bind_e_Inr_iff not_less not_le split: if_splits)
  then have "nat v < length password" by simp
  with Suc.IH[OF r] Suc.prems(2) show ?case by (simp add: mset_swap)
qed simp

lemma ValidateD:
  assumes "ValidatePasswordGeneratorConfig config"
  shows "5 \<le> pgLength config" "0 \<le> pgMinimumDigits config" "0 \<le> pgMinimumSpecial config"
    "pgMinimumDigits config + pgMinimumSpecial config \<le> pgLength config"
    "0 < pgMinimumDigits config \<Longrightarrow> pgDigits config" "0 < pgMinimumSpecial config \<Longrightarrow> pgSpecial config"
    "passwordCharacterSet config \<noteq> []"
  using assms by (auto simp: ValidatePasswordGeneratorConfig_def)

lemma count_in_append: "count_in cs (xs @ ys) = count_in cs xs + count_in cs ys"
  by (simp add: count_in_def)

lemma count_in_all: "set xs \<subseteq> set cs \<Longrightarrow> count_in cs xs = int (length xs)"
  by (simp add: count_in_def filter_id_conv subset_iff)

lemma count_in_nonneg: "0 \<le> count_in cs xs"
  by (simp add: count_in_def)

lemma count_in_mset: "mset xs = mset ys \<Longrightarrow> count_in cs xs = count_in cs ys"
  unfolding count_in_def by (metis mset_filter size_mset)

lemma GeneratePassword_sound:
  assumes g: "GeneratePassword rnd config k = Inr (password, k')"
  shows "ValidatePasswordGeneratorConfig config \<and> meets_policy config password"
proof -
  from g have v: "ValidatePasswordGeneratorConfig config" by (auto simp: GeneratePassword_def split: if_splits)
  note V = ValidateD[OF v]
  from g v obtain p1 k1 p2 k2 p3 k3 where
    1: "append_random rnd (passwordCharacters config PasswordDigits) (nat (pgMinimumDigits config)) [] k = Inr (p1, k1)" and
    2: "append_random rnd (passwordCharacters config PasswordSpecialCharacters) (nat (pgMinimumSpecial config)) p1 k1 = Inr (p2, k2)" and
    3: "append_random rnd (passwordCharacterSet config) (nat (pgLength config - int (length p2))) p2 k2 = Inr (p3, k3)" and
    4: "shuffle rnd (length p3 - 1) p3 k3 = Inr (password, k')"
    by (auto simp: GeneratePassword_def bind_e_Inr_iff)
  from append_random_success[OF 1] have p1: "length p1 = nat (pgMinimumDigits config)"
    "set p1 \<subseteq> set (passwordCharacters config PasswordDigits)" by auto
  from append_random_success[OF 2] obtain s where s: "p2 = p1 @ s" "length s = nat (pgMinimumSpecial config)"
    "set s \<subseteq> set (passwordCharacters config PasswordSpecialCharacters)" by auto
  from append_random_success[OF 3] obtain a where a: "p3 = p2 @ a"
    "length a = nat (pgLength config - int (length p2))" "set a \<subseteq> set (passwordCharacterSet config)" by auto
  have len: "int (length p3) = pgLength config" using p1 s a V by simp
  have digit: "c \<in> set p1 \<Longrightarrow> pgDigits config" for c
    using p1(1) V(2,5) by (cases p1) auto
  have special: "c \<in> set s \<Longrightarrow> pgSpecial config" for c
    using s(2) V(3,6) by (cases s) auto
  have "c \<in> set p1 \<Longrightarrow> allowed_character config c" for c
    using p1(2) digit by (auto simp: allowed_character_def passwordCharacters_iff subset_iff)
  moreover have "c \<in> set s \<Longrightarrow> allowed_character config c" for c
    using s(3) special by (auto simp: allowed_character_def passwordCharacters_iff subset_iff)
  moreover have "c \<in> set a \<Longrightarrow> allowed_character config c" for c
    using a(3) by (auto simp: passwordCharacterSet_iff[symmetric])
  ultimately have all: "c \<in> set p3 \<Longrightarrow> allowed_character config c" for c
    using a(1) s(1) by auto
  have d: "count_in PasswordDigits p1 = int (length p1)" "count_in PasswordSpecialCharacters s = int (length s)"
    using p1(2) s(3) by (auto intro!: count_in_all simp: passwordCharacters_iff)
  have counts: "pgMinimumDigits config \<le> count_in PasswordDigits p3"
    "pgMinimumSpecial config \<le> count_in PasswordSpecialCharacters p3"
    using d p1(1) s(1,2) a(1) count_in_nonneg[of PasswordDigits s] count_in_nonneg[of PasswordDigits a]
      count_in_nonneg[of PasswordSpecialCharacters p1] count_in_nonneg[of PasswordSpecialCharacters a]
    by (simp_all add: count_in_append)
  have m: "mset password = mset p3"
    by (rule shuffle_success[OF 4]) (use len V(1) in linarith)
  then have "length password = length p3" "set password = set p3" by (metis size_mset, metis set_mset_mset)
  with v len all counts count_in_mset[OF m] show ?thesis by (simp add: meets_policy_def list_all_iff)
qed

section \<open>Every conforming password can come out\<close>

definition draws :: "int list \<Rightarrow> random_source" where
  "draws ds k n = (if k < length ds \<and> 0 \<le> ds ! k \<and> ds ! k < n then Some (ds ! k) else None)"

lemma draws_ok: "random_ok (draws ds)"
  by (auto simp: random_ok_def draws_def split: if_splits)

lemma draws_at: "0 \<le> d \<Longrightarrow> d < n \<Longrightarrow> draws (pre @ d # post) (length pre) n = Some d"
  by (simp add: draws_def)

text \<open>\<open>drawn f p q\<close>: some list of draws, wherever it stands in the source, takes \<open>f\<close> from \<open>p\<close> to \<open>q\<close>.\<close>

definition drawn :: "(random_source \<Rightarrow> nat \<Rightarrow> password_error + (string \<times> nat)) \<Rightarrow> string \<Rightarrow> bool" where
  "drawn f q \<longleftrightarrow> (\<exists>ds. \<forall>pre post. f (draws (pre @ ds @ post)) (length pre) = Inr (q, length pre + length ds))"

lemma drawn_now: "(\<And>rnd k. f rnd k = Inr (q, k)) \<Longrightarrow> drawn f q"
  unfolding drawn_def by (rule exI[of _ "[]"]) simp

lemma drawn_after:
  assumes "\<And>pre post. f (draws (pre @ d # post)) (length pre) = g (draws (pre @ d # post)) (length pre + 1)"
    and "drawn g q"
  shows "drawn f q"
proof -
  from assms(2) obtain ds where ds: "g (draws (pre @ ds @ post)) (length pre) = Inr (q, length pre + length ds)" for pre post
    unfolding drawn_def by blast
  have "f (draws (pre @ (d # ds) @ post)) (length pre) = Inr (q, length pre + length (d # ds))" for pre post
    using assms(1)[of pre "ds @ post"] ds[of "pre @ [d]" post] by simp
  then show ?thesis unfolding drawn_def by blast
qed

lemma drawn_bind:
  assumes "drawn f p" "drawn (g p) q"
  shows "drawn (\<lambda>rnd k. bind_e (f rnd k) (\<lambda>(x, k). g x rnd k)) q"
proof -
  from assms obtain ds es where
    ds: "f (draws (pre @ ds @ post)) (length pre) = Inr (p, length pre + length ds)" and
    es: "g p (draws (pre @ es @ post)) (length pre) = Inr (q, length pre + length es)" for pre post
    unfolding drawn_def by metis
  have "bind_e (f (draws (pre @ (ds @ es) @ post)) (length pre)) (\<lambda>(x, k). g x (draws (pre @ (ds @ es) @ post)) k) =
      Inr (q, length pre + length (ds @ es))" for pre post
    using ds[of pre "es @ post"] es[of "pre @ ds" post] by (simp add: add.assoc)
  then show ?thesis unfolding drawn_def by blast
qed

lemma append_random_drawn:
  "set new \<subseteq> set cs \<Longrightarrow> drawn (\<lambda>rnd. append_random rnd cs (length new) password) (password @ new)"
proof (induction new arbitrary: password)
  case Nil
  then show ?case by (intro drawn_now) simp
next
  case (Cons c new)
  then obtain i where i: "i < length cs" "cs ! i = c" by (auto simp: in_set_conv_nth)
  have "drawn (\<lambda>rnd. append_random rnd cs (length new) (password @ [c])) (password @ c # new)"
    using Cons.IH[of "password @ [c]"] Cons.prems by simp
  then show ?case
  proof (rule drawn_after[rotated])
    fix pre post
    show "append_random (draws (pre @ int i # post)) cs (length (c # new)) password (length pre) =
      append_random (draws (pre @ int i # post)) cs (length new) (password @ [c]) (length pre + 1)"
      using i draws_at[of "int i" "int (length cs)" pre post]
      by (auto simp: randomPasswordCharacter_def randomPasswordIndex_def)
  qed
qed

lemma swap_towards:
  assumes "length p = length t" "Suc i < length t" "mset (take (Suc (Suc i)) p) = mset (take (Suc (Suc i)) t)"
    "drop (Suc (Suc i)) p = drop (Suc (Suc i)) t"
  obtains j where "j \<le> Suc i" "mset (take (Suc i) (p[Suc i := p ! j, j := p ! Suc i])) = mset (take (Suc i) t)"
    "drop (Suc i) (p[Suc i := p ! j, j := p ! Suc i]) = drop (Suc i) t"
proof -
  have take_t: "take (Suc (Suc i)) t = take (Suc i) t @ [t ! Suc i]"
    using assms(2) by (rule take_Suc_conv_app_nth)
  then have "t ! Suc i \<in> set (take (Suc (Suc i)) t)" by simp
  then have "t ! Suc i \<in> set (take (Suc (Suc i)) p)" using assms(3) by (metis set_mset_mset)
  then obtain j where j: "j < Suc (Suc i)" "p ! j = t ! Suc i"
    using assms(1,2) by (auto simp: in_set_conv_nth)
  let ?q = "p[Suc i := p ! j, j := p ! Suc i]"
  have at: "?q ! Suc i = t ! Suc i" using j assms(1,2) by (cases "j = Suc i") auto
  have "take (Suc (Suc i)) ?q = (take (Suc (Suc i)) p)[Suc i := take (Suc (Suc i)) p ! j, j := take (Suc (Suc i)) p ! Suc i]"
    using j by (simp add: take_update_swap)
  also have "mset \<dots> = mset (take (Suc (Suc i)) p)"
    using j(1) assms(1,2) by (intro mset_swap) auto
  finally have m: "mset (take (Suc (Suc i)) ?q) = mset (take (Suc (Suc i)) t)" using assms(3) by simp
  have take_q: "take (Suc (Suc i)) ?q = take (Suc i) ?q @ [t ! Suc i]"
    using take_Suc_conv_app_nth[of "Suc i" ?q] assms(1,2) at by simp
  have "mset (take (Suc i) ?q) = mset (take (Suc i) t)" using m unfolding take_q take_t by simp
  moreover have "drop (Suc i) ?q = drop (Suc i) t"
  proof -
    have "drop (Suc i) ?q = ?q ! Suc i # drop (Suc (Suc i)) ?q"
      using assms(1,2) by (simp add: Cons_nth_drop_Suc)
    also have "drop (Suc (Suc i)) ?q = drop (Suc (Suc i)) p" using j(1) by simp
    finally show ?thesis using at assms(2,4) by (simp add: Cons_nth_drop_Suc)
  qed
  ultimately show thesis using j(1) that[of j] by simp
qed

lemma shuffle_drawn:
  "length p = length t \<Longrightarrow> i < length t \<Longrightarrow> mset (take (Suc i) p) = mset (take (Suc i) t) \<Longrightarrow>
   drop (Suc i) p = drop (Suc i) t \<Longrightarrow> drawn (\<lambda>rnd. shuffle rnd i p) t"
proof (induction i arbitrary: p)
  case 0
  then obtain a b where "p = a # drop 1 p" "t = b # drop 1 t" by (cases p; cases t) auto
  with 0 have "p = t" by (cases p; cases t) auto
  then show ?case by (intro drawn_now) simp
next
  case (Suc i)
  from swap_towards[OF Suc.prems] obtain j where j: "j \<le> Suc i"
    "mset (take (Suc i) (p[Suc i := p ! j, j := p ! Suc i])) = mset (take (Suc i) t)"
    "drop (Suc i) (p[Suc i := p ! j, j := p ! Suc i]) = drop (Suc i) t" .
  have "drawn (\<lambda>rnd. shuffle rnd i (p[Suc i := p ! j, j := p ! Suc i])) t"
    by (rule Suc.IH) (use Suc.prems j in auto)
  then show ?case
  proof (rule drawn_after[rotated])
    fix pre post
    have "int j < int (Suc i) + 1" using j(1) by simp
    from draws_at[OF _ this, of pre post]
    have "randomPasswordIndex (draws (pre @ int j # post)) (int (Suc i) + 1) (length pre) = Inr (int j, length pre + 1)"
      by (simp add: randomPasswordIndex_success)
    moreover have "j < length p" using j(1) Suc.prems(1,2) by simp
    ultimately show "shuffle (draws (pre @ int j # post)) (Suc i) p (length pre) =
      shuffle (draws (pre @ int j # post)) i (p[Suc i := p ! j, j := p ! Suc i]) (length pre + 1)"
      by simp
  qed
qed

text \<open>The characters of a conforming password, in the order the generator draws them.\<close>

lemma drawing_order:
  assumes "meets_policy config password" "ValidatePasswordGeneratorConfig config"
  obtains ds sp others where "mset password = mset (ds @ sp @ others)"
    "int (length ds) = pgMinimumDigits config" "set ds \<subseteq> set (passwordCharacters config PasswordDigits)"
    "int (length sp) = pgMinimumSpecial config" "set sp \<subseteq> set (passwordCharacters config PasswordSpecialCharacters)"
    "set others \<subseteq> set (passwordCharacterSet config)"
proof -
  let ?D = "filter (\<lambda>c. c \<in> set PasswordDigits) password"
  let ?S = "filter (\<lambda>c. c \<in> set PasswordSpecialCharacters) password"
  let ?rest = "filter (\<lambda>c. c \<notin> set PasswordDigits \<and> c \<notin> set PasswordSpecialCharacters) password"
  let ?d = "nat (pgMinimumDigits config)" and ?s = "nat (pgMinimumSpecial config)"
  note P = assms(1)[unfolded meets_policy_def list_all_iff count_in_def] and V = ValidateD[OF assms(2)]
  have len: "?d \<le> length ?D" "?s \<le> length ?S" using P by auto
  have split: "mset xs = mset (filter (\<lambda>c. c \<in> A) xs) + mset (filter (\<lambda>c. c \<in> B) xs) + mset (filter (\<lambda>c. c \<notin> A \<and> c \<notin> B) xs)"
    if "A \<inter> B = {}" for xs :: string and A B
    using that by (induction xs) auto
  have "mset password = mset ?D + mset ?S + mset ?rest"
    by (rule split[OF digit_not_special])
  moreover have "mset ?D = mset (take ?d ?D) + mset (drop ?d ?D)" "mset ?S = mset (take ?s ?S) + mset (drop ?s ?S)"
    by (metis append_take_drop_id mset_append)+
  ultimately have m: "mset password = mset (take ?d ?D @ take ?s ?S @ (drop ?d ?D @ drop ?s ?S @ ?rest))"
    by (simp add: ac_simps)
  have clear: "pgExcludeAmbiguous config \<Longrightarrow> c \<in> set password \<Longrightarrow> c \<notin> set PasswordAmbiguousCharacters" for c
    using P by (auto simp: allowed_character_def)
  show thesis
  proof (rule that[OF m])
    show "int (length (take ?d ?D)) = pgMinimumDigits config" "int (length (take ?s ?S)) = pgMinimumSpecial config"
      using len V(2,3) by simp_all
    show "set (take ?d ?D) \<subseteq> set (passwordCharacters config PasswordDigits)"
      "set (take ?s ?S) \<subseteq> set (passwordCharacters config PasswordSpecialCharacters)"
      using clear by (auto simp: passwordCharacters_iff dest: in_set_takeD)
    show "set (drop ?d ?D @ drop ?s ?S @ ?rest) \<subseteq> set (passwordCharacterSet config)"
      using P by (auto simp: passwordCharacterSet_iff dest: in_set_dropD)
  qed
qed

lemma GeneratePassword_complete:
  assumes v: "ValidatePasswordGeneratorConfig config" and p: "meets_policy config password"
  shows "drawn (\<lambda>rnd. GeneratePassword rnd config) password"
proof -
  obtain ds sp others where m: "mset password = mset (ds @ sp @ others)"
    and d: "int (length ds) = pgMinimumDigits config" "set ds \<subseteq> set (passwordCharacters config PasswordDigits)"
    and s: "int (length sp) = pgMinimumSpecial config" "set sp \<subseteq> set (passwordCharacters config PasswordSpecialCharacters)"
    and others: "set others \<subseteq> set (passwordCharacterSet config)"
    by (rule drawing_order[OF p v])
  let ?p = "ds @ sp @ others"
  have same: "length password = length ?p" using m by (metis size_mset)
  have len: "int (length ?p) = pgLength config" using p same by (simp add: meets_policy_def)
  have counts: "nat (pgMinimumDigits config) = length ds" "nat (pgMinimumSpecial config) = length sp"
    "nat (pgLength config - int (length (ds @ sp))) = length others"
    using d(1) s(1) len by auto
  have pos: "length ?p - 1 < length password" using same len ValidateD(1)[OF v] by linarith
  have 4: "drawn (\<lambda>rnd. shuffle rnd (length ?p - 1) ?p) password"
    by (rule shuffle_drawn) (use same pos m in \<open>simp_all\<close>)
  have 3: "drawn (\<lambda>rnd k. bind_e (append_random rnd (passwordCharacterSet config) (nat (pgLength config - int (length (ds @ sp)))) (ds @ sp) k)
      (\<lambda>(password, k). shuffle rnd (length password - 1) password k)) password"
    using drawn_bind[OF append_random_drawn[OF others, of "ds @ sp"], of "\<lambda>p rnd. shuffle rnd (length p - 1) p"] 4
    unfolding counts by simp
  have 2: "drawn (\<lambda>rnd k. bind_e (append_random rnd (passwordCharacters config PasswordSpecialCharacters) (nat (pgMinimumSpecial config)) ds k) (\<lambda>(password, k).
      bind_e (append_random rnd (passwordCharacterSet config) (nat (pgLength config - int (length password))) password k)
      (\<lambda>(password, k). shuffle rnd (length password - 1) password k))) password"
    using drawn_bind[OF append_random_drawn[OF s(2), of ds], of "\<lambda>p rnd k.
      bind_e (append_random rnd (passwordCharacterSet config) (nat (pgLength config - int (length p))) p k)
      (\<lambda>(password, k). shuffle rnd (length password - 1) password k)"] 3
    unfolding counts by simp
  show ?thesis
    using drawn_bind[OF append_random_drawn[OF d(2), of "[]"], of "\<lambda>p rnd k.
      bind_e (append_random rnd (passwordCharacters config PasswordSpecialCharacters) (nat (pgMinimumSpecial config)) p k) (\<lambda>(password, k).
      bind_e (append_random rnd (passwordCharacterSet config) (nat (pgLength config - int (length password))) password k)
      (\<lambda>(password, k). shuffle rnd (length password - 1) password k))"] 2 v
    unfolding counts GeneratePassword_def by simp
qed

section \<open>The errors\<close>

lemma randomPasswordIndex_error:
  "randomPasswordIndex rnd limit k = Inl e \<Longrightarrow> 0 < limit \<Longrightarrow> e = RandomFailed"
  by (auto simp: randomPasswordIndex_def split: option.splits)

lemma append_random_error:
  "append_random rnd cs n password k = Inl e \<Longrightarrow> random_ok rnd \<Longrightarrow> cs \<noteq> [] \<Longrightarrow> e = RandomFailed"
proof (induction n arbitrary: password k)
  case (Suc n)
  have "randomPasswordCharacter rnd cs k = Inl e \<Longrightarrow> e = RandomFailed"
    using Suc.prems(2,3) randomPasswordIndex_error[of rnd "int (length cs)" k e]
    by (auto simp: randomPasswordCharacter_def bind_e_Inl_iff randomPasswordIndex_success random_ok_def
        not_less[symmetric] split: if_splits)
  with Suc show ?case by (auto simp: bind_e_Inl_iff)
qed simp

lemma shuffle_error:
  "shuffle rnd i password k = Inl e \<Longrightarrow> random_ok rnd \<Longrightarrow> i < length password \<Longrightarrow> e = RandomFailed"
proof (induction i arbitrary: password k)
  case (Suc i)
  show ?case
  proof (cases "randomPasswordIndex rnd (int (Suc i) + 1) k")
    case (Inl e')
    with Suc.prems(1) have "e' = e" by simp
    with randomPasswordIndex_error[OF Inl] show ?thesis by simp
  next
    case (Inr a)
    obtain v k' where a: "a = (v, k')" by fastforce
    with Inr have "rnd k (int (Suc i) + 1) = Some v" by (auto simp: randomPasswordIndex_success)
    with Suc.prems(2) have "0 \<le> v" "v < int (Suc i) + 1" unfolding random_ok_def by blast+
    with Suc.prems(1,3) Inr a have
      "shuffle rnd i (password[Suc i := password ! nat v, nat v := password ! Suc i]) k' = Inl e" by auto
    from Suc.IH[OF this Suc.prems(2)] Suc.prems(3) show ?thesis by simp
  qed
qed simp

lemma GeneratePassword_errors:
  assumes "GeneratePassword rnd config k = Inl e" "random_ok rnd" "ValidatePasswordGeneratorConfig config"
  shows "e = RandomFailed"
proof -
  note V = ValidateD[OF assms(3)]
  show ?thesis
  proof (cases "append_random rnd (passwordCharacters config PasswordDigits) (nat (pgMinimumDigits config)) [] k")
    case (Inl e')
    with assms append_random_error[OF Inl assms(2) digits_nonempty] show ?thesis by (simp add: GeneratePassword_def)
  next
    case (Inr a)
    obtain p1 k1 where a: "a = (p1, k1)" by fastforce
    show ?thesis
    proof (cases "append_random rnd (passwordCharacters config PasswordSpecialCharacters) (nat (pgMinimumSpecial config)) p1 k1")
      case (Inl e')
      with assms Inr a append_random_error[OF Inl assms(2) specials_nonempty] show ?thesis by (simp add: GeneratePassword_def)
    next
      case b: (Inr b)
      obtain p2 k2 where b2: "b = (p2, k2)" by fastforce
      show ?thesis
      proof (cases "append_random rnd (passwordCharacterSet config) (nat (pgLength config - int (length p2))) p2 k2")
        case (Inl e')
        with assms Inr a b b2 append_random_error[OF Inl assms(2) V(7)] show ?thesis by (simp add: GeneratePassword_def)
      next
        case c: (Inr c)
        obtain p3 k3 where c2: "c = (p3, k3)" by fastforce
        from c c2 append_random_success[of rnd _ _ p2 k2 p3 k3] have "pgLength config \<le> int (length p3)" by force
        with V(1) have "length p3 - 1 < length p3" by linarith
        moreover have "shuffle rnd (length p3 - 1) p3 k3 = Inl e"
          using assms Inr a b b2 c c2 by (simp add: GeneratePassword_def)
        ultimately show ?thesis using shuffle_error assms(2) by blast
      qed
    qed
  qed
qed

lemma first_draw_fails:
  assumes "ValidatePasswordGeneratorConfig config"
  shows "GeneratePassword (\<lambda>_ _. None) config 0 = Inl RandomFailed"
proof -
  let ?r = "\<lambda>_ _. None :: int option"
  have a: "append_random ?r cs (Suc n) p k = Inl RandomFailed" if "cs \<noteq> []" for cs n p k
    using that by (simp add: randomPasswordCharacter_def randomPasswordIndex_def)
  have ex: "GeneratePassword ?r config 0 \<noteq> Inr (p, k)" for p k
  proof
    assume g: "GeneratePassword ?r config 0 = Inr (p, k)"
    have none: "append_random ?r cs n q j = Inr (q', j') \<Longrightarrow> cs \<noteq> [] \<Longrightarrow> q' = q" for cs n q j q' j'
      using a[of cs "n - 1" q j] by (cases n) auto
    from g assms obtain p1 k1 p2 k2 p3 k3 where
      "append_random ?r (passwordCharacters config PasswordDigits) (nat (pgMinimumDigits config)) [] 0 = Inr (p1, k1)"
      "append_random ?r (passwordCharacters config PasswordSpecialCharacters) (nat (pgMinimumSpecial config)) p1 k1 = Inr (p2, k2)" and
      3: "append_random ?r (passwordCharacterSet config) (nat (pgLength config - int (length p2))) p2 k2 = Inr (p3, k3)"
      by (auto simp: GeneratePassword_def bind_e_Inr_iff)
    with none[OF _ digits_nonempty] none[OF _ specials_nonempty] have "p2 = []" by blast
    with 3 ValidateD(1,7)[OF assms] a[of "passwordCharacterSet config" "nat (pgLength config) - 1" "[]" k2]
    show False by simp
  qed
  have "random_ok ?r" by (simp add: random_ok_def)
  show ?thesis
  proof (cases "GeneratePassword ?r config 0")
    case (Inl e)
    with GeneratePassword_errors[OF Inl \<open>random_ok ?r\<close> assms] show ?thesis by simp
  next
    case (Inr b)
    with ex[of "fst b" "snd b"] show ?thesis by simp
  qed
qed

end
