(* ===== verification/Totp.thy ===== *)
theory Totp
  imports NativeItems GoText
begin

text \<open>
  One-time passwords (\<open>internal/client/totp.go\<close>): configurations and their URI form, the
  base-32 secret, HOTP and TOTP. The keyed hash (\<open>crypto/hmac\<close> over the three digests) and
  \<open>url.Parse\<close> are parameters. Seconds and counters are 64-bit words, as in the code.
\<close>

section \<open>Configurations\<close>

definition TOTPAlgorithmSHA1 :: string where "TOTPAlgorithmSHA1 = ''SHA1''"
definition TOTPAlgorithmSHA256 :: string where "TOTPAlgorithmSHA256 = ''SHA256''"
definition TOTPAlgorithmSHA512 :: string where "TOTPAlgorithmSHA512 = ''SHA512''"

lemmas totp_algorithms = TOTPAlgorithmSHA1_def TOTPAlgorithmSHA256_def TOTPAlgorithmSHA512_def

datatype totp_error = ErrInvalidTOTP | TotpPanic

definition totpHash :: "string \<Rightarrow> totp_error + string" where
  "totpHash algorithm =
     (if algorithm = TOTPAlgorithmSHA1 \<or> algorithm = TOTPAlgorithmSHA256 \<or> algorithm = TOTPAlgorithmSHA512
      then Inr algorithm else Inl ErrInvalidTOTP)"

definition totpDivisor :: "int \<Rightarrow> totp_error + 32 word" where
  "totpDivisor digits =
     (if digits = 6 then Inr 1000000 else if digits = 8 then Inr 100000000 else Inl ErrInvalidTOTP)"

section \<open>The secret\<close>

definition base32_value :: "char \<Rightarrow> nat option" where
  "base32_value c =
     (let n = (of_char c :: nat)
      in if 65 \<le> n \<and> n \<le> 90 then Some (n - 65) else if 50 \<le> n \<and> n \<le> 55 then Some (n - 24) else None)"

text \<open>
  One quantum of the decoder of \<open>encoding/base32\<close>: up to eight 5-bit values into up to five
  bytes. A last quantum of 1, 3 or 6 values yields no byte at all.
\<close>

definition quantum :: "nat list \<Rightarrow> nat list" where
  "quantum v =
     (let b0 = v ! 0 * 8 + v ! 1 div 4;
          b1 = (v ! 1 mod 4) * 64 + v ! 2 * 2 + v ! 3 div 16;
          b2 = (v ! 3 mod 16) * 16 + v ! 4 div 2;
          b3 = (v ! 4 mod 2) * 128 + v ! 5 * 4 + v ! 6 div 8;
          b4 = (v ! 6 mod 8) * 32 + v ! 7;
          n = length v
      in if n = 8 then [b0, b1, b2, b3, b4] else if n = 7 then [b0, b1, b2, b3]
         else if n = 5 then [b0, b1, b2] else if n = 4 then [b0, b1] else if n = 2 then [b0] else [])"

fun quanta :: "nat list \<Rightarrow> nat list" where
  "quanta [] = []"
| "quanta (v # vs) = quantum (take 8 (v # vs)) @ quanta (drop 8 (v # vs))"

definition base32_decode :: "string \<Rightarrow> bytes option" where
  "base32_decode s = map_option (\<lambda>vs. map of_nat (quanta vs)) (those (map base32_value s))"

definition decodeTOTPSecret :: "string \<Rightarrow> totp_error + bytes" where
  "decodeTOTPSecret secret =
     (let secret = TrimRight (ToUpper (without_spaces secret)) (CHR ''='')
      in if secret = [] then Inl ErrInvalidTOTP
         else case base32_decode secret of
           None \<Rightarrow> Inl ErrInvalidTOTP
         | Some decoded \<Rightarrow> if length decoded = 0 then Inl ErrInvalidTOTP else Inr decoded)"

definition ValidateTOTPConfig :: "totp_config \<Rightarrow> totp_error + unit" where
  "ValidateTOTPConfig config =
     (case decodeTOTPSecret (totpSecret config) of Inl _ \<Rightarrow> Inl ErrInvalidTOTP
      | Inr secret \<Rightarrow>
      case totpHash (totpAlgorithm config) of Inl _ \<Rightarrow> Inl ErrInvalidTOTP
      | Inr _ \<Rightarrow>
      case totpDivisor (totpDigits config) of Inl _ \<Rightarrow> Inl ErrInvalidTOTP
      | Inr _ \<Rightarrow> if totpPeriod config \<le> 0 then Inl ErrInvalidTOTP else Inr ())"

definition NewTOTPConfig :: "string \<Rightarrow> string \<Rightarrow> string \<Rightarrow> string \<Rightarrow> int \<Rightarrow> int \<Rightarrow> totp_error + totp_config" where
  "NewTOTPConfig secret issuer account algorithm digits period =
     (let algorithm = (if algorithm = [] then TOTPAlgorithmSHA1 else algorithm);
          digits = (if digits = 0 then 6 else digits);
          period = (if period = 0 then 30 else period);
          config = \<lparr>totpSecret = secret, totpIssuer = issuer, totpAccount = account,
                    totpAlgorithm = ToUpper algorithm, totpDigits = digits, totpPeriod = period\<rparr>
      in bind_e (ValidateTOTPConfig config) (\<lambda>_. Inr config))"

section \<open>The URI form\<close>

record parsed_url =
  uScheme :: string
  uHost :: string
  uHasUser :: bool
  uFragment :: string
  uPath :: string
  uQuery :: "(string, string list) fmap"

definition totpQueryValue :: "(string, string list) fmap \<Rightarrow> string \<Rightarrow> totp_error + string" where
  "totpQueryValue query key =
     (case fmlookup query key of
        None \<Rightarrow> Inr []
      | Some values \<Rightarrow> if length values \<noteq> 1 then Inl ErrInvalidTOTP else Inr (values ! 0))"

definition totpQueryInt :: "(string, string list) fmap \<Rightarrow> string \<Rightarrow> totp_error + int" where
  "totpQueryInt query key =
     bind_e (totpQueryValue query key) (\<lambda>value.
       if value = [] then Inr 0
       else case ParseInt value of None \<Rightarrow> Inl ErrInvalidTOTP | Some parsed \<Rightarrow> Inr parsed)"

definition label_parts :: "string \<Rightarrow> totp_error + (string \<times> string)" where
  "label_parts label =
     (case Cut label (CHR '':'') of
        Some (issuer, remainder) \<Rightarrow>
          if issuer = [] \<or> remainder = [] then Inl ErrInvalidTOTP else Inr (issuer, remainder)
      | None \<Rightarrow> Inr ([], label))"

definition ParseTOTPURI :: "(string \<Rightarrow> parsed_url option) \<Rightarrow> string \<Rightarrow> totp_error + totp_config" where
  "ParseTOTPURI urlParse raw =
     (case urlParse raw of None \<Rightarrow> Inl ErrInvalidTOTP | Some parsed \<Rightarrow>
      if \<not> EqualFold (uScheme parsed) ''otpauth'' \<or> \<not> EqualFold (uHost parsed) ''totp'' \<or>
         uHasUser parsed \<or> uFragment parsed \<noteq> [] then Inl ErrInvalidTOTP
      else let label = (if HasPrefix (uPath parsed) ''/'' then drop 1 (uPath parsed) else uPath parsed) in
      if label = [] \<or> CHR ''/'' \<in> set label then Inl ErrInvalidTOTP
      else
      bind_e (label_parts label) (\<lambda>(labelIssuer, account).
      let query = uQuery parsed in
      bind_e (totpQueryValue query ''secret'') (\<lambda>secret.
      bind_e (totpQueryValue query ''issuer'') (\<lambda>issuer.
      bind_e (if issuer = [] then Inr labelIssuer
              else if labelIssuer \<noteq> [] \<and> issuer \<noteq> labelIssuer then Inl ErrInvalidTOTP
              else Inr issuer) (\<lambda>issuer.
      bind_e (totpQueryValue query ''algorithm'') (\<lambda>algorithm.
      bind_e (totpQueryInt query ''digits'') (\<lambda>digits.
      bind_e (totpQueryInt query ''period'') (\<lambda>period.
      NewTOTPConfig secret issuer account algorithm digits period))))))))"

section \<open>HOTP and TOTP\<close>

type_synonym keyed_hash = "string \<Rightarrow> bytes \<Rightarrow> bytes \<Rightarrow> bytes"

definition PutUint64 :: "64 word \<Rightarrow> bytes" where
  "PutUint64 counter = map (\<lambda>i. ucast (drop_bit (56 - 8 * i) counter)) [0, 1, 2, 3, 4, 5, 6, 7]"

definition Uint32 :: "bytes \<Rightarrow> 32 word" where
  "Uint32 b = push_bit 24 (ucast (b ! 0)) OR push_bit 16 (ucast (b ! 1)) OR push_bit 8 (ucast (b ! 2)) OR ucast (b ! 3)"

text \<open>\<open>fmt.Sprintf("%0*d", width, n)\<close>\<close>

definition zero_padded :: "nat \<Rightarrow> nat \<Rightarrow> string" where
  "zero_padded width n = replicate (width - length (dec n)) (CHR ''0'') @ dec n"

definition GenerateHOTP :: "keyed_hash \<Rightarrow> string \<Rightarrow> string \<Rightarrow> int \<Rightarrow> 64 word \<Rightarrow> totp_error + string" where
  "GenerateHOTP hmac secret algorithm digits counter =
     bind_e (decodeTOTPSecret secret) (\<lambda>decodedSecret.
     bind_e (totpHash algorithm) (\<lambda>newHash.
     bind_e (totpDivisor digits) (\<lambda>divisor.
     let sum = hmac newHash decodedSecret (PutUint64 counter);
         offset = unat (last sum AND 0x0f)
     in if sum = [] \<or> offset + 4 > length sum then Inl TotpPanic
        else let value = Uint32 (take 4 (drop offset sum)) AND 0x7fffffff
             in Inr (zero_padded (nat digits) (unat (value mod divisor))))))"

text \<open>
  \<open>time.Unix\<close> and \<open>Time.Unix\<close>: seconds since 1970 against nanoseconds since the zero
  time, the seconds being a 64-bit number.
\<close>

definition unixToInternal :: int where "unixToInternal = 62135596800"

definition int64 :: "int \<Rightarrow> int" where
  "int64 n = sint (word_of_int n :: 64 word)"

definition unix_of :: "time \<Rightarrow> int" where
  "unix_of t = t div 1000000000 - unixToInternal"

definition time_unix :: "int \<Rightarrow> time" where
  "time_unix sec = int64 (sec + unixToInternal) * 1000000000"

record totp_code =
  tcValue :: string
  tcExpiresAt :: time

definition GenerateTOTP :: "keyed_hash \<Rightarrow> totp_config \<Rightarrow> time \<Rightarrow> totp_error + totp_code" where
  "GenerateTOTP hmac config at =
     (if ValidateTOTPConfig config \<noteq> Inr () \<or> unix_of at < 0 then Inl ErrInvalidTOTP
      else let counter = word_of_int (unix_of at div totpPeriod config) :: 64 word
           in bind_e (GenerateHOTP hmac (totpSecret config) (totpAlgorithm config) (totpDigits config) counter)
                (\<lambda>value. Inr \<lparr>tcValue = value,
                   tcExpiresAt = time_unix (int64 (sint (counter + 1) * totpPeriod config))\<rparr>))"

section \<open>The truncated hash as a number\<close>

lemma Uint32_sum:
  "Uint32 [a, b, c, d] = push_bit 24 (ucast a) + (push_bit 16 (ucast b) + (push_bit 8 (ucast c) + ucast d))"
proof -
  have 1: "push_bit 8 (ucast c) OR ucast d = (push_bit 8 (ucast c) + ucast d :: 32 word)"
    by (rule disjunctive_add[symmetric]) (auto simp: bit_simps dest: bit_imp_le_length)
  have 2: "push_bit 16 (ucast b) OR (push_bit 8 (ucast c) OR ucast d) =
      (push_bit 16 (ucast b) + (push_bit 8 (ucast c) OR ucast d) :: 32 word)"
    by (rule disjunctive_add[symmetric]) (auto simp: bit_simps dest: bit_imp_le_length)
  have 3: "push_bit 24 (ucast a) OR (push_bit 16 (ucast b) OR (push_bit 8 (ucast c) OR ucast d)) =
      (push_bit 24 (ucast a) + (push_bit 16 (ucast b) OR (push_bit 8 (ucast c) OR ucast d)) :: 32 word)"
    by (rule disjunctive_add[symmetric]) (auto simp: bit_simps dest: bit_imp_le_length)
  show ?thesis unfolding Uint32_def or.assoc by (simp only: nth_Cons_0 nth_Cons_numeral 1[symmetric] 2[symmetric] 3[symmetric]) simp
qed

lemma unat_Uint32:
  "unat (Uint32 [a, b, c, d]) = unat a * 2 ^ 24 + unat b * 2 ^ 16 + unat c * 2 ^ 8 + unat d"
proof -
  let ?n = "unat a * 2 ^ 24 + unat b * 2 ^ 16 + unat c * 2 ^ 8 + unat d"
  have less: "unat a < 256" "unat b < 256" "unat c < 256" "unat d < 256"
    using unsigned_less[of a] unsigned_less[of b] unsigned_less[of c] unsigned_less[of d] by simp_all
  then have "?n < 2 ^ 32" by simp
  moreover have "Uint32 [a, b, c, d] = of_nat ?n"
    by (simp add: Uint32_sum push_bit_eq_mult mult.commute)
  moreover have "LENGTH(32) = 32" by simp
  ultimately show ?thesis by (simp only: unat_of_nat mod_less)
qed

definition truncated_hash :: "bytes \<Rightarrow> nat" where
  "truncated_hash mac =
     (let o' = unat (last mac) mod 16
      in (unat (mac ! o') mod 128) * 2 ^ 24 + unat (mac ! (o' + 1)) * 2 ^ 16 +
         unat (mac ! (o' + 2)) * 2 ^ 8 + unat (mac ! (o' + 3)))"

lemma unat_and_mask:
  fixes w :: "'a::len word"
  shows "unat (w AND mask n) = unat w mod 2 ^ n"
  by (simp only: take_bit_eq_mask[symmetric] unsigned_take_bit_eq) (simp only: take_bit_eq_mod)

lemma low_nibble: "unat (b AND 0x0f :: 8 word) = unat b mod 16"
proof -
  have "(0x0f :: 8 word) = mask 4" by (simp add: mask_numeral)
  then show ?thesis using unat_and_mask[of b 4] by simp
qed

lemma take_four:
  assumes "k + 4 \<le> length xs"
  shows "take 4 (drop k xs) = [xs ! k, xs ! (k + 1), xs ! (k + 2), xs ! (k + 3)]"
proof -
  have "drop k xs = xs ! k # xs ! (k + 1) # xs ! (k + 2) # xs ! (k + 3) # drop (k + 4) xs"
    using assms Cons_nth_drop_Suc[of k xs] Cons_nth_drop_Suc[of "k + 1" xs]
      Cons_nth_drop_Suc[of "k + 2" xs] Cons_nth_drop_Suc[of "k + 3" xs]
    by (simp add: numeral_eq_Suc)
  then show ?thesis by (simp add: numeral_eq_Suc)
qed

lemma split_high_byte:
  fixes a r :: nat
  assumes "r < 2 ^ 24"
  shows "(a * 2 ^ 24 + r) mod 2 ^ 31 = (a mod 128) * 2 ^ 24 + r"
proof -
  have "a = 128 * (a div 128) + a mod 128" by simp
  then obtain q m where q: "a = 128 * q + m" "m = a mod 128" by blast
  then have "a * 2 ^ 24 + r = (m * 2 ^ 24 + r) + q * 2 ^ 31" by simp
  moreover have "m \<le> 127" using q by simp
  then have "m * 2 ^ 24 + r < 2 ^ 31" using assms by simp
  ultimately have "(a * 2 ^ 24 + r) mod 2 ^ 31 = m * 2 ^ 24 + r" by (metis mod_mult_self1 mod_less)
  then show ?thesis using q(2) by simp
qed

lemma truncated_hash_word:
  assumes "length mac \<ge> 20"
  shows "unat (Uint32 (take 4 (drop (unat (last mac AND 0x0f)) mac)) AND 0x7fffffff) = truncated_hash mac"
proof -
  let ?o = "unat (last mac) mod 16"
  have "?o < 16" by simp
  then have o: "?o + 4 \<le> length mac" using assms by linarith
  then have "take 4 (drop ?o mac) = [mac ! ?o, mac ! (?o + 1), mac ! (?o + 2), mac ! (?o + 3)]"
    by (rule take_four)
  moreover have "(0x7fffffff :: 32 word) = mask 31" by (simp add: mask_numeral)
  ultimately have "unat (Uint32 (take 4 (drop ?o mac)) AND 0x7fffffff) =
      (unat (mac ! ?o) * 2 ^ 24 + unat (mac ! (?o + 1)) * 2 ^ 16 + unat (mac ! (?o + 2)) * 2 ^ 8 + unat (mac ! (?o + 3))) mod 2 ^ 31"
    using unat_and_mask[of "Uint32 (take 4 (drop ?o mac))" 31] by (simp only: unat_Uint32)
  also have "\<dots> = truncated_hash mac"
  proof -
    have less: "unat (mac ! (?o + 1)) < 256" "unat (mac ! (?o + 2)) < 256" "unat (mac ! (?o + 3)) < 256"
      using unsigned_less[of "mac ! (?o + 1)"] unsigned_less[of "mac ! (?o + 2)"] unsigned_less[of "mac ! (?o + 3)"] by simp_all
    show ?thesis
      using split_high_byte[of "unat (mac ! (?o + 1)) * 2 ^ 16 + unat (mac ! (?o + 2)) * 2 ^ 8 + unat (mac ! (?o + 3))" "unat (mac ! ?o)"] less
      by (simp add: truncated_hash_def Let_def add.assoc)
  qed
  finally show ?thesis unfolding low_nibble .
qed

section \<open>The printed code\<close>

lemma length_dec: "n < 10 ^ d \<Longrightarrow> 0 < d \<Longrightarrow> length (dec n) \<le> d"
proof (induction d arbitrary: n)
  case (Suc d)
  show ?case
  proof (cases "n < 10")
    case True
    then show ?thesis by (subst dec.simps) simp
  next
    case False
    with Suc.prems have "n div 10 < 10 ^ d" "0 < d" by (auto simp: less_mult_imp_div_less mult.commute intro: gr0I)
    from Suc.IH[OF this] False show ?thesis by (subst dec.simps) simp
  qed
qed simp

lemma parse_digits_zeros: "parse_digits 0 (replicate k (CHR ''0'') @ xs) = parse_digits 0 xs"
  by (induction k) (simp_all add: digit_val_def)

lemma zero_padded_props:
  assumes "n < 10 ^ d" "0 < d"
  shows "length (zero_padded d n) = d" "parse_digits 0 (zero_padded d n) = Some n"
    "\<forall>c \<in> set (zero_padded d n). digit_val c \<noteq> None"
proof -
  show "length (zero_padded d n) = d" using length_dec[OF assms] by (simp add: zero_padded_def)
  show "parse_digits 0 (zero_padded d n) = Some n"
    by (simp add: zero_padded_def parse_digits_zeros parse_digits_dec)
  have "\<forall>c \<in> set (dec n). digit_val c \<noteq> None" using dec_digits by fastforce
  then show "\<forall>c \<in> set (zero_padded d n). digit_val c \<noteq> None"
    by (auto simp: zero_padded_def digit_val_def)
qed

lemma totpDivisor_iff:
  "totpDivisor digits = Inr v \<longleftrightarrow> digits = 6 \<and> v = 1000000 \<or> digits = 8 \<and> v = 100000000"
  by (auto simp: totpDivisor_def)

lemma totpDivisor_value: "totpDivisor digits = Inr v \<Longrightarrow> unat v = 10 ^ nat digits \<and> 0 < digits"
  by (auto simp: totpDivisor_iff)

text \<open>What HMAC returns: one digest, the shortest of which (SHA-1) has 20 bytes.\<close>

definition hash_ok :: "keyed_hash \<Rightarrow> bool" where
  "hash_ok hmac \<longleftrightarrow> (\<forall>algorithm key message. 20 \<le> length (hmac algorithm key message))"

lemma GenerateHOTP_value:
  assumes "hash_ok hmac" "decodeTOTPSecret secret = Inr key" "totpHash algorithm = Inr h" "totpDivisor digits = Inr v"
  shows "GenerateHOTP hmac secret algorithm digits counter =
    Inr (zero_padded (nat digits) (truncated_hash (hmac h key (PutUint64 counter)) mod 10 ^ nat digits))"
proof -
  let ?mac = "hmac h key (PutUint64 counter)"
  have len: "20 \<le> length ?mac" using assms(1) by (simp add: hash_ok_def)
  have "unat (last ?mac) mod 16 < 16" by simp
  then have small: "\<not> (unat (last ?mac AND 0x0f) + 4 > length ?mac)" using len low_nibble[of "last ?mac"] by linarith
  have "unat ((Uint32 (take 4 (drop (unat (last ?mac AND 0x0f)) ?mac)) AND 0x7fffffff) mod v) =
      truncated_hash ?mac mod 10 ^ nat digits"
    unfolding unat_mod truncated_hash_word[OF len] using totpDivisor_value[OF assms(4)] by simp
  moreover have "?mac \<noteq> []" using len by auto
  ultimately show ?thesis
    using assms small by (simp add: GenerateHOTP_def Let_def)
qed

lemma ValidateTOTPConfig_iff:
  "ValidateTOTPConfig config = Inr () \<longleftrightarrow>
     (\<exists>key. decodeTOTPSecret (totpSecret config) = Inr key) \<and>
     totpHash (totpAlgorithm config) = Inr (totpAlgorithm config) \<and>
     (totpDigits config = 6 \<or> totpDigits config = 8) \<and> 0 < totpPeriod config"
  by (auto simp: ValidateTOTPConfig_def totpHash_def totpDivisor_def split: sum.splits if_splits)

lemma NewTOTPConfig_valid: "NewTOTPConfig s i a alg d p = Inr config \<Longrightarrow> ValidateTOTPConfig config = Inr ()"
  by (auto simp: NewTOTPConfig_def bind_e_Inr_iff Let_def)

lemma ToUpper_idem [simp]: "ToUpper (ToUpper s) = ToUpper s"
proof -
  have "upper_char (upper_char c) = upper_char c" for c
    by (auto simp: upper_char_def Let_def)
  then show ?thesis by (simp add: ToUpper_def)
qed

lemma int64_id: "- (2 ^ 63) \<le> n \<Longrightarrow> n < 2 ^ 63 \<Longrightarrow> int64 n = n"
  unfolding int64_def by (simp add: sint_sbintrunc' signed_take_bit_int_eq_self)

text \<open>
  No upper bound is put on the period: with the largest one the end of the window lies beyond the
  range of \<open>time.Time\<close> and wraps around, so the code of a valid configuration has expired
  before it is shown.
\<close>

lemma oversized_period_expired:
  "let config = \<lparr>totpSecret = ''JBSWY3DP'', totpIssuer = [], totpAccount = [], totpAlgorithm = ''SHA1'',
                 totpDigits = 6, totpPeriod = 2 ^ 63 - 1\<rparr>;
       at = (unixToInternal + 1) * 1000000000
   in ValidateTOTPConfig config = Inr () \<and>
      (\<exists>code. GenerateTOTP (\<lambda>_ _ _. replicate 20 0) config at = Inr code \<and> tcExpiresAt code < at)"
proof -
  let ?h = "\<lambda>_ _ _. replicate 20 0 :: bytes"
  let ?config = "\<lparr>totpSecret = ''JBSWY3DP'', totpIssuer = [], totpAccount = [], totpAlgorithm = ''SHA1'',
                 totpDigits = 6, totpPeriod = 2 ^ 63 - 1\<rparr>"
  let ?at = "(unixToInternal + 1) * 1000000000"
  have key: "decodeTOTPSecret ''JBSWY3DP'' = Inr [72, 101, 108, 108, 111]" by code_simp
  have v: "ValidateTOTPConfig ?config = Inr ()"
    using key by (simp add: ValidateTOTPConfig_iff totpHash_def totp_algorithms)
  have u: "unix_of ?at = 1" by (simp add: unix_of_def)
  have h: "totpHash ''SHA1'' = Inr ''SHA1''" by (simp add: totpHash_def totp_algorithms)
  have d: "totpDivisor 6 = Inr 1000000" by (simp add: totpDivisor_def)
  from GenerateHOTP_value[OF _ key h d, of ?h] obtain shown where
    g: "GenerateHOTP ?h ''JBSWY3DP'' ''SHA1'' 6 0 = Inr shown" by (auto simp: hash_ok_def)
  have "1 div (2 ^ 63 - 1 :: int) = 0" by simp
  then have "GenerateTOTP ?h ?config ?at =
      Inr \<lparr>tcValue = shown, tcExpiresAt = time_unix (int64 (2 ^ 63 - 1))\<rparr>"
    using v u g by (simp add: GenerateTOTP_def)
  moreover have "time_unix (int64 (2 ^ 63 - 1)) < ?at"
  proof -
    have "int64 (2 ^ 63 - 1) = 2 ^ 63 - 1" by (rule int64_id) simp_all
    moreover have "int64 (2 ^ 63 - 1 + unixToInternal) < 0"
      by (simp add: int64_def unixToInternal_def int_word_sint)
    ultimately show ?thesis by (simp add: time_unix_def unixToInternal_def)
  qed
  ultimately show ?thesis using v by (simp add: Let_def)
qed

end
