(* ===== verification/Search.thy ===== *)
theory Search
  imports NativeItems "HOL-Library.Sublist"
begin

text \<open>
  The volatile search index over decrypted items (\<open>internal/client/search.go\<close>). The Unicode
  tables behind \<open>strings.ToLower\<close>, \<open>strings.TrimSpace\<close> and the conversion to runes are
  parameters; everything here holds for any of them.
\<close>

record unicode =
  uToLower :: "string \<Rightarrow> string"
  uTrimSpace :: "string \<Rightarrow> string"
  uRunes :: "string \<Rightarrow> nat list"

section \<open>Fuzzy matching\<close>

datatype search_mode = SearchModeMetadata | SearchModeNoteContents

definition searchTitleWeight :: int where "searchTitleWeight = 5000"
definition searchUsernameWeight :: int where "searchUsernameWeight = 4000"
definition searchURLWeight :: int where "searchURLWeight = 3000"
definition searchFolderWeight :: int where "searchFolderWeight = 2000"
definition searchCustomFieldWeight :: int where "searchCustomFieldWeight = 1000"
definition substringScore :: int where "substringScore = 8000"
definition subsequenceScore :: int where "subsequenceScore = 4000"
definition startPenalty :: int where "startPenalty = 16"
definition gapPenalty :: int where "gapPenalty = 32"

definition matches_at :: "nat list \<Rightarrow> nat list \<Rightarrow> nat \<Rightarrow> bool" where
  "matches_at candidate query start = list_all (\<lambda>i. candidate ! (start + i) = query ! i) [0..<length query]"

function slice_index :: "nat list \<Rightarrow> nat list \<Rightarrow> nat \<Rightarrow> int" where
  "slice_index candidate query start =
     (if int start > int (length candidate) - int (length query) then - 1
      else if matches_at candidate query start then int start
      else slice_index candidate query (start + 1))"
  by auto
termination by (relation "measure (\<lambda>(candidate, query, start). length candidate + 1 - start)") auto

declare slice_index.simps [simp del]

definition runeSliceIndex :: "nat list \<Rightarrow> nat list \<Rightarrow> int" where
  "runeSliceIndex candidate query = slice_index candidate query 0"

text \<open>The loop over the candidate: its position, the first and last match, the next query rune.\<close>

fun subsequence_loop :: "nat list \<Rightarrow> nat \<Rightarrow> nat list \<Rightarrow> nat \<Rightarrow> int \<Rightarrow> nat \<Rightarrow> int \<times> bool" where
  "subsequence_loop query clen [] pos start qi = (0, False)"
| "subsequence_loop query clen (r # rs) pos start qi =
     (if r \<noteq> query ! qi then subsequence_loop query clen rs (pos + 1) start qi
      else let start = (if start < 0 then int pos else start); qi = qi + 1
           in if qi = length query then
                let gaps = int pos - start + 1 - int (length query)
                in (subsequenceScore - start * startPenalty - gaps * gapPenalty - (int clen - int (length query)), True)
              else subsequence_loop query clen rs (pos + 1) start qi)"

definition fuzzyScore :: "unicode \<Rightarrow> string \<Rightarrow> string \<Rightarrow> int \<times> bool" where
  "fuzzyScore u query candidate =
     (let queryRunes = uRunes u (uToLower u query); candidateRunes = uRunes u (uToLower u candidate)
      in if length queryRunes = 0 \<or> length queryRunes > length candidateRunes then (0, False)
         else let start = runeSliceIndex candidateRunes queryRunes
              in if start \<ge> 0 then
                   (substringScore - start * startPenalty - (int (length candidateRunes) - int (length queryRunes)), True)
                 else subsequence_loop queryRunes (length candidateRunes) candidateRunes 0 (- 1) 0)"

section \<open>The index\<close>

record search_field =
  sfValue :: string
  sfWeight :: int

record search_entry =
  seItemID :: string
  seTitle :: string
  seFields :: "search_field list"
  seNoteContent :: string

definition addField :: "string \<Rightarrow> int \<Rightarrow> search_entry \<Rightarrow> search_entry" where
  "addField v weight entry =
     (if v = [] then entry else entry\<lparr>seFields := seFields entry @ [\<lparr>sfValue = v, sfWeight = weight\<rparr>]\<rparr>)"

definition folder_names :: "folder_item list \<Rightarrow> (string, string) fmap" where
  "folder_names folders = fold (\<lambda>f m. fmupd (fItemID f) (fName f) m) folders fmempty"

definition folder_name :: "(string, string) fmap \<Rightarrow> string \<Rightarrow> string" where
  "folder_name names i = (case fmlookup names i of None \<Rightarrow> [] | Some n \<Rightarrow> n)"

definition login_entry :: "(string, string) fmap \<Rightarrow> login_item \<Rightarrow> search_entry" where
  "login_entry names l =
     (let entry = \<lparr>seItemID = lItemID l, seTitle = lName l, seFields = [], seNoteContent = []\<rparr>;
          entry = addField (lName l) searchTitleWeight entry;
          entry = addField (lUsername l) searchUsernameWeight entry;
          entry = fold (\<lambda>itemURL. addField itemURL searchURLWeight) (lURLs l) entry;
          entry = addField (folder_name names (lFolderID l)) searchFolderWeight entry;
          entry = fold (\<lambda>field. addField (cfName field) searchCustomFieldWeight) (lCustomFields l) entry
      in entry\<lparr>seNoteContent := lNotes l\<rparr>)"

definition note_entry :: "(string, string) fmap \<Rightarrow> secure_note_item \<Rightarrow> search_entry" where
  "note_entry names n =
     (let entry = \<lparr>seItemID = nItemID n, seTitle = nTitle n, seFields = [], seNoteContent = []\<rparr>;
          entry = addField (nTitle n) searchTitleWeight entry;
          entry = addField (folder_name names (nFolderID n)) searchFolderWeight entry
      in entry\<lparr>seNoteContent := nContent n\<rparr>)"

definition generic_entry :: "(string, string) fmap \<Rightarrow> generic_item \<Rightarrow> search_entry" where
  "generic_entry names g =
     (let entry = \<lparr>seItemID = gItemID g, seTitle = gTitle g, seFields = [], seNoteContent = []\<rparr>;
          entry = addField (gTitle g) searchTitleWeight entry
      in addField (folder_name names (gFolderID g)) searchFolderWeight entry)"

definition entry_of :: "(string, string) fmap \<Rightarrow> native_item \<Rightarrow> search_entry option" where
  "entry_of names item =
     (if niType item = NativeItemTypeLogin then map_option (login_entry names) (niLogin item)
      else if niType item = NativeItemTypeSecureNote then map_option (note_entry names) (niSecureNote item)
      else if niType item = NativeItemTypeGeneric then map_option (generic_entry names) (niGeneric item)
      else None)"

definition NewSearchIndex :: "native_item list \<Rightarrow> folder_item list \<Rightarrow> search_entry list" where
  "NewSearchIndex items folders = List.map_filter (entry_of (folder_names folders)) items"

section \<open>Searching\<close>

record scored_result =
  rsItemID :: string
  rsScore :: int
  rsTitle :: string

definition better :: "int \<times> bool \<Rightarrow> int \<times> bool \<Rightarrow> int \<times> bool" where
  "better found best =
     (case (found, best) of ((fscore, fmatched), (score, matched)) \<Rightarrow>
        if fmatched \<and> (\<not> matched \<or> fscore > score) then (fscore, True) else (score, matched))"

definition weighted :: "int \<Rightarrow> int \<times> bool \<Rightarrow> int \<times> bool" where
  "weighted weight found = (fst found + weight, snd found)"

definition entry_score :: "unicode \<Rightarrow> string \<Rightarrow> search_mode \<Rightarrow> search_entry \<Rightarrow> int \<times> bool" where
  "entry_score u query mode entry =
     (let best = fold (\<lambda>field. better (weighted (sfWeight field) (fuzzyScore u query (sfValue field)))) (seFields entry) (0, False)
      in if mode = SearchModeNoteContents then better (fuzzyScore u query (seNoteContent entry)) best else best)"

definition scored_entry :: "unicode \<Rightarrow> string \<Rightarrow> search_mode \<Rightarrow> search_entry \<Rightarrow> scored_result option" where
  "scored_entry u query mode entry =
     (case entry_score u query mode entry of (score, matched) \<Rightarrow>
        if \<not> matched then None
        else Some \<lparr>rsItemID = seItemID entry, rsScore = score, rsTitle = uToLower u (seTitle entry)\<rparr>)"

text \<open>
  \<open>sort.Slice\<close> is not stable, but two results its comparison does not separate have the same
  item ID, so the list of item IDs does not depend on the order among them.
\<close>

definition result_key :: "scored_result \<Rightarrow> int \<times> string \<times> string" where
  "result_key r = (- rsScore r, rsTitle r, rsItemID r)"

definition Search :: "unicode \<Rightarrow> search_entry list \<Rightarrow> string \<Rightarrow> search_mode \<Rightarrow> string list" where
  "Search u index query mode =
     (let query = uTrimSpace u (uToLower u query)
      in if query = [] then []
         else map rsItemID (sort_key result_key (List.map_filter (scored_entry u query mode) index)))"

section \<open>Matching is being a subsequence\<close>

lemma slice_index_found:
  "0 \<le> slice_index candidate query start \<Longrightarrow>
   \<exists>k. slice_index candidate query start = int k \<and> matches_at candidate query k \<and> k + length query \<le> length candidate"
proof (induction candidate query start rule: slice_index.induct)
  case (1 candidate query start)
  note unfold = slice_index.simps[of candidate query start]
  consider "int start > int (length candidate) - int (length query)"
    | "\<not> int start > int (length candidate) - int (length query)" "matches_at candidate query start"
    | "\<not> int start > int (length candidate) - int (length query)" "\<not> matches_at candidate query start"
    by blast
  then show ?case
  proof cases
    case 1
    with "1.prems" show ?thesis unfolding unfold by simp
  next
    case 2
    then have "slice_index candidate query start = int start" "start + length query \<le> length candidate"
      unfolding unfold by auto
    with 2 show ?thesis by blast
  next
    case 3
    then have step: "slice_index candidate query start = slice_index candidate query (start + 1)"
      unfolding unfold by simp
    from "1.IH"[OF 3] "1.prems" show ?thesis unfolding step .
  qed
qed

lemma matches_at_subseq:
  assumes "matches_at candidate query k" "k + length query \<le> length candidate"
  shows "subseq query candidate"
proof -
  have "take (length query) (drop k candidate) = query"
    using assms by (intro nth_equalityI) (auto simp: matches_at_def list_all_iff)
  then have "candidate = take k candidate @ query @ drop (length query) (drop k candidate)"
    by (metis append_take_drop_id)
  then show ?thesis by (metis list_emb_append2 list_emb_prefix subseq_order.order_refl)
qed

lemma subsequence_loop_iff:
  "qi < length query \<Longrightarrow> snd (subsequence_loop query clen rs pos start qi) = subseq (drop qi query) rs"
proof (induction rs arbitrary: pos start qi)
  case Nil
  then show ?case by simp
next
  case (Cons r rs)
  have d: "drop qi query = query ! qi # drop (Suc qi) query" using Cons.prems by (simp add: Cons_nth_drop_Suc)
  show ?case
  proof (cases "r = query ! qi")
    case False
    then have "subsequence_loop query clen (r # rs) pos start qi = subsequence_loop query clen rs (pos + 1) start qi" by simp
    with Cons.IH[OF Cons.prems, of "pos + 1" start] False show ?thesis by (simp add: d subseq_Cons2_iff)
  next
    case True
    show ?thesis
    proof (cases "Suc qi = length query")
      case True
      with \<open>r = query ! qi\<close> d show ?thesis by (simp add: Let_def)
    next
      case False
      with Cons.prems have "Suc qi < length query" by simp
      from Cons.IH[OF this] False \<open>r = query ! qi\<close> d show ?thesis by (simp add: Let_def)
    qed
  qed
qed

text \<open>\<open>found u q t\<close>: the runes of \<open>q\<close> occur in those of \<open>t\<close> in this order, ignoring case.\<close>

definition found :: "unicode \<Rightarrow> string \<Rightarrow> string \<Rightarrow> bool" where
  "found u query candidate \<longleftrightarrow> uRunes u (uToLower u query) \<noteq> [] \<and>
     subseq (uRunes u (uToLower u query)) (uRunes u (uToLower u candidate))"

lemma fuzzyScore_matched: "snd (fuzzyScore u query candidate) = found u query candidate"
proof -
  let ?q = "uRunes u (uToLower u query)" and ?c = "uRunes u (uToLower u candidate)"
  show ?thesis
  proof (cases "length ?q = 0 \<or> length ?q > length ?c")
    case True
    then have "?q = [] \<or> \<not> subseq ?q ?c" using list_emb_length by fastforce
    with True show ?thesis by (auto simp: fuzzyScore_def found_def Let_def)
  next
    case False
    show ?thesis
    proof (cases "0 \<le> runeSliceIndex ?c ?q")
      case True
      from slice_index_found[OF this[unfolded runeSliceIndex_def]] have "subseq ?q ?c"
        using matches_at_subseq by blast
      with True False show ?thesis by (simp add: fuzzyScore_def found_def Let_def)
    next
      case no: False
      have "snd (subsequence_loop ?q (length ?c) ?c 0 (- 1) 0) = subseq (drop 0 ?q) ?c"
        by (rule subsequence_loop_iff) (use False in simp)
      with no False show ?thesis by (simp add: fuzzyScore_def found_def Let_def)
    qed
  qed
qed

lemma better_matched [simp]: "snd (better a b) \<longleftrightarrow> snd a \<or> snd b"
  by (auto simp: better_def split: prod.splits)

lemma weighted_matched [simp]: "snd (weighted w a) = snd a"
  by (simp add: weighted_def)

lemma fold_better_matched:
  "snd (fold (\<lambda>x. better (weighted (w x) (f x))) xs b) \<longleftrightarrow> snd b \<or> (\<exists>x \<in> set xs. snd (f x))"
  by (induction xs arbitrary: b) auto

lemma entry_score_matched:
  "snd (entry_score u query mode entry) \<longleftrightarrow>
     (\<exists>field \<in> set (seFields entry). found u query (sfValue field)) \<or>
     mode = SearchModeNoteContents \<and> found u query (seNoteContent entry)"
  by (auto simp: entry_score_def Let_def fold_better_matched fuzzyScore_matched)

section \<open>What an item contributes\<close>

definition login_texts :: "(string, string) fmap \<Rightarrow> login_item \<Rightarrow> string list" where
  "login_texts names l = [lName l, lUsername l] @ lURLs l @ [folder_name names (lFolderID l)] @ map cfName (lCustomFields l)"

definition public_texts :: "(string, string) fmap \<Rightarrow> native_item \<Rightarrow> string list" where
  "public_texts names item =
     (if niType item = NativeItemTypeLogin then (case niLogin item of None \<Rightarrow> [] | Some l \<Rightarrow> login_texts names l)
      else if niType item = NativeItemTypeSecureNote then
        (case niSecureNote item of None \<Rightarrow> [] | Some n \<Rightarrow> [nTitle n, folder_name names (nFolderID n)])
      else if niType item = NativeItemTypeGeneric then
        (case niGeneric item of None \<Rightarrow> [] | Some g \<Rightarrow> [gTitle g, folder_name names (gFolderID g)])
      else [])"

definition note_text :: "native_item \<Rightarrow> string option" where
  "note_text item =
     (if niType item = NativeItemTypeLogin then map_option lNotes (niLogin item)
      else if niType item = NativeItemTypeSecureNote then map_option nContent (niSecureNote item)
      else if niType item = NativeItemTypeGeneric then map_option (\<lambda>_. []) (niGeneric item)
      else None)"

lemma addField_sel [simp]:
  "seItemID (addField v w e) = seItemID e" "seTitle (addField v w e) = seTitle e"
  "seNoteContent (addField v w e) = seNoteContent e"
  "seFields (addField v w e) = seFields e @ (if v = [] then [] else [\<lparr>sfValue = v, sfWeight = w\<rparr>])"
  by (simp_all add: addField_def)

lemma fold_addField_sel [simp]:
  "seItemID (fold (\<lambda>x. addField (f x) w) xs e) = seItemID e"
  "seTitle (fold (\<lambda>x. addField (f x) w) xs e) = seTitle e"
  "seNoteContent (fold (\<lambda>x. addField (f x) w) xs e) = seNoteContent e"
  "seFields (fold (\<lambda>x. addField (f x) w) xs e) =
     seFields e @ map (\<lambda>x. \<lparr>sfValue = f x, sfWeight = w\<rparr>) (filter (\<lambda>x. f x \<noteq> []) xs)"
  by (induction xs arbitrary: e) simp_all

definition fields_of :: "int \<Rightarrow> string list \<Rightarrow> search_field list" where
  "fields_of w ts = map (\<lambda>t. \<lparr>sfValue = t, sfWeight = w\<rparr>) (filter (\<lambda>t. t \<noteq> []) ts)"

lemma fields_of_values: "sfValue ` set (fields_of w ts) = {t \<in> set ts. t \<noteq> []}"
  by (auto simp: fields_of_def image_iff)

lemma login_entry_sel [simp]:
  "seItemID (login_entry names l) = lItemID l" "seNoteContent (login_entry names l) = lNotes l"
  "seTitle (login_entry names l) = lName l"
  "seFields (login_entry names l) = fields_of searchTitleWeight [lName l] @ fields_of searchUsernameWeight [lUsername l] @
     fields_of searchURLWeight (lURLs l) @ fields_of searchFolderWeight [folder_name names (lFolderID l)] @
     fields_of searchCustomFieldWeight (map cfName (lCustomFields l))"
  by (simp_all add: login_entry_def Let_def fields_of_def filter_map comp_def)

lemma note_entry_sel [simp]:
  "seItemID (note_entry names n) = nItemID n" "seNoteContent (note_entry names n) = nContent n"
  "seTitle (note_entry names n) = nTitle n"
  "seFields (note_entry names n) = fields_of searchTitleWeight [nTitle n] @
     fields_of searchFolderWeight [folder_name names (nFolderID n)]"
  by (simp_all add: note_entry_def Let_def fields_of_def)

lemma generic_entry_sel [simp]:
  "seItemID (generic_entry names g) = gItemID g" "seNoteContent (generic_entry names g) = []"
  "seTitle (generic_entry names g) = gTitle g"
  "seFields (generic_entry names g) = fields_of searchTitleWeight [gTitle g] @
     fields_of searchFolderWeight [folder_name names (gFolderID g)]"
  by (simp_all add: generic_entry_def Let_def fields_of_def)

lemma entry_of_sel:
  assumes "entry_of names item = Some entry"
  shows "nativeItemID item = Some (seItemID entry)" "niType item \<noteq> NativeItemTypeFolder"
    "note_text item = Some (seNoteContent entry)"
    "sfValue ` set (seFields entry) = {t \<in> set (public_texts names item). t \<noteq> []}"
proof -
  consider l where "niType item = NativeItemTypeLogin" "niLogin item = Some l" "entry = login_entry names l"
    | n where "niType item = NativeItemTypeSecureNote" "niSecureNote item = Some n" "entry = note_entry names n"
    | g where "niType item = NativeItemTypeGeneric" "niGeneric item = Some g" "entry = generic_entry names g"
    using assms by (auto simp: entry_of_def split: if_splits)
  note kinds = this
  show "nativeItemID item = Some (seItemID entry)" "niType item \<noteq> NativeItemTypeFolder"
    "note_text item = Some (seNoteContent entry)"
    using kinds by (cases; simp add: nativeItemID_def note_text_def native_type_defs)+
  show "sfValue ` set (seFields entry) = {t \<in> set (public_texts names item). t \<noteq> []}"
    using kinds
    by cases (auto simp: public_texts_def native_type_defs login_texts_def image_Un fields_of_values)
qed

lemma entry_of_None_iff:
  "entry_of names item = None \<longleftrightarrow> niType item = NativeItemTypeFolder \<or> nativeItemID item = None"
  by (auto simp: entry_of_def nativeItemID_def native_type_defs)

section \<open>Results\<close>

text \<open>An item without its secrets: no password, history, note, one-time password, custom value or raw data.\<close>

definition redact_login :: "login_item \<Rightarrow> login_item" where
  "redact_login l = l\<lparr>lPassword := [], lPasswordHistory := [], lNotes := [], lTOTP := None,
     lCustomFields := map (\<lambda>f. f\<lparr>cfValue := []\<rparr>) (lCustomFields l)\<rparr>"

definition redact :: "native_item \<Rightarrow> native_item" where
  "redact item = item\<lparr>niLogin := map_option redact_login (niLogin item),
     niSecureNote := map_option (\<lambda>n. n\<lparr>nContent := []\<rparr>) (niSecureNote item),
     niGeneric := map_option (\<lambda>g. g\<lparr>gSource := [], gSourceType := [], gData := []\<rparr>) (niGeneric item)\<rparr>"

lemma login_entry_redact: "login_entry names (redact_login l) = (login_entry names l)\<lparr>seNoteContent := []\<rparr>"
  by (simp add: login_entry_def redact_login_def Let_def fold_map comp_def)

lemma entry_of_redact: "entry_of names (redact item) = map_option (\<lambda>e. e\<lparr>seNoteContent := []\<rparr>) (entry_of names item)"
proof -
  have n: "note_entry names (n\<lparr>nContent := []\<rparr>) = (note_entry names n)\<lparr>seNoteContent := []\<rparr>" for n
    by (simp add: note_entry_def Let_def)
  have g: "generic_entry names (g\<lparr>gSource := [], gSourceType := [], gData := []\<rparr>) = (generic_entry names g)\<lparr>seNoteContent := []\<rparr>" for g
    by (rule search_entry.equality) simp_all
  show ?thesis
    by (auto simp: entry_of_def redact_def native_type_defs option.map_comp comp_def login_entry_redact n g)
qed

lemma scored_entry_redact:
  "scored_entry u query SearchModeMetadata (e\<lparr>seNoteContent := []\<rparr>) = scored_entry u query SearchModeMetadata e"
  by (simp add: scored_entry_def entry_score_def split: prod.splits)

lemma map_filter_map: "List.map_filter f (map g xs) = List.map_filter (\<lambda>x. f (g x)) xs"
  by (induction xs) (auto simp: map_filter_simps split: option.splits)

lemma NewSearchIndex_scored:
  "List.map_filter (scored_entry u query mode) (NewSearchIndex items folders) =
   List.map_filter (\<lambda>item. Option.bind (entry_of (folder_names folders) item) (scored_entry u query mode)) items"
  unfolding NewSearchIndex_def
  by (induction items) (auto simp: map_filter_simps split: option.splits)

lemma Search_redacted:
  "Search u (NewSearchIndex (map redact items) folders) query SearchModeMetadata =
   Search u (NewSearchIndex items folders) query SearchModeMetadata"
proof -
  have "Option.bind (entry_of names (redact item)) (scored_entry u q SearchModeMetadata) =
      Option.bind (entry_of names item) (scored_entry u q SearchModeMetadata)" for names q item
    by (cases "entry_of names item") (simp_all add: entry_of_redact scored_entry_redact)
  then show ?thesis by (simp add: Search_def Let_def NewSearchIndex_scored map_filter_map)
qed

lemma sorted_results_order:
  assumes "mset xs = mset ys"
  shows "map rsItemID (sort_key result_key xs) = map rsItemID (sort_key result_key ys)"
proof -
  have key: "map result_key (sort_key result_key zs) = sort (map result_key zs)" for zs
  proof (rule properties_for_sort[symmetric])
    show "mset (map result_key (sort_key result_key zs)) = mset (map result_key zs)" by simp
    show "sorted (map result_key (sort_key result_key zs))" by (rule sorted_sort_key)
  qed
  have item: "map rsItemID zs = map (\<lambda>k. snd (snd k)) (map result_key zs)" for zs
    by (simp add: result_key_def)
  have same: "sort (map result_key xs) = sort (map result_key ys)"
    using assms by (simp only: sort_eq_iff_mset mset_map)
  show ?thesis
    using item[of "sort_key result_key xs"] item[of "sort_key result_key ys"] by (simp only: key same)
qed

lemma mset_map_filter: "mset xs = mset ys \<Longrightarrow> mset (List.map_filter f xs) = mset (List.map_filter f ys)"
  unfolding List.map_filter_def by simp

lemma Search_item_order:
  assumes "mset items = mset items'"
  shows "Search u (NewSearchIndex items folders) query mode = Search u (NewSearchIndex items' folders) query mode"
proof -
  have "map rsItemID (sort_key result_key (List.map_filter f items)) =
      map rsItemID (sort_key result_key (List.map_filter f items'))" for f
    by (rule sorted_results_order) (rule mset_map_filter[OF assms])
  then show ?thesis unfolding Search_def Let_def NewSearchIndex_scored by (rule arg_cong2[where f = "\<lambda>a b. if a then [] else b", OF refl])
qed

definition item_matches :: "unicode \<Rightarrow> (string, string) fmap \<Rightarrow> string \<Rightarrow> search_mode \<Rightarrow> native_item \<Rightarrow> bool" where
  "item_matches u names query mode item \<longleftrightarrow>
     niType item \<noteq> NativeItemTypeFolder \<and> nativeItemID item \<noteq> None \<and>
     ((\<exists>t \<in> set (public_texts names item). t \<noteq> [] \<and> found u query t) \<or>
      mode = SearchModeNoteContents \<and> (\<exists>n \<in> set_option (note_text item). found u query n))"

lemma scored_item:
  "map_option rsItemID (Option.bind (entry_of names item) (scored_entry u query mode)) =
     (if item_matches u names query mode item then nativeItemID item else None)"
proof (cases "entry_of names item")
  case None
  then have "\<not> item_matches u names query mode item" by (auto simp: item_matches_def entry_of_None_iff)
  with None show ?thesis by simp
next
  case (Some e)
  note E = entry_of_sel[OF this]
  have "(\<exists>field \<in> set (seFields e). found u query (sfValue field)) \<longleftrightarrow> (\<exists>t \<in> sfValue ` set (seFields e). found u query t)"
    by blast
  also have "\<dots> \<longleftrightarrow> (\<exists>t \<in> set (public_texts names item). t \<noteq> [] \<and> found u query t)" unfolding E(4) by blast
  finally have "snd (entry_score u query mode e) = item_matches u names query mode item"
    using E(1-3) by (simp add: entry_score_matched item_matches_def)
  with Some E(1) show ?thesis by (auto simp: scored_entry_def split: prod.splits)
qed

lemma Search_results:
  assumes "uTrimSpace u (uToLower u query) \<noteq> []"
  shows "mset (Search u (NewSearchIndex items folders) query mode) =
    mset (List.map_filter (\<lambda>item. if item_matches u (folder_names folders) (uTrimSpace u (uToLower u query)) mode item
                                   then nativeItemID item else None) items)"
proof -
  let ?q = "uTrimSpace u (uToLower u query)" and ?names = "folder_names folders"
  have "mset (Search u (NewSearchIndex items folders) query mode) =
      mset (map rsItemID (List.map_filter (\<lambda>item. Option.bind (entry_of ?names item) (scored_entry u ?q mode)) items))"
    using assms by (simp add: Search_def Let_def NewSearchIndex_scored)
  also have "map rsItemID (List.map_filter (\<lambda>item. Option.bind (entry_of ?names item) (scored_entry u ?q mode)) items) =
      List.map_filter (\<lambda>item. map_option rsItemID (Option.bind (entry_of ?names item) (scored_entry u ?q mode))) items"
    by (induction items) (auto simp: map_filter_simps split: option.splits)
  finally show ?thesis by (simp only: scored_item)
qed

end
