(* ===== verification/VaultCrypto.thy ===== *)
theory VaultCrypto
  imports Totp RevisionGraph
begin

text \<open>
  Client-side encryption: the vault key wrapped by the master password and by the recovery key
  (\<open>internal/client/vault.go\<close>, \<open>password.go\<close>) and the items sealed under it
  (\<open>internal/client/item.go\<close>). The primitives (XChaCha20-Poly1305, HKDF, Argon2id, the
  random source) and \<open>encoding/json\<close> are parameters; clearing memory has no counterpart.
\<close>

section \<open>Parameters\<close>

record item_envelope =
  ieVersion :: int
  ieNonce :: bytes
  ieCiphertext :: bytes

record vault_envelope =
  veVersion :: int
  veKDF :: string
  veMemoryKiB :: "32 word"
  vePasses :: "32 word"
  veParallelism :: "8 word"
  veSalt :: bytes
  veNonce :: bytes
  veCiphertext :: bytes

text \<open>The plaintext structures: a type, a version and the embedded item.\<close>

datatype item_plaintext =
  LoginPlaintext string int login_item
| SecureNotePlaintext string int secure_note_item
| FolderPlaintext string int folder_item
| GenericPlaintext string int generic_item

record crypto_env =
  hkdf :: "bytes \<Rightarrow> string \<Rightarrow> bytes"
  argon2 :: "bytes \<Rightarrow> bytes \<Rightarrow> 32 word \<Rightarrow> 32 word \<Rightarrow> 8 word \<Rightarrow> bytes"
  aeadSeal :: "bytes \<Rightarrow> bytes \<Rightarrow> bytes \<Rightarrow> bytes \<Rightarrow> bytes"
  aeadOpen :: "bytes \<Rightarrow> bytes \<Rightarrow> bytes \<Rightarrow> bytes \<Rightarrow> bytes option"
  randRead :: "string \<Rightarrow> nat \<Rightarrow> bytes option"
  marshalItem :: "item_plaintext \<Rightarrow> bytes option"
  readHeader :: "bytes \<Rightarrow> (string \<times> int) option"
  readLogin :: "bytes \<Rightarrow> (int \<times> login_item) option"
  readNote :: "bytes \<Rightarrow> (int \<times> secure_note_item) option"
  readFolder :: "bytes \<Rightarrow> (int \<times> folder_item) option"
  readGeneric :: "bytes \<Rightarrow> (int \<times> generic_item) option"
  jsonValid :: "bytes \<Rightarrow> bool"
  marshalItemEnvelope :: "item_envelope \<Rightarrow> bytes option"
  readItemEnvelope :: "bytes \<Rightarrow> item_envelope option"
  marshalVaultEnvelope :: "vault_envelope \<Rightarrow> bytes option"
  readVaultEnvelope :: "bytes \<Rightarrow> vault_envelope option"

datatype crypto_error =
  ErrItemEnvelope | ErrInvalidVaultEnvelope | ErrWeakMasterPassword | ErrAccountRequired
| ErrTOTP | ErrEncode | ErrRandomSource | ErrCipher | PanicArgon2

definition KeySize :: nat where "KeySize = 32"
definition NonceSizeX :: nat where "NonceSizeX = 24"

section \<open>Master passwords\<close>

record rune_classes =
  rcRunes :: "string \<Rightarrow> nat list"
  isUpper :: "nat \<Rightarrow> bool"
  isLower :: "nat \<Rightarrow> bool"
  isNumber :: "nat \<Rightarrow> bool"
  isPunct :: "nat \<Rightarrow> bool"
  isSymbol :: "nat \<Rightarrow> bool"

fun scan_classes :: "rune_classes \<Rightarrow> nat list \<Rightarrow> bool \<times> bool \<times> bool \<times> bool \<Rightarrow> bool \<times> bool \<times> bool \<times> bool" where
  "scan_classes rc [] st = st"
| "scan_classes rc (r # rs) (upper, lower, number, special) =
     scan_classes rc rs
       (if isUpper rc r then (True, lower, number, special)
        else if isLower rc r then (upper, True, number, special)
        else if isNumber rc r then (upper, lower, True, special)
        else if isPunct rc r \<or> isSymbol rc r then (upper, lower, number, True)
        else (upper, lower, number, special))"

definition ValidateMasterPassword :: "rune_classes \<Rightarrow> string \<Rightarrow> bool" where
  "ValidateMasterPassword rc password =
     (if length (rcRunes rc password) < 12 then False
      else case scan_classes rc (rcRunes rc password) (False, False, False, False) of
        (upper, lower, number, special) \<Rightarrow> \<not> (\<not> upper \<or> \<not> lower \<or> \<not> number \<or> \<not> special))"

section \<open>Purpose keys and associated data\<close>

definition derivePurposeKey :: "crypto_env \<Rightarrow> bytes \<Rightarrow> string \<Rightarrow> bytes" where
  "derivePurposeKey env material purpose = hkdf env material (''termkeep/v1/'' @ purpose)"

definition vaultAssociatedData :: "string \<Rightarrow> bytes" where
  "vaultAssociatedData accountID = string_bytes (''termkeep/vault-envelope/v1/'' @ accountID)"

definition item_place :: "string \<Rightarrow> string \<Rightarrow> int \<Rightarrow> u64 \<Rightarrow> string" where
  "item_place accountID i schema revno =
     ''termkeep/item-envelope/v1/account/'' @ accountID @ ''/item/'' @ i @ ''/schema/'' @ int_text schema @
     ''/revision/'' @ dec (unat revno)"

definition itemAssociatedData :: "string \<Rightarrow> string \<Rightarrow> int \<Rightarrow> u64 \<Rightarrow> bytes" where
  "itemAssociatedData accountID i schema revno = string_bytes (item_place accountID i schema revno)"

section \<open>Wrapping the vault key\<close>

definition argonMemoryKiB :: "32 word" where "argonMemoryKiB = 64 * 1024"
definition argonPasses :: "32 word" where "argonPasses = 3"
definition argonParallelism :: "8 word" where "argonParallelism = 4"

text \<open>\<open>argon2.IDKey\<close> panics for no passes or no threads.\<close>

definition argon2_IDKey :: "crypto_env \<Rightarrow> bytes \<Rightarrow> bytes \<Rightarrow> 32 word \<Rightarrow> 32 word \<Rightarrow> 8 word \<Rightarrow> crypto_error + bytes" where
  "argon2_IDKey env password salt passes memory threads =
     (if passes < 1 \<or> threads < 1 then Inl PanicArgon2 else Inr (argon2 env password salt passes memory threads))"

definition sealVaultKey :: "crypto_env \<Rightarrow> bytes \<Rightarrow> bytes \<Rightarrow> string \<Rightarrow> vault_envelope \<Rightarrow> crypto_error + bytes" where
  "sealVaultKey env vaultKey wrappingKey accountID e =
     (if length wrappingKey \<noteq> KeySize then Inl ErrCipher
      else case randRead env (veKDF e) NonceSizeX of None \<Rightarrow> Inl ErrRandomSource | Some nonce \<Rightarrow>
      let e = e\<lparr>veNonce := nonce,
                veCiphertext := aeadSeal env wrappingKey nonce vaultKey (vaultAssociatedData accountID)\<rparr>
      in case marshalVaultEnvelope env e of None \<Rightarrow> Inl ErrEncode | Some encoded \<Rightarrow> Inr encoded)"

definition openVaultKey :: "crypto_env \<Rightarrow> vault_envelope \<Rightarrow> bytes \<Rightarrow> string \<Rightarrow> crypto_error + bytes" where
  "openVaultKey env e wrappingKey accountID =
     (if length wrappingKey \<noteq> KeySize \<or> length (veNonce e) \<noteq> NonceSizeX then Inl ErrInvalidVaultEnvelope
      else case aeadOpen env wrappingKey (veNonce e) (veCiphertext e) (vaultAssociatedData accountID) of
        None \<Rightarrow> Inl ErrInvalidVaultEnvelope
      | Some key \<Rightarrow> if length key \<noteq> KeySize then Inl ErrInvalidVaultEnvelope else Inr key)"

definition decodeVaultEnvelope :: "crypto_env \<Rightarrow> bytes \<Rightarrow> crypto_error + vault_envelope" where
  "decodeVaultEnvelope env encoded =
     (case readVaultEnvelope env encoded of
        None \<Rightarrow> Inl ErrInvalidVaultEnvelope
      | Some e \<Rightarrow> if veVersion e \<noteq> 1 \<or> length (veCiphertext e) = 0 then Inl ErrInvalidVaultEnvelope else Inr e)"

definition passwordEnvelope :: "crypto_env \<Rightarrow> bytes \<Rightarrow> bytes \<Rightarrow> string \<Rightarrow> crypto_error + bytes" where
  "passwordEnvelope env vaultKey masterPassword accountID =
     (case randRead env ''salt'' 16 of None \<Rightarrow> Inl ErrRandomSource | Some salt \<Rightarrow>
      bind_e (argon2_IDKey env masterPassword salt argonPasses argonMemoryKiB argonParallelism) (\<lambda>derived.
      sealVaultKey env vaultKey (derivePurposeKey env derived ''vault-password-wrap'') accountID
        \<lparr>veVersion = 1, veKDF = ''argon2id'', veMemoryKiB = argonMemoryKiB, vePasses = argonPasses,
         veParallelism = argonParallelism, veSalt = salt, veNonce = [], veCiphertext = []\<rparr>))"

definition recoveryEnvelope :: "crypto_env \<Rightarrow> bytes \<Rightarrow> bytes \<Rightarrow> string \<Rightarrow> crypto_error + bytes" where
  "recoveryEnvelope env vaultKey recoveryMaterial accountID =
     sealVaultKey env vaultKey (derivePurposeKey env recoveryMaterial ''vault-recovery-wrap'') accountID
       \<lparr>veVersion = 1, veKDF = ''hkdf-sha256'', veMemoryKiB = 0, vePasses = 0, veParallelism = 0, veSalt = [],
        veNonce = [], veCiphertext = []\<rparr>"

record vault =
  vKey :: bytes
  vRecoveryKey :: string
  vPasswordEnvelope :: bytes
  vRecoveryEnvelope :: bytes

definition NewVault :: "crypto_env \<Rightarrow> rune_classes \<Rightarrow> string \<Rightarrow> string \<Rightarrow> crypto_error + vault" where
  "NewVault env rc masterPassword accountID =
     (if \<not> ValidateMasterPassword rc masterPassword then Inl ErrWeakMasterPassword
      else if accountID = [] then Inl ErrAccountRequired
      else case randRead env ''vault key'' KeySize of None \<Rightarrow> Inl ErrRandomSource | Some vaultKey \<Rightarrow>
      case randRead env ''recovery'' KeySize of None \<Rightarrow> Inl ErrRandomSource | Some recoveryMaterial \<Rightarrow>
      bind_e (passwordEnvelope env vaultKey (string_bytes masterPassword) accountID) (\<lambda>pe.
      bind_e (recoveryEnvelope env vaultKey recoveryMaterial accountID) (\<lambda>re.
      Inr \<lparr>vKey = vaultKey, vRecoveryKey = EncodeToString URLAlphabet recoveryMaterial,
           vPasswordEnvelope = pe, vRecoveryEnvelope = re\<rparr>)))"

definition UnlockVaultWithPassword :: "crypto_env \<Rightarrow> bytes \<Rightarrow> bytes \<Rightarrow> string \<Rightarrow> crypto_error + bytes" where
  "UnlockVaultWithPassword env encoded masterPassword accountID =
     bind_e (decodeVaultEnvelope env encoded) (\<lambda>e.
       if veKDF e \<noteq> ''argon2id'' \<or> veMemoryKiB e < argonMemoryKiB \<or> vePasses e < argonPasses \<or> length (veSalt e) < 16
       then Inl ErrInvalidVaultEnvelope
       else bind_e (argon2_IDKey env masterPassword (veSalt e) (vePasses e) (veMemoryKiB e) (veParallelism e)) (\<lambda>derived.
         openVaultKey env e (derivePurposeKey env derived ''vault-password-wrap'') accountID))"

definition UnlockVaultWithRecovery :: "crypto_env \<Rightarrow> bytes \<Rightarrow> string \<Rightarrow> string \<Rightarrow> crypto_error + bytes" where
  "UnlockVaultWithRecovery env encoded recoveryKey accountID =
     bind_e (decodeVaultEnvelope env encoded) (\<lambda>e.
       if veKDF e \<noteq> ''hkdf-sha256'' then Inl ErrInvalidVaultEnvelope
       else case DecodeString URLAlphabet recoveryKey of
         None \<Rightarrow> Inl ErrInvalidVaultEnvelope
       | Some recoveryMaterial \<Rightarrow>
           if length recoveryMaterial \<noteq> KeySize then Inl ErrInvalidVaultEnvelope
           else openVaultKey env e (derivePurposeKey env recoveryMaterial ''vault-recovery-wrap'') accountID)"

section \<open>Sealing items\<close>

definition loginItemSchemaVersion :: int where "loginItemSchemaVersion = 1"
definition secureNoteItemSchemaVersion :: int where "secureNoteItemSchemaVersion = 1"
definition folderItemSchemaVersion :: int where "folderItemSchemaVersion = 1"
definition genericItemSchemaVersion :: int where "genericItemSchemaVersion = 1"
definition itemEnvelopeVersion :: int where "itemEnvelopeVersion = 1"
definition itemPlaintextVersion :: int where "itemPlaintextVersion = 1"

lemmas item_versions = loginItemSchemaVersion_def secureNoteItemSchemaVersion_def folderItemSchemaVersion_def
  genericItemSchemaVersion_def itemEnvelopeVersion_def itemPlaintextVersion_def

definition encryptItem ::
  "crypto_env \<Rightarrow> bytes \<Rightarrow> string \<Rightarrow> string \<Rightarrow> int \<Rightarrow> u64 \<Rightarrow> item_plaintext \<Rightarrow> crypto_error + encrypted_item" where
  "encryptItem env vaultKey accountID i schema revno v =
     (case marshalItem env v of None \<Rightarrow> Inl ErrEncode | Some plaintext \<Rightarrow>
      let key = derivePurposeKey env vaultKey (''item/'' @ i) in
      if length key \<noteq> KeySize then Inl ErrItemEnvelope
      else case randRead env ''item nonce'' NonceSizeX of None \<Rightarrow> Inl ErrRandomSource | Some nonce \<Rightarrow>
      let e = \<lparr>ieVersion = itemEnvelopeVersion, ieNonce = nonce,
               ieCiphertext = aeadSeal env key nonce plaintext (itemAssociatedData accountID i schema revno)\<rparr>
      in case marshalItemEnvelope env e of None \<Rightarrow> Inl ErrEncode | Some encoded \<Rightarrow>
         Inr \<lparr>itemID = i, schemaVersion = schema, revision = revno, revisionID = [], parentRevisionIDs = [],
              deleted = False, purged = False, envelope = encoded\<rparr>)"

definition EncryptLogin :: "crypto_env \<Rightarrow> bytes \<Rightarrow> string \<Rightarrow> login_item \<Rightarrow> u64 \<Rightarrow> crypto_error + encrypted_item" where
  "EncryptLogin env vaultKey accountID login revno =
     (if length vaultKey \<noteq> KeySize \<or> accountID = [] \<or> lItemID login = [] \<or> revno = 0 then Inl ErrItemEnvelope
      else if (case lTOTP login of None \<Rightarrow> False | Some config \<Rightarrow> ValidateTOTPConfig config \<noteq> Inr ()) then Inl ErrTOTP
      else encryptItem env vaultKey accountID (lItemID login) loginItemSchemaVersion revno
             (LoginPlaintext ''login'' itemPlaintextVersion login))"

definition EncryptSecureNote :: "crypto_env \<Rightarrow> bytes \<Rightarrow> string \<Rightarrow> secure_note_item \<Rightarrow> u64 \<Rightarrow> crypto_error + encrypted_item" where
  "EncryptSecureNote env vaultKey accountID note revno =
     (if length vaultKey \<noteq> KeySize \<or> accountID = [] \<or> nItemID note = [] \<or> revno = 0 then Inl ErrItemEnvelope
      else encryptItem env vaultKey accountID (nItemID note) secureNoteItemSchemaVersion revno
             (SecureNotePlaintext ''secure_note'' itemPlaintextVersion note))"

definition EncryptFolder :: "crypto_env \<Rightarrow> bytes \<Rightarrow> string \<Rightarrow> folder_item \<Rightarrow> u64 \<Rightarrow> crypto_error + encrypted_item" where
  "EncryptFolder env vaultKey accountID folder revno =
     (if length vaultKey \<noteq> KeySize \<or> accountID = [] \<or> fItemID folder = [] \<or> revno = 0 then Inl ErrItemEnvelope
      else encryptItem env vaultKey accountID (fItemID folder) folderItemSchemaVersion revno
             (FolderPlaintext ''folder'' itemPlaintextVersion folder))"

definition EncryptGenericItem :: "crypto_env \<Rightarrow> bytes \<Rightarrow> string \<Rightarrow> generic_item \<Rightarrow> u64 \<Rightarrow> crypto_error + encrypted_item" where
  "EncryptGenericItem env vaultKey accountID generic revno =
     (if length vaultKey \<noteq> KeySize \<or> accountID = [] \<or> gItemID generic = [] \<or> gTitle generic = [] \<or>
         gSource generic = [] \<or> gSourceType generic = [] \<or> \<not> jsonValid env (gData generic) \<or> revno = 0
      then Inl ErrItemEnvelope
      else encryptItem env vaultKey accountID (gItemID generic) genericItemSchemaVersion revno
             (GenericPlaintext ''generic'' itemPlaintextVersion generic))"

section \<open>Opening items\<close>

definition decryptItem :: "crypto_env \<Rightarrow> bytes \<Rightarrow> string \<Rightarrow> encrypted_item \<Rightarrow> crypto_error + bytes" where
  "decryptItem env vaultKey accountID item =
     (case readItemEnvelope env (envelope item) of
        None \<Rightarrow> Inl ErrItemEnvelope
      | Some e \<Rightarrow>
          if ieVersion e \<noteq> itemEnvelopeVersion then Inl ErrItemEnvelope
          else let key = derivePurposeKey env vaultKey (''item/'' @ itemID item) in
          if length key \<noteq> KeySize \<or> length (ieNonce e) \<noteq> NonceSizeX then Inl ErrItemEnvelope
          else case aeadOpen env key (ieNonce e) (ieCiphertext e)
                      (itemAssociatedData accountID (itemID item) (schemaVersion item) (revision item)) of
                 None \<Rightarrow> Inl ErrItemEnvelope | Some plaintext \<Rightarrow> Inr plaintext)"

definition no_item :: native_item where
  "no_item = \<lparr>niType = [], niLogin = None, niSecureNote = None, niFolder = None, niGeneric = None\<rparr>"

definition DecryptNativeItem :: "crypto_env \<Rightarrow> bytes \<Rightarrow> string \<Rightarrow> encrypted_item \<Rightarrow> crypto_error + native_item" where
  "DecryptNativeItem env vaultKey accountID item =
     (if length vaultKey \<noteq> KeySize \<or> accountID = [] \<or> itemID item = [] \<or> schemaVersion item < 1 \<or> revision item = 0
      then Inl ErrItemEnvelope
      else bind_e (decryptItem env vaultKey accountID item) (\<lambda>plaintext.
      case readHeader env plaintext of None \<Rightarrow> Inl ErrItemEnvelope | Some (type, version) \<Rightarrow>
      if type = NativeItemTypeLogin then
        (if schemaVersion item \<noteq> loginItemSchemaVersion then Inl ErrItemEnvelope
         else case readLogin env plaintext of None \<Rightarrow> Inl ErrItemEnvelope | Some (version, decoded) \<Rightarrow>
           if (version \<noteq> 0 \<and> version \<noteq> itemPlaintextVersion) \<or> lItemID decoded \<noteq> itemID item then Inl ErrItemEnvelope
           else Inr (no_item\<lparr>niType := NativeItemTypeLogin, niLogin := Some decoded\<rparr>))
      else if type = NativeItemTypeSecureNote then
        (if schemaVersion item \<noteq> secureNoteItemSchemaVersion then Inl ErrItemEnvelope
         else case readNote env plaintext of None \<Rightarrow> Inl ErrItemEnvelope | Some (version, decoded) \<Rightarrow>
           if version \<noteq> itemPlaintextVersion \<or> nItemID decoded \<noteq> itemID item then Inl ErrItemEnvelope
           else Inr (no_item\<lparr>niType := NativeItemTypeSecureNote, niSecureNote := Some decoded\<rparr>))
      else if type = NativeItemTypeFolder then
        (if schemaVersion item \<noteq> folderItemSchemaVersion then Inl ErrItemEnvelope
         else case readFolder env plaintext of None \<Rightarrow> Inl ErrItemEnvelope | Some (version, decoded) \<Rightarrow>
           if version \<noteq> itemPlaintextVersion \<or> fItemID decoded \<noteq> itemID item then Inl ErrItemEnvelope
           else Inr (no_item\<lparr>niType := NativeItemTypeFolder, niFolder := Some decoded\<rparr>))
      else if type = NativeItemTypeGeneric then
        (if schemaVersion item \<noteq> genericItemSchemaVersion then Inl ErrItemEnvelope
         else case readGeneric env plaintext of None \<Rightarrow> Inl ErrItemEnvelope | Some (version, decoded) \<Rightarrow>
           if version \<noteq> itemPlaintextVersion \<or> gItemID decoded \<noteq> itemID item \<or> gTitle decoded = [] \<or>
              gSource decoded = [] \<or> gSourceType decoded = [] \<or> \<not> jsonValid env (gData decoded)
           then Inl ErrItemEnvelope
           else Inr (no_item\<lparr>niType := NativeItemTypeGeneric, niGeneric := Some decoded\<rparr>))
      else Inl ErrItemEnvelope))"

definition DecryptLogin :: "crypto_env \<Rightarrow> bytes \<Rightarrow> string \<Rightarrow> encrypted_item \<Rightarrow> crypto_error + login_item" where
  "DecryptLogin env vaultKey accountID item =
     bind_e (DecryptNativeItem env vaultKey accountID item) (\<lambda>opened.
       if niType opened \<noteq> NativeItemTypeLogin then Inl ErrItemEnvelope
       else option_e ErrItemEnvelope (niLogin opened))"

definition DecryptSecureNote :: "crypto_env \<Rightarrow> bytes \<Rightarrow> string \<Rightarrow> encrypted_item \<Rightarrow> crypto_error + secure_note_item" where
  "DecryptSecureNote env vaultKey accountID item =
     bind_e (DecryptNativeItem env vaultKey accountID item) (\<lambda>opened.
       if niType opened \<noteq> NativeItemTypeSecureNote then Inl ErrItemEnvelope
       else option_e ErrItemEnvelope (niSecureNote opened))"

definition DecryptFolder :: "crypto_env \<Rightarrow> bytes \<Rightarrow> string \<Rightarrow> encrypted_item \<Rightarrow> crypto_error + folder_item" where
  "DecryptFolder env vaultKey accountID item =
     bind_e (DecryptNativeItem env vaultKey accountID item) (\<lambda>opened.
       if niType opened \<noteq> NativeItemTypeFolder then Inl ErrItemEnvelope
       else option_e ErrItemEnvelope (niFolder opened))"

definition DecryptGenericItem :: "crypto_env \<Rightarrow> bytes \<Rightarrow> string \<Rightarrow> encrypted_item \<Rightarrow> crypto_error + generic_item" where
  "DecryptGenericItem env vaultKey accountID item =
     bind_e (DecryptNativeItem env vaultKey accountID item) (\<lambda>opened.
       if niType opened \<noteq> NativeItemTypeGeneric then Inl ErrItemEnvelope
       else option_e ErrItemEnvelope (niGeneric opened))"

section \<open>The place an envelope is bound to\<close>

lemma of_char_word_inject: "(of_nat (of_char c) :: 8 word) = of_nat (of_char d) \<Longrightarrow> c = d"
proof -
  have small: "(of_char x :: nat) < 2 ^ LENGTH(8)" for x :: char by simp
  assume "(of_nat (of_char c) :: 8 word) = of_nat (of_char d)"
  then have "unat (of_nat (of_char c) :: 8 word) = unat (of_nat (of_char d) :: 8 word)" by simp
  then have "(of_char c :: nat) = of_char d" by (simp only: unat_of_nat mod_less[OF small])
  then show "c = d" by simp
qed

lemma string_bytes_inject: "string_bytes s = string_bytes t \<Longrightarrow> s = t"
  unfolding string_bytes_def by (rule map_injective) (auto intro: injI of_char_word_inject)

lemma dec_plain: "c \<in> set (dec n) \<Longrightarrow> c \<noteq> CHR ''/'' \<and> c \<noteq> CHR ''-''"
proof -
  assume "c \<in> set (dec n)"
  then obtain d where "d < 10" "c = digit_char d" using dec_digits by blast
  then have "(of_char c :: nat) = 48 + d" by (simp add: of_char_digit_char)
  then show ?thesis by auto
qed

lemma int_text_plain: "CHR ''/'' \<notin> set (int_text n)"
  using dec_plain by (auto simp: int_text_def)

lemma int_text_inject: "int_text m = int_text n \<Longrightarrow> m = n"
proof -
  assume eq: "int_text m = int_text n"
  have no_minus: "CHR ''-'' # xs \<noteq> dec k" for xs k using dec_plain[of "CHR ''-''" k] by (metis list.set_intros(1))
  show "m = n"
    using eq no_minus no_minus[symmetric] by (auto simp: int_text_def split: if_splits dest: dec_inject)
qed

lemma cut_at_slash:
  "a @ CHR ''/'' # x = b @ CHR ''/'' # y \<Longrightarrow> CHR ''/'' \<notin> set a \<Longrightarrow> CHR ''/'' \<notin> set b \<Longrightarrow> a = b \<and> x = y"
proof (induction a arbitrary: b)
  case Nil
  then show ?case by (cases b) auto
next
  case (Cons c a)
  then show ?case by (cases b) auto
qed

lemma item_place_inject:
  assumes "item_place acc i s r = item_place acc' i' s' r'"
    and "CHR ''/'' \<notin> set acc" "CHR ''/'' \<notin> set acc'" "CHR ''/'' \<notin> set i" "CHR ''/'' \<notin> set i'"
  shows "acc = acc'" "i = i'" "s = s'" "r = r'"
proof -
  from assms(1) have "acc @ CHR ''/'' # ''item/'' @ i @ CHR ''/'' # ''schema/'' @ int_text s @ CHR ''/'' # ''revision/'' @ dec (unat r) =
      acc' @ CHR ''/'' # ''item/'' @ i' @ CHR ''/'' # ''schema/'' @ int_text s' @ CHR ''/'' # ''revision/'' @ dec (unat r')"
    by (simp add: item_place_def)
  from cut_at_slash[OF this assms(2,3)] have 1: "acc = acc'"
    and "i @ CHR ''/'' # ''schema/'' @ int_text s @ CHR ''/'' # ''revision/'' @ dec (unat r) =
      i' @ CHR ''/'' # ''schema/'' @ int_text s' @ CHR ''/'' # ''revision/'' @ dec (unat r')" by simp_all
  from cut_at_slash[OF this(2) assms(4,5)] have 2: "i = i'"
    and "int_text s @ CHR ''/'' # ''revision/'' @ dec (unat r) = int_text s' @ CHR ''/'' # ''revision/'' @ dec (unat r')"
    by simp_all
  from cut_at_slash[OF this(2) int_text_plain int_text_plain] have "int_text s = int_text s'" "dec (unat r) = dec (unat r')"
    by simp_all
  then have "s = s'" "r = r'" by (auto simp: word_unat_eq_iff dest: int_text_inject dec_inject)
  with 1 2 show "acc = acc'" "i = i'" "s = s'" "r = r'" by simp_all
qed

text \<open>Without the condition on slashes two places share their associated data.\<close>

lemma item_place_ambiguous: "item_place ''a'' ''b/item/c'' 1 1 = item_place ''a/item/b'' ''c'' 1 1"
  by (simp add: item_place_def)

section \<open>Assumptions on the primitives\<close>

definition crypto_ok :: "crypto_env \<Rightarrow> bool" where
  "crypto_ok env \<longleftrightarrow>
     (\<forall>k n p a. aeadOpen env k n (aeadSeal env k n p a) a = Some p \<and> aeadSeal env k n p a \<noteq> []) \<and>
     (\<forall>m info. length (hkdf env m info) = KeySize) \<and>
     (\<forall>w n b. randRead env w n = Some b \<longrightarrow> length b = n) \<and>
     (\<forall>e b. marshalItemEnvelope env e = Some b \<longrightarrow> readItemEnvelope env b = Some e) \<and>
     (\<forall>e b. marshalVaultEnvelope env e = Some b \<longrightarrow> readVaultEnvelope env b = Some e)"

text \<open>Authenticity: what was sealed with one associated data does not open with another.\<close>

definition authentic :: "crypto_env \<Rightarrow> bool" where
  "authentic env \<longleftrightarrow> (\<forall>k k' n p a a' p'. aeadOpen env k' n (aeadSeal env k n p a) a' = Some p' \<longrightarrow> a' = a)"

text \<open>The JSON text of this plaintext reads back (it holds no byte sequence that is not UTF-8).\<close>

fun reads_back :: "crypto_env \<Rightarrow> item_plaintext \<Rightarrow> bytes \<Rightarrow> bool" where
  "reads_back env (LoginPlaintext t v x) b \<longleftrightarrow> readHeader env b = Some (t, v) \<and> readLogin env b = Some (v, x)"
| "reads_back env (SecureNotePlaintext t v x) b \<longleftrightarrow> readHeader env b = Some (t, v) \<and> readNote env b = Some (v, x)"
| "reads_back env (FolderPlaintext t v x) b \<longleftrightarrow> readHeader env b = Some (t, v) \<and> readFolder env b = Some (v, x)"
| "reads_back env (GenericPlaintext t v x) b \<longleftrightarrow> readHeader env b = Some (t, v) \<and> readGeneric env b = Some (v, x)"

definition json_faithful :: "crypto_env \<Rightarrow> item_plaintext \<Rightarrow> bool" where
  "json_faithful env v \<longleftrightarrow> (\<forall>b. marshalItem env v = Some b \<longrightarrow> reads_back env v b)"

section \<open>Opening what was sealed\<close>

definition login_native :: "login_item \<Rightarrow> native_item" where
  "login_native l = no_item\<lparr>niType := NativeItemTypeLogin, niLogin := Some l\<rparr>"

definition note_native :: "secure_note_item \<Rightarrow> native_item" where
  "note_native n = no_item\<lparr>niType := NativeItemTypeSecureNote, niSecureNote := Some n\<rparr>"

definition folder_native :: "folder_item \<Rightarrow> native_item" where
  "folder_native f = no_item\<lparr>niType := NativeItemTypeFolder, niFolder := Some f\<rparr>"

definition generic_native :: "generic_item \<Rightarrow> native_item" where
  "generic_native g = no_item\<lparr>niType := NativeItemTypeGeneric, niGeneric := Some g\<rparr>"

fun plain_native :: "item_plaintext \<Rightarrow> native_item" where
  "plain_native (LoginPlaintext t v l) = login_native l"
| "plain_native (SecureNotePlaintext t v n) = note_native n"
| "plain_native (FolderPlaintext t v f) = folder_native f"
| "plain_native (GenericPlaintext t v g) = generic_native g"

text \<open>\<open>sealed_as\<close>: one of the four encryption functions made \<open>s\<close> of the plaintext \<open>v\<close>.\<close>

inductive sealed_as :: "crypto_env \<Rightarrow> bytes \<Rightarrow> string \<Rightarrow> u64 \<Rightarrow> item_plaintext \<Rightarrow> encrypted_item \<Rightarrow> bool"
  for env vaultKey acc revno where
  sealed_login: "EncryptLogin env vaultKey acc l revno = Inr s \<Longrightarrow>
    sealed_as env vaultKey acc revno (LoginPlaintext ''login'' itemPlaintextVersion l) s"
| sealed_note: "EncryptSecureNote env vaultKey acc n revno = Inr s \<Longrightarrow>
    sealed_as env vaultKey acc revno (SecureNotePlaintext ''secure_note'' itemPlaintextVersion n) s"
| sealed_folder: "EncryptFolder env vaultKey acc f revno = Inr s \<Longrightarrow>
    sealed_as env vaultKey acc revno (FolderPlaintext ''folder'' itemPlaintextVersion f) s"
| sealed_generic: "EncryptGenericItem env vaultKey acc g revno = Inr s \<Longrightarrow>
    sealed_as env vaultKey acc revno (GenericPlaintext ''generic'' itemPlaintextVersion g) s"

fun plain_ok :: "crypto_env \<Rightarrow> item_plaintext \<Rightarrow> bool" where
  "plain_ok env (GenericPlaintext t v g) \<longleftrightarrow>
     t = ''generic'' \<and> v = itemPlaintextVersion \<and> gTitle g \<noteq> [] \<and> gSource g \<noteq> [] \<and> gSourceType g \<noteq> [] \<and> jsonValid env (gData g)"
| "plain_ok env (LoginPlaintext t v l) \<longleftrightarrow> t = ''login'' \<and> v = itemPlaintextVersion"
| "plain_ok env (SecureNotePlaintext t v n) \<longleftrightarrow> t = ''secure_note'' \<and> v = itemPlaintextVersion"
| "plain_ok env (FolderPlaintext t v f) \<longleftrightarrow> t = ''folder'' \<and> v = itemPlaintextVersion"

lemma Encrypt_success:
  "EncryptLogin env vaultKey acc l revno = Inr s \<Longrightarrow> length vaultKey = KeySize \<and> acc \<noteq> [] \<and> lItemID l \<noteq> [] \<and> revno \<noteq> 0 \<and>
     encryptItem env vaultKey acc (lItemID l) 1 revno (LoginPlaintext ''login'' itemPlaintextVersion l) = Inr s"
  "EncryptSecureNote env vaultKey acc n revno = Inr s \<Longrightarrow> length vaultKey = KeySize \<and> acc \<noteq> [] \<and> nItemID n \<noteq> [] \<and> revno \<noteq> 0 \<and>
     encryptItem env vaultKey acc (nItemID n) 1 revno (SecureNotePlaintext ''secure_note'' itemPlaintextVersion n) = Inr s"
  "EncryptFolder env vaultKey acc f revno = Inr s \<Longrightarrow> length vaultKey = KeySize \<and> acc \<noteq> [] \<and> fItemID f \<noteq> [] \<and> revno \<noteq> 0 \<and>
     encryptItem env vaultKey acc (fItemID f) 1 revno (FolderPlaintext ''folder'' itemPlaintextVersion f) = Inr s"
  "EncryptGenericItem env vaultKey acc g revno = Inr s \<Longrightarrow> length vaultKey = KeySize \<and> acc \<noteq> [] \<and> gItemID g \<noteq> [] \<and> revno \<noteq> 0 \<and>
     encryptItem env vaultKey acc (gItemID g) 1 revno (GenericPlaintext ''generic'' itemPlaintextVersion g) = Inr s \<and>
     plain_ok env (GenericPlaintext ''generic'' itemPlaintextVersion g)"
  by (simp_all add: EncryptLogin_def EncryptSecureNote_def EncryptFolder_def EncryptGenericItem_def
      loginItemSchemaVersion_def secureNoteItemSchemaVersion_def folderItemSchemaVersion_def genericItemSchemaVersion_def
      split: if_splits)

lemma encryptItem_id: "encryptItem env vaultKey acc i sch revno v = Inr s \<Longrightarrow> itemID s = i"
  by (auto simp: encryptItem_def Let_def split: option.splits if_splits)

lemma plain_native_id:
  "nativeItemID (plain_native (LoginPlaintext t k l)) = Some (lItemID l)"
  "nativeItemID (plain_native (SecureNotePlaintext t k n)) = Some (nItemID n)"
  "nativeItemID (plain_native (FolderPlaintext t k f)) = Some (fItemID f)"
  "nativeItemID (plain_native (GenericPlaintext t k g)) = Some (gItemID g)"
  by (simp_all add: login_native_def note_native_def folder_native_def generic_native_def nativeItemID_def native_type_defs)

lemma sealed_as_parts:
  assumes "sealed_as env vaultKey acc revno v s"
  shows "encryptItem env vaultKey acc (itemID s) 1 revno v = Inr s \<and> length vaultKey = KeySize \<and> acc \<noteq> [] \<and>
    itemID s \<noteq> [] \<and> revno \<noteq> 0 \<and> nativeItemID (plain_native v) = Some (itemID s) \<and> plain_ok env v"
  using assms
proof cases
  case (sealed_login l)
  from Encrypt_success(1)[OF sealed_login(2)] encryptItem_id show ?thesis
    unfolding sealed_login(1) plain_native_id plain_ok.simps by metis
next
  case (sealed_note n)
  from Encrypt_success(2)[OF sealed_note(2)] encryptItem_id show ?thesis
    unfolding sealed_note(1) plain_native_id plain_ok.simps by metis
next
  case (sealed_folder f)
  from Encrypt_success(3)[OF sealed_folder(2)] encryptItem_id show ?thesis
    unfolding sealed_folder(1) plain_native_id plain_ok.simps by metis
next
  case (sealed_generic g)
  from Encrypt_success(4)[OF sealed_generic(2)] encryptItem_id show ?thesis
    unfolding sealed_generic(1) plain_native_id by metis
qed

lemma encryptItem_parts:
  assumes "encryptItem env vaultKey acc i sch revno v = Inr s" "crypto_ok env"
  obtains plaintext nonce where "marshalItem env v = Some plaintext" "length nonce = NonceSizeX"
    "readItemEnvelope env (envelope s) = Some \<lparr>ieVersion = 1, ieNonce = nonce,
       ieCiphertext = aeadSeal env (derivePurposeKey env vaultKey (''item/'' @ i)) nonce plaintext (itemAssociatedData acc i sch revno)\<rparr>"
    "itemID s = i" "schemaVersion s = sch" "revision s = revno"
  using assms by (auto simp: encryptItem_def crypto_ok_def item_versions Let_def split: option.splits if_splits)

lemma decryptItem_at:
  assumes env: "crypto_ok env" "authentic env" and s: "encryptItem env vaultKey acc i sch revno v = Inr s"
    and plain: "CHR ''/'' \<notin> set acc" "CHR ''/'' \<notin> set acc'" "CHR ''/'' \<notin> set i" "CHR ''/'' \<notin> set (itemID x)"
    and x: "envelope x = envelope s"
  shows "decryptItem env vaultKey acc' x =
    (if acc' = acc \<and> itemID x = i \<and> schemaVersion x = sch \<and> revision x = revno
     then Inr (the (marshalItem env v)) else Inl ErrItemEnvelope)"
proof -
  from s env(1) obtain plaintext nonce where m: "marshalItem env v = Some plaintext" "length nonce = NonceSizeX"
    "readItemEnvelope env (envelope s) = Some \<lparr>ieVersion = 1, ieNonce = nonce,
       ieCiphertext = aeadSeal env (derivePurposeKey env vaultKey (''item/'' @ i)) nonce plaintext (itemAssociatedData acc i sch revno)\<rparr>"
    by (rule encryptItem_parts)
  let ?c = "aeadSeal env (derivePurposeKey env vaultKey (''item/'' @ i)) nonce plaintext (itemAssociatedData acc i sch revno)"
  let ?open = "aeadOpen env (derivePurposeKey env vaultKey (''item/'' @ itemID x)) nonce ?c
     (itemAssociatedData acc' (itemID x) (schemaVersion x) (revision x))"
  have k: "length (derivePurposeKey env vaultKey p) = KeySize" for p
    using env(1) by (simp add: derivePurposeKey_def crypto_ok_def)
  have open_x: "decryptItem env vaultKey acc' x = (case ?open of None \<Rightarrow> Inl ErrItemEnvelope | Some p \<Rightarrow> Inr p)"
    using m(2,3) x k by (simp add: decryptItem_def item_versions Let_def)
  show ?thesis
  proof (cases "acc' = acc \<and> itemID x = i \<and> schemaVersion x = sch \<and> revision x = revno")
    case True
    with open_x m(1) env(1) show ?thesis by (simp add: crypto_ok_def)
  next
    case False
    have "?open = None"
    proof (rule ccontr)
      assume "?open \<noteq> None"
      with env(2) have "itemAssociatedData acc' (itemID x) (schemaVersion x) (revision x) = itemAssociatedData acc i sch revno"
        unfolding authentic_def by blast
      from item_place_inject[OF string_bytes_inject[OF this[unfolded itemAssociatedData_def]] plain(2,1,4,3)] False
      show False by simp
    qed
    with open_x False show ?thesis by auto
  qed
qed

lemma DecryptNativeItem_plain:
  assumes "decryptItem env vaultKey acc x = Inr b" "reads_back env v b" "plain_ok env v"
    and "length vaultKey = KeySize" "acc \<noteq> []" "itemID x \<noteq> []" "schemaVersion x = 1" "revision x \<noteq> 0"
    and "nativeItemID (plain_native v) = Some (itemID x)"
  shows "DecryptNativeItem env vaultKey acc x = Inr (plain_native v)"
  using assms
  by (cases v) (auto simp: DecryptNativeItem_def item_versions login_native_def note_native_def folder_native_def
      generic_native_def nativeItemID_def native_type_defs)

section \<open>Unlocking a vault\<close>

lemma sealVaultKey_parts:
  assumes "sealVaultKey env vaultKey wrappingKey acc e = Inr encoded" "crypto_ok env"
  obtains nonce where "length nonce = NonceSizeX"
    "readVaultEnvelope env encoded = Some (e\<lparr>veNonce := nonce,
       veCiphertext := aeadSeal env wrappingKey nonce vaultKey (vaultAssociatedData acc)\<rparr>)"
proof -
  from assms(1) obtain nonce where "randRead env (veKDF e) NonceSizeX = Some nonce"
    "marshalVaultEnvelope env (e\<lparr>veNonce := nonce,
       veCiphertext := aeadSeal env wrappingKey nonce vaultKey (vaultAssociatedData acc)\<rparr>) = Some encoded"
    by (auto simp: sealVaultKey_def Let_def split: if_splits option.splits)
  with assms(2) show thesis by (intro that[of nonce]) (auto simp: crypto_ok_def)
qed

lemma openVaultKey_sealed:
  assumes "crypto_ok env" "length vaultKey = KeySize" "length nonce = NonceSizeX" "veNonce e = nonce"
    "veCiphertext e = aeadSeal env (derivePurposeKey env m p) nonce vaultKey (vaultAssociatedData acc)"
  shows "openVaultKey env e (derivePurposeKey env m p) acc = Inr vaultKey"
    "authentic env \<Longrightarrow> acc' \<noteq> acc \<Longrightarrow> openVaultKey env e (derivePurposeKey env m' p') acc' = Inl ErrInvalidVaultEnvelope"
proof -
  have k: "length (derivePurposeKey env m p) = KeySize" for m p using assms(1) by (simp add: derivePurposeKey_def crypto_ok_def)
  show "openVaultKey env e (derivePurposeKey env m p) acc = Inr vaultKey"
    using assms k by (simp add: openVaultKey_def crypto_ok_def)
  assume a: "authentic env" "acc' \<noteq> acc"
  have "vaultAssociatedData acc' \<noteq> vaultAssociatedData acc"
    using a(2) string_bytes_inject by (force simp: vaultAssociatedData_def)
  with a(1) have "aeadOpen env (derivePurposeKey env m' p') (veNonce e) (veCiphertext e) (vaultAssociatedData acc') = None"
    unfolding authentic_def assms(4,5) by (metis not_None_eq)
  then show "openVaultKey env e (derivePurposeKey env m' p') acc' = Inl ErrInvalidVaultEnvelope"
    by (simp add: openVaultKey_def)
qed

text \<open>The password and the recovery key both give the vault key back, and only for its account.\<close>

lemma vault_unlocks:
  assumes env: "crypto_ok env" and new: "NewVault env rc masterPassword acc = Inr v"
  shows "UnlockVaultWithPassword env (vPasswordEnvelope v) (string_bytes masterPassword) acc = Inr (vKey v)"
    "UnlockVaultWithRecovery env (vRecoveryEnvelope v) (vRecoveryKey v) acc = Inr (vKey v)"
proof -
  from new obtain recoveryMaterial where m: "randRead env ''vault key'' KeySize = Some (vKey v)"
    "randRead env ''recovery'' KeySize = Some recoveryMaterial"
    "passwordEnvelope env (vKey v) (string_bytes masterPassword) acc = Inr (vPasswordEnvelope v)"
    "recoveryEnvelope env (vKey v) recoveryMaterial acc = Inr (vRecoveryEnvelope v)"
    "vRecoveryKey v = EncodeToString URLAlphabet recoveryMaterial"
    by (auto simp: NewVault_def bind_e_Inr_iff split: if_splits option.splits)
  have len: "length (vKey v) = KeySize" "length recoveryMaterial = KeySize"
    using m(1,2) env by (simp_all add: crypto_ok_def)
  have sealed: "aeadSeal env k n p a \<noteq> []" for k n p a using env by (simp add: crypto_ok_def)
  from m(3) obtain salt where salt: "randRead env ''salt'' 16 = Some salt"
    and seal: "sealVaultKey env (vKey v) (derivePurposeKey env (argon2 env (string_bytes masterPassword) salt argonPasses argonMemoryKiB argonParallelism) ''vault-password-wrap'') acc
      \<lparr>veVersion = 1, veKDF = ''argon2id'', veMemoryKiB = argonMemoryKiB, vePasses = argonPasses,
       veParallelism = argonParallelism, veSalt = salt, veNonce = [], veCiphertext = []\<rparr> = Inr (vPasswordEnvelope v)"
    by (auto simp: passwordEnvelope_def argon2_IDKey_def argonPasses_def argonParallelism_def split: option.splits)
  have "length salt = 16" using salt env by (simp add: crypto_ok_def)
  moreover obtain nonce where nonce: "length nonce = NonceSizeX" "readVaultEnvelope env (vPasswordEnvelope v) = Some
      \<lparr>veVersion = 1, veKDF = ''argon2id'', veMemoryKiB = argonMemoryKiB, vePasses = argonPasses,
       veParallelism = argonParallelism, veSalt = salt, veNonce = nonce, veCiphertext = aeadSeal env
         (derivePurposeKey env (argon2 env (string_bytes masterPassword) salt argonPasses argonMemoryKiB argonParallelism) ''vault-password-wrap'')
         nonce (vKey v) (vaultAssociatedData acc)\<rparr>"
    using seal env by (rule sealVaultKey_parts) simp
  ultimately show "UnlockVaultWithPassword env (vPasswordEnvelope v) (string_bytes masterPassword) acc = Inr (vKey v)"
    using sealed openVaultKey_sealed(1)[OF env len(1) nonce(1)]
    by (simp add: UnlockVaultWithPassword_def decodeVaultEnvelope_def argon2_IDKey_def argonPasses_def argonParallelism_def)
  from m(4) have seal: "sealVaultKey env (vKey v) (derivePurposeKey env recoveryMaterial ''vault-recovery-wrap'') acc
      \<lparr>veVersion = 1, veKDF = ''hkdf-sha256'', veMemoryKiB = 0, vePasses = 0, veParallelism = 0, veSalt = [],
       veNonce = [], veCiphertext = []\<rparr> = Inr (vRecoveryEnvelope v)"
    by (simp add: recoveryEnvelope_def)
  obtain nonce where nonce: "length nonce = NonceSizeX" "readVaultEnvelope env (vRecoveryEnvelope v) = Some
      \<lparr>veVersion = 1, veKDF = ''hkdf-sha256'', veMemoryKiB = 0, vePasses = 0, veParallelism = 0, veSalt = [],
       veNonce = nonce, veCiphertext = aeadSeal env (derivePurposeKey env recoveryMaterial ''vault-recovery-wrap'')
         nonce (vKey v) (vaultAssociatedData acc)\<rparr>"
    using seal env by (rule sealVaultKey_parts) simp
  with sealed len(2) openVaultKey_sealed(1)[OF env len(1) nonce(1)]
  show "UnlockVaultWithRecovery env (vRecoveryEnvelope v) (vRecoveryKey v) acc = Inr (vKey v)"
    by (simp add: UnlockVaultWithRecovery_def decodeVaultEnvelope_def m(5) decode_encode)
qed

text \<open>
  The number of threads of a password envelope is not checked before it reaches Argon2, which panics
  on zero: an envelope that omits the field ends the client instead of being refused.
\<close>

lemma unlock_panics_without_threads:
  assumes "readVaultEnvelope env encoded = Some \<lparr>veVersion = 1, veKDF = ''argon2id'', veMemoryKiB = argonMemoryKiB,
      vePasses = argonPasses, veParallelism = 0, veSalt = replicate 16 0, veNonce = nonce, veCiphertext = [0]\<rparr>"
  shows "UnlockVaultWithPassword env encoded masterPassword acc = Inl PanicArgon2"
  using assms by (simp add: UnlockVaultWithPassword_def decodeVaultEnvelope_def argon2_IDKey_def)

end
