(* ===== verification/ToolProps.thy ===== *)
theory ToolProps
  imports PasswordGenerator Totp Search VaultCrypto
begin

text \<open>
  Properties of the client's tools: what the password generator can return, what a one-time code
  is and how long it holds, what a search finds and what it cannot reveal, and where a sealed item
  opens.
\<close>

section \<open>Password generator\<close>

text \<open>C39: With random numbers in range, the passwords the generator can return are exactly the
  strings of the configured length over the enabled, unambiguous characters with the minimum number
  of digits and specials: no conforming password is excluded and no other is produced. A valid
  configuration can only fail because the random source fails, an invalid one is always refused;
  an empty character class or an index out of range never happens.\<close>

theorem generated_passwords_exact:
  "{password. \<exists>rnd k k'. random_ok rnd \<and> GeneratePassword rnd config k = Inr (password, k')} =
     {password. ValidatePasswordGeneratorConfig config \<and> meets_policy config password} \<and>
   {e. \<exists>rnd k. random_ok rnd \<and> GeneratePassword rnd config k = Inl e} =
     (if ValidatePasswordGeneratorConfig config then {RandomFailed} else {ErrInvalidPasswordGeneratorConfig})"
proof (intro conjI equalityI subsetI)
  fix password
  assume "password \<in> {password. \<exists>rnd k k'. random_ok rnd \<and> GeneratePassword rnd config k = Inr (password, k')}"
  then show "password \<in> {password. ValidatePasswordGeneratorConfig config \<and> meets_policy config password}"
    using GeneratePassword_sound by blast
next
  fix password
  assume "password \<in> {password. ValidatePasswordGeneratorConfig config \<and> meets_policy config password}"
  then have "drawn (\<lambda>rnd. GeneratePassword rnd config) password" by (simp add: GeneratePassword_complete)
  then show "password \<in> {password. \<exists>rnd k k'. random_ok rnd \<and> GeneratePassword rnd config k = Inr (password, k')}"
    unfolding drawn_def using draws_ok by blast
next
  fix e assume "e \<in> {e. \<exists>rnd k. random_ok rnd \<and> GeneratePassword rnd config k = Inl e}"
  then show "e \<in> (if ValidatePasswordGeneratorConfig config then {RandomFailed} else {ErrInvalidPasswordGeneratorConfig})"
    using GeneratePassword_errors by (auto simp: GeneratePassword_def)
next
  fix e
  assume e: "e \<in> (if ValidatePasswordGeneratorConfig config then {RandomFailed} else {ErrInvalidPasswordGeneratorConfig})"
  have "random_ok (\<lambda>_ _. None)" by (simp add: random_ok_def)
  moreover have "GeneratePassword (\<lambda>_ _. None) config 0 = Inl e"
    using e first_draw_fails by (cases "ValidatePasswordGeneratorConfig config") (simp_all add: GeneratePassword_def)
  ultimately show "e \<in> {e. \<exists>rnd k. random_ok rnd \<and> GeneratePassword rnd config k = Inl e}" by blast
qed

section \<open>One-time passwords\<close>

text \<open>C40: For a secret that decodes, a keyed hash of at least 20 bytes (as those of the three algorithms), and a period
  small enough that one period after the given time still lies in the 64-bit range of
  \<open>time.Time\<close>: a valid configuration at a time since 1970 gives a code of exactly the configured
  number of decimal digits, whose value is the truncated keyed hash of the window's number modulo that
  power of ten; it expires at the instant the next window starts, which is after now and at most one
  period away, and at every instant until then the same code is shown. Every other configuration or an
  earlier time is an error. (Nothing in the code bounds the period: beyond the range the expiry wraps
  around, \<open>oversized_period_expired\<close>.)\<close>

theorem totp_code_correct:
  assumes "hash_ok hmac" and key: "decodeTOTPSecret (totpSecret config) = Inr key"
    and range: "unix_of at + totpPeriod config < 2 ^ 63 - unixToInternal"
  shows "(case GenerateTOTP hmac config at of
      Inl e \<Rightarrow> e = ErrInvalidTOTP \<and> (ValidateTOTPConfig config \<noteq> Inr () \<or> unix_of at < 0)
    | Inr code \<Rightarrow>
        ValidateTOTPConfig config = Inr () \<and> 0 \<le> unix_of at \<and>
        length (tcValue code) = nat (totpDigits config) \<and>
        parse_digits 0 (tcValue code) =
          Some (truncated_hash (hmac (totpAlgorithm config) key
                  (PutUint64 (word_of_int (unix_of at div totpPeriod config)))) mod 10 ^ nat (totpDigits config)) \<and>
        tcExpiresAt code = ((unix_of at div totpPeriod config + 1) * totpPeriod config + unixToInternal) * 1000000000 \<and>
        unix_of at < unix_of (tcExpiresAt code) \<and> unix_of (tcExpiresAt code) \<le> unix_of at + totpPeriod config \<and>
        (\<forall>later. unix_of at \<le> unix_of later \<and> unix_of later < unix_of (tcExpiresAt code) \<longrightarrow>
           GenerateTOTP hmac config later = Inr code))"
proof (cases "ValidateTOTPConfig config = Inr () \<and> 0 \<le> unix_of at")
  case False
  then show ?thesis by (auto simp: GenerateTOTP_def)
next
  case True
  let ?p = "totpPeriod config" and ?d = "nat (totpDigits config)"
  define q where "q = unix_of at div ?p"
  define shown where "shown = zero_padded ?d (truncated_hash (hmac (totpAlgorithm config) key (PutUint64 (word_of_int q))) mod 10 ^ ?d)"
  from True have v: "totpHash (totpAlgorithm config) = Inr (totpAlgorithm config)"
    "totpDigits config = 6 \<or> totpDigits config = 8" "0 < ?p" "0 \<le> unix_of at"
    by (auto simp: ValidateTOTPConfig_iff)
  have "unix_of at = q * ?p + unix_of at mod ?p" "0 \<le> unix_of at mod ?p" "unix_of at mod ?p < ?p"
    using v(3) by (simp_all add: q_def)
  then obtain r where "unix_of at = q * ?p + r" "0 \<le> r" "r < ?p" by blast
  then have q: "q * ?p \<le> unix_of at" "unix_of at < (q + 1) * ?p" by (simp_all add: distrib_right)
  have q0: "0 \<le> q" using v(3,4) by (simp add: q_def pos_imp_zdiv_nonneg_iff)
  have end_small: "(q + 1) * ?p < 2 ^ 63 - unixToInternal" using q(1) range by (simp add: algebra_simps)
  moreover have "q + 1 \<le> (q + 1) * ?p" "0 \<le> (q + 1) * ?p" using q0 v(3) by (simp_all add: mult_le_cancel_left1)
  ultimately have "0 \<le> q + 1" "q + 1 < 2 ^ 63 - unixToInternal" "0 \<le> (q + 1) * ?p" "(q + 1) * ?p < 2 ^ 63 - unixToInternal"
    using q0 by linarith+
  then have "int64 (q + 1) = q + 1" "int64 ((q + 1) * ?p) = (q + 1) * ?p"
    "int64 ((q + 1) * ?p + unixToInternal) = (q + 1) * ?p + unixToInternal"
    by (simp_all add: int64_id unixToInternal_def)
  then have expiry: "time_unix (int64 (sint (word_of_int q + 1 :: 64 word) * ?p)) = ((q + 1) * ?p + unixToInternal) * 1000000000"
    by (simp add: time_unix_def int64_def wi_hom_succ)
  have code: "GenerateTOTP hmac config t = Inr \<lparr>tcValue = shown, tcExpiresAt = ((q + 1) * ?p + unixToInternal) * 1000000000\<rparr>"
    if "unix_of t div ?p = q" "0 \<le> unix_of t" for t
    using GenerateHOTP_value[OF assms(1) key v(1)] v(2) True that expiry
    by (auto simp: GenerateTOTP_def Let_def shown_def totpDivisor_def)
  have window: "unix_of t div ?p = q" if "unix_of at \<le> unix_of t" "unix_of t < (q + 1) * ?p" for t
    using that q(1) by (intro int_div_pos_eq[where r = "unix_of t - q * ?p"]) (simp_all add: algebra_simps)
  have "10 ^ ?d > (0 :: nat)" "0 < ?d" using v(2) by auto
  then have "length shown = ?d" "parse_digits 0 shown = Some (truncated_hash (hmac (totpAlgorithm config) key (PutUint64 (word_of_int q))) mod 10 ^ ?d)"
    unfolding shown_def by (simp_all add: zero_padded_props)
  note shown = this
  let ?code = "\<lparr>tcValue = shown, tcExpiresAt = ((q + 1) * ?p + unixToInternal) * 1000000000\<rparr>"
  have now: "GenerateTOTP hmac config at = Inr ?code" using code[of at] v(4) by (simp add: q_def)
  have expires: "unix_of (tcExpiresAt ?code) = (q + 1) * ?p" by (simp add: unix_of_def)
  have later: "GenerateTOTP hmac config t = Inr ?code" if "unix_of at \<le> unix_of t" "unix_of t < (q + 1) * ?p" for t
    using code[OF window[OF that]] that(1) v(4) by simp
  have ends: "unix_of at < (q + 1) * ?p" "(q + 1) * ?p \<le> unix_of at + ?p"
    using q by (simp_all add: distrib_right)
  show ?thesis
    unfolding now sum.case expires q_def[symmetric] using True shown ends later by (simp add: q_def)
qed

definition sample_totp :: totp_config where
  "sample_totp = \<lparr>totpSecret = ''JBSW Y3DP'', totpIssuer = [], totpAccount = ''me'', totpAlgorithm = ''SHA1'',
                  totpDigits = 6, totpPeriod = 30\<rparr>"

definition sample_hash :: keyed_hash where
  "sample_hash algorithm key message = key @ message @ replicate 19 0x51 @ [10]"

theorem totp_code_correct_witness:
  "\<exists>code. GenerateTOTP sample_hash sample_totp ((unixToInternal + 59) * 1000000000) = Inr code \<and>
     length (tcValue code) = 6 \<and> tcExpiresAt code = (unixToInternal + 60) * 1000000000"
proof -
  have key: "decodeTOTPSecret (totpSecret sample_totp) = Inr [72, 101, 108, 108, 111]"
    unfolding sample_totp_def by code_simp
  have hash: "hash_ok sample_hash" by (simp add: hash_ok_def sample_hash_def)
  have u: "unix_of ((unixToInternal + 59) * 1000000000) = 59" by (simp add: unix_of_def)
  have range: "unix_of ((unixToInternal + 59) * 1000000000) + totpPeriod sample_totp < 2 ^ 63 - unixToInternal"
    unfolding u by (simp add: sample_totp_def unixToInternal_def)
  have valid: "ValidateTOTPConfig sample_totp = Inr ()"
    using key by (auto simp: ValidateTOTPConfig_iff) (simp_all add: sample_totp_def totpHash_def totp_algorithms)
  have fields: "totpDigits sample_totp = 6" "totpPeriod sample_totp = 30" by (simp_all add: sample_totp_def)
  from totp_code_correct[OF hash key range] valid fields show ?thesis
    unfolding u by (auto split: sum.splits)
qed

section \<open>Search\<close>

text \<open>C38: A search lists exactly the items one of whose public texts (name, user name, URL, folder name,
  custom field name), or in contents mode whose note, contains the runes of the trimmed query as a
  subsequence, ignoring case, each as often as it is listed; the order of the result does not depend
  on the order of the items; and a metadata search does not depend on any secret: it gives the same
  result on the items stripped of passwords, histories, notes, one-time passwords, custom values and
  raw data. All this for any tables of Unicode.\<close>

theorem Search_exact:
  assumes "mset items' = mset items"
  shows "mset (Search u (NewSearchIndex items folders) query mode) =
      (let q = uTrimSpace u (uToLower u query)
       in if q = [] then {#}
          else mset (List.map_filter (\<lambda>item.
                 if item_matches u (folder_names folders) q mode item then nativeItemID item else None) items)) \<and>
    Search u (NewSearchIndex items' folders) query mode = Search u (NewSearchIndex items folders) query mode \<and>
    Search u (NewSearchIndex (map redact items) folders) query SearchModeMetadata =
      Search u (NewSearchIndex items folders) query SearchModeMetadata"
proof (intro conjI)
  show "mset (Search u (NewSearchIndex items folders) query mode) =
      (let q = uTrimSpace u (uToLower u query)
       in if q = [] then {#}
          else mset (List.map_filter (\<lambda>item.
                 if item_matches u (folder_names folders) q mode item then nativeItemID item else None) items))"
    using Search_results[of u query items folders mode]
    by (cases "uTrimSpace u (uToLower u query) = []") (simp_all add: Let_def Search_def)
  show "Search u (NewSearchIndex items' folders) query mode = Search u (NewSearchIndex items folders) query mode"
    by (rule Search_item_order[OF assms])
qed (rule Search_redacted)

definition ascii :: unicode where
  "ascii = \<lparr>uToLower = ToLower, uTrimSpace = TrimSpace, uRunes = map of_char\<rparr>"

definition sample_login :: "string \<Rightarrow> string \<Rightarrow> string \<Rightarrow> native_item" where
  "sample_login i name password =
     \<lparr>niType = ''login'',
      niLogin = Some \<lparr>lItemID = i, lName = name, lUsername = ''me'', lPassword = password, lPasswordHistory = [],
        lFolderID = [], lFavorite = False, lURLs = [], lNotes = ''pin'', lCustomFields = [], lTOTP = None\<rparr>,
      niSecureNote = None, niFolder = None, niGeneric = None\<rparr>"

lemma sample_search:
  "Search ascii (NewSearchIndex [sample_login ''a'' ''GitLab'' ''pw'', sample_login ''b'' ''Bank'' ''gl''] []) ''GL '' SearchModeMetadata = [''a'']"
  by code_simp

theorem Search_exact_witness:
  "Search ascii (NewSearchIndex [sample_login ''b'' ''Bank'' ''gl'', sample_login ''a'' ''GitLab'' ''pw''] []) ''GL '' SearchModeMetadata = [''a''] \<and>
   Search ascii (NewSearchIndex (map redact [sample_login ''a'' ''GitLab'' ''pw'', sample_login ''b'' ''Bank'' ''gl'']) []) ''GL '' SearchModeMetadata = [''a'']"
proof -
  have "mset [sample_login ''b'' ''Bank'' ''gl'', sample_login ''a'' ''GitLab'' ''pw''] =
      mset [sample_login ''a'' ''GitLab'' ''pw'', sample_login ''b'' ''Bank'' ''gl'']" by simp
  from Search_exact[OF this, of ascii "[]" "''GL ''" SearchModeMetadata] sample_search show ?thesis by simp
qed

section \<open>Sealed items\<close>

text \<open>C32: An envelope made by one of the encryption functions opens, under the same vault key, exactly at its
  own place: same account, item ID, schema version and revision number, where it yields the item it was
  made from; put at any other place (with identifiers free of slashes) it is refused. The other fields
  of the record (revision ID, parents, flags) are not bound.\<close>

theorem sealed_items_open_in_place:
  assumes env: "crypto_ok env" "authentic env"
    and sealed: "sealed_as env vaultKey acc revno v s" and json: "json_faithful env v"
    and plain: "CHR ''/'' \<notin> set acc" "CHR ''/'' \<notin> set acc'" "CHR ''/'' \<notin> set (itemID s)" "CHR ''/'' \<notin> set (itemID x)"
    and x: "envelope x = envelope s"
  shows "DecryptNativeItem env vaultKey acc' x =
    (if acc' = acc \<and> itemID x = itemID s \<and> schemaVersion x = schemaVersion s \<and> revision x = revision s
     then Inr (plain_native v) else Inl ErrItemEnvelope)"
proof -
  from sealed_as_parts[OF sealed] have s: "encryptItem env vaultKey acc (itemID s) 1 revno v = Inr s"
    and S: "length vaultKey = KeySize" "acc \<noteq> []" "itemID s \<noteq> []" "revno \<noteq> 0"
      "nativeItemID (plain_native v) = Some (itemID s)" "plain_ok env v" by simp_all
  from s env(1) obtain b where b: "marshalItem env v = Some b" and at: "schemaVersion s = 1" "revision s = revno"
    by (rule encryptItem_parts)
  note d = decryptItem_at[OF env s plain x]
  show ?thesis
  proof (cases "acc' = acc \<and> itemID x = itemID s \<and> schemaVersion x = schemaVersion s \<and> revision x = revision s")
    case True
    with d b at have "decryptItem env vaultKey acc x = Inr b" by simp
    moreover have "reads_back env v b" using json b by (simp add: json_faithful_def)
    ultimately show ?thesis using DecryptNativeItem_plain[of env vaultKey acc x b v] S True at by simp
  next
    case False
    with d at have "decryptItem env vaultKey acc' x = Inl ErrItemEnvelope" by auto
    with False show ?thesis by (auto simp: DecryptNativeItem_def)
  qed
qed

definition framed :: "bytes \<Rightarrow> bytes \<Rightarrow> bytes" where
  "framed a p = replicate (length a) 1 @ [0] @ a @ p"

definition frame_length :: "bytes \<Rightarrow> nat" where
  "frame_length b = length (takeWhile (\<lambda>x. x = 1) b)"

definition unframed :: "bytes \<Rightarrow> bytes \<times> bytes" where
  "unframed b = (let n = frame_length b in (take n (drop (n + 1) b), drop n (drop (n + 1) b)))"

lemma unframed_framed [simp]: "unframed (framed a p) = (a, p)"
proof -
  have "frame_length (framed a p) = length a"
    by (simp add: frame_length_def framed_def takeWhile_append)
  then show ?thesis by (simp add: unframed_def framed_def)
qed

lemma framed_nonempty [simp]: "framed a p \<noteq> []"
  by (simp add: framed_def)

definition demo_note :: secure_note_item where
  "demo_note = \<lparr>nItemID = ''n1'', nTitle = ''t'', nContent = ''c'', nFolderID = [], nFavorite = False\<rparr>"

text \<open>An instance of the primitives that satisfies the assumptions, for the witness.\<close>

definition demo_crypto :: crypto_env where
  "demo_crypto = \<lparr>hkdf = (\<lambda>_ _. replicate 32 0), argon2 = (\<lambda>_ _ _ _ _. replicate 32 0),
     aeadSeal = (\<lambda>k n p a. framed a p),
     aeadOpen = (\<lambda>k n c a. if fst (unframed c) = a then Some (snd (unframed c)) else None),
     randRead = (\<lambda>_ n. Some (replicate n 0)), marshalItem = (\<lambda>_. Some [7]),
     readHeader = (\<lambda>_. Some (''secure_note'', 1)), readLogin = (\<lambda>_. None),
     readNote = (\<lambda>_. Some (1, demo_note)), readFolder = (\<lambda>_. None), readGeneric = (\<lambda>_. None),
     jsonValid = (\<lambda>_. True),
     marshalItemEnvelope = (\<lambda>e. if ieVersion e = 1 then Some (framed (ieNonce e) (ieCiphertext e)) else None),
     readItemEnvelope = (\<lambda>b. Some \<lparr>ieVersion = 1, ieNonce = fst (unframed b), ieCiphertext = snd (unframed b)\<rparr>),
     marshalVaultEnvelope = (\<lambda>_. None), readVaultEnvelope = (\<lambda>_. None)\<rparr>"

theorem sealed_items_open_in_place_witness:
  "\<exists>s. EncryptSecureNote demo_crypto (replicate 32 5) ''acc'' demo_note 1 = Inr s \<and>
     DecryptNativeItem demo_crypto (replicate 32 5) ''acc'' s = Inr (note_native demo_note) \<and>
     DecryptNativeItem demo_crypto (replicate 32 5) ''acc'' (s\<lparr>revision := 2\<rparr>) = Inl ErrItemEnvelope"
proof -
  let ?k = "replicate 32 5 :: bytes"
  have ok: "crypto_ok demo_crypto" by (auto simp: crypto_ok_def demo_crypto_def KeySize_def)
  have auth: "authentic demo_crypto" by (auto simp: authentic_def demo_crypto_def)
  obtain s where s: "EncryptSecureNote demo_crypto ?k ''acc'' demo_note 1 = Inr s"
    by (simp add: EncryptSecureNote_def encryptItem_def demo_crypto_def derivePurposeKey_def KeySize_def demo_note_def
        item_versions)
  from s have at: "itemID s = ''n1''" "revision s = 1"
    by (auto simp: EncryptSecureNote_def encryptItem_def demo_note_def Let_def split: if_splits option.splits)
  let ?v = "SecureNotePlaintext ''secure_note'' itemPlaintextVersion demo_note"
  have json: "json_faithful demo_crypto ?v" by (simp add: json_faithful_def demo_crypto_def item_versions)
  have sealed: "sealed_as demo_crypto ?k ''acc'' 1 ?v s" by (rule sealed_as.sealed_note) (rule s)
  have plain: "CHR ''/'' \<notin> set ''acc''" "CHR ''/'' \<notin> set (itemID s)" by (simp_all add: at)
  have "DecryptNativeItem demo_crypto ?k ''acc'' s = Inr (note_native demo_note)"
    using sealed_items_open_in_place[OF ok auth sealed json plain(1) plain(1) plain(2) plain(2) refl] by simp
  moreover have "DecryptNativeItem demo_crypto ?k ''acc'' (s\<lparr>revision := 2\<rparr>) = Inl ErrItemEnvelope"
    using sealed_items_open_in_place[OF ok auth sealed json plain(1) plain(1) plain(2), of "s\<lparr>revision := 2\<rparr>"] at by simp
  ultimately show ?thesis using s by blast
qed

end
