(* ===== verification/SessionAgent.thy ===== *)
theory SessionAgent
  imports VaultCrypto
begin

text \<open>
  The session agent (\<open>internal/session/agent.go\<close>, \<open>auto_lock.go\<close>): a local process
  that holds the unlocked vault key of one terminal, answers its owner over a socket, and locks on
  inactivity, logout, the end of its owner process or cancellation. Connections are served one at
  a time by \<open>Serve\<close>; the auto-lock timer, the watch of the owner and the context are
  goroutines of their own, and each may start \<open>Close\<close> while a request is being served. The
  model is that interleaving: every goroutine has its steps, and a run takes them in any order.
\<close>

section \<open>Auto-lock preference\<close>

definition DefaultAutoLock :: duration where "DefaultAutoLock = minutes 15"

definition ParseAutoLock :: "string \<Rightarrow> duration option" where
  "ParseAutoLock v =
     (if v = [] then Some DefaultAutoLock
      else if v = ''off'' then Some 0
      else case ParseInt v of
        None \<Rightarrow> None
      | Some n \<Rightarrow> if n < 1 \<or> n > 60 then None else Some (minutes n))"

section \<open>The owner process\<close>

fun fields_loop :: "string \<Rightarrow> string \<Rightarrow> string list" where
  "fields_loop acc [] = (if acc = [] then [] else [acc])"
| "fields_loop acc (c # cs) =
     (if is_space c then (if acc = [] then [] else [acc]) @ fields_loop [] cs else fields_loop (acc @ [c]) cs)"

definition Fields :: "string \<Rightarrow> string list" where
  "Fields s = fields_loop [] s"

text \<open>What follows the last closing parenthesis of the status line, if there is one.\<close>

definition after_last_paren :: "string \<Rightarrow> string option" where
  "after_last_paren s = (if CHR '')'' \<notin> set s then None else Some (rev (takeWhile (\<lambda>c. c \<noteq> CHR '')'') (rev s))))"

definition processStartTime :: "string option \<Rightarrow> string option" where
  "processStartTime stat =
     (case stat of None \<Rightarrow> None | Some text \<Rightarrow>
      case after_last_paren text of None \<Rightarrow> None | Some rest \<Rightarrow>
      let fields = Fields rest in if length fields \<le> 19 then None else Some (fields ! 19))"

section \<open>Agent state\<close>

type_synonym uid = "32 word"

record agent_config =
  acSocketPath :: string
  acOwnerUID :: uid
  acOwnerPID :: int
  acAccountID :: string
  acEmail :: string
  acVaultKey :: bytes
  acAccessToken :: bytes
  acAutoLock :: duration
  acRevokes :: bool

text \<open>
  \<open>agKey\<close> and \<open>agToken\<close> are the arrays behind the two slices; a slice that was set
  to nil has its \<open>Held\<close> flag off. \<open>agTimer\<close> is the instant the auto-lock timer
  fires; \<open>agRevoked\<close> lists the tokens handed to \<open>revokeOnline\<close>.
\<close>

record agent =
  agOwnerUID :: uid
  agOwnerPID :: int
  agOwnerStart :: string
  agAccountID :: string
  agEmail :: string
  agPID :: int
  agAutoLockFor :: duration
  agRevokes :: bool
  agKey :: bytes
  agKeyHeld :: bool
  agToken :: bytes
  agTokenHeld :: bool
  agTimer :: "time option"
  agClosed :: bool
  agListening :: bool
  agRevoked :: "bytes list"

datatype agent_error = ErrSocketPath | ErrOwner | ErrListen | ErrChmod

record agent_env =
  aeOwnerStat :: "string option"
  aeListenFails :: bool
  aeChmodFails :: bool
  aeNow :: time
  aeOwnPID :: int

definition NewAgent :: "agent_env \<Rightarrow> agent_config \<Rightarrow> agent_error + agent" where
  "NewAgent env cfg =
     (if acSocketPath cfg = [] then Inl ErrSocketPath
      else if acOwnerPID cfg > 0 \<and> processStartTime (aeOwnerStat env) = None then Inl ErrOwner
      else let ownerStart = (if acOwnerPID cfg > 0 then the (processStartTime (aeOwnerStat env)) else [])
      in if aeListenFails env then Inl ErrListen
      else if aeChmodFails env then Inl ErrChmod
      else Inr \<lparr>agOwnerUID = acOwnerUID cfg, agOwnerPID = acOwnerPID cfg, agOwnerStart = ownerStart,
                agAccountID = acAccountID cfg, agEmail = acEmail cfg,
                agPID = aeOwnPID env, agAutoLockFor = acAutoLock cfg,
                agRevokes = acRevokes cfg, agKey = acVaultKey cfg, agKeyHeld = True,
                agToken = acAccessToken cfg, agTokenHeld = True,
                agTimer = (if acAutoLock cfg > 0 then Some (aeNow env + acAutoLock cfg) else None),
                agClosed = False, agListening = True, agRevoked = []\<rparr>)"

definition the_key :: "agent \<Rightarrow> bytes" where "the_key a = (if agKeyHeld a then agKey a else [])"
definition the_token :: "agent \<Rightarrow> bytes" where "the_token a = (if agTokenHeld a then agToken a else [])"

definition touch :: "agent \<Rightarrow> time \<Rightarrow> agent" where
  "touch a now =
     (if \<not> agClosed a \<and> agAutoLockFor a > 0 then a\<lparr>agTimer := Some (now + agAutoLockFor a)\<rparr> else a)"

section \<open>Closing\<close>

definition clearBytes :: "bytes \<Rightarrow> bytes" where
  "clearBytes b = map (\<lambda>_. 0) b"

definition close_stop :: "agent \<Rightarrow> agent" where
  "close_stop a = a\<lparr>agClosed := True, agTimer := None\<rparr>"

definition close_clear_key :: "agent \<Rightarrow> agent" where
  "close_clear_key a = a\<lparr>agKey := clearBytes (agKey a)\<rparr>"

definition close_drop_key :: "agent \<Rightarrow> agent" where
  "close_drop_key a = a\<lparr>agKeyHeld := False\<rparr>"

definition close_clear_token :: "agent \<Rightarrow> agent" where
  "close_clear_token a = a\<lparr>agToken := clearBytes (agToken a), agTokenHeld := False\<rparr>"

definition close_listener :: "bytes \<Rightarrow> agent \<Rightarrow> agent" where
  "close_listener token a =
     a\<lparr>agListening := False,
       agRevoked := agRevoked a @ (if agRevokes a \<and> length token > 0 then [token] else [])\<rparr>"

section \<open>Requests\<close>

record agent_request =
  arAction :: string
  arLogin :: "login_item option"
  arNote :: "secure_note_item option"
  arFolder :: "folder_item option"
  arGeneric :: "generic_item option"
  arItem :: "encrypted_item option"
  arRevision :: u64

record agent_info =
  inAccountID :: string
  inEmail :: string
  inAgentPID :: int

datatype agent_failure = Message string | Failure crypto_error

record agent_response =
  rpInfo :: "agent_info option"
  rpToken :: bytes
  rpItem :: "encrypted_item option"
  rpNative :: "native_item option"
  rpLogin :: "login_item option"
  rpNote :: "secure_note_item option"
  rpError :: "agent_failure option"

definition no_response :: agent_response where
  "no_response = \<lparr>rpInfo = None, rpToken = [], rpItem = None, rpNative = None, rpLogin = None, rpNote = None, rpError = None\<rparr>"

definition failed :: "agent_failure \<Rightarrow> agent_response" where
  "failed e = no_response\<lparr>rpError := Some e\<rparr>"

definition item_response :: "crypto_error + encrypted_item \<Rightarrow> agent_response" where
  "item_response r = (case r of Inl e \<Rightarrow> failed (Failure e) | Inr item \<Rightarrow> no_response\<lparr>rpItem := Some item\<rparr>)"

text \<open>
  The answer to a request; \<open>key\<close> and \<open>token\<close> are what the slices taken from the agent
  hold when they are read.
\<close>

definition respond :: "crypto_env \<Rightarrow> agent \<Rightarrow> bytes \<Rightarrow> bytes \<Rightarrow> agent_request \<Rightarrow> agent_response" where
  "respond crypto a key token req =
     (if arAction req = ''status'' then
        no_response\<lparr>rpInfo := Some \<lparr>inAccountID = agAccountID a, inEmail = agEmail a, inAgentPID = agPID a\<rparr>\<rparr>
      else if arAction req = ''logout'' then no_response
      else if arAction req = ''access-token'' then no_response\<lparr>rpToken := token\<rparr>
      else if arAction req = ''seal-login'' then
        (case arLogin req of None \<Rightarrow> failed (Message ''login is required'')
         | Some login \<Rightarrow> item_response (EncryptLogin crypto key (agAccountID a) login (arRevision req)))
      else if arAction req = ''open-login'' then
        (case arItem req of None \<Rightarrow> failed (Message ''item is required'')
         | Some item \<Rightarrow> (case DecryptLogin crypto key (agAccountID a) item of
              Inl e \<Rightarrow> failed (Failure e) | Inr login \<Rightarrow> no_response\<lparr>rpLogin := Some login\<rparr>))
      else if arAction req = ''seal-secure-note'' then
        (case arNote req of None \<Rightarrow> failed (Message ''note is required'')
         | Some note' \<Rightarrow> item_response (EncryptSecureNote crypto key (agAccountID a) note' (arRevision req)))
      else if arAction req = ''open-secure-note'' then
        (case arItem req of None \<Rightarrow> failed (Message ''item is required'')
         | Some item \<Rightarrow> (case DecryptSecureNote crypto key (agAccountID a) item of
              Inl e \<Rightarrow> failed (Failure e) | Inr note' \<Rightarrow> no_response\<lparr>rpNote := Some note'\<rparr>))
      else if arAction req = ''seal-folder'' then
        (case arFolder req of None \<Rightarrow> failed (Message ''Folder is required'')
         | Some folder \<Rightarrow> item_response (EncryptFolder crypto key (agAccountID a) folder (arRevision req)))
      else if arAction req = ''seal-generic-item'' then
        (case arGeneric req of None \<Rightarrow> failed (Message ''Generic Item is required'')
         | Some generic \<Rightarrow> item_response (EncryptGenericItem crypto key (agAccountID a) generic (arRevision req)))
      else if arAction req = ''open-native-item'' then
        (case arItem req of None \<Rightarrow> failed (Message ''item is required'')
         | Some item \<Rightarrow> (case DecryptNativeItem crypto key (agAccountID a) item of
              Inl e \<Rightarrow> failed (Failure e) | Inr native \<Rightarrow> no_response\<lparr>rpNative := Some native\<rparr>))
      else failed (Message ''unknown session action''))"

section \<open>The goroutines of a running agent\<close>

text \<open>
  Where the goroutine of \<open>Serve\<close> is: waiting in \<open>AcceptUnix\<close>; in \<open>handle\<close> with a
  connection whose peer is \<open>uid\<close> (\<open>None\<close>: its credentials cannot be read) and whose
  request is \<open>req\<close> (\<open>None\<close>: not decodable); past \<open>touch\<close>; holding the slices of
  key and token, with the arrays as they were when the slices were read; answered a logout and
  calling \<open>Close\<close>; or returned.
\<close>

datatype serving = Waiting | Accepted "uid option" "agent_request option" | Touched agent_request
  | Reading agent_request bytes bytes | Leaving | Returned

text \<open>How far \<open>closeOnce\<close> is; the argument is \<open>Close\<close>'s copy of the token.\<close>

datatype closing = Idle | Begun bytes | Stopped bytes | KeyCleared bytes | KeyDropped bytes | TokenCleared bytes | Finished

record answered =
  anRequest :: agent_request
  anKey :: bytes
  anToken :: bytes
  anResponse :: agent_response
  anClosing :: bool

text \<open>
  \<open>ruFired\<close>: \<open>monitorAutoLock\<close> has received from a timer that was due at that
  instant; \<open>ruOwnerGone\<close>: \<open>monitorOwner\<close> has seen another process; \<open>ruCancelled\<close>:
  the context is done. \<open>ruTouched\<close> lists the instants of the start and of the owner's requests,
  \<open>ruAnswers\<close> the answers given.
\<close>

record running =
  ruAgent :: agent
  ruServing :: serving
  ruFired :: "time option"
  ruOwnerGone :: bool
  ruCancelled :: bool
  ruClosing :: closing
  ruNow :: time
  ruTouched :: "time list"
  ruAnswers :: "answered list"

definition started :: "agent \<Rightarrow> time \<Rightarrow> running" where
  "started a now =
     \<lparr>ruAgent = a, ruServing = Waiting, ruFired = None, ruOwnerGone = False, ruCancelled = False,
      ruClosing = Idle, ruNow = now, ruTouched = [now], ruAnswers = []\<rparr>"

text \<open>
  An array that is read between two instants, while another goroutine may write it: each byte is
  the one it held at the first instant or at the second.
\<close>

definition read_between :: "bytes \<Rightarrow> bytes \<Rightarrow> bytes \<Rightarrow> bool" where
  "read_between old new bs \<longleftrightarrow>
     length bs = length old \<and> list_all (\<lambda>i. bs ! i = old ! i \<or> i < length new \<and> bs ! i = new ! i) [0..<length old]"

datatype serve_move = Connect "uid option" "agent_request option" | AcceptFails | Handle | TakeSlices
  | Answer bytes bytes | Leave

fun serve_step :: "crypto_env \<Rightarrow> serve_move \<Rightarrow> running \<Rightarrow> running option" where
  "serve_step crypto (Connect uid req) s =
     (if ruServing s = Waiting \<and> agListening (ruAgent s) then Some (s\<lparr>ruServing := Accepted uid req\<rparr>) else None)"
| "serve_step crypto AcceptFails s =
     (if ruServing s = Waiting then Some (s\<lparr>ruServing := Returned\<rparr>) else None)"
| "serve_step crypto Handle s =
     (case ruServing s of
        Accepted uid req \<Rightarrow>
          (if uid \<noteq> Some (agOwnerUID (ruAgent s)) then Some (s\<lparr>ruServing := Waiting\<rparr>)
           else case req of None \<Rightarrow> Some (s\<lparr>ruServing := Waiting\<rparr>)
           | Some r \<Rightarrow> Some (s\<lparr>ruAgent := touch (ruAgent s) (ruNow s), ruServing := Touched r,
                              ruTouched := ruTouched s @ [ruNow s]\<rparr>))
      | _ \<Rightarrow> None)"
| "serve_step crypto TakeSlices s =
     (case ruServing s of
        Touched r \<Rightarrow> Some (s\<lparr>ruServing := Reading r (the_key (ruAgent s)) (the_token (ruAgent s))\<rparr>)
      | _ \<Rightarrow> None)"
| "serve_step crypto (Answer key token) s =
     (case ruServing s of
        Reading r oldKey oldToken \<Rightarrow>
          (if read_between oldKey (agKey (ruAgent s)) key \<and> read_between oldToken (agToken (ruAgent s)) token then
             Some (s\<lparr>ruServing := (if arAction r = ''logout'' then Leaving else Waiting),
                     ruAnswers := ruAnswers s @ [\<lparr>anRequest = r, anKey = key, anToken = token,
                       anResponse = respond crypto (ruAgent s) key token r, anClosing = (ruClosing s \<noteq> Idle)\<rparr>]\<rparr>)
           else None)
      | _ \<Rightarrow> None)"
| "serve_step crypto Leave s =
     (if ruServing s = Leaving \<and> ruClosing s = Finished then Some (s\<lparr>ruServing := Waiting\<rparr>) else None)"

datatype watch_move = TimerFires | OwnerLooks "string option" | Cancel

fun watch_step :: "watch_move \<Rightarrow> running \<Rightarrow> running option" where
  "watch_step TimerFires s =
     (case agTimer (ruAgent s) of
        None \<Rightarrow> None
      | Some fires \<Rightarrow> if ruFired s = None \<and> fires \<le> ruNow s
                      then Some (s\<lparr>ruFired := Some fires, ruAgent := (ruAgent s)\<lparr>agTimer := None\<rparr>\<rparr>) else None)"
| "watch_step (OwnerLooks stat) s =
     (if \<not> agOwnerPID (ruAgent s) > 0 then None
      else if processStartTime stat = None \<or> processStartTime stat \<noteq> Some (agOwnerStart (ruAgent s))
      then Some (s\<lparr>ruOwnerGone := True\<rparr>) else Some s)"
| "watch_step Cancel s = Some (s\<lparr>ruCancelled := True\<rparr>)"

datatype close_cause = ByLogout | ByTimer | ByOwner | ByCancel

fun caused :: "close_cause \<Rightarrow> running \<Rightarrow> bool" where
  "caused ByLogout s \<longleftrightarrow> ruServing s = Leaving"
| "caused ByTimer s \<longleftrightarrow> ruFired s \<noteq> None"
| "caused ByOwner s \<longleftrightarrow> ruOwnerGone s"
| "caused ByCancel s \<longleftrightarrow> ruCancelled s"

datatype close_move = BeginClose close_cause | GoOn

fun close_step :: "close_move \<Rightarrow> running \<Rightarrow> running option" where
  "close_step (BeginClose cause) s =
     (if ruClosing s = Idle \<and> caused cause s then Some (s\<lparr>ruClosing := Begun (the_token (ruAgent s))\<rparr>) else None)"
| "close_step GoOn s =
     (case ruClosing s of
        Begun token \<Rightarrow> Some (s\<lparr>ruAgent := close_stop (ruAgent s), ruClosing := Stopped token\<rparr>)
      | Stopped token \<Rightarrow> Some (s\<lparr>ruAgent := close_clear_key (ruAgent s), ruClosing := KeyCleared token\<rparr>)
      | KeyCleared token \<Rightarrow> Some (s\<lparr>ruAgent := close_drop_key (ruAgent s), ruClosing := KeyDropped token\<rparr>)
      | KeyDropped token \<Rightarrow> Some (s\<lparr>ruAgent := close_clear_token (ruAgent s), ruClosing := TokenCleared token\<rparr>)
      | TokenCleared token \<Rightarrow> Some (s\<lparr>ruAgent := close_listener token (ruAgent s), ruClosing := Finished\<rparr>)
      | _ \<Rightarrow> None)"

text \<open>
  Time passes, but the goroutine of the timer is scheduled within a latency \<open>lag\<close>: until
  \<open>Close\<close> has begun, the clock does not go further than \<open>lag\<close> past the instant the
  timer is, or was, due.
\<close>

definition prompt :: "duration \<Rightarrow> time \<Rightarrow> running \<Rightarrow> bool" where
  "prompt lag t s \<longleftrightarrow> ruClosing s \<noteq> Idle \<or>
     (case ruFired s of Some due \<Rightarrow> t \<le> due + lag
      | None \<Rightarrow> (case agTimer (ruAgent s) of None \<Rightarrow> True | Some due \<Rightarrow> t \<le> due + lag))"

datatype agent_move = Serving serve_move | Watching watch_move | Closing close_move | Tick time

fun agent_step :: "crypto_env \<Rightarrow> duration \<Rightarrow> agent_move \<Rightarrow> running \<Rightarrow> running option" where
  "agent_step crypto lag (Serving m) s = serve_step crypto m s"
| "agent_step crypto lag (Watching m) s = watch_step m s"
| "agent_step crypto lag (Closing m) s = close_step m s"
| "agent_step crypto lag (Tick t) s =
     (if ruNow s \<le> t \<and> prompt lag t s then Some (s\<lparr>ruNow := t\<rparr>) else None)"

inductive agent_run :: "crypto_env \<Rightarrow> duration \<Rightarrow> agent \<Rightarrow> time \<Rightarrow> agent_move list \<Rightarrow> running \<Rightarrow> bool"
  for crypto lag a0 begins where
  starts: "agent_run crypto lag a0 begins [] (started a0 begins)"
| moves: "agent_run crypto lag a0 begins ms s \<Longrightarrow> agent_step crypto lag m s = Some s' \<Longrightarrow>
    agent_run crypto lag a0 begins (ms @ [m]) s'"

section \<open>The callers in other processes\<close>

datatype call_failure = NotReached | Refused agent_failure | Incomplete

definition action_request :: "string \<Rightarrow> agent_request" where
  "action_request action =
     \<lparr>arAction = action, arLogin = None, arNote = None, arFolder = None, arGeneric = None, arItem = None, arRevision = 0\<rparr>"

text \<open>\<open>ask\<close> is one exchange over the socket; \<open>None\<close> when it breaks off.\<close>

type_synonym exchange = "agent_request \<Rightarrow> agent_response option"

definition requestAgent :: "exchange \<Rightarrow> agent_request \<Rightarrow> call_failure + agent_response" where
  "requestAgent ask req =
     (case ask req of None \<Rightarrow> Inl NotReached
      | Some res \<Rightarrow> (case rpError res of Some e \<Rightarrow> Inl (Refused e) | None \<Rightarrow> Inr res))"

definition Status :: "exchange \<Rightarrow> call_failure + agent_info" where
  "Status ask = bind_e (requestAgent ask (action_request ''status'')) (\<lambda>res. option_e Incomplete (rpInfo res))"

definition AccessToken :: "exchange \<Rightarrow> call_failure + bytes" where
  "AccessToken ask = bind_e (requestAgent ask (action_request ''access-token'')) (\<lambda>res. Inr (rpToken res))"

definition SealLogin :: "exchange \<Rightarrow> login_item \<Rightarrow> u64 \<Rightarrow> call_failure + encrypted_item" where
  "SealLogin ask login revno =
     bind_e (requestAgent ask ((action_request ''seal-login'')\<lparr>arLogin := Some login, arRevision := revno\<rparr>)) (\<lambda>res.
       option_e Incomplete (rpItem res))"

definition OpenLogin :: "exchange \<Rightarrow> encrypted_item \<Rightarrow> call_failure + login_item" where
  "OpenLogin ask item =
     bind_e (requestAgent ask ((action_request ''open-login'')\<lparr>arItem := Some item\<rparr>)) (\<lambda>res.
       option_e Incomplete (rpLogin res))"

definition SealSecureNote :: "exchange \<Rightarrow> secure_note_item \<Rightarrow> u64 \<Rightarrow> call_failure + encrypted_item" where
  "SealSecureNote ask n revno =
     bind_e (requestAgent ask ((action_request ''seal-secure-note'')\<lparr>arNote := Some n, arRevision := revno\<rparr>)) (\<lambda>res.
       option_e Incomplete (rpItem res))"

definition OpenSecureNote :: "exchange \<Rightarrow> encrypted_item \<Rightarrow> call_failure + secure_note_item" where
  "OpenSecureNote ask item =
     bind_e (requestAgent ask ((action_request ''open-secure-note'')\<lparr>arItem := Some item\<rparr>)) (\<lambda>res.
       option_e Incomplete (rpNote res))"

definition SealFolder :: "exchange \<Rightarrow> folder_item \<Rightarrow> u64 \<Rightarrow> call_failure + encrypted_item" where
  "SealFolder ask folder revno =
     bind_e (requestAgent ask ((action_request ''seal-folder'')\<lparr>arFolder := Some folder, arRevision := revno\<rparr>)) (\<lambda>res.
       option_e Incomplete (rpItem res))"

definition SealGenericItem :: "exchange \<Rightarrow> generic_item \<Rightarrow> u64 \<Rightarrow> call_failure + encrypted_item" where
  "SealGenericItem ask g revno =
     bind_e (requestAgent ask ((action_request ''seal-generic-item'')\<lparr>arGeneric := Some g, arRevision := revno\<rparr>)) (\<lambda>res.
       option_e Incomplete (rpItem res))"

definition OpenNativeItem :: "exchange \<Rightarrow> encrypted_item \<Rightarrow> call_failure + native_item" where
  "OpenNativeItem ask item =
     bind_e (requestAgent ask ((action_request ''open-native-item'')\<lparr>arItem := Some item\<rparr>)) (\<lambda>res.
       option_e Incomplete (rpNative res))"

definition Logout :: "exchange \<Rightarrow> call_failure + unit" where
  "Logout ask = bind_e (requestAgent ask (action_request ''logout'')) (\<lambda>_. Inr ())"

section \<open>What a run keeps\<close>

definition same_owner :: "agent \<Rightarrow> agent \<Rightarrow> bool" where
  "same_owner a0 a \<longleftrightarrow> agOwnerUID a = agOwnerUID a0 \<and> agOwnerPID a = agOwnerPID a0 \<and> agOwnerStart a = agOwnerStart a0 \<and>
     agAccountID a = agAccountID a0 \<and> agEmail a = agEmail a0 \<and> agPID a = agPID a0 \<and> agAutoLockFor a = agAutoLockFor a0 \<and> agRevokes a = agRevokes a0"

definition unlocked :: "agent \<Rightarrow> bool" where
  "unlocked a \<longleftrightarrow> \<not> agClosed a \<and> agKeyHeld a \<and> agTokenHeld a \<and> agListening a \<and> agRevoked a = []"

lemma NewAgent_unlocked: "NewAgent env cfg = Inr a \<Longrightarrow> unlocked a"
  by (auto simp: NewAgent_def unlocked_def Let_def split: if_splits)

text \<open>The agent is the one it was started with, but for its timer, closed as far as \<open>Close\<close> came.\<close>

fun closed_up_to :: "closing \<Rightarrow> agent \<Rightarrow> agent" where
  "closed_up_to Idle a = a"
| "closed_up_to (Begun token) a = a"
| "closed_up_to (Stopped token) a = close_stop a"
| "closed_up_to (KeyCleared token) a = close_clear_key (close_stop a)"
| "closed_up_to (KeyDropped token) a = close_drop_key (close_clear_key (close_stop a))"
| "closed_up_to (TokenCleared token) a = close_clear_token (close_drop_key (close_clear_key (close_stop a)))"
| "closed_up_to Finished a =
     close_listener (agToken a) (close_clear_token (close_drop_key (close_clear_key (close_stop a))))"

fun copied_token :: "closing \<Rightarrow> bytes option" where
  "copied_token Idle = None"
| "copied_token (Begun token) = Some token"
| "copied_token (Stopped token) = Some token"
| "copied_token (KeyCleared token) = Some token"
| "copied_token (KeyDropped token) = Some token"
| "copied_token (TokenCleared token) = Some token"
| "copied_token Finished = None"

definition memory_inv :: "agent \<Rightarrow> running \<Rightarrow> bool" where
  "memory_inv a0 s \<longleftrightarrow>
     (\<exists>timer. ruAgent s = closed_up_to (ruClosing s) (a0\<lparr>agTimer := timer\<rparr>)) \<and>
     copied_token (ruClosing s) \<in> {None, Some (agToken a0)}"

lemmas close_defs = close_stop_def close_clear_key_def close_drop_key_def close_clear_token_def close_listener_def

lemma closed_same_owner: "same_owner a0 (closed_up_to c (a0\<lparr>agTimer := timer\<rparr>))"
  by (cases c) (simp_all add: same_owner_def close_defs)

lemma clearBytes_idem [simp]: "clearBytes (clearBytes b) = clearBytes b" "length (clearBytes b) = length b"
  "set (clearBytes b) \<subseteq> {0}" "i < length b \<Longrightarrow> clearBytes b ! i = 0"
  by (auto simp: clearBytes_def)

lemma closed_closed:
  "unlocked a0 \<Longrightarrow> agClosed (closed_up_to c (a0\<lparr>agTimer := timer\<rparr>)) \<longleftrightarrow> c \<noteq> Idle \<and> (\<forall>token. c \<noteq> Begun token)"
  by (cases c) (simp_all add: unlocked_def close_defs)

lemma closed_timer:
  "agClosed (closed_up_to c (a0\<lparr>agTimer := timer\<rparr>)) \<Longrightarrow> unlocked a0 \<Longrightarrow> agTimer (closed_up_to c (a0\<lparr>agTimer := timer\<rparr>)) = None"
  by (cases c) (simp_all add: unlocked_def close_defs)

lemma closed_set_timer:
  "unlocked a0 \<Longrightarrow> \<not> agClosed (closed_up_to c (a0\<lparr>agTimer := timer\<rparr>)) \<Longrightarrow>
   (closed_up_to c (a0\<lparr>agTimer := timer\<rparr>))\<lparr>agTimer := t\<rparr> = closed_up_to c (a0\<lparr>agTimer := t\<rparr>)"
  by (cases c) (simp_all add: unlocked_def close_defs)

lemma closed_touch:
  assumes "unlocked a0"
  shows "\<exists>t. touch (closed_up_to c (a0\<lparr>agTimer := timer\<rparr>)) now = closed_up_to c (a0\<lparr>agTimer := t\<rparr>)"
  using closed_set_timer[OF assms, of c timer] by (auto simp: touch_def)

lemma closed_arrays:
  "unlocked a0 \<Longrightarrow> agKey (closed_up_to c (a0\<lparr>agTimer := timer\<rparr>)) \<in> {agKey a0, clearBytes (agKey a0)}"
  "unlocked a0 \<Longrightarrow> agToken (closed_up_to c (a0\<lparr>agTimer := timer\<rparr>)) \<in> {agToken a0, clearBytes (agToken a0)}"
  "unlocked a0 \<Longrightarrow> the_key (closed_up_to c (a0\<lparr>agTimer := timer\<rparr>)) \<in> {agKey a0, clearBytes (agKey a0), []}"
  "unlocked a0 \<Longrightarrow> the_token (closed_up_to c (a0\<lparr>agTimer := timer\<rparr>)) \<in> {agToken a0, clearBytes (agToken a0), []}"
  by (cases c; simp add: close_defs the_key_def the_token_def)+

lemma memory_started: "memory_inv a0 (started a0 begins)"
  by (auto simp: memory_inv_def started_def intro: exI[of _ "agTimer a0"])

lemma memory_serve:
  assumes "memory_inv a0 s" "unlocked a0" "serve_step crypto m s = Some s'"
  shows "memory_inv a0 s'"
  using assms closed_touch[OF assms(2)]
  by (cases m) (auto simp: memory_inv_def split: if_splits serving.splits option.splits)

lemma memory_watch:
  assumes "memory_inv a0 s" "unlocked a0" "watch_step m s = Some s'"
  shows "memory_inv a0 s'"
proof (cases m)
  case TimerFires
  from assms(1) obtain timer where a: "ruAgent s = closed_up_to (ruClosing s) (a0\<lparr>agTimer := timer\<rparr>)"
    by (auto simp: memory_inv_def)
  with TimerFires assms(3) closed_timer[OF _ assms(2)] have "\<not> agClosed (ruAgent s)" by (auto split: option.splits)
  then have "(ruAgent s)\<lparr>agTimer := None\<rparr> = closed_up_to (ruClosing s) (a0\<lparr>agTimer := None\<rparr>)"
    unfolding a by (rule closed_set_timer[OF assms(2)])
  with TimerFires assms(1,3) show ?thesis by (auto simp: memory_inv_def split: option.splits if_splits)
next
  case (OwnerLooks stat)
  with assms show ?thesis by (auto simp: memory_inv_def split: if_splits)
next
  case Cancel
  with assms show ?thesis by (auto simp: memory_inv_def)
qed

lemma memory_close:
  assumes "memory_inv a0 s" "unlocked a0" "close_step m s = Some s'"
  shows "memory_inv a0 s'"
proof (cases m)
  case (BeginClose cause)
  with assms show ?thesis by (auto simp: memory_inv_def unlocked_def the_token_def split: if_splits)
next
  case GoOn
  from assms(1) obtain timer where "ruAgent s = closed_up_to (ruClosing s) (a0\<lparr>agTimer := timer\<rparr>)"
    "copied_token (ruClosing s) \<in> {None, Some (agToken a0)}" by (auto simp: memory_inv_def)
  with GoOn assms(3) show ?thesis by (cases "ruClosing s") (auto simp: memory_inv_def)
qed

lemma memory_tick: "memory_inv a0 (s\<lparr>ruNow := t\<rparr>) = memory_inv a0 s"
  by (simp add: memory_inv_def)

lemma memory_run: "agent_run crypto lag a0 begins ms s \<Longrightarrow> unlocked a0 \<Longrightarrow> memory_inv a0 s"
proof (induction rule: agent_run.induct)
  case starts
  show ?case by (rule memory_started)
next
  case (moves ms s m s')
  then show ?case
    by (cases m) (auto intro: memory_serve memory_watch memory_close split: if_splits simp: memory_tick)
qed

text \<open>What is left of secret bytes: nothing, or each byte as it was or zero.\<close>

definition remnant :: "bytes \<Rightarrow> bytes \<Rightarrow> bool" where
  "remnant secret bs \<longleftrightarrow> bs = [] \<or> length bs = length secret \<and> (\<forall>i < length secret. bs ! i = secret ! i \<or> bs ! i = 0)"

lemma read_remnant:
  assumes "read_between old new bs" "old \<in> {secret, clearBytes secret, []}" "new \<in> {secret, clearBytes secret}"
  shows "remnant secret bs"
proof (cases "old = []")
  case True
  with assms(1) show ?thesis by (simp add: read_between_def remnant_def)
next
  case False
  with assms(1,2) have len: "length bs = length secret" and
    each: "\<And>i. i < length secret \<Longrightarrow> bs ! i = old ! i \<or> bs ! i = new ! i"
    by (auto simp: read_between_def list_all_iff)
  have "bs ! i = secret ! i \<or> bs ! i = 0" if "i < length secret" for i
    using each[OF that] assms(2,3) False that by auto
  with len show ?thesis by (simp add: remnant_def)
qed

lemma read_same: "read_between b b bs \<Longrightarrow> bs = b"
  by (auto simp: read_between_def list_all_iff intro: nth_equalityI)

definition answer_ok :: "crypto_env \<Rightarrow> agent \<Rightarrow> agent_move list \<Rightarrow> answered \<Rightarrow> bool" where
  "answer_ok crypto a0 ms e \<longleftrightarrow>
     Serving (Connect (Some (agOwnerUID a0)) (Some (anRequest e))) \<in> set ms \<and>
     anResponse e = respond crypto a0 (anKey e) (anToken e) (anRequest e) \<and>
     (if anClosing e then remnant (agKey a0) (anKey e) \<and> remnant (agToken a0) (anToken e)
      else anKey e = agKey a0 \<and> anToken e = agToken a0)"

fun serving_ok :: "agent \<Rightarrow> agent_move list \<Rightarrow> running \<Rightarrow> serving \<Rightarrow> bool" where
  "serving_ok a0 ms s (Accepted uid req) \<longleftrightarrow> Serving (Connect uid req) \<in> set ms"
| "serving_ok a0 ms s (Touched r) \<longleftrightarrow> Serving (Connect (Some (agOwnerUID a0)) (Some r)) \<in> set ms"
| "serving_ok a0 ms s (Reading r key token) \<longleftrightarrow>
     Serving (Connect (Some (agOwnerUID a0)) (Some r)) \<in> set ms \<and>
     key \<in> {agKey a0, clearBytes (agKey a0), []} \<and> token \<in> {agToken a0, clearBytes (agToken a0), []} \<and>
     (ruClosing s = Idle \<longrightarrow> key = agKey a0 \<and> token = agToken a0)"
| "serving_ok a0 ms s Leaving \<longleftrightarrow> (\<exists>e \<in> set (ruAnswers s). arAction (anRequest e) = ''logout'')"
| "serving_ok a0 ms s _ \<longleftrightarrow> True"

definition history_inv :: "crypto_env \<Rightarrow> agent \<Rightarrow> agent_move list \<Rightarrow> running \<Rightarrow> bool" where
  "history_inv crypto a0 ms s \<longleftrightarrow>
     (\<forall>e \<in> set (ruAnswers s). answer_ok crypto a0 ms e) \<and> serving_ok a0 ms s (ruServing s) \<and>
     (ruOwnerGone s \<longrightarrow> agOwnerPID a0 > 0 \<and>
        (\<exists>stat. Watching (OwnerLooks stat) \<in> set ms \<and> processStartTime stat \<noteq> Some (agOwnerStart a0))) \<and>
     (ruCancelled s \<longrightarrow> Watching Cancel \<in> set ms) \<and>
     (ruClosing s \<noteq> Idle \<longrightarrow> (\<exists>e \<in> set (ruAnswers s). arAction (anRequest e) = ''logout'') \<or> ruFired s \<noteq> None \<or>
        ruOwnerGone s \<or> ruCancelled s)"

lemma answer_ok_more: "answer_ok crypto a0 ms e \<Longrightarrow> answer_ok crypto a0 (ms @ rest) e"
  by (auto simp: answer_ok_def)

lemma serving_ok_more: "serving_ok a0 ms s x \<Longrightarrow> serving_ok a0 (ms @ rest) s x"
  by (cases x) auto

lemma respond_cong:
  assumes "same_owner a0 a" shows "respond crypto a key token r = respond crypto a0 key token r"
proof -
  from assms have same: "agAccountID a = agAccountID a0" "agEmail a = agEmail a0" "agPID a = agPID a0"
    by (simp_all add: same_owner_def)
  show ?thesis unfolding respond_def same ..
qed

lemma memory_facts:
  assumes "memory_inv a0 s" "unlocked a0"
  shows "same_owner a0 (ruAgent s)"
    "agKey (ruAgent s) \<in> {agKey a0, clearBytes (agKey a0)}" "agToken (ruAgent s) \<in> {agToken a0, clearBytes (agToken a0)}"
    "the_key (ruAgent s) \<in> {agKey a0, clearBytes (agKey a0), []}"
    "the_token (ruAgent s) \<in> {agToken a0, clearBytes (agToken a0), []}"
    "agClosed (ruAgent s) \<Longrightarrow> agTimer (ruAgent s) = None"
    "ruClosing s = Idle \<Longrightarrow> \<not> agClosed (ruAgent s) \<and> the_key (ruAgent s) = agKey a0 \<and> the_token (ruAgent s) = agToken a0 \<and>
       agKey (ruAgent s) = agKey a0 \<and> agToken (ruAgent s) = agToken a0 \<and> agRevoked (ruAgent s) = [] \<and> agListening (ruAgent s)"
    "ruClosing s = Finished \<Longrightarrow> \<not> agListening (ruAgent s) \<and> the_key (ruAgent s) = [] \<and> the_token (ruAgent s) = [] \<and>
       set (agKey (ruAgent s)) \<subseteq> {0} \<and> set (agToken (ruAgent s)) \<subseteq> {0} \<and>
       agRevoked (ruAgent s) = (if agRevokes a0 \<and> agToken a0 \<noteq> [] then [agToken a0] else [])"
proof -
  from assms(1) obtain timer where a: "ruAgent s = closed_up_to (ruClosing s) (a0\<lparr>agTimer := timer\<rparr>)"
    by (auto simp: memory_inv_def)
  show "same_owner a0 (ruAgent s)" unfolding a by (rule closed_same_owner)
  show "agKey (ruAgent s) \<in> {agKey a0, clearBytes (agKey a0)}" "agToken (ruAgent s) \<in> {agToken a0, clearBytes (agToken a0)}"
    "the_key (ruAgent s) \<in> {agKey a0, clearBytes (agKey a0), []}"
    "the_token (ruAgent s) \<in> {agToken a0, clearBytes (agToken a0), []}"
    unfolding a using closed_arrays[OF assms(2)] by blast+
  show "agTimer (ruAgent s) = None" if "agClosed (ruAgent s)"
    using that unfolding a by (rule closed_timer[OF _ assms(2)])
  show "\<not> agClosed (ruAgent s) \<and> the_key (ruAgent s) = agKey a0 \<and> the_token (ruAgent s) = agToken a0 \<and>
       agKey (ruAgent s) = agKey a0 \<and> agToken (ruAgent s) = agToken a0 \<and> agRevoked (ruAgent s) = [] \<and> agListening (ruAgent s)"
    if "ruClosing s = Idle"
    unfolding a using assms(2) that by (simp add: the_key_def the_token_def unlocked_def)
  show "\<not> agListening (ruAgent s) \<and> the_key (ruAgent s) = [] \<and> the_token (ruAgent s) = [] \<and>
       set (agKey (ruAgent s)) \<subseteq> {0} \<and> set (agToken (ruAgent s)) \<subseteq> {0} \<and>
       agRevoked (ruAgent s) = (if agRevokes a0 \<and> agToken a0 \<noteq> [] then [agToken a0] else [])"
    if "ruClosing s = Finished"
    unfolding a that using assms(2) by (simp add: close_defs the_key_def the_token_def unlocked_def)
qed

lemma history_invI:
  assumes "\<And>e. e \<in> set (ruAnswers s) \<Longrightarrow> answer_ok crypto a0 ms e" "serving_ok a0 ms s (ruServing s)"
    "ruOwnerGone s \<Longrightarrow> agOwnerPID a0 > 0 \<and>
        (\<exists>stat. Watching (OwnerLooks stat) \<in> set ms \<and> processStartTime stat \<noteq> Some (agOwnerStart a0))"
    "ruCancelled s \<Longrightarrow> Watching Cancel \<in> set ms"
    "ruClosing s \<noteq> Idle \<Longrightarrow> (\<exists>e \<in> set (ruAnswers s). arAction (anRequest e) = ''logout'') \<or> ruFired s \<noteq> None \<or>
        ruOwnerGone s \<or> ruCancelled s"
  shows "history_inv crypto a0 ms s"
  using assms by (simp add: history_inv_def)

lemma history_invD:
  assumes "history_inv crypto a0 ms s"
  shows "e \<in> set (ruAnswers s) \<Longrightarrow> answer_ok crypto a0 ms e" "serving_ok a0 ms s (ruServing s)"
    "ruOwnerGone s \<Longrightarrow> agOwnerPID a0 > 0 \<and>
        (\<exists>stat. Watching (OwnerLooks stat) \<in> set ms \<and> processStartTime stat \<noteq> Some (agOwnerStart a0))"
    "ruCancelled s \<Longrightarrow> Watching Cancel \<in> set ms"
    "ruClosing s \<noteq> Idle \<Longrightarrow> (\<exists>e \<in> set (ruAnswers s). arAction (anRequest e) = ''logout'') \<or> ruFired s \<noteq> None \<or>
        ruOwnerGone s \<or> ruCancelled s"
  using assms by (simp_all add: history_inv_def)

lemma serving_ok_cong:
  "ruClosing s' = ruClosing s \<or> ruClosing s' \<noteq> Idle \<Longrightarrow> ruAnswers s' = ruAnswers s \<Longrightarrow> serving_ok a0 ms s x \<Longrightarrow>
   serving_ok a0 (ms @ rest) s' x"
  by (cases x) auto

lemma answer_answer_ok:
  assumes held: "serving_ok a0 ms s (Reading r k t)" and mem: "memory_inv a0 s" "unlocked a0" and
    read: "read_between k (agKey (ruAgent s)) key" "read_between t (agToken (ruAgent s)) token"
  shows "answer_ok crypto a0 ms \<lparr>anRequest = r, anKey = key, anToken = token,
         anResponse = respond crypto (ruAgent s) key token r, anClosing = (ruClosing s \<noteq> Idle)\<rparr>"
proof -
  note facts = memory_facts[OF mem]
  from held have h: "Serving (Connect (Some (agOwnerUID a0)) (Some r)) \<in> set ms"
    "k \<in> {agKey a0, clearBytes (agKey a0), []}" "t \<in> {agToken a0, clearBytes (agToken a0), []}"
    "ruClosing s = Idle \<Longrightarrow> k = agKey a0 \<and> t = agToken a0" by simp_all
  have "key = agKey a0 \<and> token = agToken a0" if "ruClosing s = Idle"
  proof -
    from h(4)[OF that] facts(7)[OF that] have "k = agKey a0" "agKey (ruAgent s) = agKey a0"
      "t = agToken a0" "agToken (ruAgent s) = agToken a0" by simp_all
    with read show ?thesis by (simp add: read_same)
  qed
  moreover have "remnant (agKey a0) key" "remnant (agToken a0) token"
    using read_remnant[OF read(1) h(2) facts(2)] read_remnant[OF read(2) h(3) facts(3)] .
  ultimately show ?thesis using h(1) respond_cong[OF facts(1)] by (simp add: answer_ok_def)
qed

lemma serve_step_keeps:
  assumes "serve_step crypto m s = Some s'"
  shows "ruFired s' = ruFired s" "ruOwnerGone s' = ruOwnerGone s" "ruCancelled s' = ruCancelled s"
    "ruClosing s' = ruClosing s" "set (ruAnswers s) \<subseteq> set (ruAnswers s')"
  using assms by (cases m; auto split: serving.splits option.splits if_splits)+

lemma history_serve:
  assumes hist: "history_inv crypto a0 ms s" and mem: "memory_inv a0 s" "unlocked a0" and
    step: "serve_step crypto m s = Some s'"
  shows "history_inv crypto a0 (ms @ [Serving m]) s'"
proof (rule history_invI)
  note inv = history_invD[OF hist] and same = serve_step_keeps[OF step] and facts = memory_facts[OF mem]
  show "answer_ok crypto a0 (ms @ [Serving m]) e" if e: "e \<in> set (ruAnswers s')" for e
  proof (cases "e \<in> set (ruAnswers s)")
    case True
    then show ?thesis using inv(1) by (simp add: answer_ok_more)
  next
    case False
    with step e obtain key token where m: "m = Answer key token"
      by (cases m) (auto split: serving.splits option.splits if_splits)
    from step[unfolded m] obtain r k t where r: "ruServing s = Reading r k t"
      "read_between k (agKey (ruAgent s)) key" "read_between t (agToken (ruAgent s)) token"
      "ruAnswers s' = ruAnswers s @ [\<lparr>anRequest = r, anKey = key, anToken = token,
         anResponse = respond crypto (ruAgent s) key token r, anClosing = (ruClosing s \<noteq> Idle)\<rparr>]"
      by (auto split: serving.splits if_splits)
    from inv(2)[unfolded r(1)] mem r(2,3) show ?thesis
      using e False r(4) by (auto intro: answer_ok_more answer_answer_ok)
  qed
  show "serving_ok a0 (ms @ [Serving m]) s' (ruServing s')"
  proof (cases m)
    case Handle
    have "agOwnerUID (ruAgent s) = agOwnerUID a0" using facts(1) by (simp add: same_owner_def)
    with Handle inv(2) step show ?thesis by (auto split: serving.splits option.splits if_splits)
  next
    case TakeSlices
    with step obtain r where r: "ruServing s = Touched r"
      "s' = s\<lparr>ruServing := Reading r (the_key (ruAgent s)) (the_token (ruAgent s))\<rparr>" by (auto split: serving.splits)
    with inv(2) facts(4,5,7) show ?thesis by simp
  next
    case (Answer key token)
    with step show ?thesis by (auto split: serving.splits if_splits)
  qed (use step in \<open>auto split: if_splits\<close>)
  show "agOwnerPID a0 > 0 \<and>
        (\<exists>stat. Watching (OwnerLooks stat) \<in> set (ms @ [Serving m]) \<and> processStartTime stat \<noteq> Some (agOwnerStart a0))"
    if "ruOwnerGone s'" using that same(2) inv(3) by auto
  show "Watching Cancel \<in> set (ms @ [Serving m])" if "ruCancelled s'" using that same(3) inv(4) by auto
  show "(\<exists>e \<in> set (ruAnswers s'). arAction (anRequest e) = ''logout'') \<or> ruFired s' \<noteq> None \<or> ruOwnerGone s' \<or> ruCancelled s'"
    if "ruClosing s' \<noteq> Idle" using that inv(5) same by auto
qed

lemma history_watch:
  assumes "history_inv crypto a0 ms s" "memory_inv a0 s" "unlocked a0" "watch_step m s = Some s'"
  shows "history_inv crypto a0 (ms @ [Watching m]) s'"
proof (rule history_invI)
  note inv = history_invD[OF assms(1)]
  have same: "ruServing s' = ruServing s" "ruAnswers s' = ruAnswers s" "ruClosing s' = ruClosing s"
    "ruFired s' = None \<Longrightarrow> ruFired s = None" "ruOwnerGone s \<Longrightarrow> ruOwnerGone s'" "ruCancelled s \<Longrightarrow> ruCancelled s'"
    using assms(4) by (cases m; auto split: if_splits option.splits)+
  show "answer_ok crypto a0 (ms @ [Watching m]) e" if "e \<in> set (ruAnswers s')" for e
    using inv(1) that same(2) by (simp add: answer_ok_more)
  show "serving_ok a0 (ms @ [Watching m]) s' (ruServing s')"
    unfolding same(1) using same(2,3) inv(2) by (intro serving_ok_cong[of s' s]) auto
  show "agOwnerPID a0 > 0 \<and>
        (\<exists>stat. Watching (OwnerLooks stat) \<in> set (ms @ [Watching m]) \<and> processStartTime stat \<noteq> Some (agOwnerStart a0))"
    if "ruOwnerGone s'"
  proof (cases "ruOwnerGone s")
    case True
    with inv(3) show ?thesis by auto
  next
    case False
    have "agOwnerPID (ruAgent s) = agOwnerPID a0" "agOwnerStart (ruAgent s) = agOwnerStart a0"
      using memory_facts(1)[OF assms(2,3)] by (simp_all add: same_owner_def)
    moreover from False that assms(4) obtain stat where "m = OwnerLooks stat"
      by (cases m) (auto split: option.splits if_splits)
    ultimately show ?thesis using assms(4) False that by (auto split: if_splits)
  qed
  show "Watching Cancel \<in> set (ms @ [Watching m])" if "ruCancelled s'"
    using that assms(4) inv(4) by (cases m) (auto split: option.splits if_splits)
  show "(\<exists>e \<in> set (ruAnswers s'). arAction (anRequest e) = ''logout'') \<or> ruFired s' \<noteq> None \<or> ruOwnerGone s' \<or> ruCancelled s'"
    if "ruClosing s' \<noteq> Idle"
    using inv(5) that same by auto
qed

lemma history_close:
  assumes "history_inv crypto a0 ms s" "close_step m s = Some s'"
  shows "history_inv crypto a0 (ms @ rest) s'"
proof -
  have same: "ruServing s' = ruServing s" "ruAnswers s' = ruAnswers s" "ruClosing s' \<noteq> Idle" "ruFired s' = ruFired s"
    "ruOwnerGone s' = ruOwnerGone s" "ruCancelled s' = ruCancelled s"
    using assms(2) by (cases m; auto split: if_splits closing.splits)+
  have "(\<exists>e \<in> set (ruAnswers s). arAction (anRequest e) = ''logout'') \<or> ruFired s \<noteq> None \<or> ruOwnerGone s \<or> ruCancelled s"
  proof (cases m)
    case (BeginClose cause)
    with assms show ?thesis by (cases cause) (auto simp: history_inv_def split: if_splits)
  next
    case GoOn
    with assms show ?thesis by (auto simp: history_inv_def split: closing.splits)
  qed
  moreover have "serving_ok a0 (ms @ rest) s' (ruServing s)"
    using assms(1) same(2,3) by (intro serving_ok_cong[of s' s]) (auto simp: history_inv_def)
  ultimately show ?thesis using assms(1) by (auto simp: history_inv_def same intro: answer_ok_more)
qed

lemma history_run:
  "agent_run crypto lag a0 begins ms s \<Longrightarrow> unlocked a0 \<Longrightarrow> history_inv crypto a0 ms s"
proof (induction rule: agent_run.induct)
  case starts
  show ?case by (simp add: history_inv_def started_def)
next
  case (moves ms s m s')
  note inv = moves.IH[OF moves.prems] and mem = memory_run[OF moves.hyps(1) moves.prems] moves.prems
  show ?case
  proof (cases m)
    case (Serving v)
    with moves.hyps(2) history_serve[OF inv mem] show ?thesis by simp
  next
    case (Watching v)
    with moves.hyps(2) history_watch[OF inv mem] show ?thesis by simp
  next
    case (Closing v)
    with moves.hyps(2) history_close[OF inv] show ?thesis by simp
  next
    case (Tick t)
    with moves.hyps(2) have s': "s' = s\<lparr>ruNow := t\<rparr>" by (auto split: if_splits)
    with inv show ?thesis
      using serving_ok_cong[of s' s a0 ms "ruServing s"] by (auto simp: history_inv_def intro: answer_ok_more)
  qed
qed

text \<open>The timer is due one period after the last request; it fires after a period without one.\<close>

definition idle_period :: "duration \<Rightarrow> time list \<Rightarrow> time \<Rightarrow> bool" where
  "idle_period d touched due \<longleftrightarrow> (\<exists>t \<in> set touched. due = t + d \<and> (\<forall>u \<in> set touched. u \<le> t \<or> due \<le> u))"

definition timer_inv :: "duration \<Rightarrow> agent \<Rightarrow> running \<Rightarrow> bool" where
  "timer_inv lag a0 s \<longleftrightarrow>
     ruTouched s \<noteq> [] \<and> (\<forall>u \<in> set (ruTouched s). u \<le> last (ruTouched s)) \<and> last (ruTouched s) \<le> ruNow s \<and>
     (ruFired s = None \<longrightarrow> \<not> agClosed (ruAgent s) \<longrightarrow>
        agTimer (ruAgent s) = (if agAutoLockFor a0 > 0 then Some (last (ruTouched s) + agAutoLockFor a0) else None)) \<and>
     (\<forall>due. ruFired s = Some due \<longrightarrow>
        agAutoLockFor a0 > 0 \<and> due \<le> ruNow s \<and> idle_period (agAutoLockFor a0) (ruTouched s) due) \<and>
     (ruClosing s = Idle \<and> agAutoLockFor a0 > 0 \<longrightarrow> ruNow s \<le> last (ruTouched s) + agAutoLockFor a0 + lag)"

lemma timer_invD:
  assumes "timer_inv lag a0 s"
  shows "ruTouched s \<noteq> []" "u \<in> set (ruTouched s) \<Longrightarrow> u \<le> last (ruTouched s)" "last (ruTouched s) \<le> ruNow s"
    "ruFired s = None \<Longrightarrow> \<not> agClosed (ruAgent s) \<Longrightarrow>
       agTimer (ruAgent s) = (if agAutoLockFor a0 > 0 then Some (last (ruTouched s) + agAutoLockFor a0) else None)"
    "ruFired s = Some due \<Longrightarrow> agAutoLockFor a0 > 0 \<and> due \<le> ruNow s \<and> idle_period (agAutoLockFor a0) (ruTouched s) due"
    "ruClosing s = Idle \<Longrightarrow> agAutoLockFor a0 > 0 \<Longrightarrow> ruNow s \<le> last (ruTouched s) + agAutoLockFor a0 + lag"
  using assms by (simp_all add: timer_inv_def)

text \<open>A step that leaves clock and requests alone, and the timer unless it stops it.\<close>

lemma timer_same:
  assumes "timer_inv lag a0 s" "ruTouched s' = ruTouched s" "ruNow s' = ruNow s" "ruFired s' = ruFired s"
    "ruClosing s' = Idle \<Longrightarrow> ruClosing s = Idle"
    "\<not> agClosed (ruAgent s') \<Longrightarrow> \<not> agClosed (ruAgent s) \<and> agTimer (ruAgent s') = agTimer (ruAgent s)"
  shows "timer_inv lag a0 s'"
  using assms by (auto simp: timer_inv_def)

lemma timer_touch:
  assumes "timer_inv lag a0 s" "memory_inv a0 s" "unlocked a0" "0 \<le> lag"
  shows "timer_inv lag a0 (s\<lparr>ruAgent := touch (ruAgent s) (ruNow s), ruServing := v, ruTouched := ruTouched s @ [ruNow s]\<rparr>)"
proof -
  note inv = timer_invD[OF assms(1)]
  have auto': "agAutoLockFor (ruAgent s) = agAutoLockFor a0"
    using memory_facts(1)[OF assms(2,3)] by (simp add: same_owner_def)
  have "u \<le> ruNow s" if "u \<in> set (ruTouched s)" for u using inv(2)[OF that] inv(3) by simp
  moreover have "idle_period (agAutoLockFor a0) (ruTouched s @ [ruNow s]) due"
    if "ruFired s = Some due" for due
    using inv(5)[OF that] by (auto simp: idle_period_def)
  moreover have "agTimer (touch (ruAgent s) (ruNow s)) =
      (if agAutoLockFor a0 > 0 then Some (ruNow s + agAutoLockFor a0) else None)"
    if "ruFired s = None" "\<not> agClosed (touch (ruAgent s) (ruNow s))"
    using that inv(4)[OF that(1)] auto' by (auto simp: touch_def split: if_splits)
  ultimately show ?thesis using inv assms(4) by (simp add: timer_inv_def)
qed

lemma timer_serve:
  assumes "timer_inv lag a0 s" "memory_inv a0 s" "unlocked a0" "0 \<le> lag" "serve_step crypto m s = Some s'"
  shows "timer_inv lag a0 s'"
proof (cases "ruTouched s' = ruTouched s \<and> ruAgent s' = ruAgent s")
  case True
  have "ruNow s' = ruNow s" using assms(5) by (cases m) (auto split: serving.splits option.splits if_splits)
  with True serve_step_keeps[OF assms(5)] show ?thesis by (intro timer_same[OF assms(1)]) auto
next
  case False
  with assms(5) obtain r where
    "s' = s\<lparr>ruAgent := touch (ruAgent s) (ruNow s), ruServing := Touched r, ruTouched := ruTouched s @ [ruNow s]\<rparr>"
    by (cases m) (auto split: serving.splits option.splits if_splits)
  with timer_touch[OF assms(1-4)] show ?thesis by simp
qed

lemma timer_watch:
  assumes "timer_inv lag a0 s" "memory_inv a0 s" "unlocked a0" "watch_step m s = Some s'"
  shows "timer_inv lag a0 s'"
proof (cases m)
  case TimerFires
  note inv = timer_invD[OF assms(1)]
  from assms(4) TimerFires obtain due where due: "agTimer (ruAgent s) = Some due" "ruFired s = None" "due \<le> ruNow s"
    "s' = s\<lparr>ruFired := Some due, ruAgent := (ruAgent s)\<lparr>agTimer := None\<rparr>\<rparr>"
    by (auto split: option.splits if_splits)
  with memory_facts(6)[OF assms(2,3)] have "\<not> agClosed (ruAgent s)" by auto
  with inv(4)[OF due(2)] due(1) have d: "agAutoLockFor a0 > 0" "due = last (ruTouched s) + agAutoLockFor a0"
    by (auto split: if_splits)
  then have "idle_period (agAutoLockFor a0) (ruTouched s) due"
    using inv(1,2) unfolding idle_period_def by (intro bexI[of _ "last (ruTouched s)"]) auto
  with inv d due show ?thesis by (simp add: timer_inv_def)
qed (use assms in \<open>auto intro: timer_same[OF assms(1)] split: if_splits\<close>)

lemma timer_close:
  assumes "timer_inv lag a0 s" "memory_inv a0 s" "unlocked a0" "close_step m s = Some s'"
  shows "timer_inv lag a0 s'"
proof (rule timer_same[OF assms(1)])
  show "ruTouched s' = ruTouched s" "ruNow s' = ruNow s" "ruFired s' = ruFired s" "ruClosing s' = Idle \<Longrightarrow> ruClosing s = Idle"
    using assms(4) by (cases m; auto split: closing.splits if_splits)+
  show "\<not> agClosed (ruAgent s) \<and> agTimer (ruAgent s') = agTimer (ruAgent s)" if "\<not> agClosed (ruAgent s')"
    using that assms(4) by (cases m) (auto simp: close_defs split: closing.splits if_splits)
qed

lemma idle_period_last:
  assumes "idle_period d touched due" "\<And>u. u \<in> set touched \<Longrightarrow> u \<le> last touched"
  shows "due \<le> last touched + d"
  using assms by (auto simp: idle_period_def)

lemma timer_run:
  assumes "agent_run crypto lag a0 begins ms s" "unlocked a0" "0 \<le> lag"
    "agTimer a0 = (if agAutoLockFor a0 > 0 then Some (begins + agAutoLockFor a0) else None)"
  shows "timer_inv lag a0 s"
  using assms
proof induction
  case starts
  then show ?case by (simp add: timer_inv_def started_def)
next
  case (moves ms s m s')
  note tinv = moves.IH[OF moves.prems] and mem = memory_run[OF moves.hyps(1) moves.prems(1)] moves.prems(1)
  show ?case
  proof (cases m)
    case (Serving v)
    with moves.hyps(2) timer_serve[OF tinv mem moves.prems(2)] show ?thesis by simp
  next
    case (Watching v)
    with moves.hyps(2) timer_watch[OF tinv mem] show ?thesis by simp
  next
    case (Closing v)
    with moves.hyps(2) timer_close[OF tinv mem] show ?thesis by simp
  next
    case (Tick t)
    note inv = timer_invD[OF tinv]
    from Tick moves.hyps(2) have s': "s' = s\<lparr>ruNow := t\<rparr>" "ruNow s \<le> t" "prompt lag t s" by (auto split: if_splits)
    have "t \<le> last (ruTouched s) + agAutoLockFor a0 + lag" if "ruClosing s = Idle" "agAutoLockFor a0 > 0"
    proof (cases "ruFired s")
      case None
      with inv(4)[OF None] memory_facts(7)[OF mem that(1)] s'(3) that show ?thesis by (simp add: prompt_def)
    next
      case (Some due)
      with s'(3) that(1) have "t \<le> due + lag" by (simp add: prompt_def)
      with idle_period_last[of "agAutoLockFor a0" "ruTouched s" due] inv(2) inv(5)[OF Some] show ?thesis by force
    qed
    with inv s' show ?thesis by (auto simp: timer_inv_def)
  qed
qed

text \<open>Running a list of moves, where each is possible.\<close>

fun agent_moves :: "crypto_env \<Rightarrow> duration \<Rightarrow> agent_move list \<Rightarrow> running \<Rightarrow> running option" where
  "agent_moves crypto lag [] s = Some s"
| "agent_moves crypto lag (m # ms) s =
     (case agent_step crypto lag m s of None \<Rightarrow> None | Some s' \<Rightarrow> agent_moves crypto lag ms s')"

lemma agent_moves_run:
  "agent_run crypto lag a0 begins ms s \<Longrightarrow> agent_moves crypto lag ns s = Some s' \<Longrightarrow>
   agent_run crypto lag a0 begins (ms @ ns) s'"
proof (induction ns arbitrary: ms s)
  case (Cons n ns)
  from Cons.prems(2) obtain t where t: "agent_step crypto lag n s = Some t" "agent_moves crypto lag ns t = Some s'"
    by (auto split: option.splits)
  from Cons.IH[OF agent_run.moves[OF Cons.prems(1) t(1)] t(2)] show ?case by simp
qed simp

lemmas agent_moves_start = agent_moves_run[OF agent_run.starts, simplified]

text \<open>Nothing can stop \<open>Close\<close> once it has begun.\<close>

lemma close_finishes:
  assumes "ruClosing s \<noteq> Idle"
  shows "\<exists>n \<le> 5. \<exists>s'. agent_moves crypto lag (replicate n (Closing GoOn)) s = Some s' \<and> ruClosing s' = Finished"
proof (cases "ruClosing s")
  case Finished
  then show ?thesis by (intro exI[of _ 0]) simp
next
  case (TokenCleared token)
  then show ?thesis by (intro exI[of _ 1]) simp
next
  case (KeyDropped token)
  then show ?thesis by (intro exI[of _ 2]) (simp add: numeral_eq_Suc)
next
  case (KeyCleared token)
  then show ?thesis by (intro exI[of _ 3]) (simp add: numeral_eq_Suc)
next
  case (Stopped token)
  then show ?thesis by (intro exI[of _ 4]) (simp add: numeral_eq_Suc)
next
  case (Begun token)
  then show ?thesis by (intro exI[of _ 5]) (simp add: numeral_eq_Suc)
qed (use assms in simp)

text \<open>A request of the owner that was accepted is answered, whatever has happened to the agent meanwhile.\<close>

lemma owner_answered:
  assumes "ruServing s = Accepted (Some (agOwnerUID (ruAgent s))) (Some r)"
  shows "\<exists>s' e. agent_moves crypto lag
      [Serving Handle, Serving TakeSlices, Serving (Answer (the_key (ruAgent s)) (the_token (ruAgent s)))] s = Some s' \<and>
    ruAnswers s' = ruAnswers s @ [e] \<and> anRequest e = r"
  using assms by (simp add: read_between_def list_all_iff touch_def the_key_def the_token_def)

section \<open>Closing while a request is served\<close>

text \<open>
  \<open>Close\<close> takes no lock that \<open>handle\<close> holds. A seal request that has taken the key slice
  reads the array after \<open>clearBytes\<close>: it still has the length of a key, so the item is sealed
  under the key of zeros and returned as if nothing happened.
\<close>

lemma sealed_under_cleared_key:
  assumes "unlocked a0" "length (agKey a0) = KeySize" "arAction r = ''seal-secure-note''" "arNote r = Some n"
  shows "\<exists>ms s e. agent_run crypto lag a0 begins ms s \<and> e \<in> set (ruAnswers s) \<and> anRequest e = r \<and>
    anResponse e = item_response (EncryptSecureNote crypto (replicate KeySize 0) (agAccountID a0) n (arRevision r))"
proof -
  let ?ms = "[Serving (Connect (Some (agOwnerUID a0)) (Some r)), Serving Handle, Serving TakeSlices, Watching Cancel,
    Closing (BeginClose ByCancel), Closing GoOn, Closing GoOn, Serving (Answer (replicate KeySize 0) (agToken a0))]"
  have zeros: "clearBytes (agKey a0) = replicate KeySize 0"
    using assms(2) by (simp add: clearBytes_def map_replicate_const)
  have read: "read_between (agKey a0) (replicate KeySize 0) (replicate KeySize 0)" "read_between b b b" for b
    using assms(2) by (simp_all add: read_between_def list_all_iff)
  obtain s e where "agent_moves crypto lag ?ms (started a0 begins) = Some s" "e \<in> set (ruAnswers s)" "anRequest e = r"
    "anResponse e = item_response (EncryptSecureNote crypto (replicate KeySize 0) (agAccountID a0) n (arRevision r))"
    using assms zeros read
    by (simp add: started_def unlocked_def touch_def the_key_def the_token_def close_defs respond_def)
  then show ?thesis using agent_moves_start by blast
qed

end
