(* ===== verification/AgentProps.thy ===== *)
theory AgentProps
  imports ToolProps SessionAgent
begin

text \<open>
  The property of the session agent, over every interleaving of its goroutines.
\<close>

text \<open>C31: A session is safe however the goroutines of its agent interleave, with \<open>lag\<close> the
  longest time between the instant the auto-lock timer is due and the moment \<open>Close\<close> begins.
  Only decodable requests of the owner's UID are answered. An answer given before \<open>Close\<close> began is
  computed with the session's key and token; one given later, with what \<open>Close\<close> left of them:
  nothing, or an array whose bytes are each the original or zero (so possibly the key of zeros).
  Until \<open>Close\<close> begins the key and the token are held and nothing was revoked, and with
  auto-lock on the time is at most one auto-lock period and \<open>lag\<close> after the last request of the
  owner (or the start): no request is served later than that in an open session. \<open>Close\<close>
  begins only after a logout of the owner, a cancellation, the sight of another process under the
  owner's PID, or an auto-lock period without a request of the owner. Once begun it can always
  finish, in five steps; then both slices are gone, the arrays hold only zeros, the socket is closed,
  and the token was handed to revocation exactly once (if there is one and revocation is
  configured).\<close>

theorem agent_session_safe:
  assumes "NewAgent env cfg = Inr a0" and "agent_run crypto lag a0 (aeNow env) ms s" and "0 \<le> lag"
  shows "(\<forall>e \<in> set (ruAnswers s).
      Serving (Connect (Some (acOwnerUID cfg)) (Some (anRequest e))) \<in> set ms \<and>
      anResponse e = respond crypto a0 (anKey e) (anToken e) (anRequest e) \<and>
      (if anClosing e then remnant (acVaultKey cfg) (anKey e) \<and> remnant (acAccessToken cfg) (anToken e)
       else anKey e = acVaultKey cfg \<and> anToken e = acAccessToken cfg)) \<and>
    (ruClosing s = Idle \<longrightarrow>
      the_key (ruAgent s) = acVaultKey cfg \<and> the_token (ruAgent s) = acAccessToken cfg \<and> agRevoked (ruAgent s) = [] \<and>
      (acAutoLock cfg > 0 \<longrightarrow> ruNow s \<le> last (ruTouched s) + acAutoLock cfg + lag)) \<and>
    (ruClosing s \<noteq> Idle \<longrightarrow>
      (\<exists>e \<in> set (ruAnswers s). arAction (anRequest e) = ''logout'') \<or> Watching Cancel \<in> set ms \<or>
      (acOwnerPID cfg > 0 \<and> (\<exists>stat. Watching (OwnerLooks stat) \<in> set ms \<and>
         processStartTime stat \<noteq> processStartTime (aeOwnerStat env))) \<or>
      (acAutoLock cfg > 0 \<and> (\<exists>due \<le> ruNow s. idle_period (acAutoLock cfg) (ruTouched s) due))) \<and>
    (ruClosing s \<noteq> Idle \<longrightarrow>
      (\<exists>n \<le> 5. \<exists>s'. agent_moves crypto lag (replicate n (Closing GoOn)) s = Some s' \<and> ruClosing s' = Finished)) \<and>
    (ruClosing s = Finished \<longrightarrow>
      the_key (ruAgent s) = [] \<and> the_token (ruAgent s) = [] \<and> set (agKey (ruAgent s)) \<subseteq> {0} \<and>
      set (agToken (ruAgent s)) \<subseteq> {0} \<and> \<not> agListening (ruAgent s) \<and>
      agRevoked (ruAgent s) = (if acRevokes cfg \<and> acAccessToken cfg \<noteq> [] then [acAccessToken cfg] else []))"
proof -
  from assms(1) have start: "agKey a0 = acVaultKey cfg" "agToken a0 = acAccessToken cfg" "agRevokes a0 = acRevokes cfg"
    "agOwnerUID a0 = acOwnerUID cfg" "agOwnerPID a0 = acOwnerPID cfg" "agAutoLockFor a0 = acAutoLock cfg"
    "agOwnerPID a0 > 0 \<Longrightarrow> processStartTime (aeOwnerStat env) = Some (agOwnerStart a0)"
    "agTimer a0 = (if agAutoLockFor a0 > 0 then Some (aeNow env + agAutoLockFor a0) else None)"
    by (auto simp: NewAgent_def Let_def split: if_splits)
  note free = NewAgent_unlocked[OF assms(1)]
  note mem = memory_facts[OF memory_run[OF assms(2) free] free]
  note hist = history_invD[OF history_run[OF assms(2) free]]
  note tinv = timer_invD[OF timer_run[OF assms(2) free assms(3) start(8)]]
  have "idle_period (acAutoLock cfg) (ruTouched s) due \<and> due \<le> ruNow s \<and> acAutoLock cfg > 0"
    if "ruFired s = Some due" for due using tinv(5)[OF that] start(6) by simp
  with hist(3-5) start(5,7) have causes: "ruClosing s \<noteq> Idle \<Longrightarrow>
      (\<exists>e \<in> set (ruAnswers s). arAction (anRequest e) = ''logout'') \<or> Watching Cancel \<in> set ms \<or>
      (acOwnerPID cfg > 0 \<and> (\<exists>stat. Watching (OwnerLooks stat) \<in> set ms \<and>
         processStartTime stat \<noteq> processStartTime (aeOwnerStat env))) \<or>
      (acAutoLock cfg > 0 \<and> (\<exists>due \<le> ruNow s. idle_period (acAutoLock cfg) (ruTouched s) due))"
    by (cases "ruFired s") auto
  have answers: "\<forall>e \<in> set (ruAnswers s).
      Serving (Connect (Some (acOwnerUID cfg)) (Some (anRequest e))) \<in> set ms \<and>
      anResponse e = respond crypto a0 (anKey e) (anToken e) (anRequest e) \<and>
      (if anClosing e then remnant (acVaultKey cfg) (anKey e) \<and> remnant (acAccessToken cfg) (anToken e)
       else anKey e = acVaultKey cfg \<and> anToken e = acAccessToken cfg)"
    using hist(1) unfolding answer_ok_def start(1,2,4) by blast
  show ?thesis
    using answers causes mem(7,8) tinv(6) close_finishes start(1-3,6) by simp
qed

definition demo_config :: agent_config where
  "demo_config = \<lparr>acSocketPath = ''s'', acOwnerUID = 7, acOwnerPID = 0, acAccountID = ''acc'', acEmail = ''e'',
     acVaultKey = replicate 32 5, acAccessToken = [1, 2], acAutoLock = 10, acRevokes = True\<rparr>"

definition demo_agent_env :: agent_env where
  "demo_agent_env = \<lparr>aeOwnerStat = None, aeListenFails = False, aeChmodFails = False, aeNow = 0, aeOwnPID = 99\<rparr>"

text \<open>
  A request at 5, a stranger's connection, the timer due at 15 and fired at 16, and a last request
  that has taken its slices when \<open>Close\<close> runs.
\<close>

definition demo_moves :: "agent_move list" where
  "demo_moves =
     [Tick 5, Serving (Connect (Some 7) (Some (action_request ''access-token''))), Serving Handle, Serving TakeSlices,
      Serving (Answer (replicate 32 5) [1, 2]),
      Serving (Connect (Some 8) (Some (action_request ''access-token''))), Serving Handle,
      Tick 16, Watching TimerFires,
      Serving (Connect (Some 7) (Some (action_request ''access-token''))), Serving Handle, Serving TakeSlices,
      Closing (BeginClose ByTimer), Closing GoOn, Closing GoOn, Closing GoOn, Closing GoOn,
      Serving (Answer (replicate 32 0) [1, 0]), Closing GoOn]"

theorem agent_session_safe_witness:
  "\<exists>a0 s. NewAgent demo_agent_env demo_config = Inr a0 \<and> agent_run demo_crypto 1 a0 0 demo_moves s \<and>
     map anToken (ruAnswers s) = [[1, 2], [1, 0]] \<and> map anClosing (ruAnswers s) = [False, True] \<and>
     agRevoked (ruAgent s) = [[1, 2]] \<and> the_key (ruAgent s) = []"
proof -
  obtain a0 where new: "NewAgent demo_agent_env demo_config = Inr a0"
    by (simp add: NewAgent_def demo_agent_env_def demo_config_def)
  then have a0: "agOwnerUID a0 = 7" "agAutoLockFor a0 = 10" "agOwnerPID a0 = 0" "agTimer a0 = Some 10" "agKeyHeld a0"
    "agTokenHeld a0" "agKey a0 = replicate 32 5" "agToken a0 = [1, 2]" "\<not> agClosed a0" "agListening a0"
    by (auto simp: NewAgent_def demo_agent_env_def demo_config_def)
  have same: "read_between b b b" for b by (simp add: read_between_def list_all_iff)
  have zeros: "read_between (replicate 32 5) (replicate 32 0) (replicate 32 0)"
    by (simp add: read_between_def list_all_iff)
  have partly: "read_between [1, 2] [0, 0] [1, 0]"
    by (simp add: read_between_def)
  obtain s where run: "agent_moves demo_crypto 1 demo_moves (started a0 0) = Some s"
    "map anToken (ruAnswers s) = [[1, 2], [1, 0]]" "map anClosing (ruAnswers s) = [False, True]" "ruClosing s = Finished"
    by (simp add: demo_moves_def started_def prompt_def touch_def a0 the_key_def the_token_def same zeros partly
        close_defs clearBytes_def action_request_def)
  have "agent_run demo_crypto 1 a0 (aeNow demo_agent_env) demo_moves s"
    using agent_moves_start[OF run(1)] by (simp add: demo_agent_env_def)
  from agent_session_safe[OF new this] this new run(2-4) show ?thesis
    by (auto simp: demo_config_def demo_agent_env_def)
qed

end
