(* ===== verification/SyncOrder.thy ===== *)
theory SyncOrder
  imports SyncProps
begin

text \<open>
  The order in which an account's revisions were accepted. The ledger is the history: it only grows,
  every revision has its row there with the cursor it was accepted at, parents come before
  children, the retained changes repeat ledger rows, and a Tombstone supersedes everything its item
  had before it. \<open>log_wf\<close> is that invariant; every transaction keeps it.
\<close>

section \<open>The history of an account up to a cursor\<close>

definition in_log :: "vault_db \<Rightarrow> string \<Rightarrow> uuid \<Rightarrow> uuid \<Rightarrow> nat \<Rightarrow> bool" where
  "in_log db acc i r c \<longleftrightarrow> (\<exists>g \<in> set (tLedger db). lgAccount g = acc \<and> lgItemID g = i \<and> lgRevisionID g = r \<and> lgCursor g \<le> c)"

definition superseded :: "vault_db \<Rightarrow> string \<Rightarrow> uuid \<Rightarrow> uuid \<Rightarrow> nat \<Rightarrow> bool" where
  "superseded db acc i r c \<longleftrightarrow>
     (\<exists>g \<in> set (tLedger db). lgAccount g = acc \<and> lgItemID g = i \<and> r \<in> set (lgParents g) \<and> lgCursor g \<le> c)"

text \<open>A ledger row is the one of a stored revision.\<close>

definition logged :: "revision_row \<Rightarrow> ledger_row \<Rightarrow> bool" where
  "logged x g \<longleftrightarrow> lgAccount g = rvAccount x \<and> lgItemID g = rvItemID x \<and> lgRevisionID g = rvRevisionID x \<and>
     lgParents g = rvParents x"

definition log_cursors :: "vault_db \<Rightarrow> bool" where
  "log_cursors db \<longleftrightarrow> (\<forall>g \<in> set (tLedger db). 0 < lgCursor g \<and> lgCursor g \<le> cursor_of db (lgAccount g)) \<and>
     distinct (map (\<lambda>g. (lgAccount g, lgCursor g)) (tLedger db)) \<and>
     distinct (map (\<lambda>g. (lgAccount g, lgRevisionID g)) (tLedger db))"

definition log_matches :: "vault_db \<Rightarrow> bool" where
  "log_matches db \<longleftrightarrow> (\<forall>x \<in> set (tRevisions db). \<exists>g \<in> set (tLedger db). logged x g) \<and>
     (\<forall>g \<in> set (tLedger db). \<exists>x \<in> set (tRevisions db). logged x g)"

definition log_parents :: "vault_db \<Rightarrow> bool" where
  "log_parents db \<longleftrightarrow> (\<forall>g \<in> set (tLedger db). \<forall>p \<in> set (lgParents g). \<exists>h \<in> set (tLedger db).
     lgAccount h = lgAccount g \<and> lgItemID h = lgItemID g \<and> lgRevisionID h = p \<and> lgCursor h < lgCursor g)"

definition change_matches :: "change_row \<Rightarrow> revision_row \<Rightarrow> ledger_row \<Rightarrow> bool" where
  "change_matches c x g \<longleftrightarrow> logged x g \<and> lgCursor g = chCursor c \<and> rvAccount x = chAccount c \<and>
     rvItemID x = chItemID c \<and> rvRevisionID x = chRevisionID c \<and> rvParents x = chParents c \<and>
     rvDeleted x = chDeleted c \<and> rvPurged x = chPurged c"

definition log_changes :: "vault_db \<Rightarrow> bool" where
  "log_changes db \<longleftrightarrow> (\<forall>c \<in> set (tChanges db). \<exists>x \<in> set (tRevisions db). \<exists>g \<in> set (tLedger db). change_matches c x g)"

definition log_purges :: "vault_db \<Rightarrow> bool" where
  "log_purges db \<longleftrightarrow> (\<forall>x \<in> set (tRevisions db). \<forall>g \<in> set (tLedger db). logged x g \<longrightarrow> rvPurged x \<longrightarrow>
     (\<forall>h \<in> set (tLedger db). lgAccount h = lgAccount g \<longrightarrow> lgItemID h = lgItemID g \<longrightarrow> lgCursor h < lgCursor g \<longrightarrow>
        superseded db (lgAccount g) (lgItemID g) (lgRevisionID h) (lgCursor g)))"

definition log_wf :: "vault_db \<Rightarrow> bool" where
  "log_wf db \<longleftrightarrow> log_cursors db \<and> log_matches db \<and> log_parents db \<and> log_changes db \<and> log_purges db"

section \<open>One accepted mutation\<close>

text \<open>What \<open>appended\<close> says of the ledger and the cursors.\<close>

lemma appended_log:
  assumes "appended db row mid base digest t db'"
  shows "tLedger db' = tLedger db @ [ledger_of row mid base digest (cursor_of db (rvAccount row) + 1) t]"
    and "set (tChanges db') \<subseteq> insert (change_of row (cursor_of db (rvAccount row) + 1) t) (set (tChanges db))"
  using assms by (auto simp: appended_def Let_def)

lemma ledger_of_sel [simp]:
  "lgAccount (ledger_of row mid base digest c t) = rvAccount row"
  "lgItemID (ledger_of row mid base digest c t) = rvItemID row"
  "lgRevisionID (ledger_of row mid base digest c t) = rvRevisionID row"
  "lgParents (ledger_of row mid base digest c t) = rvParents row"
  "lgCursor (ledger_of row mid base digest c t) = c"
  "lgMutationID (ledger_of row mid base digest c t) = mid"
  by (simp_all add: ledger_of_def)

lemma logged_scrub [simp]: "logged (scrub_row row x) g = logged x g"
  by (simp add: logged_def)

lemma logged_ledger_of [simp]: "logged row (ledger_of row mid base digest c t)"
  by (simp add: logged_def)

lemma superseded_snoc:
  assumes "tLedger db' = tLedger db @ [g]"
  shows "superseded db' acc i r c \<longleftrightarrow> superseded db acc i r c \<or>
    lgAccount g = acc \<and> lgItemID g = i \<and> r \<in> set (lgParents g) \<and> lgCursor g \<le> c"
  using assms by (auto simp: superseded_def)

lemma in_log_snoc:
  assumes "tLedger db' = tLedger db @ [g]"
  shows "in_log db' acc i r c \<longleftrightarrow> in_log db acc i r c \<or>
    lgAccount g = acc \<and> lgItemID g = i \<and> lgRevisionID g = r \<and> lgCursor g \<le> c"
  using assms by (auto simp: in_log_def)

lemma superseded_mono: "superseded db acc i r c \<Longrightarrow> c \<le> c' \<Longrightarrow> superseded db acc i r c'"
  by (auto simp: superseded_def)

lemma in_log_mono: "in_log db acc i r c \<Longrightarrow> c \<le> c' \<Longrightarrow> in_log db acc i r c'"
  by (auto simp: in_log_def)

lemma appended_cursors:
  assumes a: "appended db row mid base digest t db'" and f: "fresh_row db row"
    and l: "log_cursors db" "log_matches db"
  shows "log_cursors db'"
proof -
  let ?c = "cursor_of db (rvAccount row) + 1"
  note lg = appended_log(1)[OF a]
  have "(rvAccount row, ?c) \<notin> (\<lambda>g. (lgAccount g, lgCursor g)) ` set (tLedger db)"
    using l(1) by (fastforce simp: log_cursors_def)
  moreover have "(rvAccount row, rvRevisionID row) \<notin> (\<lambda>g. (lgAccount g, lgRevisionID g)) ` set (tLedger db)"
  proof
    assume "(rvAccount row, rvRevisionID row) \<in> (\<lambda>g. (lgAccount g, lgRevisionID g)) ` set (tLedger db)"
    then obtain g where g: "g \<in> set (tLedger db)" "lgAccount g = rvAccount row" "lgRevisionID g = rvRevisionID row" by auto
    with l(2) obtain x where "x \<in> set (tRevisions db)" "logged x g" by (auto simp: log_matches_def)
    with g f show False by (auto simp: fresh_row_def find_revision_None logged_def)
  qed
  ultimately show ?thesis
    using l(1) by (fastforce simp: log_cursors_def lg cursor_of_upd[OF a])
qed

lemma appended_matches:
  assumes a: "appended db row mid base digest t db'" and l: "log_matches db"
  shows "log_matches db'"
  unfolding log_matches_def
proof (intro conjI ballI)
  fix x assume "x \<in> set (tRevisions db')"
  then consider "x = row" | y where "y \<in> set (tRevisions db)" "x = scrub_row row y"
    unfolding appended_rows_iff[OF a] by blast
  then show "\<exists>g \<in> set (tLedger db'). logged x g"
    by cases (use l in \<open>auto simp: appended_log(1)[OF a] log_matches_def\<close>)
next
  fix g assume "g \<in> set (tLedger db')"
  then consider "g = ledger_of row mid base digest (cursor_of db (rvAccount row) + 1) t" | "g \<in> set (tLedger db)"
    unfolding appended_log(1)[OF a] by auto
  then show "\<exists>x \<in> set (tRevisions db'). logged x g"
  proof cases
    case 1 with appended_row[OF a] show ?thesis by (auto intro!: bexI[of _ row])
  next
    case 2
    with l obtain y where "y \<in> set (tRevisions db)" "logged y g" by (auto simp: log_matches_def)
    then show ?thesis unfolding Bex_def appended_rows_iff[OF a] by (intro exI[of _ "scrub_row row y"]) auto
  qed
qed

lemma appended_parents:
  assumes a: "appended db row mid base digest t db'" and f: "fresh_row db row"
    and l: "log_cursors db" "log_matches db" "log_parents db"
  shows "log_parents db'"
  unfolding log_parents_def
proof (intro ballI)
  fix g p assume g: "g \<in> set (tLedger db')" and p: "p \<in> set (lgParents g)"
  let ?n = "ledger_of row mid base digest (cursor_of db (rvAccount row) + 1) t"
  have "\<exists>h \<in> set (tLedger db). lgAccount h = lgAccount g \<and> lgItemID h = lgItemID g \<and> lgRevisionID h = p \<and>
      lgCursor h < lgCursor g"
  proof (cases "g \<in> set (tLedger db)")
    case True with p l(3) show ?thesis by (auto simp: log_parents_def)
  next
    case False
    with g have n: "g = ?n" by (auto simp: appended_log(1)[OF a])
    with p f obtain y where y: "y \<in> set (tRevisions db)" "rvAccount y = rvAccount row" "rvItemID y = rvItemID row"
      "rvRevisionID y = p" by (auto simp: fresh_row_def)
    from y(1) l(2) obtain h where h: "h \<in> set (tLedger db)" "logged y h" by (auto simp: log_matches_def)
    with l(1) y have "lgCursor h \<le> cursor_of db (rvAccount row)" by (auto simp: log_cursors_def logged_def)
    with h y n show ?thesis by (auto simp: logged_def)
  qed
  then show "\<exists>h \<in> set (tLedger db'). lgAccount h = lgAccount g \<and> lgItemID h = lgItemID g \<and> lgRevisionID h = p \<and>
      lgCursor h < lgCursor g" by (auto simp: appended_log(1)[OF a])
qed

lemma change_matches_scrub [simp]: "change_matches c (scrub_row row x) g = change_matches c x g"
  by (simp add: change_matches_def)

lemma change_matches_new: "change_matches (change_of row c t) row (ledger_of row mid base digest c t)"
  by (simp add: change_matches_def change_of_def)

lemma appended_changes:
  assumes a: "appended db row mid base digest t db'" and l: "log_changes db"
  shows "log_changes db'"
  unfolding log_changes_def
proof
  fix c assume "c \<in> set (tChanges db')"
  with appended_log(2)[OF a] consider
    "c = change_of row (cursor_of db (rvAccount row) + 1) t" | "c \<in> set (tChanges db)" by blast
  then show "\<exists>x \<in> set (tRevisions db'). \<exists>g \<in> set (tLedger db'). change_matches c x g"
  proof cases
    case 1
    with appended_row[OF a] show ?thesis
      by (intro bexI[of _ row] bexI[of _ "ledger_of row mid base digest (cursor_of db (rvAccount row) + 1) t"])
        (simp_all add: change_matches_new[simplified] appended_log(1)[OF a])
  next
    case 2
    with l obtain x g where x: "x \<in> set (tRevisions db)" "g \<in> set (tLedger db)" "change_matches c x g"
      by (auto simp: log_changes_def)
    then have "scrub_row row x \<in> set (tRevisions db')" "g \<in> set (tLedger db')"
      unfolding appended_rows_iff[OF a] appended_log(1)[OF a] by auto
    with x(3) show ?thesis by (intro bexI[of _ "scrub_row row x"] bexI[of _ g]) simp_all
  qed
qed

text \<open>A Tombstone is accepted only as a child of every head of its item.\<close>

definition covers :: "vault_db \<Rightarrow> revision_row \<Rightarrow> bool" where
  "covers db row \<longleftrightarrow> (rvPurged row \<longrightarrow>
     (\<forall>h. is_head db (rvAccount row) (rvItemID row) h \<longrightarrow> h \<in> set (rvParents row)))"

lemma appended_old_row:
  assumes a: "appended db row mid base digest t db'" and f: "fresh_row db row" and l: "log_matches db"
    and x: "x \<in> set (tRevisions db')" and g: "g \<in> set (tLedger db)" and xg: "logged x g"
  shows "\<exists>y \<in> set (tRevisions db). x = scrub_row row y"
proof -
  from g l obtain y where "y \<in> set (tRevisions db)" "logged y g" by (auto simp: log_matches_def)
  with f xg have "x \<noteq> row" by (auto simp: fresh_row_def find_revision_None logged_def)
  with x show ?thesis by (simp add: appended_rows_iff[OF a])
qed

lemma appended_new_row:
  assumes a: "appended db row mid base digest t db'" and f: "fresh_row db row"
    and x: "x \<in> set (tRevisions db')" and xg: "logged x (ledger_of row mid base digest c t)"
  shows "x = row"
  using x xg f by (auto simp: appended_rows_iff[OF a] fresh_row_def find_revision_None logged_def)

lemma before_superseded:
  assumes wf: "vault_wf db" and l: "log_cursors db" "log_matches db"
    and h: "h \<in> set (tLedger db)" and nh: "\<not> is_head db (lgAccount h) (lgItemID h) (lgRevisionID h)"
  shows "superseded db (lgAccount h) (lgItemID h) (lgRevisionID h) (cursor_of db (lgAccount h))"
proof -
  from h l(2) obtain y where y: "y \<in> set (tRevisions db)" "logged y h" by (auto simp: log_matches_def)
  then have "has_revision db (lgAccount h) (lgItemID h) (lgRevisionID h)" by (auto simp: has_revision_def logged_def)
  with nh vault_wfD(4)[OF wf] have "has_child db (lgAccount h) (lgItemID h) (lgRevisionID h)" by blast
  then obtain z where z: "z \<in> set (tRevisions db)" "rvAccount z = lgAccount h" "rvItemID z = lgItemID h"
    "lgRevisionID h \<in> set (rvParents z)" by (auto simp: has_child_def)
  from z(1) l(2) obtain k where k: "k \<in> set (tLedger db)" "logged z k" by (auto simp: log_matches_def)
  with l(1) have "lgCursor k \<le> cursor_of db (lgAccount k)" by (auto simp: log_cursors_def)
  with k z show ?thesis by (auto simp: superseded_def logged_def)
qed

lemma appended_purges:
  assumes wf: "vault_wf db" and a: "appended db row mid base digest t db'" and f: "fresh_row db row"
    and cov: "covers db row" and l: "log_cursors db" "log_matches db" "log_purges db"
  shows "log_purges db'"
  unfolding log_purges_def
proof (intro ballI impI)
  let ?n = "ledger_of row mid base digest (cursor_of db (rvAccount row) + 1) t"
  note lg = appended_log(1)[OF a]
  fix x g h
  assume x: "x \<in> set (tRevisions db')" and g: "g \<in> set (tLedger db')" and xg: "logged x g" and p: "rvPurged x"
    and h: "h \<in> set (tLedger db')" "lgAccount h = lgAccount g" "lgItemID h = lgItemID g" "lgCursor h < lgCursor g"
  show "superseded db' (lgAccount g) (lgItemID g) (lgRevisionID h) (lgCursor g)"
  proof (cases "g \<in> set (tLedger db)")
    case True
    then have le: "lgCursor g \<le> cursor_of db (lgAccount g)" using l(1) by (simp add: log_cursors_def)
    with h lg have h': "h \<in> set (tLedger db)" by auto
    from appended_old_row[OF a f l(2) x True xg] obtain y where y: "y \<in> set (tRevisions db)" "x = scrub_row row y" by blast
    with xg p have "logged y g" "rvPurged y" by simp_all
    with l(3) y(1) True h' h(2-4) have "superseded db (lgAccount g) (lgItemID g) (lgRevisionID h) (lgCursor g)"
      unfolding log_purges_def by blast
    then show ?thesis by (simp add: superseded_snoc[OF lg])
  next
    case False
    with g lg have n: "g = ?n" by auto
    with appended_new_row[OF a f x] xg have "x = row" by simp
    with p cov have c: "\<And>k. is_head db (rvAccount row) (rvItemID row) k \<Longrightarrow> k \<in> set (rvParents row)"
      by (simp add: covers_def)
    from h n lg have h': "h \<in> set (tLedger db)" "lgAccount h = rvAccount row" "lgItemID h = rvItemID row" by auto
    show ?thesis
    proof (cases "is_head db (lgAccount h) (lgItemID h) (lgRevisionID h)")
      case True
      with c h' n show ?thesis by (simp add: superseded_snoc[OF lg])
    next
      case hd: False
      from superseded_mono[OF before_superseded[OF wf l(1,2) h'(1) hd], of "lgCursor g"] h' n show ?thesis
        by (simp add: superseded_snoc[OF lg])
    qed
  qed
qed

lemma appended_log_wf:
  assumes "vault_wf db" "appended db row mid base digest t db'" "fresh_row db row" "covers db row" "log_wf db"
  shows "log_wf db'"
  using assms appended_cursors[OF assms(2,3)] appended_matches[OF assms(2)] appended_parents[OF assms(2,3)]
    appended_changes[OF assms(2)] appended_purges[OF assms(1,2,3,4)]
  by (simp add: log_wf_def)

section \<open>Growing histories\<close>

definition trashed :: "vault_db \<Rightarrow> string \<Rightarrow> uuid \<Rightarrow> uuid \<Rightarrow> bool" where
  "trashed db acc i r \<longleftrightarrow>
     (\<exists>x \<in> set (tRevisions db). rvAccount x = acc \<and> rvItemID x = i \<and> rvRevisionID x = r \<and> rvDeleted x)"

definition item_purged :: "vault_db \<Rightarrow> string \<Rightarrow> uuid \<Rightarrow> bool" where
  "item_purged db acc i \<longleftrightarrow> (\<exists>x \<in> set (tRevisions db). rvAccount x = acc \<and> rvItemID x = i \<and> rvPurged x)"

text \<open>A stored revision loses at most its ciphertext.\<close>

definition same_revision :: "revision_row \<Rightarrow> revision_row \<Rightarrow> bool" where
  "same_revision x y \<longleftrightarrow> rvAccount y = rvAccount x \<and> rvItemID y = rvItemID x \<and> rvRevisionID y = rvRevisionID x \<and>
     rvRevision y = rvRevision x \<and> rvParents y = rvParents x \<and> rvDeleted y = rvDeleted x \<and> rvPurged y = rvPurged x"

lemma same_revision_refl [simp]: "same_revision x x"
  by (simp add: same_revision_def)

lemma same_revision_trans: "same_revision x y \<Longrightarrow> same_revision y z \<Longrightarrow> same_revision x z"
  by (simp add: same_revision_def)

text \<open>A later state: more rows in the ledger, all of them above the cursors of the earlier one.\<close>

definition log_extends :: "vault_db \<Rightarrow> vault_db \<Rightarrow> bool" where
  "log_extends db db' \<longleftrightarrow>
     (\<exists>new. tLedger db' = tLedger db @ new \<and> (\<forall>g \<in> set new. cursor_of db (lgAccount g) < lgCursor g)) \<and>
     (\<forall>acc. cursor_of db acc \<le> cursor_of db' acc) \<and>
     (\<forall>x \<in> set (tRevisions db). \<exists>y \<in> set (tRevisions db'). same_revision x y)"

lemma log_extends_refl [simp]: "log_extends db db"
  by (auto simp: log_extends_def intro: same_revision_refl)

lemma log_extends_trans:
  assumes "log_extends a b" "log_extends b c" shows "log_extends a c"
proof -
  from assms obtain m n where m: "tLedger b = tLedger a @ m" "\<forall>g \<in> set m. cursor_of a (lgAccount g) < lgCursor g"
    and n: "tLedger c = tLedger b @ n" "\<forall>g \<in> set n. cursor_of b (lgAccount g) < lgCursor g"
    unfolding log_extends_def by blast
  have "\<forall>g \<in> set (m @ n). cursor_of a (lgAccount g) < lgCursor g"
    using m(2) n(2) assms(1) le_less_trans unfolding log_extends_def by fastforce
  with m(1) n(1) have "\<exists>new. tLedger c = tLedger a @ new \<and> (\<forall>g \<in> set new. cursor_of a (lgAccount g) < lgCursor g)"
    by (intro exI[of _ "m @ n"]) simp
  moreover have "cursor_of a acc \<le> cursor_of c acc" for acc
    using assms order_trans[of "cursor_of a acc" "cursor_of b acc"] by (simp add: log_extends_def)
  moreover have "\<exists>z \<in> set (tRevisions c). same_revision x z" if "x \<in> set (tRevisions a)" for x
    using assms that same_revision_trans unfolding log_extends_def by meson
  ultimately show ?thesis by (simp add: log_extends_def)
qed

lemma log_extends_ledger: "log_extends db db' \<Longrightarrow> ledger_extends db db'"
  by (auto simp: log_extends_def ledger_extends_def)

lemma log_extends_past:
  assumes "log_extends db db'" "c \<le> cursor_of db acc"
  shows "in_log db' acc i r c \<longleftrightarrow> in_log db acc i r c" "superseded db' acc i r c \<longleftrightarrow> superseded db acc i r c"
proof -
  from assms(1) obtain new where n: "tLedger db' = tLedger db @ new"
    "\<And>g. g \<in> set new \<Longrightarrow> cursor_of db (lgAccount g) < lgCursor g" unfolding log_extends_def by blast
  have no: "\<not> (lgAccount g = acc \<and> lgCursor g \<le> c)" if "g \<in> set new" for g
    using n(2)[OF that] assms(2) by auto
  show "in_log db' acc i r c \<longleftrightarrow> in_log db acc i r c"
    using no unfolding in_log_def n(1) by auto
  show "superseded db' acc i r c \<longleftrightarrow> superseded db acc i r c"
    using no unfolding superseded_def n(1) by auto
qed

lemma log_extends_revision:
  "log_extends db db' \<Longrightarrow> x \<in> set (tRevisions db) \<Longrightarrow> \<exists>y \<in> set (tRevisions db'). same_revision x y"
  by (auto simp: log_extends_def)

lemma log_extends_flags:
  assumes "log_extends db db'"
  shows "trashed db acc i r \<Longrightarrow> trashed db' acc i r" "item_purged db acc i \<Longrightarrow> item_purged db' acc i"
    "cursor_of db acc \<le> cursor_of db' acc"
proof -
  show "trashed db acc i r \<Longrightarrow> trashed db' acc i r"
    unfolding trashed_def using log_extends_revision[OF assms] by (fastforce simp: same_revision_def)
  show "item_purged db acc i \<Longrightarrow> item_purged db' acc i"
    unfolding item_purged_def using log_extends_revision[OF assms] by (fastforce simp: same_revision_def)
  show "cursor_of db acc \<le> cursor_of db' acc" using assms by (simp add: log_extends_def)
qed

lemma appended_extends:
  assumes a: "appended db row mid base digest t db'"
  shows "log_extends db db'"
proof -
  have "\<exists>y \<in> set (tRevisions db'). same_revision x y" if "x \<in> set (tRevisions db)" for x
    unfolding Bex_def appended_rows_iff[OF a]
    using that by (intro exI[of _ "scrub_row row x"]) (auto simp: same_revision_def)
  then show ?thesis
    using appended_log(1)[OF a] by (simp add: log_extends_def cursor_of_upd[OF a])
qed

section \<open>Transactions and runs\<close>

text \<open>\<open>log_step\<close> is what every step of a transaction promises.\<close>

definition log_step :: "vault_db \<Rightarrow> vault_db \<Rightarrow> bool" where
  "log_step db db' \<longleftrightarrow> vault_wf db' \<and> log_wf db' \<and> log_extends db db'"

lemma log_step_trans: "log_step a b \<Longrightarrow> log_step b c \<Longrightarrow> log_step a c"
  using log_extends_trans by (auto simp: log_step_def)

lemma accepted_covers:
  assumes wf: "vault_wf db" and v: "validMutation m"
    and anc: "ancestry_check pg db acc m = Inr ()" and ids: "uuidIn pg (oItemID (vmItem m)) = Some i"
      "uuids_in pg (oParents (vmItem m)) = Some ps"
    and row: "row = new_revision_row acc m i r ps t"
  shows "covers db row"
  unfolding covers_def
proof (intro impI allI)
  have sel: "rvAccount row = acc" "rvItemID row = i" "rvParents row = ps" "rvPurged row = oPurged (vmItem m)"
    by (simp_all add: row new_revision_row_def Let_def)
  fix h assume p: "rvPurged row" and h: "is_head db (rvAccount row) (rvItemID row) h"
  show "h \<in> set (rvParents row)"
  proof (cases "vmBaseRevision m = 0")
    case True
    from ancestry_ok(3)[OF anc wf v ids True] have "item_revisions_of db acc i = []" by simp
    then have "\<not> has_revision db acc i h"
      unfolding has_revision_def item_revisions_of_def by (auto simp: filter_empty_conv)
    with h sel vault_wfD(4)[OF wf] show ?thesis by simp
  next
    case False
    with anc have "parents_check pg db acc m = Inr ()" by (simp add: ancestry_check_def)
    from purge_covers_heads[OF this wf _ ids, of h] p h sel show ?thesis by simp
  qed
qed

lemma applyVaultMutation_log:
  assumes "applyVaultMutation pg db acc m t = Inr (b, db')" "vault_wf db" "pg_ok pg" "validMutation m" "log_wf db"
  shows "log_step db db'"
  using assms(1-4)
proof (cases rule: applyVaultMutation_cases)
  case (replay mid g)
  with assms show ?thesis by (simp add: log_step_def)
next
  case (accept mid i ps row)
  from accepted_covers[OF assms(2,4) accept(4,5,6,7)] have "covers db row" .
  from appended_log_wf[OF assms(2) accept(9,8) this assms(5)] appended_extends[OF accept(9)] accept(10)
  show ?thesis by (simp add: log_step_def)
qed

lemma purge_all_log:
  "purge_all pg acc t n rs db = Inr db' \<Longrightarrow> vault_wf db \<Longrightarrow> pg_ok pg \<Longrightarrow> \<forall>r \<in> set rs. row_ok r \<Longrightarrow> log_wf db \<Longrightarrow>
   log_step db db'"
proof (induction rs arbitrary: n db)
  case (Cons r rs)
  from Cons.prems(1) obtain b mid where s: "\<not> sint (rvRevision r) \<ge> sint maximumItemRevision"
    and a: "applyVaultMutation pg db acc (tombstone_mutation r (genUUID pg n)) t = Inr (b, mid)"
    and p: "purge_all pg acc t (Suc n) rs mid = Inr db'" by (rule purge_all_induct_step)
  have v: "validMutation (tombstone_mutation r (genUUID pg n))"
    using tombstone_valid[OF _ s] pg_okD(4)[OF Cons.prems(3)] Cons.prems(4) by simp
  from applyVaultMutation_log[OF a Cons.prems(2,3) v Cons.prems(5)] have l: "log_step db mid" .
  then have "vault_wf mid" "log_wf mid" by (simp_all add: log_step_def)
  from Cons.IH[OF p this(1) Cons.prems(3) _ this(2)] Cons.prems(4) l log_step_trans show ?case by simp
qed (simp add: log_step_def)

lemma apply_all_log:
  "apply_all pg acc t ms db = Inr (ids, db') \<Longrightarrow> vault_wf db \<Longrightarrow> pg_ok pg \<Longrightarrow> validMutations ms \<Longrightarrow> log_wf db \<Longrightarrow>
   log_step db db'"
proof (induction ms arbitrary: db ids)
  case (Cons m ms)
  then obtain b mid ids' where a: "applyVaultMutation pg db acc m t = Inr (b, mid)"
    and r: "apply_all pg acc t ms mid = Inr (ids', db')" by (auto simp: bind_e_Inr_iff)
  have v: "validMutation m" "validMutations ms" using Cons.prems(4) by (simp_all add: validMutations_def)
  from applyVaultMutation_log[OF a Cons.prems(2,3) v(1) Cons.prems(5)] have l: "log_step db mid" .
  then have "vault_wf mid" "log_wf mid" by (simp_all add: log_step_def)
  from Cons.IH[OF r this(1) Cons.prems(3) v(2) this(2)] l log_step_trans show ?case by blast
qed (simp add: log_step_def)

lemma same_log:
  assumes t: "tLedger db' = tLedger db" "tRevisions db' = tRevisions db" "tCursors db' = tCursors db"
    "set (tChanges db') \<subseteq> set (tChanges db)" and l: "log_wf db" and wf: "vault_wf db'"
  shows "log_step db db'"
proof -
  have c: "cursor_of db' = cursor_of db" by (simp add: cursor_of_def fun_eq_iff t(3))
  have sup: "superseded db' = superseded db" by (simp add: superseded_def fun_eq_iff t(1))
  have "log_cursors db' = log_cursors db" "log_matches db' = log_matches db" "log_parents db' = log_parents db"
      "log_purges db' = log_purges db"
    by (simp_all add: log_cursors_def log_matches_def log_parents_def log_purges_def c sup t(1,2))
  with l have 1: "log_cursors db'" "log_matches db'" "log_parents db'" "log_purges db'"
    by (simp_all add: log_wf_def)
  have "log_changes db'"
    using t(4) l unfolding log_wf_def log_changes_def t(1,2) by (meson subsetD)
  with 1 have "log_wf db'" by (simp add: log_wf_def)
  moreover have "\<exists>y \<in> set (tRevisions db'). same_revision x y" if "x \<in> set (tRevisions db)" for x
    using that by (intro bexI[of _ x]) (simp_all add: t(2))
  then have "log_extends db db'" by (simp add: log_extends_def t(1) c)
  ultimately show ?thesis using wf by (simp add: log_step_def)
qed

lemma prune_log:
  assumes "vault_wf db" "log_wf db" shows "log_step db (prune_changes db acc cutoff)"
proof (rule same_log[OF _ _ _ _ assms(2) prune_wf[OF assms(1)]])
qed (auto simp: prune_changes_def)

lemma Sync_log:
  assumes "Sync pg db acc cursor ms t = Inr (res, db')" "vault_wf db" "pg_ok pg" "validMutations ms" "log_wf db"
  shows "log_step db db'"
proof -
  from assms(1) obtain n d1 ids where
    p: "purgeExpiredVaultItems pg (prune_changes db acc (t - syncChangeRetention)) acc t = Inr d1" and
    a: "apply_all pg acc t ms d1 = Inr (ids, db')" by (rule Sync_parts)
  from prune_log[OF assms(2,5)] have s0: "log_step db (prune_changes db acc (t - syncChangeRetention))" .
  then have w: "vault_wf (prune_changes db acc (t - syncChangeRetention))" "log_wf (prune_changes db acc (t - syncChangeRetention))"
    by (simp_all add: log_step_def)
  have "log_step (prune_changes db acc (t - syncChangeRetention)) d1"
    by (rule purge_all_log[OF p[unfolded purgeExpiredVaultItems_def] w(1) assms(3) _ w(2)])
      (use expired_trash_iff[OF w(1)] vault_wfD(3)[OF w(1)] in blast)
  with s0 have s1: "log_step db d1" by (rule log_step_trans)
  then have "vault_wf d1" "log_wf d1" by (simp_all add: log_step_def)
  from apply_all_log[OF a this(1) assms(3,4) this(2)] s1 show ?thesis using log_step_trans by blast
qed

lemma vault_step_log: "vault_step base db db' \<Longrightarrow> vault_wf db \<Longrightarrow> log_wf db \<Longrightarrow> log_step db db'"
proof (induction rule: vault_step.induct)
  case (sync pg db acc cursor ms t res db')
  from Sync_log[OF sync(1,6,3,2,7)] show ?case .
next
  case (put pg db acc item db')
  from PutItem_frame[OF put(1)] obtain items where "db' = db\<lparr>tItems := items\<rparr>" ..
  with put same_log[of db' db] show ?case by simp
qed

lemma empty_vault_log: "log_wf empty_vault"
  by (simp add: empty_vault_def log_wf_def log_cursors_def log_matches_def log_parents_def log_changes_def log_purges_def)

section \<open>The newest revision of an item\<close>

lemma head_above:
  assumes wf: "vault_wf db" and x: "x \<in> set (tRevisions db)"
  shows "\<exists>h \<in> set (tRevisions db). rvAccount h = rvAccount x \<and> rvItemID h = rvItemID x \<and>
    is_head db (rvAccount x) (rvItemID x) (rvRevisionID h) \<and> unat (rvRevision x) \<le> unat (rvRevision h) \<and>
    (unat (rvRevision x) = unat (rvRevision h) \<longrightarrow> h = x)"
  using x
proof (induction "2 ^ 64 - unat (rvRevision x)" arbitrary: x rule: less_induct)
  case less
  show ?case
  proof (cases "has_child db (rvAccount x) (rvItemID x) (rvRevisionID x)")
    case False
    with less.prems vault_wfD(4)[OF wf] show ?thesis by (intro bexI[of _ x]) (auto simp: has_revision_def)
  next
    case True
    then obtain y where y: "y \<in> set (tRevisions db)" "rvAccount y = rvAccount x" "rvItemID y = rvItemID x"
      "rvRevisionID x \<in> set (rvParents y)" by (auto simp: has_child_def)
    from vault_wfD(5)[OF wf y(1,4)] obtain z where z: "z \<in> set (tRevisions db)" "rvAccount z = rvAccount y"
      "rvRevisionID z = rvRevisionID x" "unat (rvRevision z) < unat (rvRevision y)" by blast
    from row_unique[OF wf z(1) less.prems] z y have "z = x" by simp
    with z have lt: "unat (rvRevision x) < unat (rvRevision y)" by simp
    moreover have "unat (rvRevision y) < 2 ^ 64" using unsigned_less[of "rvRevision y"] by simp
    ultimately have "2 ^ 64 - unat (rvRevision y) < 2 ^ 64 - unat (rvRevision x)" by linarith
    from less.hyps[OF this y(1)] y lt show ?thesis by auto
  qed
qed

end
