(* ===== verification/ClientHttp.thy ===== *)
theory ClientHttp
  imports Http
begin

text \<open>
  How the client reaches an instance (\<open>internal/client/status.go\<close>): the rule that only
  loopback addresses are spoken to without TLS, the trust anchors, the classification of transport
  failures and the status query. The parsers of URLs and addresses, the file system and the
  certificate pool are Go's, the parameter \<open>net_client_env\<close>; a transport failure is what
  \<open>errors.As\<close> and \<open>errors.Is\<close> find in it.
\<close>

section \<open>Configuration\<close>

record client_config =
  cfServerURL :: string
  cfCACertFile :: string
  cfTimeout :: duration
  cfDataDir :: string
  cfPwnedPasswordsURL :: string

record url_parts =
  urlScheme :: string
  urlHostname :: string

record net_client_env =
  urlParse :: "string \<Rightarrow> url_parts option"
  addrIsLoopback :: "string \<Rightarrow> bool option"
  readCertFile :: "string \<Rightarrow> bytes option"
  appendCerts :: "bytes \<Rightarrow> bool"
  newRequest :: "string \<Rightarrow> bool"

datatype config_error =
  ErrParseURL | ErrInsecureScheme string string | ErrReadCACert | ErrNoPEM string | ErrBuildRequest

definition isLocalhost :: "net_client_env \<Rightarrow> string \<Rightarrow> bool" where
  "isLocalhost net host =
     (if host = ''localhost'' then True
      else case addrIsLoopback net host of Some loop \<Rightarrow> loop | None \<Rightarrow> False)"

definition validateServerURL :: "net_client_env \<Rightarrow> string \<Rightarrow> config_error option" where
  "validateServerURL net raw =
     (case urlParse net raw of
        None \<Rightarrow> Some ErrParseURL
      | Some u \<Rightarrow>
          if urlScheme u = ''https'' then None
          else if urlScheme u = ''http'' \<and> isLocalhost net (urlHostname u) then None
          else Some (ErrInsecureScheme (urlScheme u) (urlHostname u)))"

text \<open>The client's TLS settings: the extra trust anchor read from a file, if one is configured.\<close>

definition newHTTPClient :: "net_client_env \<Rightarrow> client_config \<Rightarrow> config_error + bytes option" where
  "newHTTPClient net cfg =
     (if cfCACertFile cfg \<noteq> [] then
        (case readCertFile net (cfCACertFile cfg) of
           None \<Rightarrow> Inl ErrReadCACert
         | Some pem \<Rightarrow> if \<not> appendCerts net pem then Inl (ErrNoPEM (cfCACertFile cfg)) else Inr (Some pem))
      else Inr None)"

definition defaultTimeout :: duration where "defaultTimeout = 10 * 1000000000"

definition requestTimeout :: "client_config \<Rightarrow> duration" where
  "requestTimeout cfg = (if cfTimeout cfg \<le> 0 then defaultTimeout else cfTimeout cfg)"

section \<open>Classification\<close>

datatype client_state =
  StateHealthy | StateClientOffline | StateServerUnavailable | StateTLSError | StateConnectionUnavailable

fun state_string :: "client_state \<Rightarrow> string" where
  "state_string StateHealthy = ''healthy''"
| "state_string StateClientOffline = ''client-offline''"
| "state_string StateServerUnavailable = ''server-unavailable''"
| "state_string StateTLSError = ''tls-error''"
| "state_string StateConnectionUnavailable = ''connection-unavailable''"

record client_status =
  ctState :: client_state
  ctVersion :: string
  ctSchemaVersion :: int
  ctDetail :: string

datatype errno = ENETUNREACH | EHOSTUNREACH | ENETDOWN | OtherErrno

record transport_error =
  teUnknownAuthority :: bool
  teHostname :: bool
  teCertInvalid :: bool
  teRecordHeader :: bool
  teDNS :: "string option"
  teOperation :: "(string \<times> errno set) option"
  teDeadline :: bool
  teText :: string

definition bare_status :: "client_state \<Rightarrow> string \<Rightarrow> client_status" where
  "bare_status st detail = \<lparr>ctState = st, ctVersion = [], ctSchemaVersion = 0, ctDetail = detail\<rparr>"

definition tls_error :: "transport_error \<Rightarrow> bool" where
  "tls_error err \<longleftrightarrow> teUnknownAuthority err \<or> teHostname err \<or> teCertInvalid err \<or> teRecordHeader err"

definition network_down :: "transport_error \<Rightarrow> bool" where
  "network_down err \<longleftrightarrow>
     (case teOperation err of
        None \<Rightarrow> False
      | Some (_, errnos) \<Rightarrow> ENETUNREACH \<in> errnos \<or> EHOSTUNREACH \<in> errnos \<or> ENETDOWN \<in> errnos)"

definition classifyError :: "transport_error \<Rightarrow> client_status" where
  "classifyError err =
     (if tls_error err
      then bare_status StateTLSError (''TLS validation failed '' @ [CHR 0xE2, CHR 0x80, CHR 0x94] @
             '' treat this as a security error, not as offline mode'')
      else case teDNS err of
        Some why \<Rightarrow> bare_status StateClientOffline (''name resolution failed: '' @ why)
      | None \<Rightarrow>
          if network_down err
          then bare_status StateClientOffline (''local network is unavailable: '' @
                 (case teOperation err of None \<Rightarrow> [] | Some (op, _) \<Rightarrow> op))
          else if teDeadline err then bare_status StateConnectionUnavailable ''connection timed out''
          else bare_status StateConnectionUnavailable (teText err))"

section \<open>Exchanges\<close>

text \<open>
  What a call of \<open>http.Client.Do\<close> gives, and the body as its decoder reads it
  (\<open>None\<close> where decoding fails).
\<close>

datatype 'b http_outcome = DoFailed transport_error | Response nat "'b option"

text \<open>
  The network between: the request may not arrive, the answer may not come back, or may be cut off
  inside its body. In the last two cases the server has served the request.
\<close>

datatype delivery = Delivered | RequestLost transport_error | AnswerLost transport_error | AnswerCut

definition reply_body :: "'b http_reply \<Rightarrow> 'b option" where
  "reply_body reply = (case reply of HttpReply _ b \<Rightarrow> b | _ \<Rightarrow> None)"

definition exchange :: "delivery \<Rightarrow> ('q \<Rightarrow> 's \<Rightarrow> 'b http_reply \<times> 's) \<Rightarrow> 'q \<Rightarrow> 's \<Rightarrow> 'b http_outcome \<times> 's" where
  "exchange del post q s =
     (case del of
        RequestLost e \<Rightarrow> (DoFailed e, s)
      | AnswerLost e \<Rightarrow> (DoFailed e, snd (post q s))
      | AnswerCut \<Rightarrow> (case post q s of (reply, s') \<Rightarrow> (Response (status_of reply) None, s'))
      | Delivered \<Rightarrow> (case post q s of (reply, s') \<Rightarrow> (Response (status_of reply) (reply_body reply), s')))"

lemma exchange_state: "snd (exchange del post q s) = s \<or> snd (exchange del post q s) = snd (post q s)"
  by (simp add: exchange_def split: delivery.splits prod.splits)

lemma exchange_answered:
  assumes "exchange del post q s = (Response 200 (Some b), s')"
  shows "post q s = (HttpReply 200 (Some b), s')"
  using assms by (auto simp: exchange_def status_of_def reply_body_def split: delivery.splits prod.splits http_reply.splits)

section \<open>The status query\<close>

record status_body =
  sbStatus :: string
  sbVersion :: string
  sbSchemaVersion :: int

definition CheckStatus ::
  "net_client_env \<Rightarrow> client_config \<Rightarrow> status_body http_outcome \<Rightarrow> config_error + client_status" where
  "CheckStatus net cfg outcome =
     (case validateServerURL net (cfServerURL cfg) of
        Some e \<Rightarrow> Inl e
      | None \<Rightarrow>
      case newHTTPClient net cfg of
        Inl e \<Rightarrow> Inl e
      | Inr _ \<Rightarrow>
      if \<not> newRequest net (cfServerURL cfg @ ''/api/v1/status'') then Inl ErrBuildRequest
      else case outcome of
        DoFailed e \<Rightarrow> Inr (classifyError e)
      | Response code body \<Rightarrow>
          if code \<noteq> 200
          then Inr (bare_status StateServerUnavailable (''instance answered HTTP '' @ dec code))
          else case body of
            None \<Rightarrow> Inr (bare_status StateServerUnavailable ''instance returned a malformed status body'')
          | Some b \<Rightarrow>
              if sbStatus b \<noteq> ''ok''
              then Inr (bare_status StateServerUnavailable ''instance returned a malformed status body'')
              else Inr \<lparr>ctState = StateHealthy, ctVersion = sbVersion b, ctSchemaVersion = sbSchemaVersion b,
                        ctDetail = []\<rparr>)"

text \<open>A TLS failure is never reported as being offline, and plaintext never leaves the machine.\<close>

lemma tls_error_reported: "tls_error e \<Longrightarrow> ctState (classifyError e) = StateTLSError"
  by (simp add: classifyError_def bare_status_def)

lemma only_tls_reported: "ctState (classifyError e) = StateTLSError \<Longrightarrow> tls_error e"
  by (auto simp: classifyError_def bare_status_def split: if_splits option.splits)

lemma plaintext_is_local:
  "validateServerURL net raw = None \<Longrightarrow> \<exists>u. urlParse net raw = Some u \<and>
     (urlScheme u = ''https'' \<or> urlScheme u = ''http'' \<and> isLocalhost net (urlHostname u))"
  by (auto simp: validateServerURL_def split: option.splits if_splits)

end
