(* ===== verification/SyncClient.thy ===== *)
theory SyncClient
  imports ClientHttp CacheSync Services
begin

text \<open>
  One synchronization of the client's cache with an instance (\<open>internal/client/sync.go\<close>):
  the snapshot of cursor and queue, the request, the answer, and its application to the cache. What
  the server does is the argument \<open>post\<close>; \<open>Services.sync\<close> is the instance. JSON
  carries an absent or empty envelope as \<open>null\<close>, because every queued mutation was cloned.
\<close>

section \<open>The wire\<close>

definition wire_item :: "encrypted_item \<Rightarrow> opaque_item" where
  "wire_item item =
     \<lparr>oItemID = itemID item, oSchemaVersion = schemaVersion item, oRevision = revision item,
      oRevisionID = revisionID item, oParents = parentRevisionIDs item, oDeleted = deleted item,
      oPurged = purged item, oEnvelope = (if envelope item = [] then None else Some (envelope item))\<rparr>"

definition wire_mutation :: "mutation \<Rightarrow> vault_mutation" where
  "wire_mutation m =
     \<lparr>vmMutationID = mutationID m, vmBaseRevision = baseRevision m, vmItem = wire_item (mutItem m)\<rparr>"

definition unwire_item :: "opaque_item \<Rightarrow> encrypted_item" where
  "unwire_item item =
     \<lparr>itemID = oItemID item, schemaVersion = oSchemaVersion item, revision = oRevision item,
      revisionID = oRevisionID item, parentRevisionIDs = oParents item, deleted = oDeleted item,
      purged = oPurged item, envelope = (case oEnvelope item of None \<Rightarrow> [] | Some b \<Rightarrow> b)\<rparr>"

definition unwire_result :: "vault_sync_result \<Rightarrow> sync_result" where
  "unwire_result r =
     \<lparr>srCursor = vsCursor r, srFullSnapshot = vsFullSnapshot r, srAppliedMutationIDs = vsApplied r,
      srChanges = map unwire_item (vsChanges r)\<rparr>"

lemma unwire_wire [simp]: "unwire_item (wire_item item) = item"
  by (simp add: unwire_item_def wire_item_def)

section \<open>The call\<close>

record sync_call =
  clNet :: net_client_env
  clConfig :: client_config
  clSnapshotIO :: io_env
  clApplyIO :: io_env
  clDelivery :: delivery
  clSourceIP :: string
  clRequestLength :: "sync_request \<Rightarrow> nat"
  clAnswerLength :: "vault_sync_result \<Rightarrow> nat"

datatype sync_failure =
  AccessTokenRequired | CacheRequired | ConfigFailed config_error | SnapshotFailed cache_error
| DoRequestFailed transport_error | ServerReturned nat | DecodeFailed | ApplyFailed cache_error

definition sync_url :: "client_config \<Rightarrow> string" where
  "sync_url cfg = TrimRight (cfServerURL cfg) (CHR ''/'') @ ''/api/v1/sync''"

definition sync_http_request :: "sync_call \<Rightarrow> string \<Rightarrow> sync_request \<Rightarrow> sync_request http_request" where
  "sync_http_request call token req =
     \<lparr>rqAuthorization = ''Bearer '' @ token, rqClientIP = clSourceIP call, rqPathID = [],
      rqQuery = (\<lambda>_. []),
      rqBody = \<lparr>bodyValue = Some req, bodyValueLength = clRequestLength call req, bodyRest = []\<rparr>\<rparr>"

text \<open>The decoder reads at most one byte more than the largest cache file.\<close>

definition decode_answer :: "sync_call \<Rightarrow> vault_sync_result option \<Rightarrow> vault_sync_result option" where
  "decode_answer call body =
     (case body of
        None \<Rightarrow> None
      | Some r \<Rightarrow> if clAnswerLength call r > maximumCacheFileSize + 1 then None else Some r)"

definition SyncCache ::
  "(sync_request http_request \<Rightarrow> 's \<Rightarrow> vault_sync_result http_reply \<times> 's) \<Rightarrow> sync_call \<Rightarrow> string \<Rightarrow> bool \<Rightarrow>
   disk \<Rightarrow> 's \<Rightarrow> disk \<times> 's \<times> (sync_failure + unit)" where
  "SyncCache post call accessToken nil d s =
     (if accessToken = [] then (d, s, Inl AccessTokenRequired)
      else if nil then (d, s, Inl CacheRequired)
      else case validateServerURL (clNet call) (cfServerURL (clConfig call)) of
        Some e \<Rightarrow> (d, s, Inl (ConfigFailed e))
      | None \<Rightarrow>
      case newHTTPClient (clNet call) (clConfig call) of
        Inl e \<Rightarrow> (d, s, Inl (ConfigFailed e))
      | Inr _ \<Rightarrow>
      case SyncSnapshot (clSnapshotIO call) d of
        Inl e \<Rightarrow> (d, s, Inl (SnapshotFailed e))
      | Inr snapshot \<Rightarrow>
      if \<not> newRequest (clNet call) (sync_url (clConfig call)) then (d, s, Inl (ConfigFailed ErrBuildRequest))
      else case exchange (clDelivery call) post
             (sync_http_request call accessToken
               \<lparr>syCursor = snapCursor snapshot, syMutations = map wire_mutation (snapMutations snapshot)\<rparr>) s of
        (DoFailed e, s) \<Rightarrow> (d, s, Inl (DoRequestFailed e))
      | (Response code body, s) \<Rightarrow>
          if code \<noteq> 200 then (d, s, Inl (ServerReturned code))
          else case decode_answer call body of
            None \<Rightarrow> (d, s, Inl DecodeFailed)
          | Some r \<Rightarrow>
              (case ApplySyncResult (clApplyIO call) d (unwire_result r) of
                 (d, Inl e) \<Rightarrow> (d, s, Inl (ApplyFailed e))
               | (d, Inr _) \<Rightarrow> (d, s, Inr ())))"

lemma decode_answer_Some: "decode_answer call body = Some r \<Longrightarrow> body = Some r"
  by (auto simp: decode_answer_def split: option.splits if_splits)

text \<open>
  Either the server was not asked or its answer was not used, and the cache is untouched; or it
  answered 200 and the answer was applied.
\<close>

lemma SyncCache_cases:
  assumes "SyncCache post call token nil d s = (d', s', res)"
  obtains (untouched) "d' = d" "s' = s \<or> (\<exists>q. s' = snd (post q s))" "\<not> (\<exists>u. res = Inr u)"
  | (applied) data r ares where
      "readCacheFile (clSnapshotIO call) d = Inr data"
      "post (sync_http_request call token \<lparr>syCursor = cCursor data, syMutations = map wire_mutation (cMutations data)\<rparr>) s =
         (HttpReply 200 (Some r), s')"
      "ApplySyncResult (clApplyIO call) d (unwire_result r) = (d', ares)"
      "res = Inr () \<longleftrightarrow> ares = Inr ()"
proof -
  let ?u = "d' = d \<and> (s' = s \<or> (\<exists>q. s' = snd (post q s))) \<and> \<not> (\<exists>u. res = Inr u)"
  consider (early) "token = [] \<or> nil \<or> validateServerURL (clNet call) (cfServerURL (clConfig call)) \<noteq> None \<or>
      (\<exists>e. newHTTPClient (clNet call) (clConfig call) = Inl e)"
    | (late) c where "token \<noteq> []" "\<not> nil" "validateServerURL (clNet call) (cfServerURL (clConfig call)) = None"
      "newHTTPClient (clNet call) (clConfig call) = Inr c"
    by (cases "newHTTPClient (clNet call) (clConfig call)") auto
  then show thesis
  proof cases
    case early
    with assms have ?u by (auto simp: SyncCache_def split: option.splits if_splits)
    with untouched show thesis by blast
  next
    case late
    note start = assms[unfolded SyncCache_def, simplified late, simplified]
    show thesis
    proof (cases "SyncSnapshot (clSnapshotIO call) d")
      case (Inl e)
      with start have ?u by auto
      with untouched show thesis by blast
    next
      case (Inr snap)
      then obtain data where rd: "readCacheFile (clSnapshotIO call) d = Inr data"
        and snap: "snap = \<lparr>snapCursor = cCursor data, snapMutations = cMutations data\<rparr>"
        by (auto simp: SyncSnapshot_def locked_read_def map_idI split: if_splits sum.splits)
      let ?q = "sync_http_request call token \<lparr>syCursor = cCursor data, syMutations = map wire_mutation (cMutations data)\<rparr>"
      obtain ex s1 where ex: "exchange (clDelivery call) post ?q s = (ex, s1)" by fastforce
      have s1: "s1 = s \<or> s1 = snd (post ?q s)" using exchange_state[of "clDelivery call" post ?q s] ex by simp
      show thesis
      proof (cases "newRequest (clNet call) (sync_url (clConfig call)) \<and>
          (\<exists>r. ex = Response 200 (Some r) \<and> decode_answer call (Some r) = Some r)")
        case False
        with start Inr snap ex have "d' = d \<and> (s' = s1 \<or> s' = s) \<and> \<not> (\<exists>u. res = Inr u)"
          by (auto split: if_splits http_outcome.splits option.splits dest: decode_answer_Some)
        with s1 untouched show thesis by blast
      next
        case True
        then obtain r where r: "ex = Response 200 (Some r)" "decode_answer call (Some r) = Some r"
          "newRequest (clNet call) (sync_url (clConfig call))" by blast
        obtain d1 ares where ap: "ApplySyncResult (clApplyIO call) d (unwire_result r) = (d1, ares)" by fastforce
        from start Inr snap ex r ap have fin: "d' = d1" "s' = s1" "res = Inr () \<longleftrightarrow> ares = Inr ()"
          by (auto split: sum.splits)
        from exchange_answered[OF ex[unfolded r(1)]] applied[OF rd _ _ fin(3)] ap fin show thesis by blast
      qed
    qed
  qed
qed

end
