(* ===== verification/SyncFollow.thy ===== *)
theory SyncFollow
  imports SyncOrder SyncClient CacheProps ServerRuns
begin

text \<open>
  How a client's graph keeps pace with the server's history. \<open>in_pace\<close> relates a graph, the keys of
  the queue and a cursor to the ledger: everything known is queued or was accepted; what was accepted
  up to the cursor has the server's parents; the heads the server had at the cursor are known, but for
  trash dropped beside a Tombstone; and what was superseded by then is shown as superseded. Every
  change applied in order, and every full snapshot, keeps it.
\<close>

section \<open>The relation\<close>

abbreviation known :: "item_revisions \<Rightarrow> string \<Rightarrow> uuid \<Rightarrow> bool" where
  "known g i r \<equiv> fmlookup (revisionsAt g i) r \<noteq> None"

text \<open>The client purged the item itself and has not yet reached the Tombstone in the history.\<close>

definition pending_purge :: "vault_db \<Rightarrow> string \<Rightarrow> nat \<Rightarrow> (string \<times> uuid) set \<Rightarrow> item_revisions \<Rightarrow> string \<Rightarrow> bool" where
  "pending_purge db acc c q g i \<longleftrightarrow> (\<exists>t x. fmlookup (revisionsAt g i) t = Some x \<and> purged x \<and>
     ((i, t) \<in> q \<or> in_log db acc i t (cursor_of db acc) \<and> \<not> in_log db acc i t c))"

definition in_pace :: "vault_db \<Rightarrow> string \<Rightarrow> nat \<Rightarrow> (string \<times> uuid) set \<Rightarrow> item_revisions \<Rightarrow> bool" where
  "in_pace db acc c q g \<longleftrightarrow> c \<le> cursor_of db acc \<and>
     (\<forall>i r. (i, r) \<in> q \<longrightarrow> \<not> in_log db acc i r c) \<and>
     (\<forall>i r. known g i r \<longrightarrow> (i, r) \<in> q \<or> in_log db acc i r (cursor_of db acc)) \<and>
     (\<forall>x l. l \<in> set (tLedger db) \<longrightarrow> lgAccount l = acc \<longrightarrow> lgCursor l \<le> c \<longrightarrow>
        fmlookup (revisionsAt g (lgItemID l)) (lgRevisionID l) = Some x \<longrightarrow>
        set (parentRevisionIDs x) = set (lgParents l)) \<and>
     (\<forall>i r. in_log db acc i r c \<longrightarrow> \<not> superseded db acc i r c \<longrightarrow>
        known g i r \<or> trashed db acc i r \<and> item_purged db acc i \<or> pending_purge db acc c q g i) \<and>
     (\<forall>i r. known g i r \<longrightarrow> superseded db acc i r c \<longrightarrow> referenced (revisionsAt g i) r)"

lemma in_paceD:
  assumes "in_pace db acc c q g"
  shows "c \<le> cursor_of db acc"
    "\<And>i r. (i, r) \<in> q \<Longrightarrow> \<not> in_log db acc i r c"
    "\<And>i r. known g i r \<Longrightarrow> (i, r) \<in> q \<or> in_log db acc i r (cursor_of db acc)"
    "\<And>x l. l \<in> set (tLedger db) \<Longrightarrow> lgAccount l = acc \<Longrightarrow> lgCursor l \<le> c \<Longrightarrow>
        fmlookup (revisionsAt g (lgItemID l)) (lgRevisionID l) = Some x \<Longrightarrow>
        set (parentRevisionIDs x) = set (lgParents l)"
    "\<And>i r. in_log db acc i r c \<Longrightarrow> \<not> superseded db acc i r c \<Longrightarrow>
        known g i r \<or> trashed db acc i r \<and> item_purged db acc i \<or> pending_purge db acc c q g i"
    "\<And>i r. known g i r \<Longrightarrow> superseded db acc i r c \<Longrightarrow> referenced (revisionsAt g i) r"
  using assms unfolding in_pace_def by blast+

lemma in_paceI:
  assumes "c \<le> cursor_of db acc"
    "\<And>i r. (i, r) \<in> q \<Longrightarrow> \<not> in_log db acc i r c"
    "\<And>i r. known g i r \<Longrightarrow> (i, r) \<in> q \<or> in_log db acc i r (cursor_of db acc)"
    "\<And>x l. l \<in> set (tLedger db) \<Longrightarrow> lgAccount l = acc \<Longrightarrow> lgCursor l \<le> c \<Longrightarrow>
        fmlookup (revisionsAt g (lgItemID l)) (lgRevisionID l) = Some x \<Longrightarrow>
        set (parentRevisionIDs x) = set (lgParents l)"
    "\<And>i r. in_log db acc i r c \<Longrightarrow> \<not> superseded db acc i r c \<Longrightarrow>
        known g i r \<or> trashed db acc i r \<and> item_purged db acc i \<or> pending_purge db acc c q g i"
    "\<And>i r. known g i r \<Longrightarrow> superseded db acc i r c \<Longrightarrow> referenced (revisionsAt g i) r"
  shows "in_pace db acc c q g"
  unfolding in_pace_def using assms by blast

section \<open>Facts of the ledger\<close>

lemma log_wfD:
  assumes "log_wf db"
  shows "\<And>g. g \<in> set (tLedger db) \<Longrightarrow> 0 < lgCursor g \<and> lgCursor g \<le> cursor_of db (lgAccount g)"
    "\<And>x. x \<in> set (tRevisions db) \<Longrightarrow> \<exists>g \<in> set (tLedger db). logged x g"
    "\<And>g. g \<in> set (tLedger db) \<Longrightarrow> \<exists>x \<in> set (tRevisions db). logged x g"
    "\<And>g p. g \<in> set (tLedger db) \<Longrightarrow> p \<in> set (lgParents g) \<Longrightarrow> \<exists>h \<in> set (tLedger db).
       lgAccount h = lgAccount g \<and> lgItemID h = lgItemID g \<and> lgRevisionID h = p \<and> lgCursor h < lgCursor g"
    "\<And>c. c \<in> set (tChanges db) \<Longrightarrow> \<exists>x \<in> set (tRevisions db). \<exists>g \<in> set (tLedger db). change_matches c x g"
  using assms by (auto simp: log_wf_def log_cursors_def log_matches_def log_parents_def log_changes_def)

lemma log_unique:
  assumes "log_wf db" "g \<in> set (tLedger db)" "h \<in> set (tLedger db)" "lgAccount g = lgAccount h"
    "lgRevisionID g = lgRevisionID h \<or> lgCursor g = lgCursor h"
  shows "g = h"
proof -
  from assms(1) have "inj_on (\<lambda>g. (lgAccount g, lgCursor g)) (set (tLedger db))"
    "inj_on (\<lambda>g. (lgAccount g, lgRevisionID g)) (set (tLedger db))"
    by (simp_all add: log_wf_def log_cursors_def distinct_map)
  with assms(2-5) show ?thesis by (auto dest: inj_onD)
qed

lemma superseded_logged:
  assumes "log_wf db" "superseded db acc i r c"
  obtains h where "h \<in> set (tLedger db)" "lgAccount h = acc" "lgItemID h = i" "lgRevisionID h = r" "lgCursor h < c"
proof -
  from assms(2) obtain g where g: "g \<in> set (tLedger db)" "lgAccount g = acc" "lgItemID g = i" "r \<in> set (lgParents g)"
    "lgCursor g \<le> c" by (auto simp: superseded_def)
  from log_wfD(4)[OF assms(1) g(1,4)] g that show thesis by auto
qed

lemma superseded_in_log: "log_wf db \<Longrightarrow> superseded db acc i r c \<Longrightarrow> in_log db acc i r c"
  by (erule superseded_logged) (auto simp: in_log_def)

lemma in_log_Suc:
  assumes "log_wf db" "l \<in> set (tLedger db)" "lgCursor l = Suc c"
  shows "in_log db (lgAccount l) i r (Suc c) \<longleftrightarrow>
    in_log db (lgAccount l) i r c \<or> i = lgItemID l \<and> r = lgRevisionID l"
proof -
  have "g = l \<or> lgCursor g \<le> c" if "g \<in> set (tLedger db)" "lgAccount g = lgAccount l" "lgCursor g \<le> Suc c" for g
    using log_unique[OF assms(1) that(1) assms(2) that(2)] that(3) assms(3) by (auto simp: le_Suc_eq)
  then show ?thesis using assms(2,3) by (auto simp: in_log_def)
qed

lemma superseded_Suc:
  assumes "log_wf db" "l \<in> set (tLedger db)" "lgCursor l = Suc c"
  shows "superseded db (lgAccount l) i r (Suc c) \<longleftrightarrow>
    superseded db (lgAccount l) i r c \<or> i = lgItemID l \<and> r \<in> set (lgParents l)"
proof -
  have "g = l \<or> lgCursor g \<le> c" if "g \<in> set (tLedger db)" "lgAccount g = lgAccount l" "lgCursor g \<le> Suc c" for g
    using log_unique[OF assms(1) that(1) assms(2) that(2)] that(3) assms(3) by (auto simp: le_Suc_eq)
  then show ?thesis using assms(2,3) by (auto simp: superseded_def)
qed

lemma newest_not_superseded:
  assumes "log_wf db" "l \<in> set (tLedger db)" "lgCursor l = Suc c"
  shows "\<not> superseded db (lgAccount l) i (lgRevisionID l) (Suc c)"
proof
  assume "superseded db (lgAccount l) i (lgRevisionID l) (Suc c)"
  from superseded_logged[OF assms(1) this] obtain h where
    "h \<in> set (tLedger db)" "lgAccount h = lgAccount l" "lgRevisionID h = lgRevisionID l" "lgCursor h < Suc c" by metis
  with log_unique[OF assms(1) this(1) assms(2)] assms(3) show False by auto
qed

section \<open>Keeping up\<close>

lemma nothing_at_start: "log_wf db \<Longrightarrow> \<not> in_log db acc i r 0"
  using log_wfD(1)[of db] by (fastforce simp: in_log_def)

lemma in_pace_start: "log_wf db \<Longrightarrow> in_pace db acc 0 {} fmempty"
  using log_wfD(1)[of db] by (intro in_paceI) (auto simp: nothing_at_start)

lemma in_log_grows:
  assumes "log_extends db db'" "in_log db acc i r (cursor_of db acc)"
  shows "in_log db' acc i r (cursor_of db' acc)"
proof (rule in_log_mono)
  show "in_log db' acc i r (cursor_of db acc)"
    using assms(2) unfolding log_extends_past(1)[OF assms(1) order_refl] .
  show "cursor_of db acc \<le> cursor_of db' acc" by (rule log_extends_flags(3)[OF assms(1)])
qed

lemma in_pace_extends:
  assumes e: "log_extends db db'" and f: "in_pace db acc c q g"
  shows "in_pace db' acc c q g"
proof (rule in_paceI)
  note c = in_paceD(1)[OF f]
  note past = log_extends_past[OF e c]
  show "c \<le> cursor_of db' acc" using c log_extends_flags(3)[OF e, of acc] by simp
  show "\<not> in_log db' acc i r c" if "(i, r) \<in> q" for i r
    using in_paceD(2)[OF f that] by (simp add: past)
  show "(i, r) \<in> q \<or> in_log db' acc i r (cursor_of db' acc)" if "known g i r" for i r
    using in_paceD(3)[OF f that] in_log_grows[OF e] by blast
  show "set (parentRevisionIDs x) = set (lgParents l)"
    if l: "l \<in> set (tLedger db')" "lgAccount l = acc" "lgCursor l \<le> c"
      "fmlookup (revisionsAt g (lgItemID l)) (lgRevisionID l) = Some x" for x l
  proof -
    from e obtain new where n: "tLedger db' = tLedger db @ new" "\<forall>g \<in> set new. cursor_of db (lgAccount g) < lgCursor g"
      unfolding log_extends_def by blast
    with l c have "l \<in> set (tLedger db)" by auto
    from in_paceD(4)[OF f this l(2-4)] show ?thesis .
  qed
  show "known g i r \<or> trashed db' acc i r \<and> item_purged db' acc i \<or> pending_purge db' acc c q g i"
    if "in_log db' acc i r c" "\<not> superseded db' acc i r c" for i r
  proof -
    have "pending_purge db' acc c q g i" if "pending_purge db acc c q g i"
      using that in_log_grows[OF e] unfolding pending_purge_def past by blast
    with in_paceD(5)[OF f, of i r] that log_extends_flags(1,2)[OF e] show ?thesis unfolding past by blast
  qed
  show "referenced (revisionsAt g i) r" if "known g i r" "superseded db' acc i r c" for i r
    using in_paceD(6)[OF f that(1)] that(2) by (simp add: past)
qed

text \<open>The queue was accepted: its keys are in the history now, above the cursor.\<close>

lemma in_pace_drained:
  assumes f: "in_pace db acc c q g" and a: "\<And>i r. (i, r) \<in> q \<Longrightarrow> in_log db acc i r (cursor_of db acc)"
  shows "in_pace db acc c {} g"
proof -
  have "pending_purge db acc c {} g i" if "pending_purge db acc c q g i" for i
    using that a in_paceD(2)[OF f] unfolding pending_purge_def by blast
  note pp = this
  show ?thesis
  proof (rule in_paceI)
    show "known g i r \<or> trashed db acc i r \<and> item_purged db acc i \<or> pending_purge db acc c {} g i"
      if "in_log db acc i r c" "\<not> superseded db acc i r c" for i r
      using in_paceD(5)[OF f that] pp by blast
    show "(i, r) \<in> {} \<or> in_log db acc i r (cursor_of db acc)" if "known g i r" for i r
      using in_paceD(3)[OF f that] a by blast
  qed (use in_paceD(1,4,6)[OF f] in auto)
qed

section \<open>Changes in order\<close>

abbreviation as_change :: "change_row \<Rightarrow> encrypted_item" where
  "as_change ch \<equiv> unwire_item (change_item ch)"

lemma as_change_sel [simp]:
  "itemID (as_change ch) = chItemID ch" "revisionID (as_change ch) = chRevisionID ch"
  "parentRevisionIDs (as_change ch) = chParents ch" "purged (as_change ch) = chPurged ch"
  "deleted (as_change ch) = chDeleted ch"
  by (simp_all add: unwire_item_def change_item_def)

lemma change_logged:
  assumes "log_wf db" "ch \<in> set (tChanges db)"
  obtains x l where "x \<in> set (tRevisions db)" "l \<in> set (tLedger db)" "logged x l" "lgAccount l = chAccount ch"
    "lgItemID l = chItemID ch" "lgRevisionID l = chRevisionID ch" "lgParents l = chParents ch" "lgCursor l = chCursor ch"
    "rvDeleted x = chDeleted ch" "rvPurged x = chPurged ch"
  using log_wfD(5)[OF assms] by (auto simp: change_matches_def logged_def)

lemma sameEncryptedItem_sel:
  "sameEncryptedItem x y \<Longrightarrow> set (parentRevisionIDs x) = set (parentRevisionIDs y) \<and> purged x = purged y"
  by (cases x; cases y) (auto simp: sameEncryptedItem_iff dest: mset_eq_setD)

text \<open>
  What applying the change leaves of the graph: the change itself, or an equal revision, under its
  key; beside it everything, or after a Tombstone the live heads.
\<close>

lemma apply_change_graph:
  assumes a: "apply_change data c = Some data'" and wf: "cache_wf data" and q: "cMutations data = []"
  shows "j \<noteq> itemID c \<Longrightarrow> revs_of data' j = revs_of data j"
    and "\<exists>x. fmlookup (revs_of data' (itemID c)) (revisionID c) = Some x \<and>
      set (parentRevisionIDs x) = set (parentRevisionIDs c) \<and> purged x = purged c"
    and "r \<noteq> revisionID c \<Longrightarrow> fmlookup (revs_of data' (itemID c)) r =
      (if purged c \<and> \<not> (\<exists>h. fmlookup (revs_of data (itemID c)) r = Some h \<and>
           \<not> referenced (revs_of data (itemID c)) r \<and> \<not> deleted h)
       then None else fmlookup (revs_of data (itemID c)) r)"
proof -
  let ?revs = "revs_of data (itemID c)" and ?revs' = "revs_of data' (itemID c)"
  note res = apply_change_result(1)[OF a, simplified q, simplified]
  note same = apply_change_result(2)[OF a, simplified]
  have k: "keyed ?revs" by (rule valid_graph_keyed[OF cache_wfD(1)[OF wf]])
  have heads: "h \<in> set (revisionHeads ?revs) \<and> revisionID h = s \<longleftrightarrow> fmlookup ?revs s = Some h \<and> \<not> referenced ?revs s" for h s
    using k unfolding revisionHeads_iff keyed_def by auto
  show "j \<noteq> itemID c \<Longrightarrow> revs_of data' j = revs_of data j" by (simp add: res)
  show "\<exists>x. fmlookup ?revs' (revisionID c) = Some x \<and> set (parentRevisionIDs x) = set (parentRevisionIDs c) \<and> purged x = purged c"
  proof (cases "purged c")
    case False
    then show ?thesis by (simp add: res)
  next
    case True
    then have p: "?revs' = preserve_on_purge c ?revs []" by (simp add: res)
    have "fmlookup ?revs' (revisionID c) \<noteq> None" unfolding p preserve_on_purge_dom by simp
    then obtain x where x: "fmlookup ?revs' (revisionID c) = Some x" by blast
    from preserve_on_purge_origin[OF x[unfolded p]]
    have "x = c \<or> fmlookup ?revs (revisionID c) = Some x"
      using heads[of x "revisionID c"] by auto
    with same sameEncryptedItem_sel[of x "c"] x show ?thesis by auto
  qed
  assume r: "r \<noteq> revisionID c"
  show "fmlookup ?revs' r = (if purged c \<and> \<not> (\<exists>h. fmlookup ?revs r = Some h \<and> \<not> referenced ?revs r \<and> \<not> deleted h)
       then None else fmlookup ?revs r)"
  proof (cases "purged c")
    case False
    with r show ?thesis by (simp add: res)
  next
    case True
    then have p: "?revs' = preserve_on_purge c ?revs []" by (simp add: res)
    have dom: "fmlookup ?revs' r \<noteq> None \<longleftrightarrow> (\<exists>h. fmlookup ?revs r = Some h \<and> \<not> referenced ?revs r \<and> \<not> deleted h)"
      unfolding p preserve_on_purge_dom using r heads by auto
    have orig: "fmlookup ?revs r = Some x" if "fmlookup ?revs' r = Some x" for x
      using preserve_on_purge_origin[OF that[unfolded p]] r heads[of x r] by auto
    show ?thesis
    proof (cases "fmlookup ?revs' r")
      case None
      with dom True show ?thesis by auto
    next
      case (Some x)
      with orig dom True show ?thesis by auto
    qed
  qed
qed

lemma apply_change_existing:
  assumes "apply_change data (as_change ch) = Some data'"
    "fmlookup (revs_of data (chItemID ch)) (chRevisionID ch) = Some x"
  shows "set (parentRevisionIDs x) = set (chParents ch) \<and> purged x = chPurged ch"
  using apply_change_result(2)[OF assms(1)] sameEncryptedItem_sel[of x "as_change ch"] assms(2) by simp

lemma in_pace_change:
  assumes log: "log_wf db" and ch: "ch \<in> set (tChanges db)" "chAccount ch = acc" "chCursor ch = Suc c"
    and a: "apply_change data (as_change ch) = Some data'" and wf: "cache_wf data" and q: "cMutations data = []"
    and f: "in_pace db acc c {} (graph data)"
  shows "in_pace db acc (Suc c) {} (graph data')"
proof -
  let ?i = "chItemID ch" and ?r = "chRevisionID ch"
  obtain x l where x: "x \<in> set (tRevisions db)" "l \<in> set (tLedger db)" "logged x l"
    and l: "lgAccount l = acc" "lgItemID l = ?i" "lgRevisionID l = ?r" "lgParents l = chParents ch" "lgCursor l = Suc c"
    and xp: "rvPurged x = chPurged ch" by (rule change_logged[OF log ch(1)]) (simp add: ch)
  note g = apply_change_graph[OF a wf q, unfolded as_change_sel]
  note log_Suc = in_log_Suc[OF log x(2) l(5), unfolded l] and sup_Suc = superseded_Suc[OF log x(2) l(5), unfolded l]
  note newest = newest_not_superseded[OF log x(2) l(5), unfolded l]
  have old_known: "known (graph data) i r" if "known (graph data') i r" "\<not> (i = ?i \<and> r = ?r)" for i r
    using that g(1)[of i] g(3)[of r] by (cases "i = ?i") (auto split: if_splits)
  show ?thesis
  proof (rule in_paceI)
    show "Suc c \<le> cursor_of db acc" using log_wfD(1)[OF log x(2)] l by simp
    show "(i, r) \<in> {} \<or> in_log db acc i r (cursor_of db acc)" if k: "known (graph data') i r" for i r
    proof (cases "i = ?i \<and> r = ?r")
      case True
      with x(2) l log_wfD(1)[OF log x(2)] show ?thesis by (auto simp: in_log_def)
    next
      case False
      from in_paceD(3)[OF f old_known[OF k False]] show ?thesis .
    qed
    show "set (parentRevisionIDs y) = set (lgParents h)"
      if h: "h \<in> set (tLedger db)" "lgAccount h = acc" "lgCursor h \<le> Suc c"
        "fmlookup (revisionsAt (graph data') (lgItemID h)) (lgRevisionID h) = Some y" for y h
    proof (cases "h = l")
      case True
      with g(2) h(4) l show ?thesis by auto
    next
      case False
      with log_unique[OF log h(1) x(2)] h l have c: "lgCursor h \<le> c" "lgRevisionID h \<noteq> ?r" by (auto simp: le_Suc_eq)
      with h(4) g(1)[of "lgItemID h"] g(3)[of "lgRevisionID h"]
      have "fmlookup (revisionsAt (graph data) (lgItemID h)) (lgRevisionID h) = Some y"
        by (cases "lgItemID h = ?i") (auto split: if_splits)
      from in_paceD(4)[OF f h(1,2) c(1) this] show ?thesis .
    qed
    show "known (graph data') i r \<or> trashed db acc i r \<and> item_purged db acc i \<or> pending_purge db acc (Suc c) {} (graph data') i"
      if h: "in_log db acc i r (Suc c)" "\<not> superseded db acc i r (Suc c)" for i r
    proof (cases "i = ?i \<and> r = ?r")
      case True
      with g(2) show ?thesis by auto
    next
      case new: False
      with h have h': "in_log db acc i r c" "\<not> superseded db acc i r c" unfolding log_Suc sup_Suc by auto
      have pend: "pending_purge db acc (Suc c) {} (graph data') i"
        if p: "pending_purge db acc c {} (graph data) i" and i: "i = ?i \<longrightarrow> \<not> chPurged ch"
      proof -
        from p obtain t y where t: "fmlookup (revs_of data i) t = Some y" "purged y"
          "in_log db acc i t (cursor_of db acc)" "\<not> in_log db acc i t c" by (auto simp: pending_purge_def)
        have n: "\<not> (i = ?i \<and> t = ?r)" using apply_change_existing[OF a] t(1,2) i by auto
        then have "fmlookup (revs_of data' i) t = Some y"
          using t(1) g(1)[of i] g(3)[of t] i by (cases "i = ?i") auto
        moreover have "\<not> in_log db acc i t (Suc c)" using t(4) n unfolding log_Suc by blast
        ultimately show ?thesis using t by (auto simp: pending_purge_def)
      qed
      show ?thesis
      proof (cases "i = ?i \<and> chPurged ch")
        case True
        from h'(1) obtain k where k: "k \<in> set (tLedger db)" "lgAccount k = acc" "lgItemID k = i" "lgRevisionID k = r" "lgCursor k \<le> c"
          by (auto simp: in_log_def)
        with log x xp True l have "superseded db acc i r (Suc c)"
          unfolding log_wf_def log_purges_def by (metis le_imp_less_Suc)
        with h(2) show ?thesis by simp
      next
        case False
        then have "known (graph data') i r" if "known (graph data) i r"
          using that new g(1)[of i] g(3)[of r] by (cases "i = ?i") auto
        with in_paceD(5)[OF f h'] pend False show ?thesis by blast
      qed
    qed
    show "referenced (revs_of data' i) r" if k: "known (graph data') i r" and s: "superseded db acc i r (Suc c)" for i r
    proof -
      have r: "r \<noteq> ?r" using newest s by auto
      from old_known[OF k] r have k0: "known (graph data) i r" by simp
      consider "i = ?i" "r \<in> set (chParents ch)" | "superseded db acc i r c" using s unfolding sup_Suc by blast
      then show ?thesis
      proof cases
        case 1
        with g(2) show ?thesis unfolding referenced_iff by auto
      next
        case 2
        from in_paceD(6)[OF f k0 2] have ref: "referenced (revs_of data i) r" .
        show ?thesis
        proof (cases "i = ?i")
          case False
          with ref g(1)[of i] show ?thesis by simp
        next
          case i: True
          with k g(3)[OF r] ref have np: "\<not> chPurged ch" by (auto split: if_splits)
          from ref i obtain m y where m: "fmlookup (revs_of data ?i) m = Some y" "r \<in> set (parentRevisionIDs y)"
            unfolding referenced_iff by auto
          show ?thesis
          proof (cases "m = ?r")
            case True
            with m apply_change_existing[OF a] have "r \<in> set (chParents ch)" by auto
            with g(2) i show ?thesis unfolding referenced_iff by auto
          next
            case False
            with m g(3)[OF False] np i show ?thesis unfolding referenced_iff by auto
          qed
        qed
      qed
    qed
  qed simp
qed

lemma in_pace_changes:
  assumes log: "log_wf db" and rows: "map chCursor rows = [Suc c ..< Suc (c + k)]"
    "set rows \<subseteq> {ch \<in> set (tChanges db). chAccount ch = acc}"
    and a: "apply_changes data (map as_change rows) = Some data'" and v: "\<forall>ch \<in> set rows. valid_change (as_change ch)"
    and wf: "cache_wf data" and q: "cMutations data = []" and f: "in_pace db acc c {} (graph data)"
  shows "in_pace db acc (c + k) {} (graph data')"
  using rows a v wf q f
proof (induction rows arbitrary: c k data)
  case Nil
  then have "k = 0" by (cases k) (simp_all del: upt_Suc add: upt_conv_Cons)
  with Nil show ?case by simp
next
  case (Cons ch rows)
  from Cons.prems(1) have "k \<noteq> 0" by (cases k) simp_all
  then obtain k' where k: "k = Suc k'" by (cases k) auto
  with Cons.prems(1) have cur: "chCursor ch = Suc c" "map chCursor rows = [Suc (Suc c) ..< Suc (Suc c + k')]"
    by (simp_all del: upt_Suc add: upt_conv_Cons)
  from Cons.prems(3) obtain mid where m: "apply_change data (as_change ch) = Some mid"
    "apply_changes mid (map as_change rows) = Some data'" by (auto split: option.splits)
  from Cons.prems(2) have ch: "ch \<in> set (tChanges db)" "chAccount ch = acc"
    and sub: "set rows \<subseteq> {ch \<in> set (tChanges db). chAccount ch = acc}" by auto
  from in_pace_change[OF log ch cur(1) m(1) Cons.prems(5,6,7)] have p: "in_pace db acc (Suc c) {} (graph mid)" .
  have w: "cache_wf mid" using apply_change_wf[OF m(1) _ Cons.prems(5)] Cons.prems(4) by simp
  have "cMutations mid = []" using apply_change_frame(1)[OF m(1)] Cons.prems(6) by simp
  from Cons.IH[OF cur(2) sub m(2) _ w this p] Cons.prems(4) k show ?case by simp
qed

section \<open>Full snapshots\<close>

abbreviation as_head :: "revision_row \<Rightarrow> encrypted_item" where
  "as_head x \<equiv> unwire_item (revision_item x)"

lemma as_head_sel [simp]:
  "itemID (as_head x) = rvItemID x" "revisionID (as_head x) = rvRevisionID x"
  "parentRevisionIDs (as_head x) = rvParents x" "purged (as_head x) = rvPurged x" "deleted (as_head x) = rvDeleted x"
  by (simp_all add: unwire_item_def revision_item_def)

definition head_rows :: "vault_db \<Rightarrow> string \<Rightarrow> revision_row set" where
  "head_rows db acc = {x \<in> set (tRevisions db). rvAccount x = acc \<and> is_head db acc (rvItemID x) (rvRevisionID x)}"

text \<open>The graph while the heads in \<open>P\<close> have been applied to an empty one.\<close>

definition shows_heads :: "vault_db \<Rightarrow> string \<Rightarrow> revision_row set \<Rightarrow> item_revisions \<Rightarrow> bool" where
  "shows_heads db acc P g \<longleftrightarrow>
     (\<forall>i r e. fmlookup (revisionsAt g i) r = Some e \<longrightarrow> (\<exists>x \<in> P. rvItemID x = i \<and> rvRevisionID x = r \<and> e = as_head x)) \<and>
     (\<forall>x \<in> P. fmlookup (revisionsAt g (rvItemID x)) (rvRevisionID x) = Some (as_head x) \<or>
        rvDeleted x \<and> item_purged db acc (rvItemID x))"

lemma heads_unreferenced:
  assumes wf: "vault_wf db" and P: "P \<subseteq> head_rows db acc" and s: "shows_heads db acc P g" and y: "y \<in> P"
  shows "\<not> referenced (revisionsAt g (rvItemID y)) (rvRevisionID y)"
proof
  assume "referenced (revisionsAt g (rvItemID y)) (rvRevisionID y)"
  then obtain k e where e: "fmlookup (revisionsAt g (rvItemID y)) k = Some e" "rvRevisionID y \<in> set (parentRevisionIDs e)"
    by (auto simp: referenced_iff)
  from s e(1) obtain z where "z \<in> P" "rvItemID z = rvItemID y" "e = as_head z" unfolding shows_heads_def by blast
  with e(2) P y have "has_child db acc (rvItemID y) (rvRevisionID y)" by (auto simp: has_child_def head_rows_def)
  with P y vault_wfD(4)[OF wf] show False by (auto simp: head_rows_def)
qed

lemma shows_heads_step:
  assumes wf: "vault_wf db" and P: "P \<subseteq> head_rows db acc" and x: "x \<in> head_rows db acc"
    and s: "shows_heads db acc P (graph data)" and a: "apply_change data (as_head x) = Some data'"
    and c: "cache_wf data" "cMutations data = []"
  shows "shows_heads db acc (insert x P) (graph data')"
proof -
  let ?i = "rvItemID x" and ?r = "rvRevisionID x"
  note g = apply_change_graph[OF a c, unfolded as_head_sel]
  have same: "y = x" if "y \<in> P" "rvRevisionID y = ?r" for y
    using row_unique[OF wf, of y x] that P x by (auto simp: head_rows_def)
  have new: "fmlookup (revs_of data' ?i) ?r = Some (as_head x)"
  proof (cases "rvPurged x")
    case False
    then show ?thesis by (simp add: apply_change_result(1)[OF a])
  next
    case True
    then have p: "revs_of data' ?i = preserve_on_purge (as_head x) (revs_of data ?i) []"
      using c(2) by (simp add: apply_change_result(1)[OF a])
    from g(2) obtain e where e: "fmlookup (revs_of data' ?i) ?r = Some e" by blast
    from preserve_on_purge_origin[OF e[unfolded p]]
    have "e = as_head x \<or> e \<in> set (revisionHeads (revs_of data ?i)) \<and> ?r = revisionID e" by auto
    then show ?thesis
    proof
      assume "e = as_head x" with e show ?thesis by simp
    next
      assume h: "e \<in> set (revisionHeads (revs_of data ?i)) \<and> ?r = revisionID e"
      then obtain k where k: "fmlookup (revs_of data ?i) k = Some e" by (auto simp: revisionHeads_iff)
      with s obtain y where "y \<in> P" "rvRevisionID y = k" "e = as_head y" unfolding shows_heads_def by blast
      with h same e show ?thesis by auto
    qed
  qed
  have one: "\<exists>y \<in> insert x P. rvItemID y = i \<and> rvRevisionID y = r \<and> e = as_head y"
    if e: "fmlookup (revs_of data' i) r = Some e" for i r e
  proof (cases "i = ?i \<and> r = ?r")
    case True
    with e new show ?thesis by auto
  next
    case False
    with e g(1)[of i] g(3)[of r] have "fmlookup (revs_of data i) r = Some e"
      by (cases "i = ?i") (auto split: if_splits)
    with s show ?thesis unfolding shows_heads_def by blast
  qed
  have two: "fmlookup (revs_of data' (rvItemID y)) (rvRevisionID y) = Some (as_head y) \<or>
      rvDeleted y \<and> item_purged db acc (rvItemID y)" if y: "y \<in> insert x P" for y
  proof (cases "rvRevisionID y = ?r")
    case True
    with y same have "y = x" by auto
    with new show ?thesis by simp
  next
    case False
    with y have y': "y \<in> P" by auto
    show ?thesis
    proof (cases "fmlookup (revs_of data (rvItemID y)) (rvRevisionID y) = Some (as_head y)")
      case no: False
      with s y' show ?thesis by (auto simp: shows_heads_def)
    next
      case k: True
      have "item_purged db acc ?i" if "rvPurged x" using that x by (auto simp: item_purged_def head_rows_def)
      with k heads_unreferenced[OF wf P s y'] g(1)[of "rvItemID y"] g(3)[OF False] show ?thesis
        by (cases "rvItemID y = ?i") auto
    qed
  qed
  show ?thesis unfolding shows_heads_def using one two by blast
qed

lemma shows_heads_all:
  assumes wf: "vault_wf db"
  shows "P \<subseteq> head_rows db acc \<Longrightarrow> set rows \<subseteq> head_rows db acc \<Longrightarrow> shows_heads db acc P (graph data) \<Longrightarrow>
    apply_changes data (map as_head rows) = Some data' \<Longrightarrow> \<forall>x \<in> set rows. valid_change (as_head x) \<Longrightarrow>
    cache_wf data \<Longrightarrow> cMutations data = [] \<Longrightarrow> shows_heads db acc (P \<union> set rows) (graph data')"
proof (induction rows arbitrary: data P)
  case (Cons x rows)
  from Cons.prems(4) obtain mid where m: "apply_change data (as_head x) = Some mid"
    "apply_changes mid (map as_head rows) = Some data'" by (auto split: option.splits)
  have x: "x \<in> head_rows db acc" "set rows \<subseteq> head_rows db acc" using Cons.prems(2) by auto
  have w: "cache_wf mid" using apply_change_wf[OF m(1) _ Cons.prems(6)] Cons.prems(5) by simp
  have q: "cMutations mid = []" using apply_change_frame(1)[OF m(1)] Cons.prems(7) by simp
  from Cons.IH[OF _ x(2) shows_heads_step[OF wf Cons.prems(1) x(1) Cons.prems(3) m(1) Cons.prems(6,7)] m(2) _ w q]
    Cons.prems(1,5) x(1) show ?case by simp
qed simp

lemma superseded_child:
  assumes log: "log_wf db"
  shows "superseded db acc i r (cursor_of db acc) \<longleftrightarrow> has_child db acc i r"
proof
  assume "superseded db acc i r (cursor_of db acc)"
  then obtain k where k: "k \<in> set (tLedger db)" "lgAccount k = acc" "lgItemID k = i" "r \<in> set (lgParents k)"
    by (auto simp: superseded_def)
  from log_wfD(3)[OF log k(1)] k show "has_child db acc i r" by (auto simp: has_child_def logged_def)
next
  assume "has_child db acc i r"
  then obtain z where z: "z \<in> set (tRevisions db)" "rvAccount z = acc" "rvItemID z = i" "r \<in> set (rvParents z)"
    by (auto simp: has_child_def)
  from log_wfD(2)[OF log z(1)] obtain k where k: "k \<in> set (tLedger db)" "logged z k" by blast
  with log_wfD(1)[OF log k(1)] z show "superseded db acc i r (cursor_of db acc)"
    by (auto simp: superseded_def logged_def)
qed

lemma in_pace_snapshot:
  assumes wf: "vault_wf db" and log: "log_wf db" and s: "shows_heads db acc (head_rows db acc) g"
  shows "in_pace db acc (cursor_of db acc) {} g"
proof (rule in_paceI)
  have entry: "\<exists>x l. x \<in> head_rows db acc \<and> l \<in> set (tLedger db) \<and> logged x l \<and> lgAccount l = acc \<and> lgItemID l = i \<and>
      lgRevisionID l = r \<and> e = as_head x" if e: "fmlookup (revisionsAt g i) r = Some e" for i r e
  proof -
    from s e obtain x where x: "x \<in> head_rows db acc" "rvItemID x = i" "rvRevisionID x = r" "e = as_head x"
      unfolding shows_heads_def by blast
    from x(1) have "x \<in> set (tRevisions db)" "rvAccount x = acc" by (simp_all add: head_rows_def)
    with log_wfD(2)[OF log] obtain l where "l \<in> set (tLedger db)" "logged x l" by blast
    with x \<open>rvAccount x = acc\<close> show ?thesis by (intro exI[of _ x] exI[of _ l]) (simp add: logged_def)
  qed
  note sup = superseded_child[OF log]
  show "(i, r) \<in> {} \<or> in_log db acc i r (cursor_of db acc)" if "known g i r" for i r
  proof -
    from that obtain e where "fmlookup (revisionsAt g i) r = Some e" by blast
    from entry[OF this] obtain l where "l \<in> set (tLedger db)" "lgAccount l = acc" "lgItemID l = i" "lgRevisionID l = r" by blast
    with log_wfD(1)[OF log, of l] show ?thesis by (auto simp: in_log_def)
  qed
  show "set (parentRevisionIDs e) = set (lgParents l)"
    if l: "l \<in> set (tLedger db)" "lgAccount l = acc" "lgCursor l \<le> cursor_of db acc"
      "fmlookup (revisionsAt g (lgItemID l)) (lgRevisionID l) = Some e" for e l
  proof -
    from entry[OF l(4)] obtain x k where k: "k \<in> set (tLedger db)" "logged x k" "lgAccount k = acc"
      "lgRevisionID k = lgRevisionID l" "e = as_head x" by blast
    with log_unique[OF log k(1) l(1)] l(2) have "k = l" by simp
    with k show ?thesis by (simp add: logged_def)
  qed
  show "known g i r \<or> trashed db acc i r \<and> item_purged db acc i \<or> pending_purge db acc (cursor_of db acc) {} g i"
    if h: "in_log db acc i r (cursor_of db acc)" "\<not> superseded db acc i r (cursor_of db acc)" for i r
  proof -
    from h(1) obtain l where l: "l \<in> set (tLedger db)" "lgAccount l = acc" "lgItemID l = i" "lgRevisionID l = r"
      by (auto simp: in_log_def)
    from log_wfD(3)[OF log l(1)] obtain x where x: "x \<in> set (tRevisions db)" "logged x l" by blast
    with l have "has_revision db acc i r" by (auto simp: has_revision_def logged_def)
    with h(2) vault_wfD(4)[OF wf] have "is_head db acc i r" unfolding sup by blast
    with x l have "x \<in> head_rows db acc" by (auto simp: head_rows_def logged_def)
    with s x l show ?thesis by (fastforce simp: shows_heads_def trashed_def logged_def)
  qed
  show "referenced (revisionsAt g i) r" if "known g i r" "superseded db acc i r (cursor_of db acc)" for i r
  proof -
    from that obtain e where "fmlookup (revisionsAt g i) r = Some e" by blast
    from entry[OF this] obtain x where "x \<in> head_rows db acc" "rvItemID x = i" "rvRevisionID x = r"
      by (auto simp: logged_def)
    with that(2) vault_wfD(4)[OF wf] show ?thesis unfolding sup by (auto simp: head_rows_def)
  qed
qed simp_all

section \<open>The queue after a transaction\<close>

definition canonical_mutation :: "pg_env \<Rightarrow> mutation \<Rightarrow> bool" where
  "canonical_mutation pge m \<longleftrightarrow> uuidIn pge (mutationID m) = Some (mutationID m) \<and>
     uuidIn pge (itemID (mutItem m)) = Some (itemID (mutItem m))"

definition queue_keys :: "mutation list \<Rightarrow> (string \<times> uuid) set" where
  "queue_keys ms = (\<lambda>m. (itemID (mutItem m), mutationID m)) ` set ms"

abbreviation sent :: "mutation \<Rightarrow> vault_mutation" where
  "sent m \<equiv> normalizeMutation (wire_mutation m)"

lemma sent_sel [simp]:
  "vmMutationID (sent m) = mutationID m" "oItemID (vmItem (sent m)) = itemID (mutItem m)"
  by (simp_all add: normalizeMutation_def wire_mutation_def wire_item_def Let_def)

text \<open>\<open>held\<close>: the ledger has the mutation as it was sent.\<close>

definition held :: "pg_env \<Rightarrow> vault_db \<Rightarrow> string \<Rightarrow> mutation \<Rightarrow> bool" where
  "held pge db acc m \<longleftrightarrow>
     (\<exists>mid g. uuidIn pge (mutationID m) = Some mid \<and> find_ledger db acc mid = Some g \<and> same_as_ledger pge (sent m) g)"

lemma held_grows: "ledger_extends db db' \<Longrightarrow> held pge db acc m \<Longrightarrow> held pge db' acc m"
  by (auto simp: held_def dest: find_ledger_extends)

lemma applied_in_ledger:
  assumes ap: "applyVaultMutation pge db acc m t = Inr (b, db')" and wf: "vault_wf db" and pge: "pg_ok pge"
    and v: "validMutation m" and c: "uuidIn pge (vmMutationID m) = Some (vmMutationID m)"
      "uuidIn pge (oItemID (vmItem m)) = Some (oItemID (vmItem m))"
  shows "\<exists>g. find_ledger db' acc (vmMutationID m) = Some g \<and> same_as_ledger pge m g"
  by (rule accepted_in_ledger[OF ap wf pge v c])

lemma apply_all_in_ledger:
  "apply_all pge acc t ms db = Inr (ids, db') \<Longrightarrow> vault_wf db \<Longrightarrow> pg_ok pge \<Longrightarrow> validMutations ms \<Longrightarrow> m \<in> set ms \<Longrightarrow>
   uuidIn pge (vmMutationID m) = Some (vmMutationID m) \<Longrightarrow> uuidIn pge (oItemID (vmItem m)) = Some (oItemID (vmItem m)) \<Longrightarrow>
   \<exists>g. find_ledger db' acc (vmMutationID m) = Some g \<and> same_as_ledger pge m g"
proof (induction ms arbitrary: db ids)
  case (Cons n ms)
  then obtain b mid ids' where a: "applyVaultMutation pge db acc n t = Inr (b, mid)"
    and r: "apply_all pge acc t ms mid = Inr (ids', db')" by (auto simp: bind_e_Inr_iff)
  have v: "validMutation n" "validMutations ms" using Cons.prems(4) by (simp_all add: validMutations_def)
  have wf: "vault_wf mid" by (rule applyVaultMutation_wf[OF a Cons.prems(2,3) v(1)])
  show ?case
  proof (cases "m = n")
    case True
    from accepted_in_ledger[OF a Cons.prems(2,3) v(1)] Cons.prems(6,7) True
    obtain g where "find_ledger mid acc (vmMutationID m) = Some g" "same_as_ledger pge m g" by blast
    with apply_all_keeps[OF r wf Cons.prems(3) v(2)] find_ledger_extends show ?thesis by blast
  next
    case False
    with Cons.IH[OF r wf Cons.prems(3) v(2) _ Cons.prems(6,7)] Cons.prems(5) show ?thesis by simp
  qed
qed simp

lemma find_ledgerD:
  "find_ledger db acc mid = Some g \<Longrightarrow> g \<in> set (tLedger db) \<and> lgAccount g = acc \<and> lgMutationID g = mid"
  by (auto simp: find_ledger_def dest: find_SomeD)

text \<open>A synchronization that succeeded has every queued mutation in the history.\<close>

lemma Sync_queue:
  assumes s: "Sync pge db acc cursor (map sent ms) t = Inr (res, db')" and wf: "vault_wf db" and pge: "pg_ok pge"
    and v: "validMutations (map sent ms)" and log: "log_wf db"
    and m: "m \<in> set ms" and can: "canonical_mutation pge m"
  shows "held pge db' acc m" "in_log db' acc (itemID (mutItem m)) (mutationID m) (cursor_of db' acc)"
proof -
  from s obtain n d1 ids where
    p: "purgeExpiredVaultItems pge (prune_changes db acc (t - syncChangeRetention)) acc t = Inr d1" and
    a: "apply_all pge acc t (map sent ms) d1 = Inr (ids, db')" by (rule Sync_parts)
  from purgeExpired_keeps[OF p prune_wf[OF wf] pge] have w: "vault_wf d1" by simp
  have "sent m \<in> set (map sent ms)" using m by simp
  from apply_all_in_ledger[OF a w pge v this] can
  obtain g where g: "find_ledger db' acc (mutationID m) = Some g" "same_as_ledger pge (sent m) g"
    by (auto simp: canonical_mutation_def)
  with can show "held pge db' acc m" by (auto simp: held_def canonical_mutation_def)
  have "log_wf db'" using Sync_log[OF s wf pge v log] by (simp add: log_step_def)
  moreover have "validMutation (sent m)" using v m by (auto simp: validMutations_def list_all_iff)
  ultimately show "in_log db' acc (itemID (mutItem m)) (mutationID m) (cursor_of db' acc)"
    using find_ledgerD[OF g(1)] g(2) log_wfD(1)[of db' g] validMutationD(2)[of "sent m"]
    by (auto simp: in_log_def same_as_ledger_def)
qed

lemma Sync_acknowledges:
  assumes s: "Sync pge db acc cursor ms t = Inr (res, db')" and "vault_wf db" "pg_ok pge" "validMutations ms"
  shows "vsApplied res = map vmMutationID ms"
proof -
  from s obtain n d1 ids where
    p: "purgeExpiredVaultItems pge (prune_changes db acc (t - syncChangeRetention)) acc t = Inr d1" and
    a: "apply_all pge acc t ms d1 = Inr (ids, db')" and r: "answer db' acc n ids = Inr res" by (rule Sync_parts)
  from purgeExpired_keeps[OF p prune_wf[OF assms(2)] assms(3)] have "vault_wf d1" by simp
  from apply_all_keeps[OF a this assms(3,4)] r show ?thesis
    by (auto simp: answer_def Let_def bind_e_Inr_iff split: if_splits)
qed

section \<open>One synchronization\<close>

lemma parse_dec: "ParseUint (dec n) bits = Some m \<Longrightarrow> m = n"
  by (auto simp: ParseUint_def parse_digits_dec split: if_splits)

lemma apply_sync_in_pace:
  assumes s: "Sync pge db acc (cCursor data) (map sent (cMutations data)) t = Inr (res, db')"
    and wf: "vault_wf db" and pge: "pg_ok pge" and v: "validMutations (map sent (cMutations data))" and log: "log_wf db"
    and can: "\<forall>m \<in> set (cMutations data). canonical_mutation pge m" and c: "parseSyncCursor (cCursor data) = Inr c"
    and f: "in_pace db acc c (queue_keys (cMutations data)) (graph data)" and w: "cache_wf data"
    and op: "apply_sync_op (unwire_result res) data = Inr (Some data', u)"
    and vc: "\<forall>ch \<in> set (srChanges (unwire_result res)). valid_change ch"
    and par: "ParseUint (vsCursor res) 63 \<noteq> None"
  shows "cMutations data' = [] \<and> (\<exists>c'. parseSyncCursor (cCursor data') = Inr c' \<and> in_pace db' acc c' {} (graph data') \<and>
     (c' = cursor_of db' acc \<or> c' = c + 500))"
proof -
  have step: "vault_wf db'" "log_wf db'" "log_extends db db'"
    using Sync_log[OF s wf pge v log] by (simp_all add: log_step_def)
  from s c obtain ids where ans: "answer db' acc c ids = Inr res" by (elim Sync_parts) simp
  let ?d = "data\<lparr>cMutations := drop_applied (srAppliedMutationIDs (unwire_result res)) (cMutations data)\<rparr>"
  have "drop_applied (srAppliedMutationIDs (unwire_result res)) (cMutations data) = []"
    using Sync_acknowledges[OF s wf pge v]
    by (auto simp: drop_applied_def unwire_result_def filter_empty_conv)
  then have d: "?d = data\<lparr>cMutations := []\<rparr>" by simp
  have w0: "cache_wf (data\<lparr>cMutations := []\<rparr>)" using drop_applied_wf[OF w] d by metis
  from op obtain d1 where d1: "apply_changes (rebase_snapshot (vsFullSnapshot res) (data\<lparr>cMutations := []\<rparr>))
      (map unwire_item (vsChanges res)) = Some d1" and data': "data' = d1\<lparr>cCursor := vsCursor res\<rparr>"
    unfolding d[symmetric] by (elim apply_sync_op_parts) (simp add: unwire_result_def)
  have q1: "cMutations d1 = []"
    using apply_changes_wf[OF d1 _ rebase_snapshot_wf[OF w0]] vc by (simp add: unwire_result_def)
  from par obtain c' where pc: "ParseUint (vsCursor res) 63 = Some c'" by blast
  then have cur: "parseSyncCursor (cCursor data') = Inr c'"
    by (auto simp: parseSyncCursor_def data' ParseUint_def)
  have pace: "in_pace db' acc c' {} (graph d1) \<and> (c' = cursor_of db' acc \<or> c' = c + 500)"
  proof (cases "vsFullSnapshot res")
    case True
    note full = answer_full[OF step(1) ans True]
    from pc full parse_dec have c': "c' = cursor_of db' acc" by simp
    have rows: "set (snapshot_rows db' acc) = head_rows db' acc"
      unfolding head_rows_def using snapshot_rows_iff[OF step(1)] by blast
    let ?e = "put_graph fmempty (data\<lparr>cMutations := []\<rparr>)"
    have e: "rebase_snapshot True (data\<lparr>cMutations := []\<rparr>) = ?e" by (simp add: rebase_snapshot_def)
    have "cache_wf ?e" using rebase_snapshot_wf[OF w0, of True] e by simp
    moreover have "shows_heads db' acc {} (graph ?e)" by (simp add: shows_heads_def)
    moreover have "apply_changes ?e (map as_head (snapshot_rows db' acc)) = Some d1"
      using d1 full True e by (simp add: comp_def)
    moreover have "\<forall>x \<in> set (snapshot_rows db' acc). valid_change (as_head x)"
      using vc full by (simp add: unwire_result_def)
    moreover have "cMutations ?e = []" unfolding put_graph_sel by simp
    ultimately have "shows_heads db' acc ({} \<union> set (snapshot_rows db' acc)) (graph d1)"
      by (intro shows_heads_all[OF step(1)]) (simp_all add: rows del: put_graph_sel)
    with in_pace_snapshot[OF step(1,2)] c' show ?thesis by (simp add: rows)
  next
    case False
    from answer_incremental[OF step(1) ans False] obtain k rows where
      k: "k = min 500 (cursor_of db' acc - c)" and rows: "set rows \<subseteq> {ch \<in> set (tChanges db'). chAccount ch = acc}"
      "map chCursor rows = [Suc c ..< Suc (c + k)]" and r: "vsChanges res = map change_item rows" "vsCursor res = dec (c + k)"
      by blast
    have e: "rebase_snapshot False (data\<lparr>cMutations := []\<rparr>) = data\<lparr>cMutations := []\<rparr>" by (simp add: rebase_snapshot_def)
    have "in_pace db' acc c {} (graph data)"
    proof (rule in_pace_drained[OF in_pace_extends[OF step(3) f]])
      fix i q assume "(i, q) \<in> queue_keys (cMutations data)"
      then obtain m where "m \<in> set (cMutations data)" "i = itemID (mutItem m)" "q = mutationID m" by (auto simp: queue_keys_def)
      with Sync_queue(2)[OF s wf pge v log] can show "in_log db' acc i q (cursor_of db' acc)" by blast
    qed
    then have g0: "in_pace db' acc c {} (graph (data\<lparr>cMutations := []\<rparr>))" by simp
    have a: "apply_changes (data\<lparr>cMutations := []\<rparr>) (map as_change rows) = Some d1"
      using d1 r False e by (simp add: comp_def)
    have vr: "\<forall>ch \<in> set rows. valid_change (as_change ch)" using vc r by (simp add: unwire_result_def)
    have "in_pace db' acc (c + k) {} (graph d1)"
      by (rule in_pace_changes[OF step(2) rows(2,1) a vr w0 _ g0]) simp
    moreover have "c' = c + k" using pc r(2) parse_dec by simp
    moreover have "c \<le> cursor_of db' acc" using in_paceD(1)[OF g0] .
    ultimately show ?thesis using k by auto
  qed
  from cur pace q1 show ?thesis unfolding data' by auto
qed

section \<open>Queueing\<close>

text \<open>
  A new revision whose identifier the server has not accepted keeps the pace, also when it purges the
  item and drops everything else of it.
\<close>

lemma in_pace_queue:
  assumes log: "log_wf db" and f: "in_pace db acc c q g" and new: "\<not> in_log db acc i r c"
    and none: "\<not> known g i r" and others: "\<And>j. j \<noteq> i \<Longrightarrow> revisionsAt g' j = revisionsAt g j"
    and at: "revisionsAt g' i = fmupd r x R" and R: "R = revisionsAt g i \<or> purged x \<and> R = fmempty"
  shows "in_pace db acc c (insert (i, r) q) g'"
proof (rule in_paceI)
  have old: "fmlookup (revisionsAt g j) s = Some y" if "fmlookup (revisionsAt g' j) s = Some y" "\<not> (j = i \<and> s = r)" for j s y
    using that others[of j] at R by (cases "j = i") (auto split: if_splits)
  show "c \<le> cursor_of db acc" by (rule in_paceD(1)[OF f])
  show "\<not> in_log db acc j s c" if "(j, s) \<in> insert (i, r) q" for j s
    using that new in_paceD(2)[OF f] by auto
  show "(j, s) \<in> insert (i, r) q \<or> in_log db acc j s (cursor_of db acc)" if "known g' j s" for j s
    using that old[of j s] in_paceD(3)[OF f, of j s] by auto
  show "set (parentRevisionIDs y) = set (lgParents l)"
    if l: "l \<in> set (tLedger db)" "lgAccount l = acc" "lgCursor l \<le> c"
      "fmlookup (revisionsAt g' (lgItemID l)) (lgRevisionID l) = Some y" for y l
  proof -
    have "\<not> (lgItemID l = i \<and> lgRevisionID l = r)" using new l(1-3) by (auto simp: in_log_def)
    from in_paceD(4)[OF f l(1-3) old[OF l(4) this]] show ?thesis .
  qed
  show "known g' j s \<or> trashed db acc j s \<and> item_purged db acc j \<or> pending_purge db acc c (insert (i, r) q) g' j"
    if h: "in_log db acc j s c" "\<not> superseded db acc j s c" for j s
  proof (cases "j = i \<and> R \<noteq> revisionsAt g i")
    case True
    with R at show ?thesis unfolding pending_purge_def by (intro disjI2 exI[of _ r] exI[of _ x]) simp
  next
    case False
    then have keep: "fmlookup (revisionsAt g' j) t = Some y" if "fmlookup (revisionsAt g j) t = Some y" for t y
      using that others[of j] at none by (cases "j = i") auto
    have "pending_purge db acc c (insert (i, r) q) g' j" if "pending_purge db acc c q g j"
      using that keep unfolding pending_purge_def by blast
    with in_paceD(5)[OF f h] keep show ?thesis by blast
  qed
  show "referenced (revisionsAt g' j) s" if k: "known g' j s" and s: "superseded db acc j s c" for j s
  proof -
    from superseded_in_log[OF log s] new have n: "\<not> (j = i \<and> s = r)" by blast
    from k n old[of j s] in_paceD(6)[OF f _ s] have ref: "referenced (revisionsAt g j) s" by auto
    show ?thesis
    proof (cases "j = i")
      case False
      with ref others show ?thesis by simp
    next
      case True
      with k n at R have "R = revisionsAt g i" by auto
      with ref True at none show ?thesis using referenced_upd_fresh[of "revisionsAt g i" r x s] by auto
    qed
  qed
qed

lemma queue_keys_simps [simp]: "queue_keys [] = {}"
  "queue_keys (ms @ [m]) = insert (itemID (mutItem m), mutationID m) (queue_keys ms)"
  by (auto simp: queue_keys_def)

lemma queue_one_in_pace:
  assumes log: "log_wf db" and f: "in_pace db acc c (queue_keys (cMutations data)) (graph data)"
    and q: "queue_one item base data = Inr (Some data', m)"
    and new: "\<not> in_log db acc (itemID (mutItem m)) (mutationID m) c"
  shows "in_pace db acc c (queue_keys (cMutations data')) (graph data')"
proof -
  from q have m: "itemID (mutItem m) = itemID item" "mutationID m = revisionID item" "purged (mutItem m) = purged item"
    "\<not> known (graph data) (itemID item) (revisionID item)" by (elim queue_one_success; simp)+
  let ?R = "if purged item then fmempty else revs_of data (itemID item)"
  have "in_pace db acc c (insert (itemID (mutItem m), mutationID m) (queue_keys (cMutations data))) (graph data')"
  proof (rule in_pace_queue[OF log f new])
    show "revs_of data' (itemID (mutItem m)) = fmupd (mutationID m) (mutItem m) ?R"
      using queue_one_graph[OF q, of "itemID item"] m(1) by simp
    show "revs_of data' j = revs_of data j" if "j \<noteq> itemID (mutItem m)" for j
      using queue_one_graph[OF q, of j] that m(1) by simp
  qed (use m in auto)
  then show ?thesis by (simp add: queue_one_frame(1)[OF q])
qed

lemma queue_batch_grows:
  "queue_batch items (data, queued) = Inr (data', queued') \<Longrightarrow> set (cMutations data) \<subseteq> set (cMutations data')"
proof (induction items arbitrary: data queued)
  case (Cons item items)
  show ?case
  proof (cases "fmlookup (revs_of data (itemID item)) (revisionID item)")
    case (Some existing)
    with Cons.prems have "queue_batch items (data, queued) = Inr (data', queued')" by (simp add: Let_def split: if_splits)
    from Cons.IH[OF this] show ?thesis .
  next
    case None
    let ?m = "\<lparr>mutationID = revisionID item, baseRevision = 0, mutItem = item\<rparr>"
    let ?d = "put_graph (addCachedRevision (graph data) item) (data\<lparr>cMutations := cMutations data @ [?m]\<rparr>)"
    from None Cons.prems have "queue_batch items (?d, queued @ [?m]) = Inr (data', queued')"
      by (simp add: Let_def split: if_splits)
    from Cons.IH[OF this] show ?thesis by auto
  qed
qed simp

lemma queue_batch_in_pace:
  "queue_batch items (data, queued) = Inr (data', queued') \<Longrightarrow> log_wf db \<Longrightarrow>
   in_pace db acc c (queue_keys (cMutations data)) (graph data) \<Longrightarrow>
   (\<forall>m. m \<in> set (cMutations data') \<longrightarrow> m \<in> set (cMutations data) \<or> \<not> in_log db acc (itemID (mutItem m)) (mutationID m) c) \<Longrightarrow>
   in_pace db acc c (queue_keys (cMutations data')) (graph data')"
proof (induction items arbitrary: data queued)
  case (Cons item items)
  show ?case
  proof (cases "fmlookup (revs_of data (itemID item)) (revisionID item)")
    case (Some existing)
    with Cons.prems(1) have q: "queue_batch items (data, queued) = Inr (data', queued')" by (simp add: Let_def split: if_splits)
    from Cons.IH[OF q Cons.prems(2-4)] show ?thesis .
  next
    case None
    let ?m = "\<lparr>mutationID = revisionID item, baseRevision = 0, mutItem = item\<rparr>"
    let ?d = "put_graph (addCachedRevision (graph data) item) (data\<lparr>cMutations := cMutations data @ [?m]\<rparr>)"
    from None Cons.prems(1) have q: "queue_batch items (?d, queued @ [?m]) = Inr (data', queued')"
      by (simp add: Let_def split: if_splits)
    show ?thesis
    proof (cases "in_log db acc (itemID item) (revisionID item) c")
      case True
      have mem: "?m \<in> set (cMutations data')"
        using queue_batch_grows[OF q] by auto
      with Cons.prems(4) True have "?m \<in> set (cMutations data)" by auto
      then have "(itemID item, revisionID item) \<in> queue_keys (cMutations data)" by (force simp: queue_keys_def)
      from in_paceD(2)[OF Cons.prems(3) this] True show ?thesis by simp
    next
      case False
      have "in_pace db acc c (insert (itemID item, revisionID item) (queue_keys (cMutations data))) (graph ?d)"
        by (rule in_pace_queue[OF Cons.prems(2,3) False]) (use None in \<open>auto simp: addCachedRevision_def\<close>)
      then have "in_pace db acc c (queue_keys (cMutations ?d)) (graph ?d)" by simp
      from Cons.IH[OF q Cons.prems(2) this] Cons.prems(4) show ?thesis by auto
    qed
  qed
qed simp

section \<open>At the current cursor\<close>

text \<open>
  A graph in pace at the current cursor with an empty queue shows the server's heads: none that is not
  one, and all of them but trash beside a Tombstone.
\<close>

lemma in_pace_current:
  assumes wf: "vault_wf db" and log: "log_wf db" and f: "in_pace db acc (cursor_of db acc) {} g" and k: "valid_graph g"
  shows "r \<in> revisionID ` set (revisionHeads (revisionsAt g i)) \<Longrightarrow> is_head db acc i r"
    and "is_head db acc i r \<Longrightarrow> r \<in> revisionID ` set (revisionHeads (revisionsAt g i)) \<or>
      trashed db acc i r \<and> item_purged db acc i"
proof -
  note sup = superseded_child[OF log]
  have heads: "r \<in> revisionID ` set (revisionHeads (revisionsAt g i)) \<longleftrightarrow> known g i r \<and> \<not> referenced (revisionsAt g i) r"
    using valid_graph_keyed[OF k, of i] unfolding keyed_def by (force simp: revisionHeads_iff)
  show "r \<in> revisionID ` set (revisionHeads (revisionsAt g i)) \<Longrightarrow> is_head db acc i r"
  proof -
    assume "r \<in> revisionID ` set (revisionHeads (revisionsAt g i))"
    with heads have h: "known g i r" "\<not> referenced (revisionsAt g i) r" by simp_all
    from in_paceD(3)[OF f h(1)] obtain l where l: "l \<in> set (tLedger db)" "lgAccount l = acc" "lgItemID l = i" "lgRevisionID l = r"
      by (auto simp: in_log_def)
    with log_wfD(3)[OF log l(1)] have "has_revision db acc i r" by (auto simp: has_revision_def logged_def)
    moreover have "\<not> has_child db acc i r" using in_paceD(6)[OF f h(1)] h(2) sup by blast
    ultimately show ?thesis by (simp add: vault_wfD(4)[OF wf])
  qed
  assume hd: "is_head db acc i r"
  with vault_wfD(4)[OF wf] have r: "has_revision db acc i r" "\<not> superseded db acc i r (cursor_of db acc)"
    unfolding sup by blast+
  from r(1) obtain x where x: "x \<in> set (tRevisions db)" "rvAccount x = acc" "rvItemID x = i" "rvRevisionID x = r"
    by (auto simp: has_revision_def)
  from log_wfD(2)[OF log x(1)] obtain l where l: "l \<in> set (tLedger db)" "logged x l" by blast
  with x log_wfD(1)[OF log l(1)] have "in_log db acc i r (cursor_of db acc)" by (auto simp: in_log_def logged_def)
  from in_paceD(5)[OF f this r(2)] consider "known g i r" | "trashed db acc i r \<and> item_purged db acc i"
    by (auto simp: pending_purge_def)
  then show "r \<in> revisionID ` set (revisionHeads (revisionsAt g i)) \<or> trashed db acc i r \<and> item_purged db acc i"
  proof cases
    case 1
    have "\<not> referenced (revisionsAt g i) r"
    proof
      assume "referenced (revisionsAt g i) r"
      then obtain m e where e: "fmlookup (revisionsAt g i) m = Some e" "r \<in> set (parentRevisionIDs e)"
        by (auto simp: referenced_iff)
      from e(1) in_paceD(3)[OF f, of i m] obtain k where k: "k \<in> set (tLedger db)" "lgAccount k = acc" "lgItemID k = i"
        "lgRevisionID k = m" "lgCursor k \<le> cursor_of db acc" by (auto simp: in_log_def)
      from in_paceD(4)[OF f k(1,2,5)] e k have "r \<in> set (lgParents k)" by simp
      with k r(2) show False by (auto simp: superseded_def)
    qed
    with 1 heads show ?thesis by simp
  qed simp
qed

end
