(* ===== verification/ClientServer.thy ===== *)
theory ClientServer
  imports SyncFollow ServerSamples
begin

text \<open>
  Client and server together. The locale \<open>sync_server\<close> is what a client relies on of an
  instance; the handler of \<open>server/item.go\<close> is the interpretation. \<open>shared_run\<close> is
  any interleaving of one client's operations with the requests of everybody else, with any failing
  system call and any fault of the network.
\<close>

section \<open>The cache file between operations\<close>

definition touch_data :: "pg_env \<Rightarrow> string \<Rightarrow> vault_db \<Rightarrow> cache_file \<Rightarrow> bool" where
  "touch_data base acc db data \<longleftrightarrow> cache_wf data \<and> (\<forall>m \<in> set (cMutations data). canonical_mutation base m) \<and>
     (\<exists>c. parseSyncCursor (cCursor data) = Inr c \<and> in_pace db acc c (queue_keys (cMutations data)) (graph data))"

definition in_touch :: "pg_env \<Rightarrow> (string \<Rightarrow> bytes) \<Rightarrow> string \<Rightarrow> disk \<Rightarrow> vault_db \<Rightarrow> bool" where
  "in_touch base md5 acc d db \<longleftrightarrow> d = None \<or>
     (\<exists>data. (\<forall>env. md5sum env = md5 \<longrightarrow> readCacheFile env d = Inr data) \<and> touch_data base acc db data)"

lemma touch_stored [simp]: "touch_data base acc db data \<Longrightarrow> touch_data base acc db (stored_form data)"
  by (simp add: touch_data_def)

lemma touch_wf: "touch_data base acc db data \<Longrightarrow> cache_wf data"
  by (simp add: touch_data_def)

lemma touch_extends: "log_extends db db' \<Longrightarrow> touch_data base acc db data \<Longrightarrow> touch_data base acc db' data"
  unfolding touch_data_def using in_pace_extends by blast

lemma in_touch_extends: "log_extends db db' \<Longrightarrow> in_touch base md5 acc d db \<Longrightarrow> in_touch base md5 acc d db'"
  unfolding in_touch_def using touch_extends by blast

lemma in_touchI:
  "readCacheFile env d = Inr data \<Longrightarrow> md5sum env = md5 \<Longrightarrow> touch_data base acc db data \<Longrightarrow> in_touch base md5 acc d db"
  unfolding in_touch_def using readCacheFile_cong by metis

lemma in_touchD:
  "in_touch base md5 acc d db \<Longrightarrow> md5sum env = md5 \<Longrightarrow> readCacheFile env d = Inr data \<Longrightarrow> touch_data base acc db data"
  by (auto simp: in_touch_def)

lemma in_touch_cases:
  assumes "in_touch base md5 acc d db" "md5sum env = md5"
  obtains "d = None" | data where "readCacheFile env d = Inr data" "touch_data base acc db data"
  using assms by (auto simp: in_touch_def)

lemma locked_update_touch:
  assumes t: "in_touch base md5 acc d db" and u: "locked_update env f d = (d', res)" and m: "md5sum env = md5"
    and s: "small_file d'"
    and valid: "\<And>data data' r. touch_data base acc db data \<Longrightarrow> f data = Inr (Some data', r) \<Longrightarrow> cache_wf data'"
    and keeps: "\<And>data data' r. touch_data base acc db data \<Longrightarrow> readCacheFile env d = Inr data \<Longrightarrow>
        f data = Inr (Some data', r) \<Longrightarrow> readCacheFile env d' = Inr (stored_form data') \<Longrightarrow> touch_data base acc db' data'"
    and e: "log_extends db db'"
  shows "in_touch base md5 acc d' db'"
  using t m
proof (cases rule: in_touch_cases)
  case 1
  with u have "d' = d" by (auto simp: locked_update_def transact_def split: if_splits)
  with in_touch_extends[OF e t] show ?thesis by simp
next
  case (2 data)
  have v: "validateCacheData data'" if "f data = Inr (Some data', r)" for data' r
    using valid[OF 2(2) that] cache_wfD(2) by blast
  have "d' = d \<or> (\<exists>data' r. f data = Inr (Some data', r) \<and> readCacheFile env d' = Inr (stored_form data'))"
    by (rule locked_update_old_or_new[OF 2(1) u s]) (rule v)
  then consider "d' = d" | data' r where "f data = Inr (Some data', r)" "readCacheFile env d' = Inr (stored_form data')" by blast
  then show ?thesis
  proof cases
    case 1 with in_touch_extends[OF e t] show ?thesis by simp
  next
    case (2 data' r)
    with keeps[OF \<open>touch_data base acc db data\<close> \<open>readCacheFile env d = Inr data\<close>] have "touch_data base acc db' data'" by blast
    from in_touchI[OF 2(2) m touch_stored[OF this]] show ?thesis .
  qed
qed

section \<open>The client's own operations\<close>

text \<open>
  What the operation added to the queue has identifiers in canonical form that the server has not
  accepted: \<open>NewItemID\<close> draws them at random.
\<close>

definition fresh_mutations :: "pg_env \<Rightarrow> vault_db \<Rightarrow> string \<Rightarrow> io_env \<Rightarrow> disk \<Rightarrow> disk \<Rightarrow> bool" where
  "fresh_mutations base db acc env d d' \<longleftrightarrow>
     (\<forall>data data'. readCacheFile env d = Inr data \<longrightarrow> readCacheFile env d' = Inr data' \<longrightarrow>
        (\<forall>m \<in> set (cMutations data') - set (cMutations data).
           canonical_mutation base m \<and> \<not> in_log db acc (itemID (mutItem m)) (mutationID m) (cursor_of db acc)))"

lemma not_in_past: "\<not> in_log db acc i r (cursor_of db acc) \<Longrightarrow> c \<le> cursor_of db acc \<Longrightarrow> \<not> in_log db acc i r c"
  using in_log_mono by blast

text \<open>New mutations and old ones: canonical, and none in the history up to the cursor.\<close>

lemma fresh_queue:
  assumes t: "touch_data base acc db data" and r: "readCacheFile env d = Inr data"
    "readCacheFile env d' = Inr (stored_form data')" and f: "fresh_mutations base db acc env d d'"
    and c: "in_pace db acc c (queue_keys (cMutations data)) (graph data)" and m: "m \<in> set (cMutations data')"
  shows "canonical_mutation base m" "\<not> in_log db acc (itemID (mutItem m)) (mutationID m) c"
proof -
  have "canonical_mutation base m \<and> \<not> in_log db acc (itemID (mutItem m)) (mutationID m) c"
  proof (cases "m \<in> set (cMutations data)")
    case True
    then have "(itemID (mutItem m), mutationID m) \<in> queue_keys (cMutations data)" by (force simp: queue_keys_def)
    with in_paceD(2)[OF c] True t show ?thesis by (auto simp: touch_data_def)
  next
    case False
    with f r m have "canonical_mutation base m \<and> \<not> in_log db acc (itemID (mutItem m)) (mutationID m) (cursor_of db acc)"
      by (simp add: fresh_mutations_def)
    with not_in_past in_paceD(1)[OF c] show ?thesis by blast
  qed
  then show "canonical_mutation base m" "\<not> in_log db acc (itemID (mutItem m)) (mutationID m) c" by auto
qed

lemma QueueMutation_touch:
  assumes t: "in_touch base md5 acc d db" and q: "QueueMutation env d item b = (d', r)" and m: "md5sum env = md5"
    and s: "small_file d'" and log: "log_wf db" and f: "fresh_mutations base db acc env d d'"
  shows "in_touch base md5 acc d' db"
proof -
  consider "d' = d" | rid where "rid \<noteq> []" "itemID item \<noteq> []" "\<not> schemaVersion item < 1" "revision item \<noteq> 0"
      "revision item = b + 1" "validEncryptedItemContent item"
      "locked_update env (queue_one (item\<lparr>revisionID := rid\<rparr>) b) d = (d', r)"
    using q by (fastforce simp: QueueMutation_def dest: NewItemID_nonempty split: if_splits option.splits)
  then show ?thesis
  proof cases
    case 1 with t show ?thesis by simp
  next
    case 2
    show ?thesis
    proof (rule locked_update_touch[OF t 2(7) m s _ _ log_extends_refl])
      show "cache_wf data'" if "touch_data base acc db data" "queue_one (item\<lparr>revisionID := rid\<rparr>) b data = Inr (Some data', w)"
        for data data' w
        by (rule queue_one_wf[OF that(2) touch_wf[OF that(1)]]) (use 2 in simp_all)
      show "touch_data base acc db data'"
        if h: "touch_data base acc db data" "readCacheFile env d = Inr data"
          "queue_one (item\<lparr>revisionID := rid\<rparr>) b data = Inr (Some data', w)" "readCacheFile env d' = Inr (stored_form data')"
        for data data' w
      proof -
        from h(1) obtain c where c: "parseSyncCursor (cCursor data) = Inr c"
          "in_pace db acc c (queue_keys (cMutations data)) (graph data)" by (auto simp: touch_data_def)
        note fr = fresh_queue[OF h(1,2,4) f c(2)]
        have "w \<in> set (cMutations data')" by (simp add: queue_one_frame(1)[OF h(3)])
        from queue_one_in_pace[OF log c(2) h(3) fr(2)[OF this]] fr(1) c(1) queue_one_frame(2)[OF h(3)]
          queue_one_wf[OF h(3) touch_wf[OF h(1)]] 2 show ?thesis
          by (auto simp: touch_data_def)
      qed
    qed
  qed
qed

lemma queueMutations_touch:
  assumes t: "in_touch base md5 acc d db" and q: "queueMutations env nil d items fp = (d', r)" and m: "md5sum env = md5"
    and s: "small_file d'" and log: "log_wf db" and f: "fresh_mutations base db acc env d d'"
  shows "in_touch base md5 acc d' db"
proof -
  consider "d' = d" | prepared where "prepare_batch env 0 items = Inr prepared"
      "locked_update env (queue_batch_op prepared fp) d = (d', r)"
    using q by (auto simp: queueMutations_def split: if_splits sum.splits)
  then show ?thesis
  proof cases
    case 1 with t show ?thesis by simp
  next
    case 2
    from prepare_batch_ok[OF 2(1)] have ok: "batch_ok prepared" .
    show ?thesis
    proof (rule locked_update_touch[OF t 2(2) m s _ _ log_extends_refl])
      show "cache_wf data'" if "touch_data base acc db data" "queue_batch_op prepared fp data = Inr (Some data', w)"
        for data data' w by (rule queue_batch_op_wf[OF touch_wf[OF that(1)] ok that(2)])
      show "touch_data base acc db data'"
        if h: "touch_data base acc db data" "readCacheFile env d = Inr data"
          "queue_batch_op prepared fp data = Inr (Some data', w)" "readCacheFile env d' = Inr (stored_form data')"
        for data data' w
      proof -
        from h(1) obtain c where c: "parseSyncCursor (cCursor data) = Inr c"
          "in_pace db acc c (queue_keys (cMutations data)) (graph data)" by (auto simp: touch_data_def)
        note fr = fresh_queue[OF h(1,2,4) f c(2)]
        from h(3) obtain d1 qd where b: "queue_batch prepared (data, []) = Inr (d1, qd)"
          and d': "data' = d1 \<or> data' = d1\<lparr>cRestoredBackups := cRestoredBackups d1 @ [fp]\<rparr>"
          by (auto simp: queue_batch_op_def Let_def split: sum.splits prod.splits if_splits)
        have same: "cMutations data' = cMutations d1" "cCursor data' = cCursor d1" "graph data' = graph d1" using d' by auto
        have "in_pace db acc c (queue_keys (cMutations d1)) (graph d1)"
          by (rule queue_batch_in_pace[OF b log c(2)]) (use fr(2) same in auto)
        with fr(1) c(1) same queue_batch_wf[OF touch_wf[OF h(1)] ok b] queue_batch_op_wf[OF touch_wf[OF h(1)] ok h(3)]
        show ?thesis by (auto simp: touch_data_def)
      qed
    qed
  qed
qed

lemma AuthorizeCache_touch:
  assumes t: "in_touch base md5 acc d db" and a: "AuthorizeCache mailAddress env d email account vault = (d', r)"
    and m: "md5sum env = md5" and e: "\<And>x. mailAddress email = Some x \<Longrightarrow> x \<noteq> []" and s: "small_file d'"
    and log: "log_wf db"
  shows "in_touch base md5 acc d' db"
proof -
  consider "d' = d" | data where "writeCacheFile env d data = (d', r)" "touch_data base acc db data"
  proof (cases "readCacheFile env d")
    case (Inr existing)
    from in_touchD[OF t m Inr] have "touch_data base acc db existing" .
    then have "vault \<noteq> [] \<Longrightarrow> touch_data base acc db (existing\<lparr>cPasswordVaultEnvelope := vault\<rparr>)"
      by (simp add: touch_data_def cache_wf_def validateCacheData_iff)
    with a Inr that show ?thesis by (auto simp: AuthorizeCache_def Let_def split: option.splits if_splits)
  next
    case (Inl x)
    have "touch_data base acc db \<lparr>cVersion = cacheFormatVersion, cAccountID = account, cEmail = em,
        cPasswordVaultEnvelope = vault, cItems = fmempty, cRevisions = Some fmempty, cMutations = [],
        cCursor = [], cRestoredBackups = []\<rparr>" if "account \<noteq> []" "em \<noteq> []" "vault \<noteq> []" for em
      using that in_pace_start[OF log]
      by (simp add: touch_data_def cache_wf_def validateCacheData_iff graph_def parseSyncCursor_def)
    with a Inl that e show ?thesis
      by (auto simp: AuthorizeCache_def Let_def split: option.splits if_splits)
  qed
  then show ?thesis
  proof cases
    case 1 with t show ?thesis by simp
  next
    case (2 data)
    from cache_wfD(2)[OF touch_wf[OF 2(2)]] have v: "validateCacheData data" .
    have "d' = d \<or> readCacheFile env d' = Inr (stored_form data)"
      using cache.wr_ok[of env d data d'] cache.wr_atomic[of env d data d'] 2(1) v s by (cases r) auto
    with t in_touchI[OF _ m touch_stored[OF 2(2)]] show ?thesis by blast
  qed
qed

section \<open>What a client relies on of an instance\<close>

lemma canonical_cong: "uuidIn p = uuidIn p' \<Longrightarrow> canonical_mutation p m = canonical_mutation p' m"
  by (simp add: canonical_mutation_def)

lemma held_cong: "uuidIn p = uuidIn p' \<Longrightarrow> sha256 p = sha256 p' \<Longrightarrow> held p db acc m = held p' db acc m"
  unfolding held_def using same_as_ledger_cong by metis

lemma sync_request_sel [simp]:
  "bearerToken (sync_http_request call token req) = token"
  "decodeRequest (sync_http_request call token req) = Some request \<Longrightarrow> request = req"
  by (auto simp: sync_http_request_def bearerToken_def HasPrefix_def decodeRequest_def Let_def split: if_splits)

locale sync_server =
  fixes post :: "sync_request http_request \<Rightarrow> 's \<Rightarrow> vault_sync_result http_reply \<times> 's"
    and inv_ok :: "'s \<Rightarrow> bool"
    and vault_of :: "'s \<Rightarrow> vault_db"
    and owns :: "string \<Rightarrow> 's \<Rightarrow> bool"
    and base :: pg_env
    and acc :: string
  assumes inv_vault: "inv_ok s \<Longrightarrow> vault_wf (vault_of s) \<and> log_wf (vault_of s)"
    and post_keeps: "inv_ok s \<Longrightarrow> post q s = (reply, s') \<Longrightarrow> inv_ok s' \<and> log_step (vault_of s) (vault_of s')"
    and post_answers: "inv_ok s \<Longrightarrow> owns (bearerToken q) s \<Longrightarrow> post q s = (HttpReply 200 (Some r), s') \<Longrightarrow>
      \<exists>request pge t. decodeRequest q = Some request \<and> pg_ok pge \<and> uuidIn pge = uuidIn base \<and> sha256 pge = sha256 base \<and>
        validMutations (normalizeMutations (syMutations request)) \<and>
        Sync pge (vault_of s) acc (syCursor request) (normalizeMutations (syMutations request)) t = Inr (r, vault_of s')"
begin

text \<open>A used answer: everything queued was accepted, and the new file, if it was written, keeps the pace.\<close>

lemma answered:
  assumes i: "inv_ok s" and o: "owns token s" and t: "touch_data base acc (vault_of s) data"
    and p: "post (sync_http_request call token \<lparr>syCursor = cCursor data, syMutations = map wire_mutation (cMutations data)\<rparr>) s =
      (HttpReply 200 (Some r), s')"
    and a: "ApplySyncResult env d (unwire_result r) = (d', ares)" and rd: "readCacheFile env d = Inr data"
    and s: "small_file d'" and c: "parseSyncCursor (cCursor data) = Inr c"
  shows "\<forall>m \<in> set (cMutations data). held base (vault_of s') acc m"
    and "d' = d \<and> ares \<noteq> Inr () \<or> (\<exists>data' c'. readCacheFile env d' = Inr data' \<and> cache_wf data' \<and> cMutations data' = [] \<and>
      parseSyncCursor (cCursor data') = Inr c' \<and> in_pace (vault_of s') acc c' {} (graph data') \<and>
      (c' = cursor_of (vault_of s') acc \<or> c' = c + 500))"
proof -
  from post_answers[OF i _ p] o obtain pge t where pge: "pg_ok pge" "uuidIn pge = uuidIn base" "sha256 pge = sha256 base"
    and v: "validMutations (map sent (cMutations data))"
    and sy: "Sync pge (vault_of s) acc (cCursor data) (map sent (cMutations data)) t = Inr (r, vault_of s')"
    by (auto simp: normalizeMutations_def comp_def dest!: sync_request_sel(2))
  from inv_vault[OF i] have wf: "vault_wf (vault_of s)" "log_wf (vault_of s)" by simp_all
  have can: "\<forall>m \<in> set (cMutations data). canonical_mutation pge m"
    using t canonical_cong[OF pge(2)] by (simp add: touch_data_def)
  show "\<forall>m \<in> set (cMutations data). held base (vault_of s') acc m"
    using Sync_queue(1)[OF sy wf(1) pge(1) v wf(2)] can held_cong[OF pge(2,3)] by blast
  have w: "cache_wf data" by (rule touch_wf[OF t])
  from t c have f: "in_pace (vault_of s) acc c (queue_keys (cMutations data)) (graph data)" by (auto simp: touch_data_def)
  have new: "cache_wf (stored_form data') \<and> cMutations (stored_form data') = [] \<and> (\<exists>c'. parseSyncCursor (cCursor (stored_form data')) = Inr c' \<and>
      in_pace (vault_of s') acc c' {} (graph (stored_form data')) \<and> (c' = cursor_of (vault_of s') acc \<or> c' = c + 500))"
    if op: "apply_sync_op (unwire_result r) data = Inr (Some data', w')"
      and vc: "\<forall>ch \<in> set (srChanges (unwire_result r)). valid_change ch" and pc: "ParseUint (vsCursor r) 63 \<noteq> None" for data' w'
    using apply_sync_in_pace[OF sy wf(1) pge(1) v wf(2) can c f w op vc pc] apply_sync_op_wf(1)[OF op vc w] by simp
  show "d' = d \<and> ares \<noteq> Inr () \<or> (\<exists>data' c'. readCacheFile env d' = Inr data' \<and> cache_wf data' \<and> cMutations data' = [] \<and>
      parseSyncCursor (cCursor data') = Inr c' \<and> in_pace (vault_of s') acc c' {} (graph data') \<and>
      (c' = cursor_of (vault_of s') acc \<or> c' = c + 500))"
  proof (cases "d' = d \<and> ares \<noteq> Inr ()")
    case False
    with a have vc: "\<forall>ch \<in> set (srChanges (unwire_result r)). valid_change ch" and pc: "ParseUint (vsCursor r) 63 \<noteq> None"
      and u: "locked_update env (apply_sync_op (unwire_result r)) d = (d', ares)"
      by (auto simp: ApplySyncResult_def list_ex_iff unwire_result_def split: if_splits)
    have valid: "validateCacheData data'" if "apply_sync_op (unwire_result r) data = Inr (Some data', w')" for data' w'
      by (rule cache_wfD(2)[OF apply_sync_op_wf(1)[OF that vc w]])
    have "\<exists>data' w'. apply_sync_op (unwire_result r) data = Inr (Some data', w') \<and> readCacheFile env d' = Inr (stored_form data')"
    proof (cases ares)
      case (Inr x)
      have "apply_sync_op (unwire_result r) data = Inr (None, x) \<and> d' = d \<or>
        (\<exists>data'. apply_sync_op (unwire_result r) data = Inr (Some data', x) \<and> readCacheFile env d' = Inr (stored_form data'))"
        by (rule healthy_locked_success[OF u[unfolded Inr] s rd]) (rule valid)
      with apply_sync_op_some show ?thesis by blast
    next
      case (Inl e)
      have "d' = d \<or> (\<exists>data' w'. apply_sync_op (unwire_result r) data = Inr (Some data', w') \<and>
        readCacheFile env d' = Inr (stored_form data'))"
        by (rule locked_update_old_or_new[OF rd u s]) (rule valid)
      with False Inl show ?thesis by blast
    qed
    with new[OF _ vc pc] show ?thesis by blast
  qed simp
qed

text \<open>Whatever happens to a synchronization, the cache keeps the pace and no queued edit is lost.\<close>

lemma SyncCache_keeps:
  assumes i: "inv_ok s" and o: "owns token s" and t: "in_touch base md5 acc d (vault_of s)"
    and y: "SyncCache post call token nil d s = (d', s', res)" and m: "md5sum (clSnapshotIO call) = md5"
      "md5sum (clApplyIO call) = md5" and s: "small_file d'"
  shows "inv_ok s'" "in_touch base md5 acc d' (vault_of s')"
    and "readCacheFile (clApplyIO call) d = Inr data \<Longrightarrow> \<exists>data'. readCacheFile (clApplyIO call) d' = Inr data' \<and>
      (\<forall>m \<in> set (cMutations data). m \<in> set (cMutations data') \<or> held base (vault_of s') acc m)"
proof -
  have rd: "readCacheFile (clApplyIO call) x = readCacheFile (clSnapshotIO call) x" for x
    by (rule readCacheFile_cong) (simp add: m)
  have all: "inv_ok s' \<and> in_touch base md5 acc d' (vault_of s') \<and>
      (\<forall>data. readCacheFile (clApplyIO call) d = Inr data \<longrightarrow> (\<exists>data'. readCacheFile (clApplyIO call) d' = Inr data' \<and>
        (\<forall>m \<in> set (cMutations data). m \<in> set (cMutations data') \<or> held base (vault_of s') acc m)))"
    using y
  proof (cases rule: SyncCache_cases)
    case untouched
    have "inv_ok s' \<and> log_extends (vault_of s) (vault_of s')"
    proof (cases "s' = s")
      case True with i show ?thesis by simp
    next
      case False
      with untouched(2) obtain q where "s' = snd (post q s)" by blast
      then have "post q s = (fst (post q s), s')" by simp
      from post_keeps[OF i this] show ?thesis by (simp add: log_step_def)
    qed
    with in_touch_extends[OF _ t] untouched(1) show ?thesis by auto
  next
    case (applied data r ares)
    from post_keeps[OF i applied(2)] have k: "inv_ok s'" "log_extends (vault_of s) (vault_of s')" by (simp_all add: log_step_def)
    from in_touchD[OF t m(1) applied(1)] have td: "touch_data base acc (vault_of s) data" .
    then obtain c where c: "parseSyncCursor (cCursor data) = Inr c" by (auto simp: touch_data_def)
    note an = answered[OF i o td applied(2,3) applied(1)[folded rd] s c]
    have touch: "in_touch base md5 acc d' (vault_of s')"
      using an(2)
    proof
      assume "d' = d \<and> ares \<noteq> Inr ()"
      with in_touch_extends[OF k(2) t] show ?thesis by simp
    next
      assume "\<exists>data' c'. readCacheFile (clApplyIO call) d' = Inr data' \<and> cache_wf data' \<and> cMutations data' = [] \<and>
        parseSyncCursor (cCursor data') = Inr c' \<and> in_pace (vault_of s') acc c' {} (graph data') \<and>
        (c' = cursor_of (vault_of s') acc \<or> c' = c + 500)"
      then obtain data' c' where "readCacheFile (clApplyIO call) d' = Inr data'" "touch_data base acc (vault_of s') data'"
        by (auto simp: touch_data_def)
      from in_touchI[OF this(1) m(2) this(2)] show ?thesis .
    qed
    have "\<exists>data'. readCacheFile (clApplyIO call) d' = Inr data'"
      using an(2) applied(1) rd by auto
    with k(1) touch an(1) applied(1) rd show ?thesis by auto
  qed
  from all show "inv_ok s'" "in_touch base md5 acc d' (vault_of s')" by simp_all
  from all show "readCacheFile (clApplyIO call) d = Inr data \<Longrightarrow> \<exists>data'. readCacheFile (clApplyIO call) d' = Inr data' \<and>
      (\<forall>m \<in> set (cMutations data). m \<in> set (cMutations data') \<or> held base (vault_of s') acc m)" by simp
qed

lemma SyncCache_done:
  assumes i: "inv_ok s" and o: "owns token s" and t: "in_touch base md5 acc d (vault_of s)"
    and y: "SyncCache post call token nil d s = (d', s', Inr ())" and m: "md5sum (clSnapshotIO call) = md5"
      "md5sum (clApplyIO call) = md5" and s: "small_file d'"
  shows "\<exists>data c data' c'. readCacheFile (clApplyIO call) d = Inr data \<and> parseSyncCursor (cCursor data) = Inr c \<and>
      readCacheFile (clApplyIO call) d' = Inr data' \<and> cache_wf data' \<and> cMutations data' = [] \<and>
      parseSyncCursor (cCursor data') = Inr c' \<and> in_pace (vault_of s') acc c' {} (graph data') \<and>
      (c' = cursor_of (vault_of s') acc \<or> c' = c + 500)"
  using y
proof (cases rule: SyncCache_cases)
  case untouched
  then show ?thesis by blast
next
  case (applied data r ares)
  have rd: "readCacheFile (clApplyIO call) d = Inr data"
    using applied(1) readCacheFile_cong[of "clApplyIO call" "clSnapshotIO call" d] m by simp
  from in_touchD[OF t m(1) applied(1)] have td: "touch_data base acc (vault_of s) data" .
  then obtain c where c: "parseSyncCursor (cCursor data) = Inr c" by (auto simp: touch_data_def)
  from answered(2)[OF i o td applied(2,3) rd s c] applied(4) rd c show ?thesis by auto
qed

end

section \<open>The server as such an instance\<close>

lemma server_prim_log:
  "server_prim base s s' \<Longrightarrow> vault_wf (sVault s) \<Longrightarrow> log_wf (sVault s) \<Longrightarrow> log_step (sVault s) (sVault s')"
  by (induction rule: server_prim.induct) (auto simp: log_step_def dest: vault_step_log)

lemma server_prims_log:
  "server_prims base s s' \<Longrightarrow> vault_wf (sVault s) \<Longrightarrow> log_wf (sVault s) \<Longrightarrow> log_step (sVault s) (sVault s')"
proof (induction rule: rtranclp_induct)
  case base
  then show ?case by (simp add: log_step_def)
next
  case (step t u)
  then have t: "log_step (sVault s) (sVault t)" by simp
  then have "log_step (sVault t) (sVault u)" using server_prim_log[OF step(2)] by (simp add: log_step_def)
  with t show ?case by (rule log_step_trans)
qed

definition served :: "pg_env \<Rightarrow> auth_env \<Rightarrow> server_state \<Rightarrow> bool" where
  "served base env s \<longleftrightarrow> same_pg base env \<and> server_wf base s \<and> log_wf (sVault s)"

text \<open>No token row with this token's hash belongs to another account.\<close>

definition owns_token :: "pg_env \<Rightarrow> string \<Rightarrow> string \<Rightarrow> server_state \<Rightarrow> bool" where
  "owns_token base acc token s \<longleftrightarrow>
     (\<forall>k \<in> set (dTokens (sDb s)). tkHash k = sha256 base (string_bytes token) \<longrightarrow> tkAccount k = acc)"

lemma served_vault: "served base env s \<Longrightarrow> vault_wf (sVault s) \<and> log_wf (sVault s)"
  by (simp add: served_def server_wf_def)

lemma sync_keeps_served:
  assumes "served base env s" "sync env q s = (reply, s')"
  shows "served base env s' \<and> log_step (sVault s) (sVault s')"
proof -
  from assms have p: "server_prims base s s'" by (auto simp: served_def intro: prims_sync)
  from server_prims_log[OF p] served_vault[OF assms(1)] have l: "log_step (sVault s) (sVault s')" by simp
  with server_prims_wf[OF p] assms(1) show ?thesis by (simp add: served_def log_step_def)
qed

lemma sync_answers:
  assumes s: "served base env s" and o: "owns_token base acc (bearerToken q) s"
    and y: "sync env q s = (HttpReply 200 (Some r), s')"
  shows "\<exists>request pge t. decodeRequest q = Some request \<and> pg_ok pge \<and> uuidIn pge = uuidIn base \<and> sha256 pge = sha256 base \<and>
      validMutations (normalizeMutations (syMutations request)) \<and>
      Sync pge (sVault s) acc (syCursor request) (normalizeMutations (syMutations request)) t = Inr (r, sVault s')"
  using y
proof (cases rule: sync_cases)
  case (refused e)
  then show ?thesis by (simp add: unauthorized_def)
next
  case (failed token s1)
  then show ?thesis by simp
next
  case (accepted token s1 request result v)
  from s have pg: "pg_ok (pg env)" "uuidIn (pg env) = uuidIn base" "sha256 (pg env) = sha256 base"
    by (auto simp: served_def same_pg_def)
  from authenticate_success[OF accepted(1)] obtain k db where
    k: "k \<in> set (dTokens (sDb s))" "tkHash k = sha256 (pg env) (string_bytes (bearerToken q))"
      "token = (token_of_row k)\<lparr>stLastUsedAt := clock env ''AuthenticateToken''\<rparr>" "s1 = s\<lparr>sDb := db\<rparr>" by metis
  from o k(1,2) pg(3) have "tkAccount k = acc" by (simp add: owns_token_def)
  with k(3) have "stAccountID token = acc" by (simp add: token_of_row_def)
  with accepted pg k(4) show ?thesis by (auto simp: writeJSON_def)
qed

interpretation handler: sync_server "sync env" "served base env" sVault "owns_token base acc" base acc
  for env :: auth_env and base acc
  by unfold_locales (erule served_vault, erule (1) sync_keeps_served, erule (2) sync_answers)

section \<open>One client among all requests\<close>

inductive shared_run :: "pg_env \<Rightarrow> (string \<Rightarrow> bytes) \<Rightarrow> string \<Rightarrow> disk \<Rightarrow> server_state \<Rightarrow> bool" for base md5 acc where
  nothing_yet: "shared_run base md5 acc None empty_server"
| request: "shared_run base md5 acc d s \<Longrightarrow> server_step base s s' \<Longrightarrow> shared_run base md5 acc d s'"
| authorize: "shared_run base md5 acc d s \<Longrightarrow> AuthorizeCache mailAddress env d email account vault = (d', r) \<Longrightarrow>
    md5sum env = md5 \<Longrightarrow> (\<And>e. mailAddress email = Some e \<Longrightarrow> e \<noteq> []) \<Longrightarrow> small_file d' \<Longrightarrow>
    shared_run base md5 acc d' s"
| queue: "shared_run base md5 acc d s \<Longrightarrow> QueueMutation env d item b = (d', r) \<Longrightarrow> md5sum env = md5 \<Longrightarrow>
    small_file d' \<Longrightarrow> fresh_mutations base (sVault s) acc env d d' \<Longrightarrow> shared_run base md5 acc d' s"
| batch: "shared_run base md5 acc d s \<Longrightarrow> queueMutations env nil d items fp = (d', r) \<Longrightarrow> md5sum env = md5 \<Longrightarrow>
    small_file d' \<Longrightarrow> fresh_mutations base (sVault s) acc env d d' \<Longrightarrow> shared_run base md5 acc d' s"
| synchronize: "shared_run base md5 acc d s \<Longrightarrow> SyncCache (sync (env :: auth_env)) call token nil d s = (d', s', r) \<Longrightarrow>
    same_pg base env \<Longrightarrow> owns_token base acc token s \<Longrightarrow> md5sum (clSnapshotIO call) = md5 \<Longrightarrow>
    md5sum (clApplyIO call) = md5 \<Longrightarrow> small_file d' \<Longrightarrow> shared_run base md5 acc d' s'"

lemma empty_server_log: "log_wf (sVault empty_server)"
  by (simp add: empty_server_def empty_vault_log)

lemma shared_run_inv:
  "shared_run base md5 acc d s \<Longrightarrow> server_wf base s \<and> log_wf (sVault s) \<and> in_touch base md5 acc d (sVault s)"
proof (induction rule: shared_run.induct)
  case nothing_yet
  show ?case by (simp add: empty_server_wf empty_server_log in_touch_def)
next
  case (request d s s')
  then have "server_prims base s s'" using server_step_prims by blast
  with request server_prims_log server_prims_wf have "server_wf base s'" "log_step (sVault s) (sVault s')"
    by (auto simp: server_wf_def)
  with request in_touch_extends show ?case by (auto simp: log_step_def)
next
  case (authorize d s mailAddress env email account vault d' r)
  then show ?case using AuthorizeCache_touch by metis
next
  case (queue d s env item b d' r)
  then show ?case using QueueMutation_touch by blast
next
  case (batch d s env nil items fp d' r)
  then show ?case using queueMutations_touch by blast
next
  case (synchronize d s env call token nil d' s' r)
  then have "served base env s" by (simp add: served_def)
  from handler.SyncCache_keeps(1,2)[OF this synchronize(4) _ synchronize(2,5,6,7)] synchronize
  show ?case by (auto simp: served_def)
qed

end
