(* ===== verification/SyncBlocked.thy ===== *)
theory SyncBlocked
  imports ClientServer
begin

text \<open>
  A Tombstone that was queued without knowing a version the server already has: the check of
  \<open>applyVaultMutation\<close> that a Tombstone covers all heads refuses it, and will refuse it at any
  later time.
\<close>

section \<open>The ledger entry that never comes\<close>

lemma apply_other_ledger:
  assumes "applyVaultMutation pge db acc m t = Inr (b, db')" "vault_wf db" "pg_ok pge" "validMutation m"
    and "uuidIn pge (vmMutationID m) \<noteq> Some r"
  shows "find_ledger db' acc r = find_ledger db acc r"
  using assms(1-4)
proof (cases rule: applyVaultMutation_cases)
  case (accept mid i ps row)
  with assms(5) have "r \<noteq> mid" by auto
  with accepted_find[OF assms(1-4) accept(2,3,5,6)] show ?thesis by blast
qed simp

lemma purge_other_ledger:
  "purge_all pge acc t n rs db = Inr db' \<Longrightarrow> vault_wf db \<Longrightarrow> pg_ok pge \<Longrightarrow> \<forall>r \<in> set rs. row_ok r \<Longrightarrow> log_wf db \<Longrightarrow>
   \<forall>k. uuidIn pge (genUUID pge k) \<noteq> Some mid \<Longrightarrow> find_ledger db' acc mid = find_ledger db acc mid"
proof (induction rs arbitrary: n db)
  case (Cons r rs)
  from Cons.prems(1) obtain b d1 where s: "\<not> sint (rvRevision r) \<ge> sint maximumItemRevision"
    and a: "applyVaultMutation pge db acc (tombstone_mutation r (genUUID pge n)) t = Inr (b, d1)"
    and p: "purge_all pge acc t (Suc n) rs d1 = Inr db'" by (rule purge_all_induct_step)
  have v: "validMutation (tombstone_mutation r (genUUID pge n))"
    using tombstone_valid[OF _ s] pg_okD(4)[OF Cons.prems(3)] Cons.prems(4) by simp
  from applyVaultMutation_log[OF a Cons.prems(2,3) v Cons.prems(5)] have "vault_wf d1" "log_wf d1"
    by (simp_all add: log_step_def)
  from Cons.IH[OF p this(1) Cons.prems(3) _ this(2) Cons.prems(6)] Cons.prems(4)
  have "find_ledger db' acc mid = find_ledger d1 acc mid" by simp
  also have "\<dots> = find_ledger db acc mid"
    by (rule apply_other_ledger[OF a Cons.prems(2,3) v]) (use Cons.prems(6) in \<open>simp add: tombstone_mutation_def Let_def\<close>)
  finally show ?case .
qed simp

section \<open>The refusal\<close>

text \<open>The Tombstone \<open>m\<close> does not know the stored version \<open>x\<close>, which is no older than its base.\<close>

definition misses :: "pg_env \<Rightarrow> vault_mutation \<Rightarrow> revision_row \<Rightarrow> bool" where
  "misses pge m x \<longleftrightarrow> oPurged (vmItem m) \<and> uuidIn pge (oItemID (vmItem m)) = Some (rvItemID x) \<and>
     (\<forall>p \<in> set (oParents (vmItem m)). uuidIn pge p \<noteq> Some (rvRevisionID x)) \<and> vmBaseRevision m \<le> rvRevision x"

lemma misses_same: "same_revision x y \<Longrightarrow> misses pge m x \<Longrightarrow> misses pge m y"
  by (simp add: misses_def same_revision_def)

lemma uuids_in_set: "uuids_in pge ts = Some ps \<Longrightarrow> p \<in> set ps \<Longrightarrow> \<exists>t \<in> set ts. uuidIn pge t = Some p"
  by (induction ts arbitrary: ps) (auto simp: uuids_in_def split: option.splits)

lemma missed_purge_refused:
  assumes wf: "vault_wf db" and pge: "pg_ok pge" and v: "validMutation m"
    and x: "x \<in> set (tRevisions db)" "rvAccount x = acc" "misses pge m x"
    and l: "\<And>mid. uuidIn pge (vmMutationID m) = Some mid \<Longrightarrow> find_ledger db acc mid = None"
  shows "applyVaultMutation pge db acc m t \<noteq> Inr r"
proof
  obtain b db' where r: "r = (b, db')" by (cases r)
  assume "applyVaultMutation pge db acc m t = Inr r"
  from this[unfolded r] wf pge v show False
  proof (cases rule: applyVaultMutation_cases)
    case (replay mid g)
    with l show False by simp
  next
    case (accept mid i ps row)
    from accept(5) x(3) have i: "i = rvItemID x" by (simp add: misses_def)
    have xp: "rvRevisionID x \<notin> set ps" using uuids_in_set[OF accept(6)] x(3) by (auto simp: misses_def)
    note an = ancestry_ok[OF accept(4) wf v accept(5,6)]
    have "x \<in> set (item_revisions_of db acc i)" using x i by (simp add: item_revisions_of_def)
    with an(3) have base: "vmBaseRevision m \<noteq> 0" by auto
    from head_above[OF wf x(1)] obtain h where h: "h \<in> set (tRevisions db)" "rvAccount h = acc" "rvItemID h = i"
      "is_head db acc i (rvRevisionID h)" "unat (rvRevision x) \<le> unat (rvRevision h)"
      "unat (rvRevision x) = unat (rvRevision h) \<longrightarrow> h = x" unfolding x(2) i by blast
    from accept(4) base have "parents_check pge db acc m = Inr ()" by (simp add: ancestry_check_def)
    from purge_covers_heads[OF this wf _ accept(5,6) h(4)] x(3) have hp: "rvRevisionID h \<in> set ps"
      by (simp add: misses_def)
    from an(2)[OF this] obtain y where y: "y \<in> set (tRevisions db)" "rvAccount y = acc" "rvItemID y = i"
      "rvRevisionID y = rvRevisionID h" "rvRevision y \<le> vmBaseRevision m" by blast
    from row_unique[OF wf y(1) h(1)] y h have "y = h" by simp
    with y(5) x(3) have "unat (rvRevision h) \<le> unat (rvRevision x)" by (simp add: misses_def word_le_nat_alt)
    with h(5) have "unat (rvRevision x) = unat (rvRevision h)" by simp
    with h(6) have "h = x" by blast
    with hp xp show False by blast
  qed
qed

lemma apply_all_blocked:
  "apply_all pge acc t ms db = Inr r \<Longrightarrow> vault_wf db \<Longrightarrow> log_wf db \<Longrightarrow> pg_ok pge \<Longrightarrow> validMutations ms \<Longrightarrow> m \<in> set ms \<Longrightarrow>
   \<forall>k \<in> set ms. uuidIn pge (vmMutationID k) = Some (vmMutationID k) \<and> (vmMutationID k = vmMutationID m \<longrightarrow> k = m) \<Longrightarrow>
   x \<in> set (tRevisions db) \<Longrightarrow> rvAccount x = acc \<Longrightarrow> misses pge m x \<Longrightarrow> find_ledger db acc (vmMutationID m) = None \<Longrightarrow> False"
proof (induction ms arbitrary: db x r)
  case (Cons k ms)
  then obtain b d1 r1 where a: "applyVaultMutation pge db acc k t = Inr (b, d1)"
    and rest: "apply_all pge acc t ms d1 = Inr r1" by (auto simp: bind_e_Inr_iff)
  have v: "validMutation k" "validMutations ms" using Cons.prems(5) by (simp_all add: validMutations_def)
  show ?case
  proof (cases "k = m")
    case True
    with missed_purge_refused[OF Cons.prems(2,4) v(1) Cons.prems(8,9), of t "(b, d1)"] Cons.prems(7,10,11) a show False by simp
  next
    case False
    with Cons.prems(7) have "uuidIn pge (vmMutationID k) \<noteq> Some (vmMutationID m)" by auto
    from apply_other_ledger[OF a Cons.prems(2,4) v(1) this] have l: "find_ledger d1 acc (vmMutationID m) = None"
      using Cons.prems(11) by simp
    from applyVaultMutation_log[OF a Cons.prems(2,4) v(1) Cons.prems(3)]
    have s: "vault_wf d1" "log_wf d1" "log_extends db d1" by (simp_all add: log_step_def)
    from log_extends_revision[OF s(3) Cons.prems(8)] obtain y where y: "y \<in> set (tRevisions d1)" "same_revision x y" by blast
    have "rvAccount y = acc" using y(2) Cons.prems(9) by (simp add: same_revision_def)
    from Cons.IH[OF rest s(1,2) Cons.prems(4) v(2) _ _ y(1) this misses_same[OF y(2) Cons.prems(10)] l] False Cons.prems(6,7)
    show False by auto
  qed
qed simp

lemma Sync_blocked:
  assumes wf: "vault_wf db" and log: "log_wf db" and pge: "pg_ok pge" and v: "validMutations ms" and m: "m \<in> set ms"
    and ids: "\<forall>k \<in> set ms. uuidIn pge (vmMutationID k) = Some (vmMutationID k) \<and> (vmMutationID k = vmMutationID m \<longrightarrow> k = m)"
    and x: "x \<in> set (tRevisions db)" "rvAccount x = acc" "misses pge m x"
    and l: "find_ledger db acc (vmMutationID m) = None"
    and gen: "\<forall>k. uuidIn pge (genUUID pge k) \<noteq> Some (vmMutationID m)"
  shows "Sync pge db acc cursor ms t \<noteq> Inr r"
proof
  obtain res db' where r: "r = (res, db')" by (cases r)
  assume "Sync pge db acc cursor ms t = Inr r"
  from this[unfolded r] obtain n d1 ids where
    p: "purgeExpiredVaultItems pge (prune_changes db acc (t - syncChangeRetention)) acc t = Inr d1" and
    a: "apply_all pge acc t ms d1 = Inr (ids, db')" by (rule Sync_parts)
  let ?p = "prune_changes db acc (t - syncChangeRetention)"
  from prune_log[OF wf log] have s0: "log_step db ?p" .
  then have w: "vault_wf ?p" "log_wf ?p" by (simp_all add: log_step_def)
  have rows: "\<forall>r \<in> set (expired_trash ?p acc (trashExpirationCutoff t)). row_ok r"
    using expired_trash_iff[OF w(1)] vault_wfD(3)[OF w(1)] by blast
  from purge_all_log[OF p[unfolded purgeExpiredVaultItems_def] w(1) pge rows w(2)] s0
  have s1: "log_step db d1" by (metis log_step_trans)
  have "find_ledger d1 acc (vmMutationID m) = find_ledger ?p acc (vmMutationID m)"
    by (rule purge_other_ledger[OF p[unfolded purgeExpiredVaultItems_def] w(1) pge rows w(2) gen])
  also have "\<dots> = None" using l by (simp add: find_ledger_def prune_changes_def)
  finally have l1: "find_ledger d1 acc (vmMutationID m) = None" .
  from s1 have d1: "vault_wf d1" "log_wf d1" "log_extends db d1" by (simp_all add: log_step_def)
  from log_extends_revision[OF d1(3) x(1)] obtain y where y: "y \<in> set (tRevisions d1)" "same_revision x y" by blast
  have "rvAccount y = acc" using y(2) x(2) by (simp add: same_revision_def)
  from apply_all_blocked[OF a d1(1,2) pge v m ids y(1) this misses_same[OF y(2) x(3)] l1] show False .
qed

end
