(* ===== verification/ClientServerProps.thy ===== *)
theory ClientServerProps
  imports SyncBlocked
begin

text \<open>
  What synchronization promises a user, whatever the network and the machine do: no edit is lost, the
  client ends up with the server's versions, and where a queue can get stuck for good.
\<close>

section \<open>A client and a server to run\<close>

definition new_item :: encrypted_item where
  "new_item = \<lparr>itemID = uI, schemaVersion = 1, revision = 1, revisionID = uA, parentRevisionIDs = [],
     deleted = False, purged = False, envelope = [7]\<rparr>"

definition new_mutation :: mutation where
  "new_mutation = \<lparr>mutationID = uA, baseRevision = 0, mutItem = new_item\<rparr>"

definition waiting_cache :: cache_file where
  "waiting_cache = put_graph (fmupd uI (Some (fmupd uA new_item fmempty)) fmempty)
     (sample_cache\<lparr>cMutations := [new_mutation]\<rparr>)"

lemma new_item_sel [simp]:
  "itemID new_item = uI" "schemaVersion new_item = 1" "revision new_item = 1" "revisionID new_item = uA"
  "parentRevisionIDs new_item = []" "purged new_item = False" "deleted new_item = False" "envelope new_item = [7]"
  "new_item\<lparr>revisionID := uA\<rparr> = new_item" "new_item\<lparr>parentRevisionIDs := []\<rparr> = new_item"
  "mutationID new_mutation = uA" "mutItem new_mutation = new_item" "baseRevision new_mutation = 0"
  by (simp_all add: new_item_def new_mutation_def)

lemma waiting_cache_sel [simp]:
  "cMutations waiting_cache = [new_mutation]" "cCursor waiting_cache = []" "cVersion waiting_cache = 3"
  "graph waiting_cache = fmupd uI (Some (fmupd uA new_item fmempty)) fmempty"
  by (simp_all add: waiting_cache_def sample_cache_def)

lemma new_item_content: "validEncryptedItemContent new_item"
  by (simp add: validEncryptedItemContent_def)

lemma queue_new_item: "queue_one new_item 0 sample_cache = Inr (Some waiting_cache, new_mutation)"
  by (simp add: queue_one_def resolve_parents_def Let_def waiting_cache_def new_mutation_def)
    (simp add: sample_cache_def)

lemma waiting_cache_wf: "cache_wf waiting_cache"
  by (rule queue_one_wf[OF queue_new_item sample_cache_wf]) (simp_all add: new_item_content)

lemma stored_waiting: "stored_form waiting_cache = waiting_cache"
  by (simp add: stored_form_def waiting_cache_def sample_cache_def cacheFormatVersion_def put_graph_def)

lemma queue_new: "QueueMutation quiet_env (sample_disk sample_cache) new_item 0 = (sample_disk waiting_cache, Inr new_mutation)"
  using new_item_content
  by (simp add: QueueMutation_def locked_update_def transact_def read_sample_cache queue_new_item write_quiet stored_waiting)

lemma read_waiting: "readCacheFile quiet_env (sample_disk waiting_cache) = Inr waiting_cache"
  by (rule read_sample_disk[OF cache_wfD(2)[OF waiting_cache_wf]]) simp

lemma shared_inside: "shared_run sample_pg (md5sum quiet_env) uA None inside"
proof -
  have "server_run sample_pg empty_server s \<Longrightarrow> shared_run sample_pg (md5sum quiet_env) uA None s" for s
    by (induction rule: server_run.induct) (auto intro: shared_run.nothing_yet shared_run.request)
  from this[OF run_inside] show ?thesis .
qed

lemma shared_waiting: "shared_run sample_pg (md5sum quiet_env) uA (sample_disk waiting_cache) inside"
proof (rule shared_run.queue[OF shared_run.authorize[OF shared_inside authorize_sample refl] queue_new refl])
  show "fresh_mutations sample_pg (sVault inside) uA quiet_env (sample_disk sample_cache) (sample_disk waiting_cache)"
    by (simp add: fresh_mutations_def read_sample_cache read_waiting canonical_mutation_def in_log_def empty_vault_def)
qed auto

definition sample_call :: "delivery \<Rightarrow> sync_call" where
  "sample_call del = \<lparr>clNet = \<lparr>urlParse = (\<lambda>_. Some \<lparr>urlScheme = ''https'', urlHostname = ''h''\<rparr>),
       addrIsLoopback = (\<lambda>_. None), readCertFile = (\<lambda>_. None), appendCerts = (\<lambda>_. False), newRequest = (\<lambda>_. True)\<rparr>,
     clConfig = \<lparr>cfServerURL = ''https://h'', cfCACertFile = [], cfTimeout = 0, cfDataDir = [], cfPwnedPasswordsURL = []\<rparr>,
     clSnapshotIO = quiet_env, clApplyIO = quiet_env, clDelivery = del, clSourceIP = ''1'',
     clRequestLength = (\<lambda>_. 300), clAnswerLength = (\<lambda>_. 300)\<rparr>"

lemma sample_call_sel [simp]:
  "clSnapshotIO (sample_call del) = quiet_env" "clApplyIO (sample_call del) = quiet_env"
  "clDelivery (sample_call del) = del" "clAnswerLength (sample_call del) r = 300"
  "newRequest (clNet (sample_call del)) u" "validateServerURL (clNet (sample_call del)) (cfServerURL (clConfig (sample_call del))) = None"
  "newHTTPClient (clNet (sample_call del)) (clConfig (sample_call del)) = Inr None"
  by (simp_all add: sample_call_def validateServerURL_def newHTTPClient_def)

lemma owns_inside: "owns_token sample_pg uA sample_token inside"
  by (simp add: owns_token_def)

abbreviation first_sync :: "sync_request" where
  "first_sync \<equiv> \<lparr>syCursor = [], syMutations = [wire_mutation new_mutation]\<rparr>"

lemma wire_new [simp]: "normalizeMutation (wire_mutation new_mutation) = create uA"
  by (simp add: normalizeMutation_def wire_mutation_def wire_item_def create_def Let_def)

definition row_U :: revision_row where "row_U = new_revision_row uA (create uA) uI uA [] 1"

definition vault_U :: vault_db where
  "vault_U = \<lparr>tRevisions = [row_U], tHeads = [\<lparr>hdAccount = uA, hdItemID = uI, hdRevisionID = uA\<rparr>],
     tItems = [\<lparr>itAccount = uA, itItemID = uI, itSchema = 1, itRevision = 1, itDeleted = False,
                itPurged = False, itEnvelope = Some [7]\<rparr>],
     tChanges = [change_of row_U 1 1],
     tLedger = [ledger_of row_U uA 0 (vaultMutationDigest sample_pg (create uA)) 1 1],
     tCursors = fmupd uA 1 fmempty\<rparr>"

lemma apply_create_U: "applyVaultMutation sample_pg empty_vault uA (create uA) 1 = Inr (True, vault_U)"
  by (simp add: applyVaultMutation_def find_ledger_def empty_vault_def ancestry_check_def initial_check_def
      create_def append_mutation_def uuids_in_def new_revision_row_def insert_revision_def
      check_revision_row_def find_revision_def replace_heads_def scrub_item_def project_item_def
      item_heads_of_def check_content_def upsert_item_def advance_cursor_def cursor_of_def
      record_change_def record_ledger_def item_revisions_of_def vault_U_def row_U_def change_of_def ledger_of_def Let_def)

definition first_answer :: vault_sync_result where
  "first_answer = \<lparr>vsCursor = dec 1, vsFullSnapshot = False, vsApplied = [uA],
     vsChanges = [wire_item new_item]\<rparr>"

lemma answer_U: "answer vault_U uA 0 [uA] = Inr first_answer"
  by (simp add: answer_def cursor_of_def retained_changes_def change_of_def changes_after_def read_change_def
      uuid_array_text_def parsePostgresUUIDArray_def Let_def vault_U_def row_U_def new_revision_row_def create_def
      first_answer_def wire_item_def)

lemma Sync_U: "Sync sample_pg empty_vault uA [] [create uA] 1 = Inr (first_answer, vault_U)"
proof -
  have p: "purgeExpiredVaultItems sample_pg (prune_changes empty_vault uA c) uA 1 = Inr empty_vault" for c
    by (simp add: purgeExpiredVaultItems_def prune_changes_def empty_vault_def expired_trash_def map_filter_simps)
  have "apply_all sample_pg uA 1 [create uA] empty_vault = Inr ([uA], vault_U)"
    by (simp add: apply_create_U)
  with p answer_U show ?thesis by (simp add: Sync_def parseSyncCursor_def del: apply_all.simps)
qed

definition synced :: server_state where "synced = inside\<lparr>sVault := vault_U\<rparr>"

lemma token_bearer: "bearerToken (sync_http_request call token req) = token" by simp

lemma post_U:
  "sync sample_env (sync_http_request (sample_call del) sample_token first_sync) inside = (HttpReply 200 (Some first_answer), synced)"
proof -
  have a: "authenticate sample_env (sync_http_request (sample_call del) sample_token first_sync) inside = (Inr admin_session, inside)"
    by (simp add: authenticate_def AuthenticateToken_def FindAccessToken_def TouchAccessToken_def Let_def
        admin_session_def token_of_row_def)
  have d: "decodeRequest (sync_http_request (sample_call del) sample_token first_sync) = Some first_sync"
    by (simp add: decodeRequest_def sync_http_request_def sample_call_def maximumRequestBody_def decoder_more_def)
  show ?thesis
    by (simp add: sync_def a d normalizeMutations_def validMutations_def sample_mutations_valid Sync_U
        maximumSyncMutations_def synced_def writeJSON_def Let_def)
qed

section \<open>No edit is lost\<close>

text \<open>C1: No edit is lost between client and server. Whatever happened before, and whatever this
  synchronization meets (a request or an answer lost or cut off, a refusal, a cursor too old, any
  failing system call while the cache is replaced), the cache can be read afterwards, and every
  mutation that was queued is still queued or is in the server's ledger for the account, as sent.\<close>

theorem SyncCache_loses_nothing:
  assumes run: "shared_run base md5 acc d s"
    and y: "SyncCache (sync (env :: auth_env)) call token nil d s = (d', s', res)"
    and "same_pg base env" "owns_token base acc token s" "md5sum (clSnapshotIO call) = md5" "md5sum (clApplyIO call) = md5"
    and "small_file d'" and rd: "readCacheFile (clApplyIO call) d = Inr data"
  shows "\<exists>data'. readCacheFile (clApplyIO call) d' = Inr data' \<and>
    (\<forall>m \<in> set (cMutations data). m \<in> set (cMutations data') \<or> held base (sVault s') acc m)"
proof -
  from shared_run_inv[OF run] assms(3) have inv: "served base env s" and t: "in_touch base md5 acc d (sVault s)"
    by (auto simp: served_def)
  from handler.SyncCache_keeps(3)[OF inv assms(4) t y assms(5,6,7) rd] show ?thesis .
qed

lemma lost_answer:
  "SyncCache (sync sample_env) (sample_call (AnswerLost e)) sample_token False (sample_disk waiting_cache) inside =
     (sample_disk waiting_cache, synced, Inl (DoRequestFailed e))"
  by (simp add: SyncCache_def SyncSnapshot_def locked_read_def read_waiting exchange_def post_U)

theorem SyncCache_loses_nothing_witness:
  "\<exists>data'. readCacheFile quiet_env (sample_disk waiting_cache) = Inr data' \<and>
     (new_mutation \<in> set (cMutations data') \<or> held sample_pg vault_U uA new_mutation)"
  using SyncCache_loses_nothing[OF shared_waiting lost_answer sample_same_pg owns_inside] read_waiting
  by (simp add: synced_def)

section \<open>The client catches up\<close>

text \<open>C2: The client ends up with the server's versions. After any history of offline edits, failed and
  successful synchronizations and other clients' changes, a successful synchronization empties the
  queue and moves the cursor to the current one, or exactly 500 changes further; once it is current,
  every version the client shows is a head on the server, and every head on the server is shown,
  except a trashed one of an item that was also permanently deleted.\<close>

theorem SyncCache_converges:
  assumes run: "shared_run base md5 acc d s"
    and y: "SyncCache (sync (env :: auth_env)) call token nil d s = (d', s', Inr ())"
    and "same_pg base env" "owns_token base acc token s" "md5sum (clSnapshotIO call) = md5" "md5sum (clApplyIO call) = md5"
    and "small_file d'"
  shows "\<exists>data c data' c'. readCacheFile (clApplyIO call) d = Inr data \<and> parseSyncCursor (cCursor data) = Inr c \<and>
    readCacheFile (clApplyIO call) d' = Inr data' \<and> parseSyncCursor (cCursor data') = Inr c' \<and>
    cMutations data' = [] \<and> (c' = cursor_of (sVault s') acc \<or> c' = c + 500) \<and>
    (c' = cursor_of (sVault s') acc \<longrightarrow> (\<forall>i r.
       (r \<in> revisionID ` set (revisionHeads (revs_of data' i)) \<longrightarrow> is_head (sVault s') acc i r) \<and>
       (is_head (sVault s') acc i r \<longrightarrow> r \<in> revisionID ` set (revisionHeads (revs_of data' i)) \<or>
          trashed (sVault s') acc i r \<and> item_purged (sVault s') acc i)))"
proof -
  from shared_run_inv[OF run] assms(3) have inv: "served base env s" and t: "in_touch base md5 acc d (sVault s)"
    by (auto simp: served_def)
  from handler.SyncCache_keeps(1)[OF inv assms(4) t y assms(5,6,7)] have "vault_wf (sVault s')" "log_wf (sVault s')"
    using served_vault by blast+
  note current = in_pace_current[OF this]
  from handler.SyncCache_done[OF inv assms(4) t y assms(5,6,7)] obtain data c data' c' where
    r: "readCacheFile (clApplyIO call) d = Inr data" "parseSyncCursor (cCursor data) = Inr c"
      "readCacheFile (clApplyIO call) d' = Inr data'" "cache_wf data'" "cMutations data' = []"
      "parseSyncCursor (cCursor data') = Inr c'" "in_pace (sVault s') acc c' {} (graph data')"
      "c' = cursor_of (sVault s') acc \<or> c' = c + 500" by blast
  show ?thesis
    by (intro exI[of _ data] exI[of _ c] exI[of _ data'] exI[of _ c'] conjI impI allI r(1,2,3,5,6,8))
      (use current[OF _ cache_wfD(1)[OF r(4)]] r(7) in auto)
qed

definition caught_up :: cache_file where
  "caught_up = stored_form (put_graph (graph waiting_cache) (waiting_cache\<lparr>cMutations := [], cCursor := dec 1\<rparr>))"

lemma first_answer_applied:
  shows apply_first_answer: "ApplySyncResult quiet_env (sample_disk waiting_cache) (unwire_result first_answer) = (sample_disk caught_up, Inr ())"
    and caught_up_wf: "cache_wf caught_up"
proof -
  have r: "unwire_result first_answer = \<lparr>srCursor = dec 1, srFullSnapshot = False, srAppliedMutationIDs = [uA], srChanges = [new_item]\<rparr>"
    by (simp add: unwire_result_def first_answer_def)
  have v: "valid_change new_item" by (simp add: valid_change_def new_item_content hasInvalidParentIDs_iff)
  have p: "ParseUint (dec 1) 63 = Some 1" by (rule ParseUint_dec) simp
  have g: "fmupd uI (Some (fmupd uA new_item (fmupd uA new_item fmempty))) (graph waiting_cache) = graph waiting_cache"
    by (rule fmap_ext) (auto intro!: fmap_ext)
  have op: "\<exists>data'. apply_sync_op (unwire_result first_answer) waiting_cache = Inr (Some data', ()) \<and> stored_form data' = caught_up"
    using g by (simp add: r apply_sync_op_def drop_applied_def rebase_snapshot_def apply_change_def Let_def caught_up_def)
  with v p show "ApplySyncResult quiet_env (sample_disk waiting_cache) (unwire_result first_answer) = (sample_disk caught_up, Inr ())"
    by (auto simp: ApplySyncResult_def locked_update_def transact_def read_waiting write_quiet r)
  from op obtain data' where d: "apply_sync_op (unwire_result first_answer) waiting_cache = Inr (Some data', ())"
    "stored_form data' = caught_up" by blast
  have "cache_wf data'"
    by (rule apply_sync_op_wf(1)[OF d(1) _ waiting_cache_wf]) (simp_all add: r v)
  with d(2) show "cache_wf caught_up" by (metis cache_wf_stored_form)
qed

lemma first_sync_done:
  "SyncCache (sync sample_env) (sample_call Delivered) sample_token False (sample_disk waiting_cache) inside =
     (sample_disk caught_up, synced, Inr ())"
  by (simp add: SyncCache_def SyncSnapshot_def locked_read_def read_waiting exchange_def post_U status_of_def
      reply_body_def decode_answer_def maximumCacheFileSize_def apply_first_answer)

theorem SyncCache_converges_witness:
  "\<exists>data' c'. readCacheFile quiet_env (sample_disk caught_up) = Inr data' \<and> parseSyncCursor (cCursor data') = Inr c' \<and>
     cMutations data' = [] \<and> (c' = 1 \<or> c' = 500)"
proof -
  from SyncCache_converges[OF shared_waiting first_sync_done sample_same_pg owns_inside, unfolded sample_call_sel,
      OF refl refl small_sample_disk] obtain data c data' c' where
    1: "readCacheFile quiet_env (sample_disk waiting_cache) = Inr data" "parseSyncCursor (cCursor data) = Inr c" and
    2: "readCacheFile quiet_env (sample_disk caught_up) = Inr data'" "parseSyncCursor (cCursor data') = Inr c'"
      "cMutations data' = []" and 3: "c' = cursor_of (sVault synced) uA \<or> c' = c + 500"
    by (elim exE conjE) (rule that)
  from 1 read_waiting have "c = 0" by (simp add: parseSyncCursor_def)
  with 2 3 show ?thesis by (auto simp: synced_def vault_U_def cursor_of_def)
qed

section \<open>A Tombstone that misses a version\<close>

lemma misses_cong: "uuidIn pge = uuidIn pge' \<Longrightarrow> misses pge m x = misses pge' m x"
  by (simp add: misses_def)

text \<open>C8: One Tombstone can stop a client for good. If the queue holds a permanent deletion of an item
  whose parents leave out a version the server stores, no older than the deletion's base (another
  client edited the item first), then every synchronization at any later time fails, whatever else
  is queued, and leaves the cache as it is: nothing of the queue is accepted and no change of any
  other item arrives.\<close>

theorem missed_purge_never_syncs:
  assumes run: "shared_run base md5 acc d s" and later: "server_run base s t"
    and x: "x \<in> set (tRevisions (sVault s))" "rvAccount x = acc"
    and q: "readCacheFile (clSnapshotIO call) d = Inr data" "m \<in> set (cMutations data)" "misses base (sent m) x"
    and once: "\<forall>k \<in> set (cMutations data). mutationID k = mutationID m \<longrightarrow> k = m"
    and new: "find_ledger (sVault t) acc (mutationID m) = None" "\<forall>n. genUUID (pg env) n \<noteq> mutationID m"
    and e: "same_pg base (env :: auth_env)" "owns_token base acc token t" "md5sum (clSnapshotIO call) = md5"
    and y: "SyncCache (sync env) call token nil d t = (d', t', res)"
  shows "d' = d \<and> (\<exists>f. res = Inl f)"
  using y
proof (cases rule: SyncCache_cases)
  case untouched
  then show ?thesis by (cases res) auto
next
  case (applied data' r ares)
  from shared_run_inv[OF run] have s: "server_wf base s" "log_wf (sVault s)" "in_touch base md5 acc d (sVault s)" by auto
  from server_run_prims[OF later s(1)] have p: "server_prims base s t" "server_wf base t" by auto
  from server_prims_log[OF p(1)] s have l: "log_step (sVault s) (sVault t)" by (simp add: server_wf_def)
  then have t: "vault_wf (sVault t)" "log_wf (sVault t)" by (simp_all add: log_step_def)
  from in_touchD[OF s(3) e(3) q(1)] have can: "\<forall>k \<in> set (cMutations data). canonical_mutation base k"
    by (simp add: touch_data_def)
  from e(1) have pge: "pg_ok (pg env)" "uuidIn (pg env) = uuidIn base" "sha256 (pg env) = sha256 base"
    by (auto simp: same_pg_def)
  have gen: "\<forall>n. uuidIn (pg env) (genUUID (pg env) n) \<noteq> Some (mutationID m)"
    using new(2) pg_okD(3)[OF pge(1)] by simp
  from log_extends_revision[OF _ x(1)] l obtain x' where x': "x' \<in> set (tRevisions (sVault t))" "same_revision x x'"
    by (auto simp: log_step_def)
  have acc': "rvAccount x' = acc" using x'(2) x(2) by (simp add: same_revision_def)
  have miss: "misses (pg env) (sent m) x'" using misses_same[OF x'(2) q(3)] misses_cong[OF pge(2)] by blast
  from applied(1) q(1) have same: "data' = data" by simp
  from applied(2)[unfolded same] show ?thesis
  proof (cases rule: sync_cases)
    case (accepted k s1 request result v)
    from authenticate_success[OF accepted(1)] obtain tk db where
      tk: "tk \<in> set (dTokens (sDb t))" "tkHash tk = sha256 (pg env) (string_bytes token)"
      "k = (token_of_row tk)\<lparr>stLastUsedAt := clock env ''AuthenticateToken''\<rparr>" "s1 = t\<lparr>sDb := db\<rparr>"
      unfolding sync_request_sel by metis
    from e(2) tk(1,2) pge(3) have "tkAccount tk = acc" by (simp add: owns_token_def)
    with tk(3) have a: "stAccountID k = acc" by (simp add: token_of_row_def)
    from sync_request_sel(2)[OF accepted(2)]
    have ms: "normalizeMutations (syMutations request) = map sent (cMutations data)" by (simp add: normalizeMutations_def)
    have "Sync (pg env) (sVault t) acc (syCursor request) (map sent (cMutations data)) (clock env ''Sync'') \<noteq> Inr (result, v)"
      by (rule Sync_blocked[OF t pge(1) accepted(3)[unfolded ms] _ _ x'(1) acc' miss])
        (use q(2) can once new(1) pge(2) gen in \<open>auto simp: canonical_mutation_def\<close>)
    with accepted(5) ms a tk(4) show ?thesis by simp
  qed (auto simp: unauthorized_def)
qed

definition row_V :: revision_row where "row_V = new_revision_row uA (edit uA uB) uI uB [uA] 1"

definition vault_V :: vault_db where
  "vault_V = \<lparr>tRevisions = [row_U, row_V], tHeads = [\<lparr>hdAccount = uA, hdItemID = uI, hdRevisionID = uB\<rparr>],
     tItems = [\<lparr>itAccount = uA, itItemID = uI, itSchema = 1, itRevision = 2, itDeleted = False,
                itPurged = False, itEnvelope = Some [8]\<rparr>],
     tChanges = [change_of row_U 1 1, change_of row_V 2 1],
     tLedger = [ledger_of row_U uA 0 (vaultMutationDigest sample_pg (create uA)) 1 1,
                ledger_of row_V uB 1 (vaultMutationDigest sample_pg (edit uA uB)) 2 1],
     tCursors = fmupd uA 2 fmempty\<rparr>"

definition raced :: server_state where "raced = synced\<lparr>sVault := vault_V\<rparr>"

definition other_request :: "sync_request http_request" where
  "other_request = sync_http_request (sample_call Delivered) sample_token \<lparr>syCursor = dec 2, syMutations = [edit uA uB]\<rparr>"

lemma apply_edit_V: "applyVaultMutation sample_pg vault_U uA (edit uA uB) 1 = Inr (True, vault_V)"
  by (simp add: applyVaultMutation_def find_ledger_def ancestry_check_def parents_check_def
      edit_def append_mutation_def uuids_in_def new_revision_row_def insert_revision_def create_def
      check_revision_row_def find_revision_def replace_heads_def scrub_item_def project_item_def
      head_revisions_def map_filter_simps item_heads_of_def check_content_def upsert_item_def advance_cursor_def
      cursor_of_def record_change_def record_ledger_def item_revisions_of_def change_of_def ledger_of_def
      vault_U_def vault_V_def row_U_def row_V_def Let_def flip: numeral_2_eq_2)

lemma edit_raced: "\<exists>reply. sync sample_env other_request synced = (reply, raced)"
proof -
  have a: "authenticate sample_env other_request synced = (Inr admin_session, synced)"
    by (simp add: authenticate_def AuthenticateToken_def FindAccessToken_def TouchAccessToken_def Let_def
        admin_session_def token_of_row_def other_request_def synced_def)
  have d: "decodeRequest other_request = Some \<lparr>syCursor = dec 2, syMutations = [edit uA uB]\<rparr>"
    by (simp add: decodeRequest_def sync_http_request_def sample_call_def maximumRequestBody_def decoder_more_def other_request_def)
  have n: "normalizeMutation (edit uA uB) = edit uA uB"
    by (simp add: normalizeMutation_def edit_def Let_def)
  have p: "purgeExpiredVaultItems sample_pg (prune_changes vault_U uA (1 - syncChangeRetention)) uA 1 = Inr vault_U"
    by (simp add: purgeExpiredVaultItems_def prune_changes_def expired_trash_def map_filter_simps vault_U_def row_U_def
        change_of_def new_revision_row_def create_def is_expired_def syncChangeRetention_def hours_def Let_def)
  have "apply_all sample_pg uA 1 [edit uA uB] vault_U = Inr ([uB], vault_V)"
    by (simp add: apply_edit_V)
  moreover have "answer vault_V uA 2 [uB] = Inr \<lparr>vsCursor = dec 2, vsFullSnapshot = False, vsApplied = [uB], vsChanges = []\<rparr>"
    by (simp add: answer_def cursor_of_def retained_changes_def change_of_def changes_after_def Let_def vault_V_def)
  moreover have "parseSyncCursor (dec 2) = Inr 2" by (simp add: parseSyncCursor_def ParseUint_dec)
  ultimately have "\<exists>result. Sync sample_pg vault_U uA (dec 2) [edit uA uB] 1 = Inr (result, vault_V)"
    using p by (simp add: Sync_def del: apply_all.simps)
  then obtain result where "Sync sample_pg vault_U uA (dec 2) [edit uA uB] 1 = Inr (result, vault_V)" ..
  moreover have "sVault synced = vault_U" "synced\<lparr>sVault := v\<rparr> = inside\<lparr>sVault := v\<rparr>" for v by (simp_all add: synced_def)
  moreover have "raced = inside\<lparr>sVault := vault_V\<rparr>" by (simp add: raced_def synced_def)
  ultimately show ?thesis
    by (simp add: sync_def a d n normalizeMutations_def validMutations_def sample_mutations_valid
        maximumSyncMutations_def writeJSON_def Let_def)
qed

definition purge_item :: encrypted_item where
  "purge_item = \<lparr>itemID = uI, schemaVersion = 1, revision = 2, revisionID = uC, parentRevisionIDs = [uA],
     deleted = True, purged = True, envelope = []\<rparr>"

definition purge_mutation :: mutation where
  "purge_mutation = \<lparr>mutationID = uC, baseRevision = 1, mutItem = purge_item\<rparr>"

definition stuck :: cache_file where
  "stuck = (case queue_one purge_item 1 caught_up of Inr (Some c, _) \<Rightarrow> c | _ \<Rightarrow> caught_up)"

lemma caught_up_sel [simp]:
  "cMutations caught_up = []" "cVersion caught_up = 3" "cCursor caught_up = dec 1"
  "graph caught_up = fmupd uI (Some (fmupd uA new_item fmempty)) fmempty"
  by (simp_all add: caught_up_def cacheFormatVersion_def)

lemma queue_purge: "queue_one purge_item 1 caught_up = Inr (Some stuck, purge_mutation)"
  "cMutations stuck = [purge_mutation]" "cVersion stuck = 3"
  by (simp_all add: queue_one_def resolve_parents_def Let_def stuck_def purge_item_def purge_mutation_def)

lemma purge_item_ok: "validEncryptedItemContent purge_item"
  by (simp add: validEncryptedItemContent_def purge_item_def)

lemma stuck_wf: "cache_wf stuck"
  by (rule queue_one_wf[OF queue_purge(1) caught_up_wf]) (simp_all add: purge_item_ok, simp_all add: purge_item_def)

lemma read_stuck: "readCacheFile quiet_env (sample_disk stuck) = Inr stuck"
  by (rule read_sample_disk[OF cache_wfD(2)[OF stuck_wf] queue_purge(3)])

lemma read_caught_up: "readCacheFile quiet_env (sample_disk caught_up) = Inr caught_up"
  by (rule read_sample_disk[OF cache_wfD(2)[OF caught_up_wf]]) simp

lemma stored_stuck: "stored_form stuck = stuck"
  by (simp add: stuck_def queue_one_def resolve_parents_def purge_item_def Let_def)
    (simp add: stored_form_def caught_up_def put_graph_def)

lemma queue_stuck: "QueueMutation quiet_env (sample_disk caught_up) purge_item 1 = (sample_disk stuck, Inr purge_mutation)"
proof -
  have "purge_item\<lparr>revisionID := revisionID purge_item\<rparr> = purge_item" by simp
  with purge_item_ok show ?thesis
    by (simp add: QueueMutation_def locked_update_def transact_def read_caught_up queue_purge(1) write_quiet stored_stuck)
      (simp add: purge_item_def)
qed

lemma shared_stuck: "shared_run sample_pg (md5sum quiet_env) uA (sample_disk stuck) raced"
proof -
  have shared: "shared_run sample_pg (md5sum quiet_env) uA (sample_disk caught_up) synced"
    by (rule shared_run.synchronize[OF shared_waiting first_sync_done sample_same_pg owns_inside]) simp_all
  from edit_raced obtain reply where "sync sample_env other_request synced = (reply, raced)" by blast
  with server_step.intros(18)[OF sample_same_pg] have "server_step sample_pg synced raced" by blast
  from shared_run.request[OF shared this]
  have "shared_run sample_pg (md5sum quiet_env) uA (sample_disk caught_up) raced" .
  then show ?thesis
  proof (rule shared_run.queue[OF _ queue_stuck refl])
    show "fresh_mutations sample_pg (sVault raced) uA quiet_env (sample_disk caught_up) (sample_disk stuck)"
      by (simp add: fresh_mutations_def read_stuck read_caught_up queue_purge(2) canonical_mutation_def in_log_def
          purge_mutation_def purge_item_def raced_def vault_V_def row_U_def row_V_def new_revision_row_def create_def edit_def Let_def)
  qed simp
qed

lemma zero_byte: "hex_byte 0 = ''00''"
  by code_simp

theorem missed_purge_never_syncs_witness:
  "fst (SyncCache (sync sample_env) (sample_call Delivered) sample_token False (sample_disk stuck) raced) = sample_disk stuck \<and>
   (\<exists>f. snd (snd (SyncCache (sync sample_env) (sample_call Delivered) sample_token False (sample_disk stuck) raced)) = Inl f)"
proof -
  obtain d' t' res where y: "SyncCache (sync sample_env) (sample_call Delivered) sample_token False (sample_disk stuck) raced = (d', t', res)"
    using prod_cases3 by blast
  have x: "row_V \<in> set (tRevisions (sVault raced))" "rvAccount row_V = uA"
    by (simp_all add: raced_def vault_V_def row_V_def new_revision_row_def Let_def)
  have m: "misses sample_pg (sent purge_mutation) row_V"
    by (simp add: misses_def normalizeMutation_def wire_mutation_def wire_item_def purge_mutation_def purge_item_def
        row_V_def new_revision_row_def edit_def Let_def)
  have l: "find_ledger (sVault raced) uA (mutationID purge_mutation) = None"
    by (simp add: find_ledger_def raced_def vault_V_def purge_mutation_def)
  have hd_c: "hd (genUUID sample_pg n) \<noteq> hd uC" for n
    by (simp add: sample_pg_def format_uuid_def hex_bytes_def uC_def take_Cons' drop_Cons' numeral_eq_Suc zero_byte)
  have "genUUID sample_pg n \<noteq> uC" for n using hd_c[of n] by metis
  then have g: "\<forall>n. genUUID (pg sample_env) n \<noteq> mutationID purge_mutation"
    by (simp add: purge_mutation_def)
  have rd: "readCacheFile (clSnapshotIO (sample_call Delivered)) (sample_disk stuck) = Inr stuck" by (simp add: read_stuck)
  have o: "owns_token sample_pg uA sample_token raced" by (simp add: owns_token_def raced_def synced_def)
  have "d' = sample_disk stuck \<and> (\<exists>f. res = Inl f)"
    by (rule missed_purge_never_syncs[OF shared_stuck server_run.initially x rd _ m _ l g sample_same_pg o _ y])
      (simp_all add: queue_purge(2))
  with y show ?thesis by simp
qed

end
