(* ===== verification/PortableBackup.thy ===== *)
theory PortableBackup
  imports VaultCrypto CacheSync
begin

text \<open>
  The encrypted backup file (\<open>internal/client/backup.go\<close>): the complete cache document and,
  since format 2, the decrypted items, sealed under a password. The primitives are those of
  \<open>VaultCrypto\<close>; \<open>encoding/json\<close> and SHA-256 are parameters. The strict decoders
  (no unknown field, nothing after the document) are one function each.
\<close>

section \<open>The file and its payload\<close>

definition portableBackupLegacyVersion :: int where "portableBackupLegacyVersion = 1"
definition portableBackupFormatVersion :: int where "portableBackupFormatVersion = 2"
definition portableBackupMagic :: string where "portableBackupMagic = ''termkeep-portable-backup''"
definition portableBackupKDF :: string where "portableBackupKDF = ''argon2id''"
definition portableBackupMemoryKiB :: "32 word" where "portableBackupMemoryKiB = 64 * 1024"
definition portableBackupPasses :: "32 word" where "portableBackupPasses = 3"
definition portableBackupParallelism :: "8 word" where "portableBackupParallelism = 4"
definition portableBackupSaltSize :: nat where "portableBackupSaltSize = 16"
definition portableBackupMaxFileSize :: nat where "portableBackupMaxFileSize = 64 * 2 ^ 20"
definition Overhead :: nat where "Overhead = 16"

record backup_payload =
  bpVersion :: int
  bpAccountID :: string
  bpEmail :: string
  bpEnvelope :: bytes
  bpRevisions :: "item_revisions option"
  bpMutations :: "mutation list"
  bpCursor :: string
  bpItems :: "native_item list option"

record backup_file =
  bfMagic :: string
  bfVersion :: int
  bfKDF :: string
  bfMemoryKiB :: "32 word"
  bfPasses :: "32 word"
  bfParallelism :: "8 word"
  bfSalt :: bytes
  bfNonce :: bytes
  bfCiphertext :: bytes

record backup_env =
  bkCrypto :: crypto_env
  marshalPayload :: "backup_payload \<Rightarrow> bytes option"
  readPayload :: "bytes \<Rightarrow> backup_payload option"
  marshalFile :: "backup_file \<Rightarrow> bytes"
  readFile :: "bytes \<Rightarrow> backup_file option"
  marshalNative :: "native_item \<Rightarrow> bytes option"
  readNative :: "bytes \<Rightarrow> native_item option"
  sha256Sum :: "bytes \<Rightarrow> bytes"

datatype backup_error =
  BackupWriterRequired | BackupPasswordRequired | BackupCacheRequired | BackupPathRequired | InvalidBackup
| BackupIncomplete | BackupInvalidItem | BackupEncode | BackupRandom | BackupCipher | BackupTooLarge
| BackupWrite | BackupCache cache_error | BackupStep write_step

section \<open>Copies\<close>

definition cloneNativeItem :: "backup_env \<Rightarrow> native_item \<Rightarrow> native_item option" where
  "cloneNativeItem env item = (case marshalNative env item of None \<Rightarrow> None | Some encoded \<Rightarrow> readNative env encoded)"

definition cloneNativeItems :: "backup_env \<Rightarrow> native_item list option \<Rightarrow> native_item list option" where
  "cloneNativeItems env items =
     (case items of None \<Rightarrow> None | Some xs \<Rightarrow> those (map (cloneNativeItem env) xs))"

section \<open>Validation\<close>

definition expected_items :: "item_revisions \<Rightarrow> nat" where
  "expected_items g =
     sum_list (map (\<lambda>i. length (filter (\<lambda>item. \<not> deleted item \<and> \<not> purged item) (revisionHeads (revisionsAt g i))))
       (sorted_list_of_fset (fmdom g)))"

definition validPortableBackupNativeItem :: "backup_env \<Rightarrow> native_item \<Rightarrow> bool" where
  "validPortableBackupNativeItem env item =
     (case nativeItemID item of
        None \<Rightarrow> False
      | Some i \<Rightarrow>
          if i = [] then False
          else if niType item = NativeItemTypeLogin then
            (case niLogin item of
               None \<Rightarrow> False
             | Some l \<Rightarrow> (case lTOTP l of None \<Rightarrow> True | Some config \<Rightarrow> ValidateTOTPConfig config = Inr ()))
          else if niType item = NativeItemTypeSecureNote then niSecureNote item \<noteq> None
          else if niType item = NativeItemTypeFolder then niFolder item \<noteq> None
          else if niType item = NativeItemTypeGeneric then
            (case niGeneric item of
               None \<Rightarrow> False
             | Some g \<Rightarrow> gTitle g \<noteq> [] \<and> gSource g \<noteq> [] \<and> gSourceType g \<noteq> [] \<and> jsonValid (bkCrypto env) (gData g))
          else False)"

definition validPortableBackupFile :: "backup_file \<Rightarrow> bool" where
  "validPortableBackupFile f \<longleftrightarrow>
     bfMagic f = portableBackupMagic \<and>
     (bfVersion f = portableBackupLegacyVersion \<or> bfVersion f = portableBackupFormatVersion) \<and>
     bfKDF f = portableBackupKDF \<and> bfMemoryKiB f = portableBackupMemoryKiB \<and>
     bfPasses f = portableBackupPasses \<and> bfParallelism f = portableBackupParallelism \<and>
     length (bfSalt f) = portableBackupSaltSize \<and> length (bfNonce f) = NonceSizeX \<and>
     length (bfCiphertext f) > Overhead"

definition payload_cache :: "backup_payload \<Rightarrow> cache_file" where
  "payload_cache p =
     \<lparr>cVersion = cacheFormatVersion, cAccountID = bpAccountID p, cEmail = bpEmail p,
      cPasswordVaultEnvelope = bpEnvelope p, cItems = fmempty, cRevisions = bpRevisions p,
      cMutations = bpMutations p, cCursor = bpCursor p, cRestoredBackups = []\<rparr>"

definition validPortableBackupPayload :: "backup_env \<Rightarrow> backup_payload \<Rightarrow> bool" where
  "validPortableBackupPayload env p =
     (case bpRevisions p of
        None \<Rightarrow> False
      | Some g \<Rightarrow>
          if (bpVersion p \<noteq> portableBackupLegacyVersion \<and> bpVersion p \<noteq> portableBackupFormatVersion) \<or>
             bpAccountID p = [] \<or> bpEmail p = [] \<or> length (bpEnvelope p) = 0
          then False
          else if bpVersion p = portableBackupLegacyVersion \<and> bpItems p \<noteq> None then False
          else if bpVersion p = portableBackupFormatVersion \<and>
             (case bpItems p of None \<Rightarrow> expected_items g \<noteq> 0 | Some items \<Rightarrow> length items \<noteq> expected_items g)
          then False
          else if \<not> validateCacheData (payload_cache p) then False
          else list_all (validPortableBackupNativeItem env) (case bpItems p of None \<Rightarrow> [] | Some items \<Rightarrow> items))"

section \<open>Key and header\<close>

definition portableBackupKey :: "backup_env \<Rightarrow> bytes \<Rightarrow> bytes \<Rightarrow> bytes" where
  "portableBackupKey env password salt =
     derivePurposeKey (bkCrypto env)
       (argon2 (bkCrypto env) password salt portableBackupPasses portableBackupMemoryKiB portableBackupParallelism)
       ''portable-backup''"

definition portableBackupAssociatedData :: "backup_file \<Rightarrow> bytes" where
  "portableBackupAssociatedData f =
     string_bytes (bfMagic f @ ''/v'' @ int_text (bfVersion f) @ ''/'' @ bfKDF f @ ''/'' @ dec (unat (bfMemoryKiB f)) @
       ''/'' @ dec (unat (bfPasses f)) @ ''/'' @ dec (unat (bfParallelism f)))"

section \<open>Writing\<close>

text \<open>\<open>items\<close> is nil for the opaque format 1.\<close>

definition encode_backup :: "backup_env \<Rightarrow> cache_file \<Rightarrow> bytes \<Rightarrow> native_item list option \<Rightarrow> backup_error + bytes" where
  "encode_backup env data backupPassword items =
     (let version = (if items = None then portableBackupLegacyVersion else portableBackupFormatVersion) in
      bind_e (case items of
          None \<Rightarrow> Inr ()
        | Some xs \<Rightarrow>
            if length xs \<noteq> expected_items (graph data) then Inl BackupIncomplete
            else guard_e (\<not> list_all (validPortableBackupNativeItem env) xs) BackupInvalidItem) (\<lambda>_.
      case marshalPayload env
             \<lparr>bpVersion = version, bpAccountID = cAccountID data, bpEmail = cEmail data,
              bpEnvelope = cPasswordVaultEnvelope data, bpRevisions = cRevisions data,
              bpMutations = cMutations data, bpCursor = cCursor data, bpItems = items\<rparr> of
        None \<Rightarrow> Inl BackupEncode | Some payload \<Rightarrow>
      case randRead (bkCrypto env) ''backup salt'' portableBackupSaltSize of None \<Rightarrow> Inl BackupRandom | Some salt \<Rightarrow>
      let key = portableBackupKey env backupPassword salt in
      if length key \<noteq> KeySize then Inl BackupCipher
      else case randRead (bkCrypto env) ''backup nonce'' NonceSizeX of None \<Rightarrow> Inl BackupRandom | Some nonce \<Rightarrow>
      let f = \<lparr>bfMagic = portableBackupMagic, bfVersion = version, bfKDF = portableBackupKDF,
               bfMemoryKiB = portableBackupMemoryKiB, bfPasses = portableBackupPasses,
               bfParallelism = portableBackupParallelism, bfSalt = salt, bfNonce = nonce, bfCiphertext = []\<rparr>;
          f = f\<lparr>bfCiphertext := aeadSeal (bkCrypto env) key nonce payload (portableBackupAssociatedData f)\<rparr>;
          encoded = marshalFile env f
      in if length encoded > portableBackupMaxFileSize then Inl BackupTooLarge else Inr encoded))"

text \<open>An \<open>io.Writer\<close> answers how many bytes it took, or an error.\<close>

definition writePortableBackup ::
  "backup_env \<Rightarrow> (bytes \<Rightarrow> nat option) \<Rightarrow> cache_file \<Rightarrow> bytes \<Rightarrow> native_item list option \<Rightarrow> backup_error + bytes" where
  "writePortableBackup env writer data backupPassword items =
     bind_e (encode_backup env data backupPassword items) (\<lambda>encoded.
       case writer encoded of
         None \<Rightarrow> Inl BackupWrite
       | Some written \<Rightarrow> if written \<noteq> length encoded then Inl BackupWrite else Inr encoded)"

record backup_disk_file =
  bdRegular :: bool
  bdPerm :: nat
  bdBytes :: bytes

text \<open>The temporary file takes the place of the target only when it is complete.\<close>

definition writePortableBackupFile ::
  "backup_env \<Rightarrow> io_env \<Rightarrow> string \<Rightarrow> backup_disk_file option \<Rightarrow> cache_file \<Rightarrow> bytes \<Rightarrow> native_item list option \<Rightarrow>
   backup_disk_file option \<times> (backup_error + unit)" where
  "writePortableBackupFile env io path target data backupPassword items =
     (if path = [] then (target, Inl BackupPathRequired)
      else if stepFails io CreateTemp then (target, Inl (BackupStep CreateTemp))
      else if stepFails io ChmodTemp then (target, Inl (BackupStep ChmodTemp))
      else case writePortableBackup env (\<lambda>b. if stepFails io WriteTemp then None else Some (length b))
                  data backupPassword items of
        Inl e \<Rightarrow> (target, Inl e)
      | Inr encoded \<Rightarrow>
          let written = Some \<lparr>bdRegular = True, bdPerm = private_mode, bdBytes = encoded\<rparr>
          in if stepFails io SyncTemp then (target, Inl (BackupStep SyncTemp))
             else if stepFails io CloseTemp then (target, Inl (BackupStep CloseTemp))
             else if stepFails io RenameTemp then (target, Inl (BackupStep RenameTemp))
             else if stepFails io OpenDirectory then (written, Inl (BackupStep OpenDirectory))
             else if stepFails io SyncDirectory then (written, Inl (BackupStep SyncDirectory))
             else (written, Inr ()))"

text \<open>\<open>nil\<close> is a nil receiver, \<open>noWriter\<close> a nil writer.\<close>

definition write_cache_backup ::
  "backup_env \<Rightarrow> io_env \<Rightarrow> bool \<Rightarrow> bool \<Rightarrow> (bytes \<Rightarrow> nat option) \<Rightarrow> disk \<Rightarrow> bytes \<Rightarrow> native_item list option \<Rightarrow>
   backup_error + bytes" where
  "write_cache_backup env io nil noWriter writer d backupPassword items =
     (if noWriter then Inl BackupWriterRequired
      else if length backupPassword = 0 then Inl BackupPasswordRequired
      else if nil then Inl BackupCacheRequired
      else case locked_read io d of
        Inl e \<Rightarrow> Inl (BackupCache e)
      | Inr data \<Rightarrow> writePortableBackup env writer data backupPassword items)"

definition WritePortableBackup ::
  "backup_env \<Rightarrow> io_env \<Rightarrow> bool \<Rightarrow> bool \<Rightarrow> (bytes \<Rightarrow> nat option) \<Rightarrow> disk \<Rightarrow> bytes \<Rightarrow> backup_error + bytes" where
  "WritePortableBackup env io nil noWriter writer d backupPassword =
     write_cache_backup env io nil noWriter writer d backupPassword None"

definition items_or_empty :: "native_item list option \<Rightarrow> native_item list option" where
  "items_or_empty items = (case items of None \<Rightarrow> Some [] | Some xs \<Rightarrow> Some xs)"

definition WritePortableBackupWithItems ::
  "backup_env \<Rightarrow> io_env \<Rightarrow> bool \<Rightarrow> bool \<Rightarrow> (bytes \<Rightarrow> nat option) \<Rightarrow> disk \<Rightarrow> bytes \<Rightarrow> native_item list option \<Rightarrow>
   backup_error + bytes" where
  "WritePortableBackupWithItems env io nil noWriter writer d backupPassword items =
     write_cache_backup env io nil noWriter writer d backupPassword (items_or_empty items)"

definition write_cache_backup_file ::
  "backup_env \<Rightarrow> io_env \<Rightarrow> bool \<Rightarrow> string \<Rightarrow> backup_disk_file option \<Rightarrow> disk \<Rightarrow> bytes \<Rightarrow> native_item list option \<Rightarrow>
   backup_disk_file option \<times> (backup_error + unit)" where
  "write_cache_backup_file env io nil path target d backupPassword items =
     (if nil then (target, Inl (BackupCache ErrInvalidCache))
      else case locked_read io d of
        Inl e \<Rightarrow> (target, Inl (BackupCache e))
      | Inr data \<Rightarrow> writePortableBackupFile env io path target data backupPassword items)"

definition WritePortableBackupFile ::
  "backup_env \<Rightarrow> io_env \<Rightarrow> bool \<Rightarrow> string \<Rightarrow> backup_disk_file option \<Rightarrow> disk \<Rightarrow> bytes \<Rightarrow>
   backup_disk_file option \<times> (backup_error + unit)" where
  "WritePortableBackupFile env io nil path target d backupPassword =
     write_cache_backup_file env io nil path target d backupPassword None"

definition WritePortableBackupFileWithItems ::
  "backup_env \<Rightarrow> io_env \<Rightarrow> bool \<Rightarrow> string \<Rightarrow> backup_disk_file option \<Rightarrow> disk \<Rightarrow> bytes \<Rightarrow> native_item list option \<Rightarrow>
   backup_disk_file option \<times> (backup_error + unit)" where
  "WritePortableBackupFileWithItems env io nil path target d backupPassword items =
     write_cache_backup_file env io nil path target d backupPassword (items_or_empty items)"

section \<open>Snapshots\<close>

definition PortableBackupSnapshot :: "io_env \<Rightarrow> bool \<Rightarrow> disk \<Rightarrow> cache_error + portable_backup" where
  "PortableBackupSnapshot io nil d =
     (if nil then Inl ErrInvalidCache
      else bind_e (locked_read io d) (\<lambda>data.
        Inr \<lparr>pbAccountID = cAccountID data, pbEmail = cEmail data,
             pbPasswordVaultEnvelope = [] @ cPasswordVaultEnvelope data,
             pbRevisions = Some (cloneEncryptedRevisions (graph data)), pbMutations = cloneMutations (cMutations data),
             pbCursor = cCursor data, pbFormatVersion = 0, pbItems = None, pbFingerprint = []\<rparr>))"

definition portableBackupCacheData :: "portable_backup \<Rightarrow> backup_error + cache_file" where
  "portableBackupCacheData backup =
     (case pbRevisions backup of
        None \<Rightarrow> Inl InvalidBackup
      | Some g \<Rightarrow>
          if pbAccountID backup = [] \<or> pbEmail backup = [] \<or> length (pbPasswordVaultEnvelope backup) = 0
          then Inl InvalidBackup
          else let data = \<lparr>cVersion = cacheFormatVersion, cAccountID = pbAccountID backup, cEmail = pbEmail backup,
                     cPasswordVaultEnvelope = [] @ pbPasswordVaultEnvelope backup, cItems = fmempty,
                     cRevisions = Some (cloneEncryptedRevisions g), cMutations = cloneMutations (pbMutations backup),
                     cCursor = pbCursor backup, cRestoredBackups = []\<rparr>
               in if \<not> validateCacheData data then Inl InvalidBackup else Inr data)"

definition WritePortableBackupFileFromSnapshot ::
  "backup_env \<Rightarrow> io_env \<Rightarrow> bool \<Rightarrow> string \<Rightarrow> backup_disk_file option \<Rightarrow> bytes \<Rightarrow> portable_backup \<Rightarrow> native_item list option \<Rightarrow>
   backup_disk_file option \<times> (backup_error + unit)" where
  "WritePortableBackupFileFromSnapshot env io nil path target backupPassword snapshot items =
     (if nil then (target, Inl (BackupCache ErrInvalidCache))
      else case portableBackupCacheData snapshot of
        Inl e \<Rightarrow> (target, Inl e)
      | Inr data \<Rightarrow> writePortableBackupFile env io path target data backupPassword (items_or_empty items))"

section \<open>Reading\<close>

definition open_backup :: "backup_env \<Rightarrow> bytes \<Rightarrow> backup_file \<Rightarrow> bytes option" where
  "open_backup env backupPassword f =
     (let key = portableBackupKey env backupPassword (bfSalt f)
      in if length key \<noteq> KeySize then None
         else aeadOpen (bkCrypto env) key (bfNonce f) (bfCiphertext f) (portableBackupAssociatedData f))"

definition ReadPortableBackup :: "backup_env \<Rightarrow> bytes option \<Rightarrow> bytes \<Rightarrow> backup_error + portable_backup" where
  "ReadPortableBackup env input backupPassword =
     (case input of
        None \<Rightarrow> Inl InvalidBackup
      | Some encoded \<Rightarrow>
      if length backupPassword = 0 \<or> length encoded > portableBackupMaxFileSize then Inl InvalidBackup
      else case readFile env encoded of
        None \<Rightarrow> Inl InvalidBackup
      | Some f \<Rightarrow>
      if \<not> validPortableBackupFile f \<or> encoded \<noteq> marshalFile env f then Inl InvalidBackup
      else case open_backup env backupPassword f of
        None \<Rightarrow> Inl InvalidBackup
      | Some plaintext \<Rightarrow>
      case readPayload env plaintext of
        None \<Rightarrow> Inl InvalidBackup
      | Some payload \<Rightarrow>
      if bfVersion f \<noteq> bpVersion payload \<or> \<not> validPortableBackupPayload env payload then Inl InvalidBackup
      else Inr \<lparr>pbAccountID = bpAccountID payload, pbEmail = bpEmail payload,
                pbPasswordVaultEnvelope = [] @ bpEnvelope payload,
                pbRevisions = map_option cloneEncryptedRevisions (bpRevisions payload),
                pbMutations = cloneMutations (bpMutations payload), pbCursor = bpCursor payload,
                pbFormatVersion = bfVersion f, pbItems = cloneNativeItems env (bpItems payload),
                pbFingerprint = hex_bytes (sha256Sum env encoded)\<rparr>)"

definition ReadPortableBackupFile ::
  "backup_env \<Rightarrow> string \<Rightarrow> backup_disk_file option \<Rightarrow> bytes \<Rightarrow> backup_error + portable_backup" where
  "ReadPortableBackupFile env path target backupPassword =
     (if path = [] then Inl InvalidBackup
      else case target of
        None \<Rightarrow> Inl InvalidBackup
      | Some f \<Rightarrow>
          if \<not> bdRegular f \<or> bdPerm f \<noteq> private_mode \<or> length (bdBytes f) > portableBackupMaxFileSize
          then Inl InvalidBackup
          else ReadPortableBackup env (Some (bdBytes f)) backupPassword)"

section \<open>The heads of a backup\<close>

definition backup_item_heads :: "portable_backup \<Rightarrow> item_head list" where
  "backup_item_heads backup = all_heads (backup_graph backup)"

definition ConflictCount :: "portable_backup \<Rightarrow> nat" where
  "ConflictCount backup =
     length (filter (\<lambda>i. length (revisionHeads (revisionsAt (backup_graph backup) i)) > 1)
       (sorted_list_of_fset (fmdom (backup_graph backup))))"

section \<open>What the file promises\<close>

text \<open>The documented behaviour of the cipher, and of JSON on this payload: an empty list of items is
  left out of the text and comes back as nil, everything else comes back as it was.\<close>

definition backup_env_ok :: "backup_env \<Rightarrow> bool" where
  "backup_env_ok env \<longleftrightarrow>
     (\<forall>k n p a. aeadOpen (bkCrypto env) k n (aeadSeal (bkCrypto env) k n p a) a = Some p) \<and>
     (\<forall>k n p a. p \<noteq> [] \<longrightarrow> length (aeadSeal (bkCrypto env) k n p a) > Overhead) \<and>
     (\<forall>m info. length (hkdf (bkCrypto env) m info) = KeySize) \<and>
     (\<forall>w n b. randRead (bkCrypto env) w n = Some b \<longrightarrow> length b = n) \<and>
     (\<forall>f. validPortableBackupFile f \<longrightarrow> readFile env (marshalFile env f) = Some f)"

definition omit_empty :: "native_item list option \<Rightarrow> native_item list option" where
  "omit_empty items = (if items = Some [] then None else items)"

definition backup_payload_of :: "cache_file \<Rightarrow> native_item list option \<Rightarrow> backup_payload" where
  "backup_payload_of data items =
     \<lparr>bpVersion = (if items = None then portableBackupLegacyVersion else portableBackupFormatVersion),
      bpAccountID = cAccountID data, bpEmail = cEmail data, bpEnvelope = cPasswordVaultEnvelope data,
      bpRevisions = cRevisions data, bpMutations = cMutations data, bpCursor = cCursor data, bpItems = items\<rparr>"

definition payload_faithful :: "backup_env \<Rightarrow> backup_payload \<Rightarrow> bool" where
  "payload_faithful env p \<longleftrightarrow>
     (\<forall>b. marshalPayload env p = Some b \<longrightarrow> b \<noteq> [] \<and> readPayload env b = Some (p\<lparr>bpItems := omit_empty (bpItems p)\<rparr>)) \<and>
     (\<forall>x \<in> set (case bpItems p of None \<Rightarrow> [] | Some xs \<Rightarrow> xs). cloneNativeItem env x = Some x)"

lemma clone_valid_graph: "valid_graph g \<Longrightarrow> cloneEncryptedRevisions g = g"
proof (rule fmap_ext)
  fix i assume v: "valid_graph g"
  show "fmlookup (cloneEncryptedRevisions g) i = fmlookup g i"
  proof (cases "fmlookup g i")
    case (Some vs)
    with v obtain revs where "vs = Some revs" by (auto simp: valid_graph_def)
    moreover have "fmmap cloneEncryptedItem revs = revs" by (rule fmap_ext) (simp add: option.map_ident)
    ultimately show ?thesis using Some by (simp add: cloneEncryptedRevisions_def)
  qed (simp add: cloneEncryptedRevisions_def)
qed

lemma clone_items: "\<forall>x \<in> set xs. cloneNativeItem env x = Some x \<Longrightarrow> those (map (cloneNativeItem env) xs) = Some xs"
  by (induction xs) auto

text \<open>The encoded file is one that the reader accepts and opens to the payload.\<close>

lemma encode_backup_parts:
  assumes e: "encode_backup env data password items = Inr encoded" and ok: "backup_env_ok env"
    and json: "payload_faithful env (backup_payload_of data items)"
  obtains f payload where "marshalPayload env (backup_payload_of data items) = Some payload"
    "validPortableBackupFile f" "encoded = marshalFile env f" "length encoded \<le> portableBackupMaxFileSize"
    "bfVersion f = bpVersion (backup_payload_of data items)" "open_backup env password f = Some payload"
    "\<And>xs. items = Some xs \<Longrightarrow> length xs = expected_items (graph data) \<and> list_all (validPortableBackupNativeItem env) xs"
proof -
  let ?p = "backup_payload_of data items"
  let ?f = "\<lambda>salt nonce ct. \<lparr>bfMagic = portableBackupMagic, bfVersion = bpVersion ?p, bfKDF = portableBackupKDF,
               bfMemoryKiB = portableBackupMemoryKiB, bfPasses = portableBackupPasses,
               bfParallelism = portableBackupParallelism, bfSalt = salt, bfNonce = nonce, bfCiphertext = ct\<rparr>"
  from e obtain payload salt nonce ct where p: "marshalPayload env ?p = Some payload"
    and salt: "randRead (bkCrypto env) ''backup salt'' portableBackupSaltSize = Some salt"
    and nonce: "randRead (bkCrypto env) ''backup nonce'' NonceSizeX = Some nonce"
    and ct: "ct = aeadSeal (bkCrypto env) (portableBackupKey env password salt) nonce payload
        (portableBackupAssociatedData (?f salt nonce []))"
    and enc: "encoded = marshalFile env (?f salt nonce ct)" "length encoded \<le> portableBackupMaxFileSize"
    and items: "\<And>xs. items = Some xs \<Longrightarrow> length xs = expected_items (graph data) \<and> list_all (validPortableBackupNativeItem env) xs"
    by (auto simp: encode_backup_def backup_payload_of_def bind_e_Inr_iff guard_e_def Let_def split: option.splits if_splits)
  have ad: "portableBackupAssociatedData (?f salt nonce ct) = portableBackupAssociatedData (?f salt nonce [])"
    by (simp add: portableBackupAssociatedData_def)
  from p json have "payload \<noteq> []" by (simp add: payload_faithful_def)
  with ok ct salt nonce have v: "validPortableBackupFile (?f salt nonce ct)"
    by (auto simp: validPortableBackupFile_def backup_env_ok_def backup_payload_of_def)
  from ok have o: "open_backup env password (?f salt nonce ct) = Some payload"
    by (simp add: open_backup_def ad ct[symmetric] portableBackupKey_def derivePurposeKey_def backup_env_ok_def Let_def)
      (simp add: ct portableBackupKey_def derivePurposeKey_def)
  from that[OF p v enc _ o items] show thesis by simp
qed

end
