(* ===== verification/ImportItems.thy ===== *)
theory ImportItems
  imports PortableBackup
begin

text \<open>
  What every import shares (\<open>internal/client/import.go\<close>): the semantic key that recognises a
  record already in the vault and the name given to a duplicate; and the import of a backup into another
  vault (\<open>internal/client/backup.go\<close>). The Unicode functions of \<open>strings\<close>,
  \<open>net/url\<close> and \<open>encoding/json\<close> are parameters.
\<close>

section \<open>Parameters\<close>

datatype json = JsonOther bytes | JsonObject "(string, json) fmap"

record import_url =
  iuScheme :: string
  iuHost :: string
  iuPath :: string
  iuRest :: string

datatype import_semantic =
  LoginSemantic string string "password_history_entry list" "string list" string "custom_field list" "totp_config option"
| NoteSemantic string
| GenericSemantic string string "(string, json) fmap option"

record import_env = backup_env +
  textLower :: "string \<Rightarrow> string"
  textUpper :: "string \<Rightarrow> string"
  textTrim :: "string \<Rightarrow> string"
  textFields :: "string \<Rightarrow> string list"
  parseImportURL :: "string \<Rightarrow> import_url option"
  importURLString :: "import_url \<Rightarrow> string"
  parseObject :: "bytes \<Rightarrow> (string, json) fmap option option"
  marshalSemantic :: "import_semantic \<Rightarrow> bytes option"

record import_counts =
  icLogins :: nat
  icSecureNotes :: nat
  icFolders :: nat
  icGeneric :: nat

record import_issue =
  isItem :: nat
  isField :: string
  isMessage :: string

record import_preview =
  ipItems :: "native_item list"
  ipCounts :: import_counts
  ipUnmappedFields :: "import_issue list"
  ipErrors :: "import_issue list"

datatype import_error = ImportInvalidItem | ImportRandom | ImportEncode

section \<open>Semantic keys\<close>

fun replace_crlf :: "string \<Rightarrow> string" where
  "replace_crlf (a # b # cs) = (if a = CHR 0x0D \<and> b = CHR 0x0A then b # replace_crlf cs else a # replace_crlf (b # cs))"
| "replace_crlf cs = cs"

definition normalizeImportText :: "('a import_env_scheme) \<Rightarrow> string \<Rightarrow> string" where
  "normalizeImportText env value = textTrim env (replace_crlf value)"

definition normalizeImportURL :: "('a import_env_scheme) \<Rightarrow> string \<Rightarrow> string" where
  "normalizeImportURL env value =
     (let value = textTrim env value
      in case parseImportURL env value of
           None \<Rightarrow> value
         | Some u \<Rightarrow>
             let u = u\<lparr>iuScheme := textLower env (iuScheme u), iuHost := textLower env (iuHost u)\<rparr>;
                 u = (if iuPath u = ''/'' then u\<lparr>iuPath := []\<rparr> else u)
             in importURLString env u)"

definition normalize_field :: "('a import_env_scheme) \<Rightarrow> custom_field \<Rightarrow> custom_field" where
  "normalize_field env field =
     field\<lparr>cfName := textLower env (textTrim env (cfName field)), cfValue := normalizeImportText env (cfValue field)\<rparr>"

definition normalize_totp :: "('a import_env_scheme) \<Rightarrow> totp_config \<Rightarrow> totp_config" where
  "normalize_totp env config =
     config\<lparr>totpSecret := textUpper env (concat (textFields env (totpSecret config))),
            totpIssuer := textTrim env (totpIssuer config), totpAccount := textTrim env (totpAccount config)\<rparr>"

definition login_semantic :: "('a import_env_scheme) \<Rightarrow> login_item \<Rightarrow> import_semantic" where
  "login_semantic env l =
     LoginSemantic (textLower env (textTrim env (lUsername l))) (lPassword l) (lPasswordHistory l)
       (sort (map (normalizeImportURL env) (lURLs l))) (normalizeImportText env (lNotes l))
       (sort_key (\<lambda>field. (cfName field, cfValue field)) (map (normalize_field env) (lCustomFields l)))
       (map_option (normalize_totp env) (lTOTP l))"

definition overview_fields :: "string list" where
  "overview_fields = [''title'', ''subtitle'', ''ps'', ''pbe'', ''pgrng'']"

definition strip_overview :: "(string, json) fmap \<Rightarrow> (string, json) fmap" where
  "strip_overview data =
     (case fmlookup data ''overview'' of
        Some (JsonObject overview) \<Rightarrow> fmupd ''overview'' (JsonObject (fold fmdrop overview_fields overview)) data
      | _ \<Rightarrow> data)"

definition metadata_fields :: "string \<Rightarrow> string list" where
  "metadata_fields source =
     [''id'', ''name'', ''folderId'', ''favorite''] @
     (if source = ''bitwarden'' then [''organizationId'', ''collectionIds'', ''creationDate'', ''revisionDate'', ''deletedDate'']
      else if source = ''1password'' then [''uuid'', ''favIndex'', ''createdAt'', ''updatedAt'', ''state'']
      else [])"

definition generic_data :: "string \<Rightarrow> (string, json) fmap \<Rightarrow> (string, json) fmap" where
  "generic_data source data =
     fold fmdrop (metadata_fields source) (if source = ''1password'' then strip_overview data else data)"

definition semantic_of :: "('a import_env_scheme) \<Rightarrow> native_item \<Rightarrow> import_semantic option" where
  "semantic_of env item =
     (if niType item = NativeItemTypeLogin then map_option (login_semantic env) (niLogin item)
      else if niType item = NativeItemTypeSecureNote then
        map_option (\<lambda>n. NoteSemantic (normalizeImportText env (nContent n))) (niSecureNote item)
      else if niType item = NativeItemTypeGeneric then
        (case niGeneric item of
           None \<Rightarrow> None
         | Some g \<Rightarrow>
             (case parseObject env (gData g) of
                None \<Rightarrow> None
              | Some data \<Rightarrow> Some (GenericSemantic (gSource g) (gSourceType g) (map_option (generic_data (gSource g)) data))))
      else None)"

definition importSemanticKey :: "('a import_env_scheme) \<Rightarrow> native_item \<Rightarrow> bytes option" where
  "importSemanticKey env item =
     (case semantic_of env item of
        None \<Rightarrow> None
      | Some semantic \<Rightarrow>
          (case marshalSemantic env semantic of
             None \<Rightarrow> None
           | Some encoded \<Rightarrow> Some (sha256Sum (backup_env.truncate env) encoded)))"

section \<open>Duplicates\<close>

definition count_of :: "(bytes, nat) fmap \<Rightarrow> bytes \<Rightarrow> nat" where
  "count_of counts key = (case fmlookup counts key of None \<Rightarrow> 0 | Some n \<Rightarrow> n)"

definition importDuplicateCounts :: "('a import_env_scheme) \<Rightarrow> native_item list \<Rightarrow> (bytes, nat) fmap" where
  "importDuplicateCounts env existing =
     fold (\<lambda>item counts. case importSemanticKey env item of
             None \<Rightarrow> counts
           | Some key \<Rightarrow> fmupd key (count_of counts key + 1) counts) existing fmempty"

definition duplicate_suffix :: "nat \<Rightarrow> string" where
  "duplicate_suffix n = '' (Duplicada)'' @ (if n > 1 then '' - '' @ dec n else [])"

definition add_suffix :: "string \<Rightarrow> native_item \<Rightarrow> native_item" where
  "add_suffix suffix item =
     (if niType item = NativeItemTypeLogin then
        item\<lparr>niLogin := map_option (\<lambda>l. l\<lparr>lName := lName l @ suffix\<rparr>) (niLogin item)\<rparr>
      else if niType item = NativeItemTypeSecureNote then
        item\<lparr>niSecureNote := map_option (\<lambda>n. n\<lparr>nTitle := nTitle n @ suffix\<rparr>) (niSecureNote item)\<rparr>
      else if niType item = NativeItemTypeGeneric then
        item\<lparr>niGeneric := map_option (\<lambda>g. g\<lparr>gTitle := gTitle g @ suffix\<rparr>) (niGeneric item)\<rparr>
      else item)"

definition nameImportDuplicate ::
  "('a import_env_scheme) \<Rightarrow> native_item \<Rightarrow> (bytes, nat) fmap \<Rightarrow> native_item \<times> (bytes, nat) fmap" where
  "nameImportDuplicate env item counts =
     (case importSemanticKey env item of
        None \<Rightarrow> (item, counts)
      | Some key \<Rightarrow>
          let n = count_of counts key
          in (if n > 0 then add_suffix (duplicate_suffix n) item else item, fmupd key (n + 1) counts))"

section \<open>Stable identifiers\<close>

definition bytes_text :: "bytes \<Rightarrow> string" where
  "bytes_text b = map (\<lambda>x. char_of (unat x)) b"

definition deterministicItemID :: "('a backup_env_scheme) \<Rightarrow> string \<Rightarrow> string \<Rightarrow> uuid" where
  "deterministicItemID env namespace key =
     (let digest = sha256Sum env (string_bytes (''termkeep/portable-import/'' @ namespace @ [CHR 0x00] @ key))
      in format_uuid (set_version_bits (take 16 digest)))"

definition DeterministicItemID :: "('a backup_env_scheme) \<Rightarrow> string \<Rightarrow> string \<Rightarrow> uuid" where
  "DeterministicItemID env namespace key = (if namespace = [] then [] else deterministicItemID env namespace key)"

section \<open>Comparison up to the name\<close>

definition clear_name :: "native_item \<Rightarrow> native_item" where
  "clear_name item =
     (if niType item = NativeItemTypeLogin then item\<lparr>niLogin := map_option (\<lambda>l. l\<lparr>lName := []\<rparr>) (niLogin item)\<rparr>
      else if niType item = NativeItemTypeSecureNote then
        item\<lparr>niSecureNote := map_option (\<lambda>n. n\<lparr>nTitle := []\<rparr>) (niSecureNote item)\<rparr>
      else if niType item = NativeItemTypeFolder then
        item\<lparr>niFolder := map_option (\<lambda>f. f\<lparr>fName := []\<rparr>) (niFolder item)\<rparr>
      else if niType item = NativeItemTypeGeneric then
        item\<lparr>niGeneric := map_option (\<lambda>g. g\<lparr>gTitle := []\<rparr>) (niGeneric item)\<rparr>
      else item)"

definition restoreComparisonItem :: "backup_env \<Rightarrow> native_item \<Rightarrow> native_item" where
  "restoreComparisonItem env item = (case cloneNativeItem env item of None \<Rightarrow> no_item | Some clone \<Rightarrow> clear_name clone)"

definition sameNativeItem :: "backup_env \<Rightarrow> native_item \<Rightarrow> native_item \<Rightarrow> bool" where
  "sameNativeItem env left right =
     (let l = marshalNative env (restoreComparisonItem env left); r = marshalNative env (restoreComparisonItem env right)
      in l \<noteq> None \<and> r \<noteq> None \<and> l = r)"

section \<open>Preparing an import\<close>

definition source_key :: "backup_env \<Rightarrow> native_item \<Rightarrow> string \<Rightarrow> import_error + string" where
  "source_key env source oldID =
     (if oldID = [] then option_e ImportEncode (map_option bytes_text (marshalNative env source)) else Inr oldID)"

definition new_id ::
  "backup_env \<Rightarrow> (nat \<Rightarrow> bytes option) \<Rightarrow> string \<Rightarrow> nat \<Rightarrow> native_item \<Rightarrow> string \<Rightarrow> import_error + uuid" where
  "new_id env rnd namespace index source oldID =
     (if namespace = [] then option_e ImportRandom (NewItemID (rnd index))
      else bind_e (source_key env source oldID) (\<lambda>key.
        Inr (deterministicItemID env namespace (key @ [CHR 0x00] @ dec index))))"

definition prepare_item ::
  "backup_env \<Rightarrow> (nat \<Rightarrow> bytes option) \<Rightarrow> string \<Rightarrow> nat \<Rightarrow> native_item \<Rightarrow> (string, string) fmap \<Rightarrow>
   import_error + (native_item \<times> (string, string) fmap)" where
  "prepare_item env rnd namespace index source folderIDs =
     bind_e (option_e ImportEncode (cloneNativeItem env source)) (\<lambda>item.
     bind_e (option_e ImportInvalidItem (nativeItemID item)) (\<lambda>oldID.
     bind_e (new_id env rnd namespace index source oldID) (\<lambda>newID.
     let folderIDs = (if oldID \<noteq> [] \<and> niType item = NativeItemTypeFolder \<and> fmlookup folderIDs oldID = None
                      then fmupd oldID newID folderIDs else folderIDs)
     in bind_e (option_e ImportInvalidItem (setNativeItemID item newID)) (\<lambda>item. Inr (item, folderIDs)))))"

fun prepare_items ::
  "backup_env \<Rightarrow> (nat \<Rightarrow> bytes option) \<Rightarrow> string \<Rightarrow> nat \<Rightarrow> native_item list \<Rightarrow> (string, string) fmap \<Rightarrow>
   import_error + (native_item list \<times> (string, string) fmap)" where
  "prepare_items env rnd namespace index [] folderIDs = Inr ([], folderIDs)"
| "prepare_items env rnd namespace index (source # sources) folderIDs =
     bind_e (prepare_item env rnd namespace index source folderIDs) (\<lambda>(item, folderIDs).
     bind_e (prepare_items env rnd namespace (Suc index) sources folderIDs) (\<lambda>(items, folderIDs).
     Inr (item # items, folderIDs)))"

fun existing_by_id :: "native_item list \<Rightarrow> (string, native_item) fmap \<Rightarrow> import_error + (string, native_item) fmap" where
  "existing_by_id [] known = Inr known"
| "existing_by_id (item # items) known =
     bind_e (option_e ImportInvalidItem (nativeItemID item)) (\<lambda>i.
     existing_by_id items (if i \<noteq> [] then fmupd i item known else known))"

definition count_item :: "native_item \<Rightarrow> import_counts \<Rightarrow> import_counts option" where
  "count_item item counts =
     (if niType item = NativeItemTypeLogin then Some (counts\<lparr>icLogins := icLogins counts + 1\<rparr>)
      else if niType item = NativeItemTypeSecureNote then Some (counts\<lparr>icSecureNotes := icSecureNotes counts + 1\<rparr>)
      else if niType item = NativeItemTypeFolder then Some (counts\<lparr>icFolders := icFolders counts + 1\<rparr>)
      else if niType item = NativeItemTypeGeneric then Some (counts\<lparr>icGeneric := icGeneric counts + 1\<rparr>)
      else None)"

definition changed_locally :: "nat \<Rightarrow> import_issue" where
  "changed_locally index =
     \<lparr>isItem = index + 1, isField = ''item_id'',
      isMessage = ''restored Item was changed locally; resolve the conflict before retrying''\<rparr>"

definition no_counts :: import_counts where
  "no_counts = \<lparr>icLogins = 0, icSecureNotes = 0, icFolders = 0, icGeneric = 0\<rparr>"

fun select_items ::
  "import_env \<Rightarrow> string \<Rightarrow> (string, native_item) fmap \<Rightarrow> nat \<Rightarrow> native_item list \<Rightarrow> (bytes, nat) fmap \<Rightarrow>
   import_preview \<Rightarrow> import_error + import_preview" where
  "select_items env namespace known index [] duplicates preview = Inr preview"
| "select_items env namespace known index (item # items) duplicates preview =
     bind_e (option_e ImportInvalidItem (nativeItemID item)) (\<lambda>i.
     case (if namespace \<noteq> [] then fmlookup known i else None) of
       Some current \<Rightarrow>
         if sameNativeItem (backup_env.truncate env) current item
         then select_items env namespace known (Suc index) items duplicates preview
         else select_items env namespace known (Suc index) items duplicates
                (preview\<lparr>ipErrors := ipErrors preview @ [changed_locally index]\<rparr>)
     | None \<Rightarrow>
         (case nameImportDuplicate env item duplicates of (item, duplicates) \<Rightarrow>
          bind_e (option_e ImportInvalidItem (count_item item (ipCounts preview))) (\<lambda>counts.
          select_items env namespace known (Suc index) items duplicates
            (preview\<lparr>ipItems := ipItems preview @ [item], ipCounts := counts\<rparr>))))"

definition preparePortableBackupImport ::
  "import_env \<Rightarrow> (nat \<Rightarrow> bytes option) \<Rightarrow> native_item list \<Rightarrow> native_item list \<Rightarrow> string \<Rightarrow> import_error + import_preview" where
  "preparePortableBackupImport env rnd items existing namespace =
     bind_e (if namespace \<noteq> [] then existing_by_id existing fmempty else Inr fmempty) (\<lambda>known.
     bind_e (prepare_items (backup_env.truncate env) rnd namespace 0 items fmempty) (\<lambda>(prepared, folderIDs).
     bind_e (option_e ImportInvalidItem (those (map (\<lambda>item. remapNativeFolderID item folderIDs) prepared))) (\<lambda>prepared.
     select_items env namespace known 0 prepared (importDuplicateCounts env existing)
       \<lparr>ipItems = [], ipCounts = no_counts, ipUnmappedFields = [], ipErrors = []\<rparr>)))"

definition PreparePortableBackupImport ::
  "import_env \<Rightarrow> (nat \<Rightarrow> bytes option) \<Rightarrow> native_item list \<Rightarrow> native_item list \<Rightarrow> import_error + import_preview" where
  "PreparePortableBackupImport env rnd items existing = preparePortableBackupImport env rnd items existing []"

definition PreparePortableBackupImportWithNamespace ::
  "import_env \<Rightarrow> (nat \<Rightarrow> bytes option) \<Rightarrow> native_item list \<Rightarrow> native_item list \<Rightarrow> string \<Rightarrow> import_error + import_preview" where
  "PreparePortableBackupImportWithNamespace env rnd items existing namespace =
     (if namespace = [] then PreparePortableBackupImport env rnd items existing
      else preparePortableBackupImport env rnd items existing namespace)"

end
