(* ===== verification/BackupProps.thy ===== *)
theory BackupProps
  imports ImportItems CacheProps
begin

text \<open>
  What backups promise: a written file opens with its password and restores the cache as it was, and
  importing the same backup a second time adds nothing.
\<close>

section \<open>Backup files\<close>


lemma backup_opens:
  assumes ok: "backup_env_ok env" and json: "payload_faithful env (backup_payload_of data items)"
    and e: "encode_backup env data password items = Inr encoded" and v: "validateCacheData data"
  shows "ReadPortableBackup env (Some encoded) password =
    (if password = [] then Inl InvalidBackup
     else Inr \<lparr>pbAccountID = cAccountID data, pbEmail = cEmail data,
               pbPasswordVaultEnvelope = cPasswordVaultEnvelope data, pbRevisions = Some (graph data),
               pbMutations = cMutations data, pbCursor = cCursor data,
               pbFormatVersion = bpVersion (backup_payload_of data items), pbItems = omit_empty items,
               pbFingerprint = hex_bytes (sha256Sum env encoded)\<rparr>)"
proof -
  from encode_backup_parts[OF e ok json] obtain f payload where
    p: "marshalPayload env (backup_payload_of data items) = Some payload" "validPortableBackupFile f"
      "encoded = marshalFile env f" "length encoded \<le> portableBackupMaxFileSize"
      "bfVersion f = bpVersion (backup_payload_of data items)" "open_backup env password f = Some payload"
    and items: "\<And>xs. items = Some xs \<Longrightarrow> length xs = expected_items (graph data) \<and> list_all (validPortableBackupNativeItem env) xs"
    by metis
  from ok p(2,3) have rf: "readFile env encoded = Some f" by (simp add: backup_env_ok_def)
  let ?p = "(backup_payload_of data items)\<lparr>bpItems := omit_empty items\<rparr>"
  from json p(1) have rp: "readPayload env payload = Some ?p" by (simp add: payload_faithful_def backup_payload_of_def)
  from v obtain g where g: "cRevisions data = Some g" "graph data = g" "valid_graph g"
    by (auto simp: validateCacheData_iff graph_def)
  have pc: "validateCacheData (payload_cache ?p)"
    using v g by (simp add: validateCacheData_iff payload_cache_def backup_payload_of_def graph_def)
  have "validPortableBackupPayload env ?p"
    using v g items pc
    by (cases items) (auto simp: validPortableBackupPayload_def backup_payload_of_def omit_empty_def validateCacheData_iff
        portableBackupLegacyVersion_def portableBackupFormatVersion_def)
  moreover have "cloneNativeItems env (omit_empty items) = omit_empty items"
    using json by (cases items) (auto simp: cloneNativeItems_def omit_empty_def payload_faithful_def backup_payload_of_def clone_items)
  ultimately show ?thesis
    using p(2-6) rf rp g clone_valid_graph[OF g(3)]
    by (simp add: ReadPortableBackup_def backup_payload_of_def)
qed

lemma written_backup:
  assumes "writePortableBackupFile env io path target data password items = (target', Inr ())"
  obtains encoded where "path \<noteq> []" "encode_backup env data password items = Inr encoded"
    "target' = Some \<lparr>bdRegular = True, bdPerm = private_mode, bdBytes = encoded\<rparr>"
  using assms
  by (auto simp: writePortableBackupFile_def writePortableBackup_def bind_e_def Let_def split: sum.splits if_splits)

lemma restore_replaces:
  assumes r: "RestorePortableState io nil d backup = (d', Inr ())" and s: "small_file d'" and g: "valid_graph (backup_graph backup)"
  shows "\<exists>data. readCacheFile io d' = Inr data \<and> cAccountID data = pbAccountID backup \<and> graph data = backup_graph backup \<and>
    cMutations data = pbMutations backup \<and> cCursor data = pbCursor backup"
proof -
  from r have u: "locked_update io (restore_op backup) d = (d', Inr ())"
    by (auto simp: RestorePortableState_def split: if_splits)
  have valid: "validateCacheData data'"
    if "readCacheFile io d = Inr data" "restore_op backup data = Inr (Some data', x)" for data data' x
    using that(2) by (auto simp: restore_op_def Let_def split: if_splits)
  from locked_update_success[OF u s valid] obtain data o' where
    rd: "restore_op backup data = Inr (o', ())" and
    d': "o' = None \<and> d' = d \<or> (\<exists>data'. o' = Some data' \<and> readCacheFile io d' = Inr (stored_form data'))" by fast
  from rd d' show ?thesis
    using clone_valid_graph[OF g] by (auto simp: restore_op_def Let_def graph_def split: if_splits)
qed

lemma restore_accepted:
  assumes io: "\<not> lockFails io" "\<And>st. \<not> stepFails io st" and rd: "readCacheFile io d = Inr data"
    and fresh: "cAccountID data = pbAccountID backup" "graph data = fmempty" "cMutations data = []" "cCursor data = []"
    and v: "valid_graph (backup_graph backup)" "\<forall>m \<in> set (pbMutations backup). validMutationEntry m" "pbRevisions backup \<noteq> None"
  shows "\<exists>d'. RestorePortableState io False d backup = (d', Inr ())"
proof -
  from readCacheFile_valid[OF rd] have data: "validateCacheData data" .
  then have acc: "pbAccountID backup \<noteq> []" using fresh(1) by (simp add: validateCacheData_iff)
  have "\<exists>data'. restore_op backup data = Inr (Some data', ())"
    using fresh data v clone_valid_graph[OF v(1)]
    by (auto simp: restore_op_def Let_def validateCacheData_iff graph_def)
  with io rd v(3) acc show ?thesis
    by (auto simp: RestorePortableState_def locked_update_def transact_def writeCacheFile_def Let_def)
qed

text \<open>What the snapshot of a cache writes is what the cache itself would write.\<close>

lemma snapshot_data:
  assumes s: "PortableBackupSnapshot io False d = Inr snapshot"
    and w: "WritePortableBackupFileFromSnapshot env io False path target password snapshot items = (target', Inr ())"
    and rd: "locked_read io d = Inr data"
  obtains data' where "validateCacheData data'"
    "writePortableBackupFile env io path target data' password (items_or_empty items) = (target', Inr ())"
    "graph data' = graph data" "cMutations data' = cMutations data" "cCursor data' = cCursor data"
    "cAccountID data' = cAccountID data" "cEmail data' = cEmail data"
    "cPasswordVaultEnvelope data' = cPasswordVaultEnvelope data"
    "backup_payload_of data' = backup_payload_of data"
proof -
  from s rd have d: "snapshot = \<lparr>pbAccountID = cAccountID data, pbEmail = cEmail data, pbPasswordVaultEnvelope = cPasswordVaultEnvelope data,
       pbRevisions = Some (cloneEncryptedRevisions (graph data)), pbMutations = cMutations data,
       pbCursor = cCursor data, pbFormatVersion = 0, pbItems = None, pbFingerprint = []\<rparr>"
    by (auto simp: PortableBackupSnapshot_def bind_e_Inr_iff)
  have v: "validateCacheData data" using rd readCacheFile_valid by (auto simp: locked_read_def split: if_splits)
  then have g: "cloneEncryptedRevisions (graph data) = graph data"
    by (auto simp: validateCacheData_iff intro: clone_valid_graph)
  let ?data = "\<lparr>cVersion = cacheFormatVersion, cAccountID = cAccountID data, cEmail = cEmail data,
     cPasswordVaultEnvelope = cPasswordVaultEnvelope data, cItems = fmempty, cRevisions = Some (graph data),
     cMutations = cMutations data, cCursor = cCursor data, cRestoredBackups = []\<rparr>"
  from w have ok: "validateCacheData ?data"
    "writePortableBackupFile env io path target ?data password (items_or_empty items) = (target', Inr ())"
    by (auto simp: WritePortableBackupFileFromSnapshot_def portableBackupCacheData_def d g Let_def split: if_splits)
  from v have "cRevisions data = Some (graph data)" by (auto simp: validateCacheData_iff graph_def)
  then have "backup_payload_of ?data xs = backup_payload_of data xs" for xs by (simp add: backup_payload_of_def)
  then have "backup_payload_of ?data = backup_payload_of data" by (rule ext)
  from that[OF ok _ _ _ _ _ _ this] show thesis by (simp add: graph_def)
qed

text \<open>C33: A backup restores the vault. A backup that was written from a snapshot of the cache without an
  error opens with its password to the account, the items, the graph, the queue and the cursor the
  cache had; any empty cache of the account accepts it, and afterwards holds exactly that graph,
  queue and cursor. A file written with an empty password, which the writer accepts, never opens.\<close>

theorem portable_backup_restores:
  assumes ok: "backup_env_ok env" and rd: "locked_read io d = Inr data"
    and json: "payload_faithful env (backup_payload_of data (items_or_empty items))"
    and s: "PortableBackupSnapshot io False d = Inr snapshot"
    and w: "WritePortableBackupFileFromSnapshot env io False path target password snapshot items = (target', Inr ())"
  shows "if password = [] then ReadPortableBackupFile env path target' password = Inl InvalidBackup
    else \<exists>backup. ReadPortableBackupFile env path target' password = Inr backup \<and>
      pbEmail backup = cEmail data \<and> pbPasswordVaultEnvelope backup = cPasswordVaultEnvelope data \<and>
      pbItems backup = omit_empty (items_or_empty items) \<and>
      (\<forall>io2 d2 data2. \<not> lockFails io2 \<and> (\<forall>st. \<not> stepFails io2 st) \<and> readCacheFile io2 d2 = Inr data2 \<and>
         cAccountID data2 = cAccountID data \<and> graph data2 = fmempty \<and> cMutations data2 = [] \<and> cCursor data2 = [] \<longrightarrow>
         (\<exists>d3. RestorePortableState io2 False d2 backup = (d3, Inr ()))) \<and>
      (\<forall>io2 d2 d3. RestorePortableState io2 False d2 backup = (d3, Inr ()) \<and> small_file d3 \<longrightarrow>
         (\<exists>data3. readCacheFile io2 d3 = Inr data3 \<and> cAccountID data3 = cAccountID data \<and>
            graph data3 = graph data \<and> cMutations data3 = cMutations data \<and> cCursor data3 = cCursor data))"
proof -
  obtain data' where v: "validateCacheData data'"
    and wf: "writePortableBackupFile env io path target data' password (items_or_empty items) = (target', Inr ())"
    and same: "graph data' = graph data" "cMutations data' = cMutations data" "cCursor data' = cCursor data"
    "cAccountID data' = cAccountID data" "cEmail data' = cEmail data" "cPasswordVaultEnvelope data' = cPasswordVaultEnvelope data"
    and pl: "backup_payload_of data' = backup_payload_of data"
    by (rule snapshot_data[OF s w rd])
  from written_backup[OF wf] obtain encoded where e: "path \<noteq> []"
    "encode_backup env data' password (items_or_empty items) = Inr encoded"
    "target' = Some \<lparr>bdRegular = True, bdPerm = private_mode, bdBytes = encoded\<rparr>" by metis
  note opens = backup_opens[OF ok _ e(2) v, unfolded pl, OF json, unfolded same]
  have g: "valid_graph (graph data)" "\<forall>m \<in> set (cMutations data). validMutationEntry m"
    using v same by (simp_all add: validateCacheData_iff)
  from encode_backup_parts[OF e(2) ok] json pl have "length encoded \<le> portableBackupMaxFileSize" by metis
  with e(1,3) have r: "ReadPortableBackupFile env path target' password = ReadPortableBackup env (Some encoded) password"
    by (simp add: ReadPortableBackupFile_def)
  show ?thesis
  proof (cases "password = []")
    case True
    with r opens show ?thesis by simp
  next
    case False
    obtain backup where b: "ReadPortableBackup env (Some encoded) password = Inr backup"
      "pbAccountID backup = cAccountID data" "pbEmail backup = cEmail data"
      "pbPasswordVaultEnvelope backup = cPasswordVaultEnvelope data" "pbRevisions backup = Some (graph data)"
      "pbMutations backup = cMutations data" "pbCursor backup = cCursor data"
      "pbItems backup = omit_empty (items_or_empty items)"
      using opens False by simp
    have bg: "backup_graph backup = graph data" by (simp add: backup_graph_def b(5))
    have accepted: "\<exists>d3. RestorePortableState io2 False d2 backup = (d3, Inr ())"
      if "\<not> lockFails io2" "\<forall>st. \<not> stepFails io2 st" "readCacheFile io2 d2 = Inr data2"
         "cAccountID data2 = cAccountID data" "graph data2 = fmempty" "cMutations data2 = []" "cCursor data2 = []" for io2 d2 data2
      by (rule restore_accepted) (use that b g bg in auto)
    have replaced: "\<exists>data3. readCacheFile io2 d3 = Inr data3 \<and> cAccountID data3 = cAccountID data \<and>
            graph data3 = graph data \<and> cMutations data3 = cMutations data \<and> cCursor data3 = cCursor data"
      if "RestorePortableState io2 False d2 backup = (d3, Inr ())" "small_file d3" for io2 d2 d3
      using restore_replaces[OF that] bg g b by simp
    show ?thesis using False r b accepted replaced by auto
  qed
qed

text \<open>An instance of the parameters that satisfies the assumptions, for the witnesses.\<close>

definition ones :: "bytes \<Rightarrow> nat" where
  "ones b = length (takeWhile (\<lambda>x. x = 1) b)"

definition pack :: "bytes \<Rightarrow> bytes \<Rightarrow> bytes" where
  "pack a p = replicate (length a) 1 @ [0] @ a @ p"

definition unpack :: "bytes \<Rightarrow> bytes \<times> bytes" where
  "unpack b = (take (ones b) (drop (ones b + 1) b), drop (ones b) (drop (ones b + 1) b))"

lemma unpack_pack [simp]: "unpack (pack a p) = (a, p)"
proof -
  have "ones (pack a p) = length a" by (simp add: ones_def pack_def takeWhile_append)
  then show ?thesis by (simp add: unpack_def pack_def)
qed

definition demo_primitives :: crypto_env where
  "demo_primitives = \<lparr>hkdf = (\<lambda>_ _. replicate 32 0), argon2 = (\<lambda>_ _ _ _ _. replicate 32 0),
     aeadSeal = (\<lambda>k n p a. replicate 17 0 @ pack a p),
     aeadOpen = (\<lambda>k n c a. if fst (unpack (drop 17 c)) = a then Some (snd (unpack (drop 17 c))) else None),
     randRead = (\<lambda>_ n. Some (replicate n 0)), marshalItem = (\<lambda>_. None), readHeader = (\<lambda>_. None),
     readLogin = (\<lambda>_. None), readNote = (\<lambda>_. None), readFolder = (\<lambda>_. None), readGeneric = (\<lambda>_. None),
     jsonValid = (\<lambda>_. True), marshalItemEnvelope = (\<lambda>_. None), readItemEnvelope = (\<lambda>_. None),
     marshalVaultEnvelope = (\<lambda>_. None), readVaultEnvelope = (\<lambda>_. None)\<rparr>"

definition demo_folder :: native_item where
  "demo_folder = folder_native \<lparr>fItemID = ''old'', fName = ''f''\<rparr>"

definition demo_backup_env :: backup_env where
  "demo_backup_env = \<lparr>bkCrypto = demo_primitives, marshalPayload = (\<lambda>_. Some [7]),
     readPayload = (\<lambda>_. Some (backup_payload_of sample_cache (Some [])\<lparr>bpItems := None\<rparr>)),
     marshalFile = (\<lambda>f. (if bfVersion f = 1 then 1 else 2) # pack (bfSalt f) (pack (bfNonce f) (bfCiphertext f))),
     readFile = (\<lambda>b. Some \<lparr>bfMagic = portableBackupMagic, bfVersion = (if b ! 0 = 1 then 1 else 2), bfKDF = portableBackupKDF,
        bfMemoryKiB = portableBackupMemoryKiB, bfPasses = portableBackupPasses, bfParallelism = portableBackupParallelism,
        bfSalt = fst (unpack (tl b)), bfNonce = fst (unpack (snd (unpack (tl b)))),
        bfCiphertext = snd (unpack (snd (unpack (tl b))))\<rparr>),
     marshalNative = (\<lambda>_. Some [1]), readNative = (\<lambda>_. Some demo_folder), sha256Sum = (\<lambda>_. replicate 32 9)\<rparr>"

lemma demo_backup_env_ok: "backup_env_ok demo_backup_env"
  by (auto simp: backup_env_ok_def demo_backup_env_def demo_primitives_def Overhead_def KeySize_def validPortableBackupFile_def
      portableBackupLegacyVersion_def portableBackupFormatVersion_def pack_def[symmetric] intro!: backup_file.equality)

lemma sample_cache_graph: "graph sample_cache = fmempty" "cRevisions sample_cache = Some fmempty"
  by (simp_all add: sample_cache_def graph_def)

definition sample_snapshot :: portable_backup where
  "sample_snapshot = \<lparr>pbAccountID = ''acc'', pbEmail = ''a@b'', pbPasswordVaultEnvelope = [1], pbRevisions = Some fmempty,
     pbMutations = [], pbCursor = [], pbFormatVersion = 0, pbItems = None, pbFingerprint = []\<rparr>"

lemma read_sample: "locked_read quiet_env (sample_disk sample_cache) = Inr sample_cache"
  by (simp add: locked_read_def read_sample_cache)

lemma clone_empty [simp]: "cloneEncryptedRevisions fmempty = fmempty"
  by (simp add: cloneEncryptedRevisions_def)

lemma take_snapshot: "PortableBackupSnapshot quiet_env False (sample_disk sample_cache) = Inr sample_snapshot"
  by (simp add: PortableBackupSnapshot_def read_sample sample_cache_graph)
    (simp add: sample_cache_def sample_snapshot_def)

lemma snapshot_cache: "portableBackupCacheData sample_snapshot = Inr sample_cache"
  using cache_wfD(2)[OF sample_cache_wf]
  by (simp add: portableBackupCacheData_def sample_snapshot_def sample_cache_def cacheFormatVersion_def)

lemma header_digits: "length (dec 2) = 1" "length (dec 65536) = 5" "length (dec 3) = 1" "length (dec 4) = 1"
  by (simp_all add: dec.simps)

lemma sample_encoded: "\<exists>encoded. encode_backup demo_backup_env sample_cache [5] (Some []) = Inr encoded"
  by (simp add: header_digits encode_backup_def sample_cache_graph demo_backup_env_def demo_primitives_def expected_items_def
      portableBackupKey_def derivePurposeKey_def KeySize_def pack_def portableBackupMaxFileSize_def
      portableBackupAssociatedData_def string_bytes_def portableBackupMagic_def portableBackupKDF_def
      portableBackupSaltSize_def NonceSizeX_def portableBackupFormatVersion_def portableBackupMemoryKiB_def
      portableBackupPasses_def portableBackupParallelism_def int_text_def bind_e_def guard_e_def Let_def)

lemma sample_written:
  "\<exists>target. WritePortableBackupFileFromSnapshot demo_backup_env quiet_env False ''b'' None [5] sample_snapshot None = (target, Inr ())"
proof -
  from sample_encoded obtain encoded where e: "encode_backup demo_backup_env sample_cache [5] (Some []) = Inr encoded" by blast
  show ?thesis
    by (simp add: WritePortableBackupFileFromSnapshot_def snapshot_cache items_or_empty_def writePortableBackupFile_def
        writePortableBackup_def e bind_e_def quiet_env_def Let_def)
qed

theorem portable_backup_restores_witness:
  "\<exists>target backup. WritePortableBackupFileFromSnapshot demo_backup_env quiet_env False ''b'' None [5]
       sample_snapshot None = (target, Inr ()) \<and>
     ReadPortableBackupFile demo_backup_env ''b'' target [5] = Inr backup \<and> pbEmail backup = ''a@b'' \<and>
     (\<exists>d3. RestorePortableState quiet_env False (sample_disk sample_cache) backup = (d3, Inr ()))"
proof -
  have json: "payload_faithful demo_backup_env (backup_payload_of sample_cache (items_or_empty None))"
    by (simp add: payload_faithful_def items_or_empty_def omit_empty_def demo_backup_env_def backup_payload_of_def)
  from sample_written obtain target where
    w: "WritePortableBackupFileFromSnapshot demo_backup_env quiet_env False ''b'' None [5] sample_snapshot None = (target, Inr ())" by blast
  from portable_backup_restores[OF demo_backup_env_ok read_sample json take_snapshot w] obtain backup where
    b: "ReadPortableBackupFile demo_backup_env ''b'' target [5] = Inr backup" "pbEmail backup = cEmail sample_cache"
    and r: "\<And>io2 d2 data2. \<not> lockFails io2 \<and> (\<forall>st. \<not> stepFails io2 st) \<and> readCacheFile io2 d2 = Inr data2 \<and>
         cAccountID data2 = cAccountID sample_cache \<and> graph data2 = fmempty \<and> cMutations data2 = [] \<and> cCursor data2 = [] \<longrightarrow>
         (\<exists>d3. RestorePortableState io2 False d2 backup = (d3, Inr ()))" by auto
  from r[of quiet_env "sample_disk sample_cache" sample_cache] have "\<exists>d3. RestorePortableState quiet_env False (sample_disk sample_cache) backup = (d3, Inr ())"
    by (simp add: read_sample_cache sample_cache_graph) (simp add: quiet_env_def sample_cache_def)
  moreover have "cEmail sample_cache = ''a@b''" by (simp add: sample_cache_def)
  ultimately show ?thesis using w b by metis
qed

section \<open>Importing a backup twice\<close>

text \<open>JSON treats the fields of a record independently: whatever a copy does to the name (bytes that are
  not UTF-8 are replaced), it does not touch the rest. A copy can be encoded again.\<close>

definition set_name :: "string \<Rightarrow> native_item \<Rightarrow> native_item" where
  "set_name name item =
     (if niType item = NativeItemTypeLogin then item\<lparr>niLogin := map_option (\<lambda>l. l\<lparr>lName := name\<rparr>) (niLogin item)\<rparr>
      else if niType item = NativeItemTypeSecureNote then
        item\<lparr>niSecureNote := map_option (\<lambda>n. n\<lparr>nTitle := name\<rparr>) (niSecureNote item)\<rparr>
      else if niType item = NativeItemTypeFolder then
        item\<lparr>niFolder := map_option (\<lambda>f. f\<lparr>fName := name\<rparr>) (niFolder item)\<rparr>
      else if niType item = NativeItemTypeGeneric then
        item\<lparr>niGeneric := map_option (\<lambda>g. g\<lparr>gTitle := name\<rparr>) (niGeneric item)\<rparr>
      else item)"

definition native_json_ok :: "backup_env \<Rightarrow> bool" where
  "native_json_ok env \<longleftrightarrow>
     (\<exists>repair. \<forall>x n. cloneNativeItem env (set_name n x) = map_option (set_name (repair n)) (cloneNativeItem env x)) \<and>
     (\<forall>x. marshalNative env (restoreComparisonItem env x) \<noteq> None)"

lemma clear_set_name: "clear_name (set_name n x) = clear_name x"
  by (auto simp: clear_name_def set_name_def native_type_defs option.map_comp comp_def intro!: native_item.equality)

lemma set_name_id: "nativeItemID (set_name n x) = nativeItemID x"
  by (auto simp: nativeItemID_def set_name_def native_type_defs option.map_comp comp_def)

definition name_of :: "native_item \<Rightarrow> string" where
  "name_of x =
     (if niType x = NativeItemTypeLogin then (case niLogin x of None \<Rightarrow> [] | Some l \<Rightarrow> lName l)
      else if niType x = NativeItemTypeSecureNote then (case niSecureNote x of None \<Rightarrow> [] | Some n \<Rightarrow> nTitle n)
      else (case niGeneric x of None \<Rightarrow> [] | Some g \<Rightarrow> gTitle g))"

lemma add_suffix_name: "add_suffix sfx x = x \<or> add_suffix sfx x = set_name (name_of x @ sfx) x"
  by (cases "niLogin x"; cases "niSecureNote x"; cases "niGeneric x")
    (simp_all add: add_suffix_def set_name_def name_of_def native_type_defs)

lemma comparison_set_name: "native_json_ok env \<Longrightarrow> restoreComparisonItem env (set_name n x) = restoreComparisonItem env x"
  by (auto simp: native_json_ok_def restoreComparisonItem_def clear_set_name split: option.splits)

lemma duplicate_same:
  assumes ok: "native_json_ok (backup_env.truncate env)" and d: "nameImportDuplicate env x counts = (y, counts')"
  shows "sameNativeItem (backup_env.truncate env) y x" "nativeItemID y = nativeItemID x"
proof -
  have "y = x \<or> (\<exists>n. y = set_name n x)"
    using d add_suffix_name[of _ x] by (auto simp: nameImportDuplicate_def Let_def split: option.splits if_splits)
  with ok show "sameNativeItem (backup_env.truncate env) y x" "nativeItemID y = nativeItemID x"
    by (auto simp: sameNativeItem_def comparison_set_name set_name_id Let_def) (auto simp: native_json_ok_def)
qed

lemma existing_by_id_kept:
  "existing_by_id xs known = Inr m \<Longrightarrow> \<forall>x \<in> set xs. nativeItemID x \<noteq> Some i \<Longrightarrow> fmlookup m i = fmlookup known i"
  by (induction xs arbitrary: known) (fastforce simp: bind_e_Inr_iff split: if_splits)+

lemma existing_by_id_found:
  "existing_by_id xs known = Inr m \<Longrightarrow> inj_on nativeItemID (set xs) \<Longrightarrow> x \<in> set xs \<Longrightarrow> nativeItemID x = Some i \<Longrightarrow> i \<noteq> [] \<Longrightarrow>
   fmlookup m i = Some x"
proof (induction xs arbitrary: known)
  case (Cons y ys)
  from Cons.prems(1) obtain a where a: "nativeItemID y = Some a"
    "existing_by_id ys (if a \<noteq> [] then fmupd a y known else known) = Inr m" by (auto simp: bind_e_Inr_iff)
  then obtain k where rest: "existing_by_id ys k = Inr m" and k: "y = x \<longrightarrow> k = fmupd i x known"
    using Cons.prems(4,5) by (metis option.inject)
  show ?case
  proof (cases "x \<in> set ys")
    case True
    with Cons.IH[OF rest] Cons.prems show ?thesis by (auto simp: inj_on_def)
  next
    case False
    with Cons.prems(2,3,4) have "\<forall>z \<in> set ys. nativeItemID z \<noteq> Some i" "y = x" by (auto simp: inj_on_def)
    with existing_by_id_kept[OF rest] k show ?thesis by simp
  qed
qed simp

lemma existing_by_id_source:
  "existing_by_id xs known = Inr m \<Longrightarrow> fmlookup m i = Some x \<Longrightarrow>
   fmlookup known i = Some x \<or> i \<noteq> [] \<and> x \<in> set xs \<and> nativeItemID x = Some i"
  by (induction xs arbitrary: known) (fastforce simp: bind_e_Inr_iff split: if_splits)+

lemma existing_by_id_total:
  "\<forall>x \<in> set xs. nativeItemID x \<noteq> None \<Longrightarrow> \<exists>m. existing_by_id xs known = Inr m"
  by (induction xs arbitrary: known) (auto simp: bind_e_def)

lemma existing_by_id_ids: "existing_by_id xs known = Inr m \<Longrightarrow> x \<in> set xs \<Longrightarrow> nativeItemID x \<noteq> None"
  by (induction xs arbitrary: known) (auto simp: bind_e_Inr_iff)

text \<open>One step of the selection, and what it leaves behind.\<close>

lemma select_step:
  assumes "select_items env ns known k (item # items) dups pv = Inr pv'" "ns \<noteq> []"
  obtains (found) i current pv1 where "nativeItemID item = Some i" "fmlookup known i = Some current"
      "pv1 = (if sameNativeItem (backup_env.truncate env) current item then pv
              else pv\<lparr>ipErrors := ipErrors pv @ [changed_locally k]\<rparr>)"
      "select_items env ns known (Suc k) items dups pv1 = Inr pv'"
  | (added) i new dups1 counts where "nativeItemID item = Some i" "fmlookup known i = None"
      "nameImportDuplicate env item dups = (new, dups1)" "count_item new (ipCounts pv) = Some counts"
      "select_items env ns known (Suc k) items dups1 (pv\<lparr>ipItems := ipItems pv @ [new], ipCounts := counts\<rparr>) = Inr pv'"
proof -
  from assms(1) obtain i where i: "nativeItemID item = Some i" by (auto simp: bind_e_Inr_iff)
  show thesis
  proof (cases "fmlookup known i")
    case (Some current)
    with assms i found show thesis by (simp add: bind_e_def split: if_splits)
  next
    case None
    obtain new dups1 where n: "nameImportDuplicate env item dups = (new, dups1)" by fastforce
    with assms i None added show thesis by (auto simp: bind_e_Inr_iff)
  qed
qed

lemma select_items_grow:
  "select_items env ns known k items dups pv = Inr pv' \<Longrightarrow> ns \<noteq> [] \<Longrightarrow> \<exists>ys. ipItems pv' = ipItems pv @ ys"
proof (induction items arbitrary: k dups pv)
  case (Cons item items)
  from Cons.prems show ?case
  proof (cases rule: select_step)
    case (found i current pv1)
    with Cons.IH[OF found(4) Cons.prems(2)] show ?thesis by (auto split: if_splits)
  next
    case (added i new dups1 counts)
    from Cons.IH[OF added(5) Cons.prems(2)] show ?thesis by auto
  qed
qed simp

lemma select_items_again:
  assumes ok: "native_json_ok (backup_env.truncate env)" and ns: "ns \<noteq> []"
    and old: "\<And>i x. fmlookup known i = Some x \<Longrightarrow> fmlookup known2 i = Some x"
  shows "select_items env ns known k items dups pv = Inr pv' \<Longrightarrow> ipErrors pv2 = ipErrors pv \<Longrightarrow>
    \<forall>x \<in> set (ipItems pv'). \<forall>i. nativeItemID x = Some i \<longrightarrow> fmlookup known2 i = Some x \<Longrightarrow>
    select_items env ns known2 k items dups2 pv2 = Inr (pv2\<lparr>ipErrors := ipErrors pv'\<rparr>)"
proof (induction items arbitrary: k dups pv pv2)
  case (Cons item items)
  from Cons.prems(1) ns show ?case
  proof (cases rule: select_step)
    case (found i current pv1)
    let ?pv2 = "if sameNativeItem (backup_env.truncate env) current item then pv2
              else pv2\<lparr>ipErrors := ipErrors pv2 @ [changed_locally k]\<rparr>"
    have "ipErrors ?pv2 = ipErrors pv1" using Cons.prems(2) found(3) by simp
    from Cons.IH[OF found(4) this Cons.prems(3)] found(1) old[OF found(2)] ns show ?thesis
      by (simp add: bind_e_def split: if_splits)
  next
    case (added i new dups1 counts)
    from select_items_grow[OF added(5) ns] have "new \<in> set (ipItems pv')" by auto
    with Cons.prems(3) duplicate_same[OF ok added(3)] added(1) have "fmlookup known2 i = Some new" by simp
    with added(1) duplicate_same(1)[OF ok added(3)] Cons.IH[OF added(5) _ Cons.prems(3), of pv2] Cons.prems(2) ns
    show ?thesis by (simp add: bind_e_def)
  qed
qed simp

lemma select_items_from:
  assumes ok: "native_json_ok (backup_env.truncate env)" and ns: "ns \<noteq> []"
  shows "select_items env ns known k items dups pv = Inr pv' \<Longrightarrow> x \<in> set (ipItems pv') \<Longrightarrow>
    x \<in> set (ipItems pv) \<or> (\<exists>y \<in> set items. nativeItemID x = nativeItemID y)"
proof (induction items arbitrary: k dups pv)
  case (Cons item items)
  from Cons.prems(1) ns show ?case
  proof (cases rule: select_step)
    case (found i current pv1)
    with Cons.IH[OF found(4) Cons.prems(2)] show ?thesis by (auto split: if_splits)
  next
    case (added i new dups1 counts)
    from Cons.IH[OF added(5) Cons.prems(2)] duplicate_same(2)[OF ok added(3)] show ?thesis by auto
  qed
qed simp

text \<open>With a namespace nothing is random, and every identifier is a UUID text.\<close>

lemma prepare_items_stable: "ns \<noteq> [] \<Longrightarrow> prepare_items env rnd ns k items f = prepare_items env rnd2 ns k items f"
proof (induction items arbitrary: k f)
  case (Cons x xs)
  have "prepare_item env rnd ns k x f = prepare_item env rnd2 ns k x f"
    using Cons.prems by (simp add: prepare_item_def new_id_def)
  with Cons show ?case by simp
qed simp

lemma prepare_items_ids:
  "prepare_items env rnd ns k items f = Inr (prepared, f') \<Longrightarrow> ns \<noteq> [] \<Longrightarrow> x \<in> set prepared \<Longrightarrow>
   \<exists>i. nativeItemID x = Some i \<and> i \<noteq> []"
proof (induction items arbitrary: k f prepared)
  case (Cons y ys)
  from Cons.prems(1) obtain item g rest where
    1: "prepare_item env rnd ns k y f = Inr (item, g)" "prepare_items env rnd ns (Suc k) ys g = Inr (rest, f')" "prepared = item # rest"
    by (auto simp: bind_e_Inr_iff)
  have "\<exists>i. nativeItemID item = Some i \<and> i \<noteq> []"
    using 1(1) Cons.prems(2)
    by (auto simp: prepare_item_def new_id_def deterministicItemID_def format_uuid_def bind_e_Inr_iff Let_def
        split: option.splits dest!: nativeItemID_set)
  with 1 Cons.IH[OF 1(2) Cons.prems(2)] Cons.prems(3) show ?case by auto
qed simp

lemma remapped_ids:
  assumes "those (map (\<lambda>item. remapNativeFolderID item f) xs) = Some ys" "y \<in> set ys"
  shows "\<exists>x \<in> set xs. nativeItemID y = nativeItemID x"
  using assms
proof (induction xs arbitrary: ys)
  case (Cons x xs)
  then obtain z zs where "remapNativeFolderID x f = Some z" "those (map (\<lambda>item. remapNativeFolderID item f) xs) = Some zs" "ys = z # zs"
    by (auto split: option.splits)
  with Cons nativeItemID_remap show ?case by auto
qed simp

text \<open>C34: Importing the same backup twice adds nothing. When a backup was imported under its fingerprint
  and the prepared items were added to the vault (no two items of which share an identifier), preparing
  the same import again gives no item to add, in whatever order the vault lists its items, and reports
  the same locally changed items as the first time.\<close>

theorem reimport_adds_nothing:
  assumes first: "PreparePortableBackupImportWithNamespace env rnd items existing namespace = Inr preview"
    and ns: "namespace \<noteq> []" and ok: "native_json_ok (backup_env.truncate env)"
    and vault: "set existing2 = set existing \<union> set (ipItems preview)" "inj_on nativeItemID (set existing2)"
  shows "\<exists>preview2. PreparePortableBackupImportWithNamespace env rnd2 items existing2 namespace = Inr preview2 \<and>
    ipItems preview2 = [] \<and> ipCounts preview2 = no_counts \<and> ipErrors preview2 = ipErrors preview"
proof -
  let ?env = "backup_env.truncate env"
  let ?start = "\<lparr>ipItems = [], ipCounts = no_counts, ipUnmappedFields = [], ipErrors = []\<rparr> :: import_preview"
  from first ns obtain known prepared f remapped where
    known: "existing_by_id existing fmempty = Inr known" and
    prep: "prepare_items ?env rnd namespace 0 items fmempty = Inr (prepared, f)" and
    remap: "those (map (\<lambda>item. remapNativeFolderID item f) prepared) = Some remapped" and
    sel: "select_items env namespace known 0 remapped (importDuplicateCounts env existing) ?start = Inr preview"
    by (auto simp: PreparePortableBackupImportWithNamespace_def preparePortableBackupImport_def bind_e_Inr_iff)
  have new: "\<exists>i. nativeItemID x = Some i \<and> i \<noteq> []" if "x \<in> set (ipItems preview)" for x
    using select_items_from[OF ok ns sel that] remapped_ids[OF remap] prepare_items_ids[OF prep ns] by fastforce
  have "\<forall>x \<in> set existing2. nativeItemID x \<noteq> None"
    using vault(1) new existing_by_id_ids[OF known] by fastforce
  from existing_by_id_total[OF this] obtain known2 where known2: "existing_by_id existing2 fmempty = Inr known2" by blast
  note found = existing_by_id_found[OF known2 vault(2)]
  have old: "fmlookup known2 i = Some x" if "fmlookup known i = Some x" for i x
    using existing_by_id_source[OF known that] found vault(1) by auto
  have added: "\<forall>x \<in> set (ipItems preview). \<forall>i. nativeItemID x = Some i \<longrightarrow> fmlookup known2 i = Some x"
    using new found vault(1) by fastforce
  have "select_items env namespace known2 0 remapped (importDuplicateCounts env existing2) ?start =
      Inr (?start\<lparr>ipErrors := ipErrors preview\<rparr>)"
    by (rule select_items_again[OF ok ns _ sel _ added]) (use old in simp_all)
  with ns known2 prep remap prepare_items_stable[OF ns, of ?env rnd2 0 items fmempty rnd] show ?thesis
    by (simp add: PreparePortableBackupImportWithNamespace_def preparePortableBackupImport_def bind_e_def)
qed

definition demo_import_env :: import_env where
  "demo_import_env = backup_env.extend demo_backup_env (import_env.fields id id id (\<lambda>s. [s]) (\<lambda>_. None) iuRest (\<lambda>_. None) (\<lambda>_. None))"

theorem reimport_adds_nothing_witness:
  "\<exists>preview preview2.
     PreparePortableBackupImportWithNamespace demo_import_env (\<lambda>_. None) [demo_folder] [] ''fp'' = Inr preview \<and>
     length (ipItems preview) = 1 \<and>
     PreparePortableBackupImportWithNamespace demo_import_env (\<lambda>_. None) [demo_folder] (ipItems preview) ''fp'' = Inr preview2 \<and>
     ipItems preview2 = []"
proof -
  have t: "backup_env.truncate demo_import_env = demo_backup_env"
    by (simp add: demo_import_env_def backup_env.defs import_env.defs)
  have c: "cloneNativeItem demo_backup_env x = Some demo_folder" for x
    by (simp add: cloneNativeItem_def demo_backup_env_def)
  have m: "marshalNative demo_backup_env x = Some [1]" for x by (simp add: demo_backup_env_def)
  have n: "set_name ''f'' demo_folder = demo_folder"
    by (simp add: demo_folder_def folder_native_def set_name_def native_type_defs)
  have ok: "native_json_ok (backup_env.truncate demo_import_env)"
    unfolding t native_json_ok_def by (intro conjI exI[of _ "\<lambda>_. ''f''"]) (simp_all add: c m n)
  obtain preview where p: "PreparePortableBackupImportWithNamespace demo_import_env (\<lambda>_. None) [demo_folder] [] ''fp'' = Inr preview"
    "length (ipItems preview) = 1"
    by (simp add: PreparePortableBackupImportWithNamespace_def preparePortableBackupImport_def t prepare_item_def c
        new_id_def source_key_def demo_folder_def folder_native_def nativeItemID_def setNativeItemID_def native_type_defs
        remapNativeFolderID_def nameImportDuplicate_def importSemanticKey_def semantic_of_def count_item_def bind_e_def Let_def)
  then have "inj_on nativeItemID (set (ipItems preview))" by (cases "ipItems preview") auto
  from reimport_adds_nothing[OF p(1) _ ok _ this, of "\<lambda>_. None"] p show ?thesis by auto
qed

end
