(* ===== verification/CsvFormat.thy ===== *)
theory CsvFormat
  imports ImportItems
begin

text \<open>
  The reader and the writer of \<open>encoding/csv\<close> as the program configures them: no comments, no
  lazy quotes, \<open>FieldsPerRecord = 0\<close>, lines written with a single line feed. Texts are byte
  sequences, so a delimiter below 128 is one character. What is written reads back, except that a
  carriage return before a line feed is dropped.
\<close>

section \<open>Reading\<close>

datatype csv_fault = ErrBareQuote | ErrQuote | ErrFieldCount

datatype csv_row = CsvRecord "string list" | CsvError csv_fault nat

abbreviation (input) CR :: char where "CR \<equiv> CHR 0x0D"
abbreviation (input) LF :: char where "LF \<equiv> CHR 0x0A"
abbreviation (input) QUOTE :: char where "QUOTE \<equiv> CHR 0x22"

text \<open>Every line ends in a plain line feed; a carriage return at the end of the input is dropped.\<close>

fun unix_lines :: "string \<Rightarrow> string" where
  "unix_lines [] = []"
| "unix_lines (c # cs) = (if c = CR \<and> (cs = [] \<or> hd cs = LF) then unix_lines cs else c # unix_lines cs)"

datatype field_end = NextField string | RecordEnd string | Fault csv_fault string

definition next_line :: "string \<Rightarrow> string" where
  "next_line s = drop 1 (dropWhile (\<lambda>c. c \<noteq> LF) s)"

text \<open>After the opening quote.\<close>

fun quoted_field :: "char \<Rightarrow> string \<Rightarrow> string \<times> field_end" where
  "quoted_field d [] = ([], Fault ErrQuote [])"
| "quoted_field d [c] = (if c = QUOTE then ([], RecordEnd []) else ([c], Fault ErrQuote []))"
| "quoted_field d (c # e # cs) =
     (if c \<noteq> QUOTE then (case quoted_field d (e # cs) of (s, f) \<Rightarrow> (c # s, f))
      else if e = QUOTE then (case quoted_field d cs of (s, f) \<Rightarrow> (QUOTE # s, f))
      else if e = d then ([], NextField cs)
      else if e = LF then ([], RecordEnd cs)
      else ([], Fault ErrQuote (next_line (e # cs))))"

definition plain_field :: "char \<Rightarrow> string \<Rightarrow> string \<times> field_end" where
  "plain_field d s =
     (let field = takeWhile (\<lambda>c. c \<noteq> d \<and> c \<noteq> LF) s; rest = dropWhile (\<lambda>c. c \<noteq> d \<and> c \<noteq> LF) s
      in if QUOTE \<in> set field then (field, Fault ErrBareQuote (next_line rest))
         else (field, case rest of [] \<Rightarrow> RecordEnd [] | c # cs \<Rightarrow> if c = d then NextField cs else RecordEnd cs))"

definition read_field :: "char \<Rightarrow> string \<Rightarrow> string \<times> field_end" where
  "read_field d s = (case s of c # cs \<Rightarrow> if c = QUOTE then quoted_field d cs else plain_field d s | [] \<Rightarrow> plain_field d s)"

fun end_rest :: "field_end \<Rightarrow> string" where
  "end_rest (NextField r) = r" | "end_rest (RecordEnd r) = r" | "end_rest (Fault e r) = r"

lemma length_next_line: "length (next_line s) \<le> length s"
  using length_dropWhile_le[of "\<lambda>c. c \<noteq> LF" s] by (simp add: next_line_def)

lemma quoted_field_rest: "length (end_rest (snd (quoted_field d s))) \<le> length s"
  by (induction d s rule: quoted_field.induct)
    (auto split: prod.splits intro: le_SucI le_trans[OF length_next_line])

lemma plain_field_rest:
  assumes "s \<noteq> []"
  shows "length (end_rest (snd (plain_field d s))) < length s"
proof -
  let ?P = "\<lambda>c. c \<noteq> d \<and> c \<noteq> LF"
  have split: "takeWhile ?P s @ dropWhile ?P s = s" by simp
  show ?thesis
  proof (cases "QUOTE \<in> set (takeWhile ?P s)")
    case True
    then have "0 < length (takeWhile ?P s)" by auto
    moreover have "length (takeWhile ?P s) + length (dropWhile ?P s) = length s" by (metis length_append split)
    ultimately have "length (dropWhile ?P s) < length s" by linarith
    with True length_next_line[of "dropWhile ?P s"] show ?thesis by (simp add: plain_field_def Let_def)
  next
    case False
    with assms length_dropWhile_le[of ?P s] show ?thesis
      by (auto simp: plain_field_def Let_def split: list.splits)
  qed
qed

lemma read_field_rest:
  "s \<noteq> [] \<Longrightarrow> length (end_rest (snd (read_field d s))) < length s"
  using plain_field_rest[of s d] quoted_field_rest[of d "tl s"]
  by (auto simp: read_field_def less_Suc_eq_le split: list.splits)

lemma read_field_next: "read_field d s = (f, NextField r) \<Longrightarrow> length r < length s"
  using read_field_rest[of s d] by (cases s) (auto simp: read_field_def plain_field_def Let_def)

text \<open>The fields of one record, the fault that ended it, and what follows its last line.\<close>

function read_record :: "char \<Rightarrow> string \<Rightarrow> string list \<times> csv_fault option \<times> string" where
  "read_record d s =
     (case read_field d s of
        (f, NextField r) \<Rightarrow> (case read_record d r of (fs, fault, rest) \<Rightarrow> (f # fs, fault, rest))
      | (f, RecordEnd r) \<Rightarrow> ([f], None, r)
      | (f, Fault e r) \<Rightarrow> ([], Some e, r))"
  by pat_completeness auto
termination
  by (relation "measure (length \<circ> snd)") (auto dest: read_field_next[OF sym])

declare read_record.simps [simp del]

lemma read_record_rest: "s \<noteq> [] \<Longrightarrow> length (snd (snd (read_record d s))) < length s"
proof (induction d s rule: read_record.induct)
  case (1 d s)
  obtain f e where fe: "read_field d s = (f, e)" by fastforce
  show ?case
  proof (cases e)
    case (NextField r)
    then have r: "length r < length s" using fe read_field_next by blast
    have ih: "r \<noteq> [] \<Longrightarrow> length (snd (snd (read_record d r))) < length r" using 1(1) fe NextField by simp
    have "snd (snd (read_record d [])) = []" by (simp add: read_record.simps[of d "[]"] read_field_def plain_field_def)
    with r ih have "length (snd (snd (read_record d r))) < length s" by (cases "r = []") auto
    with fe NextField show ?thesis by (cases "read_record d r") (simp add: read_record.simps[of d s])
  qed (use read_field_rest[OF 1(2), of d] fe in \<open>auto simp: read_record.simps[of d s]\<close>)
qed

lemma read_record_less: "(fs, fault, rest) = read_record d s \<Longrightarrow> s \<noteq> [] \<Longrightarrow> length rest < length s"
  using read_record_rest[of s d] by (metis snd_conv)

text \<open>\<open>line\<close> is the number of the next line, \<open>expected\<close> the field count of the first record, 0
  before there is one. A fault is reported at the line it is on.\<close>

definition line_feeds :: "string \<Rightarrow> nat" where
  "line_feeds s = length (filter (\<lambda>c. c = LF) s)"

function csv_rows_from :: "char \<Rightarrow> nat \<Rightarrow> nat \<Rightarrow> string \<Rightarrow> csv_row list" where
  "csv_rows_from d expected line s =
     (if s = [] then []
      else if hd s = LF then csv_rows_from d expected (line + 1) (tl s)
      else case read_record d s of (fs, fault, rest) \<Rightarrow>
        let used = take (length s - length rest) s
        in (case fault of
              Some e \<Rightarrow> CsvError e (line + line_feeds (butlast used))
            | None \<Rightarrow> if expected \<noteq> 0 \<and> length fs \<noteq> expected then CsvError ErrFieldCount line else CsvRecord fs) #
           csv_rows_from d (if expected = 0 then length fs else expected) (line + line_feeds used) rest)"
  by pat_completeness auto
termination
  by (relation "measure (\<lambda>(d, expected, line, s). length s)") (auto dest: read_record_less)

declare csv_rows_from.simps [simp del]

definition csv_read :: "nat \<Rightarrow> string \<Rightarrow> csv_row list" where
  "csv_read delimiter input = csv_rows_from (char_of delimiter) 0 1 (unix_lines input)"

section \<open>Writing\<close>

text \<open>\<open>leadingSpace\<close> tells whether the first rune of a text is white space.\<close>

definition needs_quotes :: "char \<Rightarrow> (string \<Rightarrow> bool) \<Rightarrow> string \<Rightarrow> bool" where
  "needs_quotes d leadingSpace field \<longleftrightarrow>
     field \<noteq> [] \<and> (field = [CHR 0x5C, CHR ''.''] \<or> (\<exists>c \<in> set field. c = LF \<or> c = CR \<or> c = QUOTE \<or> c = d) \<or> leadingSpace field)"

fun double_quotes :: "string \<Rightarrow> string" where
  "double_quotes [] = []"
| "double_quotes (c # cs) = (if c = QUOTE then QUOTE # QUOTE # double_quotes cs else c # double_quotes cs)"

definition write_field :: "char \<Rightarrow> (string \<Rightarrow> bool) \<Rightarrow> string \<Rightarrow> string" where
  "write_field d leadingSpace field =
     (if needs_quotes d leadingSpace field then QUOTE # double_quotes field @ [QUOTE] else field)"

fun write_record :: "char \<Rightarrow> (string \<Rightarrow> bool) \<Rightarrow> string list \<Rightarrow> string" where
  "write_record d leadingSpace [] = [LF]"
| "write_record d leadingSpace [f] = write_field d leadingSpace f @ [LF]"
| "write_record d leadingSpace (f # fs) = write_field d leadingSpace f @ d # write_record d leadingSpace fs"

definition csv_write :: "nat \<Rightarrow> (string \<Rightarrow> bool) \<Rightarrow> string list list \<Rightarrow> string" where
  "csv_write delimiter leadingSpace rows = concat (map (write_record (char_of delimiter) leadingSpace) rows)"


section \<open>What is written reads back\<close>

text \<open>A record as fields with the decision to quote them.\<close>

definition encode_field :: "bool \<Rightarrow> string \<Rightarrow> string" where
  "encode_field q f = (if q then QUOTE # double_quotes f @ [QUOTE] else f)"

fun join_fields :: "char \<Rightarrow> (bool \<times> string) list \<Rightarrow> string" where
  "join_fields d [] = [LF]"
| "join_fields d [(q, f)] = encode_field q f @ [LF]"
| "join_fields d ((q, f) # fs) = encode_field q f @ d # join_fields d fs"

lemma write_record_join: "write_record d sp fs = join_fields d (map (\<lambda>f. (needs_quotes d sp f, f)) fs)"
  by (induction d sp fs rule: write_record.induct) (simp_all add: write_field_def encode_field_def)

lemma unix_lines_before: "c \<noteq> LF \<Longrightarrow> unix_lines (s @ c # t) = replace_crlf s @ unix_lines (c # t)"
  by (induction s rule: replace_crlf.induct) auto

lemma unix_lines_plain: "CR \<notin> set s \<Longrightarrow> unix_lines (s @ t) = s @ unix_lines t"
  by (induction s) auto

lemma replace_crlf_plain: "CR \<notin> set s \<Longrightarrow> replace_crlf s = s"
  by (induction s rule: replace_crlf.induct) auto

lemma replace_double_quotes: "replace_crlf (double_quotes f) = double_quotes (replace_crlf f)"
proof (induction f rule: replace_crlf.induct)
  case (1 a b cs)
  have q: "replace_crlf (QUOTE # s) = QUOTE # replace_crlf s" for s by (cases s) auto
  from 1 q show ?case by (cases "a = QUOTE"; cases "b = QUOTE") auto
qed (auto simp: double_quotes.simps)

lemma unix_lines_encode:
  assumes "\<not> q \<Longrightarrow> CR \<notin> set f"
  shows "unix_lines (encode_field q f @ t) = encode_field q (replace_crlf f) @ unix_lines t"
proof (cases q)
  case True
  have "unix_lines (QUOTE # double_quotes f @ QUOTE # t) = QUOTE # unix_lines (double_quotes f @ QUOTE # t)" by simp
  also have "unix_lines (double_quotes f @ QUOTE # t) = double_quotes (replace_crlf f) @ QUOTE # unix_lines t"
    by (simp add: unix_lines_before replace_double_quotes)
  finally show ?thesis using True by (simp add: encode_field_def)
qed (use assms in \<open>simp add: encode_field_def unix_lines_plain replace_crlf_plain\<close>)

lemma unix_lines_join:
  "d \<noteq> CR \<Longrightarrow> \<forall>(q, f) \<in> set qs. \<not> q \<longrightarrow> CR \<notin> set f \<Longrightarrow>
   unix_lines (join_fields d qs @ t) = join_fields d (map (apsnd replace_crlf) qs) @ unix_lines t"
  by (induction d qs rule: join_fields.induct) (auto simp: unix_lines_encode)

lemma quoted_field_encoded:
  assumes "d \<noteq> QUOTE" "e = d \<or> e = LF"
  shows "quoted_field d (double_quotes f @ QUOTE # e # t) = (f, if e = d then NextField t else RecordEnd t)"
proof (induction f)
  case (Cons c cs)
  obtain x xs where "double_quotes cs @ QUOTE # e # t = x # xs" by (cases "double_quotes cs @ QUOTE # e # t") auto
  with Cons show ?case by auto
qed (use assms in auto)

lemma read_field_encoded:
  assumes "d \<noteq> QUOTE" "e = d \<or> e = LF" "\<not> q \<Longrightarrow> set f \<inter> {QUOTE, LF, d} = {}"
  shows "read_field d (encode_field q f @ e # t) = (f, if e = d then NextField t else RecordEnd t)"
proof (cases q)
  case True
  with assms quoted_field_encoded show ?thesis by (simp add: encode_field_def read_field_def)
next
  case False
  with assms(3) have f: "\<forall>c \<in> set f. c \<noteq> d \<and> c \<noteq> LF" "QUOTE \<notin> set f" by auto
  have "plain_field d (f @ e # t) = (f, if e = d then NextField t else RecordEnd t)"
    using f assms(2) by (auto simp: plain_field_def takeWhile_append2 dropWhile_append2)
  with False f(2) assms(1,2) show ?thesis by (cases f) (auto simp: encode_field_def read_field_def)
qed

lemma read_record_join:
  "d \<noteq> QUOTE \<Longrightarrow> d \<noteq> LF \<Longrightarrow> qs \<noteq> [] \<Longrightarrow> \<forall>(q, f) \<in> set qs. \<not> q \<longrightarrow> set f \<inter> {QUOTE, LF, d} = {} \<Longrightarrow>
   read_record d (join_fields d qs @ t) = (map snd qs, None, t)"
proof (induction d qs rule: join_fields.induct)
  case (2 d q f)
  then show ?case using read_field_encoded[of d LF q f t] by (subst read_record.simps) simp
next
  case (3 d q f g fs)
  then show ?case
    using read_field_encoded[of d d q f "join_fields d (g # fs) @ t"] by (subst read_record.simps) auto
qed simp

lemma join_fields_start:
  assumes "length qs \<ge> 2" "d \<noteq> LF" "\<forall>(q, f) \<in> set qs. \<not> q \<longrightarrow> LF \<notin> set f"
  shows "join_fields d qs \<noteq> [] \<and> hd (join_fields d qs) \<noteq> LF"
proof -
  from assms(1) obtain q f g fs where qs: "qs = (q, f) # g # fs" by (cases qs; cases "tl qs") auto
  with assms show ?thesis by (cases f) (auto simp: encode_field_def)
qed

lemma csv_rows_from_join:
  assumes d: "d \<noteq> QUOTE" "d \<noteq> LF" and k: "k \<ge> 2"
  shows "\<forall>qs \<in> set recs. length qs = k \<and> (\<forall>(q, f) \<in> set qs. \<not> q \<longrightarrow> set f \<inter> {QUOTE, LF, d} = {}) \<Longrightarrow> n = 0 \<or> n = k \<Longrightarrow>
    csv_rows_from d n line (concat (map (join_fields d) recs)) = map (CsvRecord \<circ> map snd) recs"
proof (induction recs arbitrary: n line)
  case (Cons qs recs)
  let ?rest = "concat (map (join_fields d) recs)"
  from Cons.prems(1) k d have qs: "length qs = k" "qs \<noteq> []" "\<forall>(q, f) \<in> set qs. \<not> q \<longrightarrow> set f \<inter> {QUOTE, LF, d} = {}" by auto
  have start: "join_fields d qs \<noteq> []" "hd (join_fields d qs) \<noteq> LF"
    using join_fields_start[of qs d] qs k d by auto
  have "read_record d (join_fields d qs @ ?rest) = (map snd qs, None, ?rest)"
    by (rule read_record_join) (use d qs in auto)
  moreover have "csv_rows_from d (if n = 0 then k else n) l ?rest = map (CsvRecord \<circ> map snd) recs" for l
    by (rule Cons.IH) (use Cons.prems in auto)
  ultimately show ?case using start qs(1) Cons.prems(2) k by (subst csv_rows_from.simps) auto
qed (simp add: csv_rows_from.simps)

definition csv_delimiter_ok :: "nat \<Rightarrow> bool" where
  "csv_delimiter_ok d \<longleftrightarrow> char_of d \<noteq> QUOTE \<and> char_of d \<noteq> LF \<and> char_of d \<noteq> CR"

lemma csv_read_write:
  assumes d: "csv_delimiter_ok d" and k: "k \<ge> 2" and r: "\<forall>fs \<in> set rows. length fs = k"
  shows "csv_read d (csv_write d sp rows) = map (CsvRecord \<circ> map replace_crlf) rows"
proof -
  let ?d = "char_of d" and ?q = "\<lambda>f. (needs_quotes (char_of d) sp f, f)"
  have lines: "unix_lines (csv_write d sp rows) = concat (map (join_fields ?d) (map (map (apsnd replace_crlf \<circ> ?q)) rows))"
    if "CR \<noteq> ?d" for rows
  proof (induction rows)
    case (Cons fs rows)
    have "unix_lines (write_record ?d sp fs @ csv_write d sp rows) =
      join_fields ?d (map (apsnd replace_crlf) (map ?q fs)) @ unix_lines (csv_write d sp rows)"
      unfolding write_record_join by (rule unix_lines_join) (use that in \<open>auto simp: needs_quotes_def\<close>)
    with Cons show ?case by (simp add: csv_write_def comp_def)
  qed (simp add: csv_write_def)
  have plain: "set (replace_crlf f) \<inter> {QUOTE, LF, ?d} = {}" if "\<not> needs_quotes ?d sp f" for f
  proof -
    from that have "CR \<notin> set f" "set f \<inter> {QUOTE, LF, ?d} = {}" by (auto simp: needs_quotes_def)
    then show ?thesis by (simp add: replace_crlf_plain)
  qed
  have "csv_rows_from ?d 0 1 (concat (map (join_fields ?d) (map (map (apsnd replace_crlf \<circ> ?q)) rows))) =
    map (CsvRecord \<circ> map snd) (map (map (apsnd replace_crlf \<circ> ?q)) rows)"
    by (rule csv_rows_from_join[where k = k]) (use d k r plain in \<open>auto simp: csv_delimiter_ok_def\<close>)
  moreover have "CR \<noteq> ?d" using d by (simp add: csv_delimiter_ok_def eq_commute)
  ultimately show ?thesis using lines[of rows] by (simp add: csv_read_def comp_def)
qed

text \<open>With a delimiter that does not occur in it, a plain first line is one field.\<close>

lemma csv_read_single:
  assumes "h \<noteq> []" "set h \<inter> {QUOTE, LF, CR, char_of d} = {}" "char_of d \<noteq> QUOTE" "char_of d \<noteq> LF"
  shows "\<exists>rows. csv_read d (h @ LF # t) = CsvRecord [h] # rows"
proof -
  have u: "unix_lines (h @ LF # t) = h @ LF # unix_lines t" using assms by (simp add: unix_lines_plain)
  from assms have "read_record (char_of d) (h @ LF # unix_lines t) = ([h], None, unix_lines t)"
    using read_record_join[of "char_of d" "[(False, h)]" "unix_lines t"] by (simp add: encode_field_def)
  moreover from assms have "hd (h @ LF # unix_lines t) \<noteq> LF" by (cases h) auto
  ultimately show ?thesis unfolding csv_read_def u by (subst csv_rows_from.simps) simp
qed

end
