(* ===== verification/CsvImport.thy ===== *)
theory CsvImport
  imports CsvFormat
begin

text \<open>
  The import of CSV files (\<open>internal/client/csv_import.go\<close>): encoding, delimiter, header, the
  mapping of columns to fields, and one item or one issue per row. UTF-8, the Unicode tables and
  JSON are parameters; the texts of the returned errors are left out.
\<close>

section \<open>Parameters\<close>

datatype csv_input = NilReader | ReadFails | CsvBytes bytes

record csv_env = import_env +
  utf8Valid :: "bytes \<Rightarrow> bool"
  marshalFields :: "(string, string) fmap \<Rightarrow> bytes"
  parseTOTPText :: "string \<Rightarrow> parsed_url option"

record csv_options =
  coType :: string
  coMapping :: "(string, string) fmap"
  coIgnoredColumns :: "string list"
  coDelimiter :: nat
  coEncoding :: string

record csv_inspection =
  ciColumns :: "string list"
  ciDelimiter :: nat
  ciEncoding :: string

datatype csv_error = ErrInvalidCSVExport | ErrCSVExportTooLarge | ErrCSVExportTooManyRecords
| ErrCSVDelimiterRequired | ErrCSVRandom

definition maxCSVImportSize :: nat where "maxCSVImportSize = 16 * 2 ^ 20"
definition maxCSVImportRecords :: nat where "maxCSVImportRecords = 10000"

section \<open>Input, delimiter, header\<close>

definition newCSVReader :: "bytes \<Rightarrow> nat \<Rightarrow> csv_row list" where
  "newCSVReader input delimiter = csv_read delimiter (bytes_text input)"

definition utf8_bom :: bytes where "utf8_bom = [0xef, 0xbb, 0xbf]"

definition readCSVImport :: "csv_env \<Rightarrow> csv_input \<Rightarrow> string \<Rightarrow> csv_error + (bytes \<times> string)" where
  "readCSVImport env input encoding =
     (case input of
        CsvBytes input \<Rightarrow>
          if length input > maxCSVImportSize then Inl ErrCSVExportTooLarge
          else let encoding = textLower env (textTrim env encoding); hasBOM = take 3 input = utf8_bom in
          bind_e (if encoding = [] \<or> encoding = ''auto'' then Inr (if hasBOM then drop 3 input else input)
                  else if encoding = ''utf-8'' \<or> encoding = ''utf8'' then Inr (if hasBOM then drop 3 input else input)
                  else if encoding = ''utf-8-bom'' then (if \<not> hasBOM then Inl ErrInvalidCSVExport else Inr (drop 3 input))
                  else Inl ErrInvalidCSVExport) (\<lambda>input.
          if \<not> utf8Valid env input then Inl ErrInvalidCSVExport
          else Inr (input, if hasBOM then ''utf-8-bom'' else ''utf-8''))
      | _ \<Rightarrow> Inl ErrInvalidCSVExport)"

definition csv_delimiters :: "nat list" where "csv_delimiters = [44, 59, 9, 124]"

definition validCSVDelimiter :: "nat \<Rightarrow> bool" where
  "validCSVDelimiter delimiter \<longleftrightarrow> delimiter = 44 \<or> delimiter = 59 \<or> delimiter = 9 \<or> delimiter = 124"

definition splits_header :: "bytes \<Rightarrow> nat \<Rightarrow> bool" where
  "splits_header input delimiter =
     (case newCSVReader input delimiter of CsvRecord header # _ \<Rightarrow> length header > 1 | _ \<Rightarrow> False)"

definition csvImportDelimiter :: "bytes \<Rightarrow> nat \<Rightarrow> csv_error + nat" where
  "csvImportDelimiter input delimiter =
     (if delimiter \<noteq> 0 then (if \<not> validCSVDelimiter delimiter then Inl ErrInvalidCSVExport else Inr delimiter)
      else let detected = filter (splits_header input) csv_delimiters
           in if length detected \<noteq> 1 then Inl ErrCSVDelimiterRequired else Inr (hd detected))"

text \<open>Trims the columns in place; \<open>seen\<close> are those before.\<close>

fun header_loop :: "csv_env \<Rightarrow> string list \<Rightarrow> string list \<Rightarrow> csv_error + string list" where
  "header_loop env seen [] = Inr []"
| "header_loop env seen (c # cs) =
     (let c = textTrim env c
      in if c = [] then Inl ErrInvalidCSVExport
         else if c \<in> set seen then Inl ErrInvalidCSVExport
         else bind_e (header_loop env (seen @ [c]) cs) (\<lambda>cs. Inr (c # cs)))"

definition validateCSVHeader :: "csv_env \<Rightarrow> string list \<Rightarrow> csv_error + string list" where
  "validateCSVHeader env header = (if length header = 0 then Inl ErrInvalidCSVExport else header_loop env [] header)"

definition read_header :: "csv_env \<Rightarrow> csv_row list \<Rightarrow> csv_error + (string list \<times> csv_row list)" where
  "read_header env rows =
     (case rows of
        CsvRecord header # rest \<Rightarrow> bind_e (validateCSVHeader env header) (\<lambda>header. Inr (header, rest))
      | _ \<Rightarrow> Inl ErrInvalidCSVExport)"

definition InspectCSVImport :: "csv_env \<Rightarrow> csv_input \<Rightarrow> nat \<Rightarrow> string \<Rightarrow> csv_error + csv_inspection" where
  "InspectCSVImport env reader delimiter encoding =
     bind_e (readCSVImport env reader encoding) (\<lambda>(input, normalizedEncoding).
     bind_e (csvImportDelimiter input delimiter) (\<lambda>delimiter.
     bind_e (read_header env (newCSVReader input delimiter)) (\<lambda>(header, _).
     Inr \<lparr>ciColumns = header, ciDelimiter = delimiter, ciEncoding = normalizedEncoding\<rparr>)))"

section \<open>The mapping\<close>

definition prefixedCSVTarget :: "csv_env \<Rightarrow> string \<Rightarrow> string \<Rightarrow> bool" where
  "prefixedCSVTarget env target prefix \<longleftrightarrow>
     HasPrefix target prefix \<and> textTrim env (drop (length prefix) target) \<noteq> []"

definition validCSVTarget :: "csv_env \<Rightarrow> string \<Rightarrow> string \<Rightarrow> bool" where
  "validCSVTarget env itemType target =
     (if itemType = NativeItemTypeLogin then
        target \<in> set [''name'', ''username'', ''password'', ''url'', ''notes'', ''totp'', ''favorite''] \<or>
        prefixedCSVTarget env target ''url.'' \<or> prefixedCSVTarget env target ''custom.''
      else if itemType = NativeItemTypeSecureNote then target = ''title'' \<or> target = ''content'' \<or> target = ''favorite''
      else if itemType = NativeItemTypeGeneric then
        target = ''title'' \<or> target = ''favorite'' \<or> prefixedCSVTarget env target ''field.''
      else False)"

text \<open>The two loops share \<open>decided\<close>; the order of the map does not show, since any failure is the same.\<close>

fun mapping_loop :: "csv_env \<Rightarrow> string \<Rightarrow> string list \<Rightarrow> (string \<times> string) list \<Rightarrow> string list \<Rightarrow> string list option" where
  "mapping_loop env itemType header [] decided = Some decided"
| "mapping_loop env itemType header ((target, column) # rest) decided =
     (if \<not> validCSVTarget env itemType target then None
      else if column \<notin> set header then None
      else if column \<in> set decided then None
      else mapping_loop env itemType header rest (column # decided))"

fun ignored_loop :: "string list \<Rightarrow> string list \<Rightarrow> string list \<Rightarrow> string list option" where
  "ignored_loop header [] decided = Some decided"
| "ignored_loop header (column # rest) decided =
     (if column \<notin> set header then None
      else if column \<in> set decided then None
      else ignored_loop header rest (column # decided))"

definition required_target :: "string \<Rightarrow> string option" where
  "required_target itemType =
     (if itemType = NativeItemTypeLogin then Some ''name''
      else if itemType = NativeItemTypeSecureNote \<or> itemType = NativeItemTypeGeneric then Some ''title''
      else None)"

definition validateCSVMapping :: "csv_env \<Rightarrow> string list \<Rightarrow> csv_options \<Rightarrow> bool" where
  "validateCSVMapping env header options =
     (case required_target (coType options) of
        None \<Rightarrow> False
      | Some required \<Rightarrow>
          (case mapping_loop env (coType options) header (sorted_list_of_fmap (coMapping options)) [] of
             None \<Rightarrow> False
           | Some decided \<Rightarrow>
               if fmlookup (coMapping options) required = None then False
               else (case ignored_loop header (coIgnoredColumns options) decided of
                  None \<Rightarrow> False
                | Some decided \<Rightarrow> list_all (\<lambda>column. column \<in> set decided) header)))"

section \<open>Rows\<close>

definition ParseBool :: "string \<Rightarrow> bool option" where
  "ParseBool s =
     (if s \<in> set [''1'', ''t'', ''T'', ''TRUE'', ''true'', ''True''] then Some True
      else if s \<in> set [''0'', ''f'', ''F'', ''FALSE'', ''false'', ''False''] then Some False
      else None)"

definition csvFavorite :: "csv_env \<Rightarrow> string \<Rightarrow> bool option" where
  "csvFavorite env raw = (let raw = textLower env (textTrim env raw) in if raw = [] then Some False else ParseBool raw)"

definition sortedCSVTargets :: "(string, string) fmap \<Rightarrow> string list" where
  "sortedCSVTargets mapping = map fst (sorted_list_of_fmap mapping)"

definition map_get :: "(string, string) fmap \<Rightarrow> string \<Rightarrow> string" where
  "map_get m k = (case fmlookup m k of None \<Rightarrow> [] | Some v \<Rightarrow> v)"

definition csv_issue :: "csv_options \<Rightarrow> string \<Rightarrow> string \<Rightarrow> import_issue" where
  "csv_issue options target message =
     \<lparr>isItem = 0, isField = map_get (coMapping options) target, isMessage = message\<rparr>"

definition csv_values :: "string list \<Rightarrow> string list \<Rightarrow> (string, string) fmap" where
  "csv_values header record = fold (\<lambda>(c, v) m. fmupd c v m) (zip header record) fmempty"

definition csv_login ::
  "csv_env \<Rightarrow> csv_options \<Rightarrow> (string, string) fmap \<Rightarrow> uuid \<Rightarrow> bool \<Rightarrow> import_issue + native_item" where
  "csv_login env options vals newID favorite =
     (let get = (\<lambda>target. map_get vals (map_get (coMapping options) target)); name = textTrim env (get ''name'')
      in if name = [] then Inl (csv_issue options ''name'' ''Login name is required'')
         else let raw = textTrim env (get ''totp'') in
         bind_e (if raw = [] then Inr None
                 else case ParseTOTPURI (parseTOTPText env) raw of
                   Inl _ \<Rightarrow> Inl (csv_issue options ''totp'' ''invalid TOTP configuration'')
                 | Inr parsed \<Rightarrow> Inr (Some parsed)) (\<lambda>totp.
         let targets = sortedCSVTargets (coMapping options);
             customFields = map (\<lambda>target. \<lparr>cfName = drop (length ''custom.'') target, cfValue = get target\<rparr>)
               (filter (\<lambda>target. HasPrefix target ''custom.'') targets);
             urls = filter (\<lambda>raw. raw \<noteq> []) (map (\<lambda>target. textTrim env (get target))
               (filter (\<lambda>target. target = ''url'' \<or> HasPrefix target ''url.'') targets))
         in Inr (login_native \<lparr>lItemID = newID, lName = name, lUsername = textTrim env (get ''username''),
                  lPassword = get ''password'', lPasswordHistory = [], lFolderID = [], lFavorite = favorite,
                  lURLs = urls, lNotes = get ''notes'', lCustomFields = customFields, lTOTP = totp\<rparr>)))"

definition csv_generic_data :: "csv_options \<Rightarrow> (string, string) fmap \<Rightarrow> (string, string) fmap" where
  "csv_generic_data options vals =
     fold (\<lambda>(target, column) data.
         if HasPrefix target ''field.'' then fmupd (drop (length ''field.'') target) (map_get vals column) data else data)
       (sorted_list_of_fmap (coMapping options)) fmempty"

definition csvImportItem ::
  "csv_env \<Rightarrow> bytes option \<Rightarrow> string list \<Rightarrow> string list \<Rightarrow> csv_options \<Rightarrow> csv_error + (import_issue + native_item)" where
  "csvImportItem env rnd header record options =
     (let vals = csv_values header record;
          get = (\<lambda>target. map_get vals (map_get (coMapping options) target)) in
      bind_e (option_e ErrCSVRandom (NewItemID rnd)) (\<lambda>newID.
      case csvFavorite env (get ''favorite'') of
        None \<Rightarrow> Inr (Inl (csv_issue options ''favorite'' ''favorite must be true or false''))
      | Some favorite \<Rightarrow>
      if coType options = NativeItemTypeLogin then Inr (csv_login env options vals newID favorite)
      else if coType options = NativeItemTypeSecureNote then
        (let title = textTrim env (get ''title'')
         in if title = [] then Inr (Inl (csv_issue options ''title'' ''Secure Note title is required''))
            else Inr (Inr (note_native \<lparr>nItemID = newID, nTitle = title, nContent = get ''content'',
                   nFolderID = [], nFavorite = favorite\<rparr>)))
      else if coType options = NativeItemTypeGeneric then
        (let title = textTrim env (get ''title'')
         in if title = [] then Inr (Inl (csv_issue options ''title'' ''Generic Item title is required''))
            else Inr (Inr (generic_native \<lparr>gItemID = newID, gTitle = title, gSource = ''csv'', gSourceType = ''generic'',
                   gFolderID = [], gFavorite = favorite, gData = marshalFields env (csv_generic_data options vals)\<rparr>)))
      else Inl ErrInvalidCSVExport))"

definition count_csv :: "native_item \<Rightarrow> import_counts \<Rightarrow> import_counts" where
  "count_csv item counts =
     (if niType item = NativeItemTypeLogin then counts\<lparr>icLogins := icLogins counts + 1\<rparr>
      else if niType item = NativeItemTypeSecureNote then counts\<lparr>icSecureNotes := icSecureNotes counts + 1\<rparr>
      else if niType item = NativeItemTypeGeneric then counts\<lparr>icGeneric := icGeneric counts + 1\<rparr>
      else counts)"

definition fault_text :: "csv_fault \<Rightarrow> string" where
  "fault_text e =
     (case e of
        ErrBareQuote \<Rightarrow> ''bare '' @ [CHR 0x22] @ '' in non-quoted field''
      | ErrQuote \<Rightarrow> ''extraneous or missing '' @ [CHR 0x22] @ '' in quoted-field''
      | ErrFieldCount \<Rightarrow> ''wrong number of fields'')"

definition csvRowError :: "csv_fault \<Rightarrow> nat \<Rightarrow> string" where
  "csvRowError e line = ''invalid CSV row near input line '' @ dec line @ '': '' @ fault_text e"

fun csv_rows_loop ::
  "csv_env \<Rightarrow> (nat \<Rightarrow> bytes option) \<Rightarrow> string list \<Rightarrow> csv_options \<Rightarrow> nat \<Rightarrow> csv_row list \<Rightarrow> (bytes, nat) fmap \<Rightarrow>
   import_preview \<Rightarrow> csv_error + import_preview" where
  "csv_rows_loop env rnd header options rowNumber [] duplicates preview = Inr preview"
| "csv_rows_loop env rnd header options rowNumber (row # rows) duplicates preview =
     (if rowNumber > maxCSVImportRecords then Inl ErrCSVExportTooManyRecords
      else case row of
        CsvError e line \<Rightarrow>
          csv_rows_loop env rnd header options (Suc rowNumber) rows duplicates
            (preview\<lparr>ipErrors := ipErrors preview @ [\<lparr>isItem = rowNumber, isField = [], isMessage = csvRowError e line\<rparr>]\<rparr>)
      | CsvRecord record \<Rightarrow>
          bind_e (csvImportItem env (rnd rowNumber) header record options) (\<lambda>outcome.
          case outcome of
            Inl issue \<Rightarrow>
              csv_rows_loop env rnd header options (Suc rowNumber) rows duplicates
                (preview\<lparr>ipErrors := ipErrors preview @ [issue\<lparr>isItem := rowNumber\<rparr>]\<rparr>)
          | Inr item \<Rightarrow>
              (case nameImportDuplicate (import_env.truncate env) item duplicates of (item, duplicates) \<Rightarrow>
               csv_rows_loop env rnd header options (Suc rowNumber) rows duplicates
                 (preview\<lparr>ipItems := ipItems preview @ [item], ipCounts := count_csv item (ipCounts preview)\<rparr>))))"

definition PreviewCSVImport ::
  "csv_env \<Rightarrow> (nat \<Rightarrow> bytes option) \<Rightarrow> csv_input \<Rightarrow> csv_options \<Rightarrow> native_item list \<Rightarrow> csv_error + import_preview" where
  "PreviewCSVImport env rnd reader options existing =
     bind_e (readCSVImport env reader (coEncoding options)) (\<lambda>(input, _).
     bind_e (csvImportDelimiter input (coDelimiter options)) (\<lambda>delimiter.
     bind_e (read_header env (newCSVReader input delimiter)) (\<lambda>(header, rows).
     if \<not> validateCSVMapping env header options then Inl ErrInvalidCSVExport
     else csv_rows_loop env rnd header options 1 rows (importDuplicateCounts (import_env.truncate env) existing)
            \<lparr>ipItems = [], ipCounts = no_counts, ipUnmappedFields = [], ipErrors = []\<rparr>)))"

section \<open>What the mapping check accepts\<close>

lemma mapping_loop_iff:
  "mapping_loop env t header ps decided = Some out \<longleftrightarrow>
     (\<forall>p \<in> set ps. validCSVTarget env t (fst p) \<and> snd p \<in> set header) \<and>
     distinct (map snd ps) \<and> set (map snd ps) \<inter> set decided = {} \<and> out = rev (map snd ps) @ decided"
proof (induction ps arbitrary: decided)
  case (Cons p ps)
  obtain target column where p: "p = (target, column)" by fastforce
  show ?case unfolding p by (simp add: Cons.IH) blast
qed auto

lemma ignored_loop_iff:
  "ignored_loop header cs decided = Some out \<longleftrightarrow>
     set cs \<subseteq> set header \<and> distinct cs \<and> set cs \<inter> set decided = {} \<and> out = rev cs @ decided"
  by (induction cs arbitrary: decided) auto

lemma header_loop_ok:
  "header_loop env seen cs = Inr out \<Longrightarrow>
   out = map (textTrim env) cs \<and> distinct out \<and> (\<forall>x \<in> set out. x \<notin> set seen \<and> x \<noteq> [])"
proof (induction cs arbitrary: seen out)
  case (Cons c cs)
  then obtain rest where r: "header_loop env (seen @ [textTrim env c]) cs = Inr rest" "out = textTrim env c # rest"
    "textTrim env c \<noteq> []" "textTrim env c \<notin> set seen"
    by (auto simp: bind_e_Inr_iff Let_def split: if_splits)
  from Cons.IH[OF r(1)] r(2-4) show ?case by auto
qed simp

text \<open>One item or one issue per row, in the order of the rows.\<close>

lemma nameImportDuplicate_type: "nameImportDuplicate env item d = (new, d') \<Longrightarrow> niType new = niType item"
  by (auto simp: nameImportDuplicate_def add_suffix_def Let_def split: option.splits if_splits)

lemma csv_login_type: "csv_login env options vals newID favorite = Inr item \<Longrightarrow> niType item = NativeItemTypeLogin"
  unfolding csv_login_def Let_def
  by (auto simp: bind_e_Inr_iff login_native_def split: if_splits)

lemma csvImportItem_type:
  assumes "csvImportItem env rnd header row options = Inr (Inr item)"
  shows "niType item \<in> {NativeItemTypeLogin, NativeItemTypeSecureNote, NativeItemTypeGeneric}"
proof (cases "coType options = NativeItemTypeLogin")
  case True
  with assms obtain favorite newID where "csv_login env options (csv_values header row) newID favorite = Inr item"
    by (simp add: csvImportItem_def Let_def bind_e_Inr_iff) (elim exE conjE, auto split: option.splits)
  from csv_login_type[OF this] show ?thesis by simp
next
  case False
  with assms show ?thesis
    by (simp add: csvImportItem_def Let_def bind_e_Inr_iff)
      (elim exE conjE, auto simp: Let_def note_native_def generic_native_def split: option.splits if_splits)
qed

definition items_counted :: "import_counts \<Rightarrow> nat" where
  "items_counted c = icLogins c + icSecureNotes c + icFolders c + icGeneric c"

lemma count_csv_one:
  "niType item \<in> {NativeItemTypeLogin, NativeItemTypeSecureNote, NativeItemTypeGeneric} \<Longrightarrow>
   items_counted (count_csv item c) = items_counted c + 1"
  by (auto simp: count_csv_def items_counted_def)

text \<open>What becomes of row \<open>n\<close>: an issue, an item before duplicates are named, or (no random bytes)
  the end of the import.\<close>

definition csv_outcome ::
  "csv_env \<Rightarrow> (nat \<Rightarrow> bytes option) \<Rightarrow> string list \<Rightarrow> csv_options \<Rightarrow> nat \<times> csv_row \<Rightarrow> (import_issue + native_item) option" where
  "csv_outcome env rnd header options = (\<lambda>(n, row).
     case row of
       CsvError e line \<Rightarrow> Some (Inl \<lparr>isItem = n, isField = [], isMessage = csvRowError e line\<rparr>)
     | CsvRecord cells \<Rightarrow>
         (case csvImportItem env (rnd n) header cells options of
            Inl _ \<Rightarrow> None
          | Inr (Inl issue) \<Rightarrow> Some (Inl (issue\<lparr>isItem := n\<rparr>))
          | Inr (Inr item) \<Rightarrow> Some (Inr item)))"

definition the_issues :: "(import_issue + native_item) option list \<Rightarrow> import_issue list" where
  "the_issues = List.map_filter (\<lambda>out. case out of Some (Inl issue) \<Rightarrow> Some issue | _ \<Rightarrow> None)"

definition the_items :: "(import_issue + native_item) option list \<Rightarrow> native_item list" where
  "the_items = List.map_filter (\<lambda>out. case out of Some (Inr item) \<Rightarrow> Some item | _ \<Rightarrow> None)"

definition renamed :: "native_item \<Rightarrow> native_item \<Rightarrow> bool" where
  "renamed item item' \<longleftrightarrow> item' = item \<or> (\<exists>n > 0. item' = add_suffix (duplicate_suffix n) item)"

lemma the_issues_simps [simp]:
  "the_issues [] = []" "the_issues (Some (Inl issue) # outs) = issue # the_issues outs"
  "the_issues (Some (Inr item) # outs) = the_issues outs"
  by (simp_all add: the_issues_def map_filter_simps)

lemma the_items_simps [simp]:
  "the_items [] = []" "the_items (Some (Inl issue) # outs) = the_items outs"
  "the_items (Some (Inr item) # outs) = item # the_items outs"
  by (simp_all add: the_items_def map_filter_simps)

lemma outcomes_split: "None \<notin> set outs \<Longrightarrow> length (the_items outs) + length (the_issues outs) = length outs"
proof (induction outs)
  case (Cons out outs)
  then show ?case by (cases out; cases "the out") auto
qed simp

lemma nameImportDuplicate_renamed: "nameImportDuplicate env item d = (new, d') \<Longrightarrow> renamed item new"
  by (auto simp: nameImportDuplicate_def renamed_def Let_def split: option.splits if_splits)

lemma csv_rows_loop_rows:
  "csv_rows_loop env rnd header options n rows d pv = Inr pv' \<Longrightarrow>
   \<exists>items outs. outs = map (csv_outcome env rnd header options) (enumerate n rows) \<and> None \<notin> set outs \<and>
     ipItems pv' = ipItems pv @ items \<and> list_all2 renamed (the_items outs) items \<and>
     ipErrors pv' = ipErrors pv @ the_issues outs \<and>
     items_counted (ipCounts pv') = items_counted (ipCounts pv) + length items \<and>
     (rows \<noteq> [] \<longrightarrow> n + length rows \<le> Suc maxCSVImportRecords)"
proof (induction rows arbitrary: n d pv)
  case (Cons row rows)
  have max: "n \<le> maxCSVImportRecords" using Cons.prems by (auto split: if_splits)
  show ?case
  proof (cases row)
    case (CsvError e line)
    with Cons.prems max have "csv_rows_loop env rnd header options (Suc n) rows d
      (pv\<lparr>ipErrors := ipErrors pv @ [\<lparr>isItem = n, isField = [], isMessage = csvRowError e line\<rparr>]\<rparr>) = Inr pv'" by simp
    from Cons.IH[OF this] CsvError max show ?thesis by (cases rows) (auto simp: csv_outcome_def)
  next
    case (CsvRecord cells)
    with Cons.prems max obtain out where out: "csvImportItem env (rnd n) header cells options = Inr out"
      and go: "(case out of
            Inl issue \<Rightarrow> csv_rows_loop env rnd header options (Suc n) rows d
                (pv\<lparr>ipErrors := ipErrors pv @ [issue\<lparr>isItem := n\<rparr>]\<rparr>)
          | Inr item \<Rightarrow> (case nameImportDuplicate (import_env.truncate env) item d of (item, d) \<Rightarrow>
               csv_rows_loop env rnd header options (Suc n) rows d
                 (pv\<lparr>ipItems := ipItems pv @ [item], ipCounts := count_csv item (ipCounts pv)\<rparr>))) = Inr pv'"
      by (auto simp: bind_e_Inr_iff)
    show ?thesis
    proof (cases out)
      case (Inl issue)
      with go have "csv_rows_loop env rnd header options (Suc n) rows d
          (pv\<lparr>ipErrors := ipErrors pv @ [issue\<lparr>isItem := n\<rparr>]\<rparr>) = Inr pv'" by simp
      from Cons.IH[OF this] Inl CsvRecord out max show ?thesis by (cases rows) (auto simp: csv_outcome_def)
    next
      case (Inr item)
      obtain new d1 where nd: "nameImportDuplicate (import_env.truncate env) item d = (new, d1)" by fastforce
      from csvImportItem_type[OF out[unfolded Inr]] nameImportDuplicate_type[OF nd]
      have c: "items_counted (count_csv new (ipCounts pv)) = items_counted (ipCounts pv) + 1" by (intro count_csv_one) simp
      from go Inr nd have "csv_rows_loop env rnd header options (Suc n) rows d1
          (pv\<lparr>ipItems := ipItems pv @ [new], ipCounts := count_csv new (ipCounts pv)\<rparr>) = Inr pv'" by simp
      from Cons.IH[OF this] Inr CsvRecord out max c nameImportDuplicate_renamed[OF nd] show ?thesis
        by (cases rows) (auto simp: csv_outcome_def)
    qed
  qed
qed simp

lemma outcome_issue_row:
  "csv_outcome env rnd header options p = Some (Inl issue) \<Longrightarrow> isItem issue = fst p"
  by (cases p) (auto simp: csv_outcome_def split: csv_row.splits sum.splits)

lemma issues_in_order:
  "None \<notin> set (map (csv_outcome env rnd header options) ps) \<Longrightarrow> sorted_wrt (<) (map fst ps) \<Longrightarrow>
   sorted_wrt (<) (map isItem (the_issues (map (csv_outcome env rnd header options) ps))) \<and>
   set (map isItem (the_issues (map (csv_outcome env rnd header options) ps))) \<subseteq> fst ` set ps"
proof (induction ps)
  case (Cons p ps)
  then obtain out where "csv_outcome env rnd header options p = Some out" by (cases "csv_outcome env rnd header options p") auto
  moreover from this have "\<And>issue. out = Inl issue \<Longrightarrow> isItem issue = fst p" by (auto dest: outcome_issue_row)
  ultimately show ?case using Cons by (cases out) fastforce+
qed simp

text \<open>Every column of the header is decided, once: it is ignored, or mapped by exactly one target.\<close>

lemma validateCSVMapping_decides:
  assumes "validateCSVMapping env header options"
  shows "set header = fmran' (coMapping options) \<union> set (coIgnoredColumns options)"
    "fmran' (coMapping options) \<inter> set (coIgnoredColumns options) = {}"
    "\<And>s t c. fmlookup (coMapping options) s = Some c \<Longrightarrow> fmlookup (coMapping options) t = Some c \<Longrightarrow> s = t"
    "\<And>t c. fmlookup (coMapping options) t = Some c \<Longrightarrow> validCSVTarget env (coType options) t"
    "\<exists>required. required_target (coType options) = Some required \<and> fmlookup (coMapping options) required \<noteq> None"
proof -
  let ?ps = "sorted_list_of_fmap (coMapping options)"
  from assms have p: "\<forall>p \<in> set ?ps. validCSVTarget env (coType options) (fst p) \<and> snd p \<in> set header"
      "distinct (map snd ?ps)" "set (coIgnoredColumns options) \<subseteq> set header"
      "set (coIgnoredColumns options) \<inter> set (map snd ?ps) = {}"
      "\<forall>c \<in> set header. c \<in> set (coIgnoredColumns options) \<union> set (map snd ?ps)"
    and r: "\<exists>required. required_target (coType options) = Some required \<and> fmlookup (coMapping options) required \<noteq> None"
    by (auto simp: validateCSVMapping_def mapping_loop_iff ignored_loop_iff list_all_iff split: option.splits if_splits)
  have ran: "set (map snd ?ps) = fmran' (coMapping options)"
    by (force simp: set_sorted_list_of_fmap fmran'_def ran_def image_iff)
  show "set header = fmran' (coMapping options) \<union> set (coIgnoredColumns options)"
    using p(1,3,5) ran by (auto simp del: set_map) (metis image_eqI imageE list.set_map)+
  show "fmran' (coMapping options) \<inter> set (coIgnoredColumns options) = {}" using p(4) ran by auto
  show "s = t" if "fmlookup (coMapping options) s = Some c" "fmlookup (coMapping options) t = Some c" for s t c
  proof -
    from that have "(s, c) \<in> set ?ps" "(t, c) \<in> set ?ps" by (simp_all add: set_sorted_list_of_fmap)
    with p(2) show ?thesis using inj_onD[of snd "set ?ps" "(s, c)" "(t, c)"] by (simp add: distinct_map)
  qed
  show "validCSVTarget env (coType options) t" if "fmlookup (coMapping options) t = Some c" for t c
    using p(1) that by (auto simp: set_sorted_list_of_fmap)
  show "\<exists>required. required_target (coType options) = Some required \<and> fmlookup (coMapping options) required \<noteq> None" by (rule r)
qed

lemma read_header_ok:
  "read_header env rows = Inr (header, rest) \<Longrightarrow>
   \<exists>raw. rows = CsvRecord raw # rest \<and> header = map (textTrim env) raw \<and> header \<noteq> [] \<and> distinct header \<and> [] \<notin> set header"
  by (auto simp: read_header_def validateCSVHeader_def bind_e_Inr_iff split: list.splits csv_row.splits if_splits
      dest!: header_loop_ok)

end
