(* ===== verification/CsvProps.thy ===== *)
theory CsvProps
  imports CsvImport BackupProps
begin

text \<open>
  What an import of a CSV file promises: no row and no column is dropped silently.
\<close>

text \<open>C35: An import accounts for every row and every column. If the preview of a CSV file succeeds, the
  header is what the inspection of the file shows, without repeated or empty names; each column is
  either ignored or mapped by exactly one target, all targets are allowed for the item type, and the
  required one is among them. The file has at most 10,000 rows; row by row, in their order, each became
  the item its cells give (up to the suffix that names a duplicate) or one issue with its row
  number, and the counts add up to the number of items.\<close>

theorem csv_import_accounts_for_rows:
  assumes p: "PreviewCSVImport env rnd reader options existing = Inr preview"
  shows "\<exists>input encoding delimiter raw header rows outs.
    InspectCSVImport env reader (coDelimiter options) (coEncoding options) =
      Inr \<lparr>ciColumns = header, ciDelimiter = delimiter, ciEncoding = encoding\<rparr> \<and>
    readCSVImport env reader (coEncoding options) = Inr (input, encoding) \<and>
    newCSVReader input delimiter = CsvRecord raw # rows \<and> header = map (textTrim env) raw \<and>
    distinct header \<and> [] \<notin> set header \<and>
    (\<forall>c \<in> set header. (c \<in> set (coIgnoredColumns options)) \<noteq> (\<exists>!t. fmlookup (coMapping options) t = Some c)) \<and>
    (\<forall>t c. fmlookup (coMapping options) t = Some c \<longrightarrow> c \<in> set header \<and> validCSVTarget env (coType options) t) \<and>
    (\<exists>required. required_target (coType options) = Some required \<and> fmlookup (coMapping options) required \<noteq> None) \<and>
    length rows \<le> maxCSVImportRecords \<and>
    outs = map (csv_outcome env rnd header options) (enumerate 1 rows) \<and> None \<notin> set outs \<and>
    list_all2 renamed (the_items outs) (ipItems preview) \<and> ipErrors preview = the_issues outs \<and>
    length (ipItems preview) + length (ipErrors preview) = length rows \<and>
    sorted_wrt (<) (map isItem (ipErrors preview)) \<and> (\<forall>e \<in> set (ipErrors preview). isItem e \<in> {1..length rows}) \<and>
    items_counted (ipCounts preview) = length (ipItems preview)"
proof -
  from p obtain input encoding delimiter header rows where
    i: "readCSVImport env reader (coEncoding options) = Inr (input, encoding)"
      "csvImportDelimiter input (coDelimiter options) = Inr delimiter"
      "read_header env (newCSVReader input delimiter) = Inr (header, rows)"
    and m: "validateCSVMapping env header options"
    and l: "csv_rows_loop env rnd header options 1 rows (importDuplicateCounts (import_env.truncate env) existing)
            \<lparr>ipItems = [], ipCounts = no_counts, ipUnmappedFields = [], ipErrors = []\<rparr> = Inr preview"
    by (auto simp: PreviewCSVImport_def bind_e_Inr_iff split: if_splits)
  from i have insp: "InspectCSVImport env reader (coDelimiter options) (coEncoding options) =
      Inr \<lparr>ciColumns = header, ciDelimiter = delimiter, ciEncoding = encoding\<rparr>"
    by (simp add: InspectCSVImport_def bind_e_def)
  from read_header_ok[OF i(3)] obtain raw where h: "newCSVReader input delimiter = CsvRecord raw # rows"
    "header = map (textTrim env) raw" "distinct header" "[] \<notin> set header" by blast
  note d = validateCSVMapping_decides[OF m]
  have once: "\<forall>c \<in> set header. (c \<in> set (coIgnoredColumns options)) \<noteq> (\<exists>!t. fmlookup (coMapping options) t = Some c)"
    using d(1-3) by (auto simp: fmran'_def ran_def)
  have targets: "\<forall>t c. fmlookup (coMapping options) t = Some c \<longrightarrow> c \<in> set header \<and> validCSVTarget env (coType options) t"
    using d(1,4) by (auto intro: fmran'I)
  define outs where "outs = map (csv_outcome env rnd header options) (enumerate 1 rows)"
  from csv_rows_loop_rows[OF l] have r: "None \<notin> set outs" "list_all2 renamed (the_items outs) (ipItems preview)"
    "ipErrors preview = the_issues outs" "items_counted (ipCounts preview) = length (ipItems preview)"
    "length rows \<le> maxCSVImportRecords"
    by (auto simp: outs_def items_counted_def no_counts_def)
  have counted: "length (ipItems preview) + length (ipErrors preview) = length rows"
    using outcomes_split[OF r(1)] list_all2_lengthD[OF r(2)] r(3) by (simp add: outs_def)
  have numbers: "sorted_wrt (<) (map fst (enumerate 1 rows))" "fst ` set (enumerate 1 rows) = {1..length rows}"
    by (simp_all only: list.set_map[symmetric] map_fst_enumerate) (auto simp del: upt_Suc)
  from issues_in_order[OF r(1)[unfolded outs_def] numbers(1)] numbers(2)
  have ordered: "sorted_wrt (<) (map isItem (ipErrors preview))" "\<forall>e \<in> set (ipErrors preview). isItem e \<in> {1..length rows}"
    unfolding r(3) outs_def by (blast, force simp only: list.set_map)
  show ?thesis
    by (rule exI[of _ input], rule exI[of _ encoding], rule exI[of _ delimiter], rule exI[of _ raw],
        rule exI[of _ header], rule exI[of _ rows], rule exI[of _ outs])
      (intro conjI; fact insp i h once targets d(5) r outs_def counted ordered)
qed

definition demo_csv_env :: csv_env where
  "demo_csv_env = import_env.extend demo_import_env (csv_env.fields (\<lambda>_. True) (\<lambda>_. []) (\<lambda>_. None))"

text \<open>\<open>name,secret\<close>, \<open>a,b\<close>, \<open>x\<close>.\<close>

definition demo_csv :: bytes where
  "demo_csv = [110, 97, 109, 101, 44, 115, 101, 99, 114, 101, 116, 10, 97, 44, 98, 10, 120, 10]"

lemma demo_csv_rows:
  "newCSVReader demo_csv 44 = [CsvRecord [''name'', ''secret''], CsvRecord [''a'', ''b''], CsvError ErrFieldCount 3]"
  "newCSVReader demo_csv 59 = [CsvRecord [''name,secret''], CsvRecord [''a,b''], CsvRecord [''x'']]"
  "newCSVReader demo_csv 9 = [CsvRecord [''name,secret''], CsvRecord [''a,b''], CsvRecord [''x'']]"
  "newCSVReader demo_csv 124 = [CsvRecord [''name,secret''], CsvRecord [''a,b''], CsvRecord [''x'']]"
  by code_simp+

definition demo_csv_options :: csv_options where
  "demo_csv_options = \<lparr>coType = NativeItemTypeLogin, coMapping = fmupd ''name'' ''name'' fmempty,
     coIgnoredColumns = [''secret''], coDelimiter = 0, coEncoding = []\<rparr>"

lemma demo_csv_mapping: "sorted_list_of_fmap (fmupd k v fmempty) = [(k, v)]" for k v :: string
  by (simp add: sorted_list_of_fmap_def sorted_list_of_fset.rep_eq)

theorem csv_import_accounts_for_rows_witness:
  "\<exists>preview. PreviewCSVImport demo_csv_env (\<lambda>_. Some (replicate 16 0)) (CsvBytes demo_csv) demo_csv_options [] = Inr preview \<and>
     length (ipItems preview) + length (ipErrors preview) = 2"
proof -
  have env: "textTrim demo_csv_env = id" "textLower demo_csv_env = id" "utf8Valid demo_csv_env b" for b
    by (simp_all add: demo_csv_env_def demo_import_env_def import_env.defs csv_env.defs backup_env.defs)
  have i: "readCSVImport demo_csv_env (CsvBytes demo_csv) [] = Inr (demo_csv, ''utf-8'')"
    by (simp add: readCSVImport_def env utf8_bom_def maxCSVImportSize_def demo_csv_def bind_e_def)
  have d: "csvImportDelimiter demo_csv 0 = Inr 44"
    by (simp add: csvImportDelimiter_def csv_delimiters_def splits_header_def demo_csv_rows)
  have h: "read_header demo_csv_env [CsvRecord [''name'', ''secret''], CsvRecord [''a'', ''b''], CsvError ErrFieldCount 3] =
      Inr ([''name'', ''secret''], [CsvRecord [''a'', ''b''], CsvError ErrFieldCount 3])"
    by (simp add: read_header_def validateCSVHeader_def env bind_e_def)
  have m: "validateCSVMapping demo_csv_env [''name'', ''secret''] demo_csv_options"
    by (simp add: validateCSVMapping_def demo_csv_options_def required_target_def demo_csv_mapping validCSVTarget_def)
  have o: "coEncoding demo_csv_options = []" "coDelimiter demo_csv_options = 0" by (simp_all add: demo_csv_options_def)
  have "map_get (csv_values [''name'', ''secret''] [''a'', ''b'']) [] = []" "map_get (csv_values [''name'', ''secret''] [''a'', ''b'']) ''name'' = ''a''"
    by (simp_all add: map_get_def csv_values_def)
  moreover have "map_get (coMapping demo_csv_options) ''name'' = ''name''" "map_get (coMapping demo_csv_options) ''totp'' = []"
    "map_get (coMapping demo_csv_options) ''favorite'' = []" "coType demo_csv_options = NativeItemTypeLogin"
    by (simp_all add: map_get_def demo_csv_options_def)
  ultimately obtain item where
    item: "csvImportItem demo_csv_env (Some (replicate 16 0)) [''name'', ''secret''] [''a'', ''b''] demo_csv_options = Inr (Inr item)"
    by (simp add: csvImportItem_def NewItemID_def csvFavorite_def csv_login_def env bind_e_def Let_def)
  obtain preview where p: "PreviewCSVImport demo_csv_env (\<lambda>_. Some (replicate 16 0)) (CsvBytes demo_csv) demo_csv_options [] = Inr preview"
    using item by (simp add: PreviewCSVImport_def o i d h m demo_csv_rows bind_e_def maxCSVImportRecords_def)
      (cases "nameImportDuplicate (import_env.truncate demo_csv_env) item (importDuplicateCounts (import_env.truncate demo_csv_env) [])", simp)
  from csv_import_accounts_for_rows[OF p] obtain input encoding delimiter raw header rest where
    a: "InspectCSVImport demo_csv_env (CsvBytes demo_csv) (coDelimiter demo_csv_options) (coEncoding demo_csv_options) =
      Inr \<lparr>ciColumns = header, ciDelimiter = delimiter, ciEncoding = encoding\<rparr>"
    "readCSVImport demo_csv_env (CsvBytes demo_csv) [] = Inr (input, encoding)"
    "newCSVReader input delimiter = CsvRecord raw # rest"
    "length (ipItems preview) + length (ipErrors preview) = length rest" using o by auto
  from a(1) have "delimiter = 44" by (simp add: InspectCSVImport_def o i d h demo_csv_rows bind_e_def)
  with a(2,3) i demo_csv_rows have "length rest = 2" by auto
  with p a(4) show ?thesis by auto
qed

end
