(* ===== verification/Clipboard.thy ===== *)
theory Clipboard
  imports GoText
begin

text \<open>
  The clipboard (\<open>internal/clipboard/clipboard.go\<close>): the choice of the helper programs, what
  is written to and read from them, and the conditional cleanup after 30 seconds. The programs
  themselves are the parameter \<open>run\<close> on a world of any type: arguments and standard input to
  standard output, or a failure.
\<close>

section \<open>Backends\<close>

record clip_command =
  ccPath :: string
  ccArgs :: "string list"

record command_backend =
  cbWrite :: clip_command
  cbRead :: clip_command

record clip_env =
  getEnv :: "string \<Rightarrow> string"
  lookPath :: "string \<Rightarrow> string option"

datatype clip_error = ErrUnavailable | ClipWriteFailed | ClipReadFailed

definition ClearDelay :: duration where "ClearDelay = 30 * 1000000000"

definition wayland_backend :: "clip_env \<Rightarrow> command_backend option" where
  "wayland_backend env =
     (case (lookPath env ''wl-copy'', lookPath env ''wl-paste'') of
        (Some w, Some r) \<Rightarrow>
          Some \<lparr>cbWrite = \<lparr>ccPath = w, ccArgs = [''--type'', ''text/plain'']\<rparr>,
                cbRead = \<lparr>ccPath = r, ccArgs = [''--no-newline'']\<rparr>\<rparr>
      | _ \<Rightarrow> None)"

definition x11_backend :: "clip_env \<Rightarrow> command_backend option" where
  "x11_backend env =
     (case lookPath env ''xclip'' of
        Some path \<Rightarrow>
          Some \<lparr>cbWrite = \<lparr>ccPath = path, ccArgs = [''-selection'', ''clipboard'', ''-in'']\<rparr>,
                cbRead = \<lparr>ccPath = path, ccArgs = [''-selection'', ''clipboard'', ''-out'']\<rparr>\<rparr>
      | None \<Rightarrow>
          (case lookPath env ''xsel'' of
             Some path \<Rightarrow>
               Some \<lparr>cbWrite = \<lparr>ccPath = path, ccArgs = [''--clipboard'', ''--input'']\<rparr>,
                     cbRead = \<lparr>ccPath = path, ccArgs = [''--clipboard'', ''--output'']\<rparr>\<rparr>
           | None \<Rightarrow> None))"

definition open_clipboard :: "clip_env \<Rightarrow> clip_error + command_backend" where
  "open_clipboard env =
     (case (if getEnv env ''WAYLAND_DISPLAY'' \<noteq> [] then wayland_backend env else None) of
        Some be \<Rightarrow> Inr be
      | None \<Rightarrow>
          (case (if getEnv env ''DISPLAY'' \<noteq> [] then x11_backend env else None) of
             Some be \<Rightarrow> Inr be
           | None \<Rightarrow> Inl ErrUnavailable))"

type_synonym 's runner = "clip_command \<Rightarrow> string \<Rightarrow> 's \<Rightarrow> string option \<times> 's"

definition clip_write :: "'s runner \<Rightarrow> command_backend \<Rightarrow> string \<Rightarrow> 's \<Rightarrow> 's \<times> clip_error option" where
  "clip_write run be v s =
     (case run (cbWrite be) v s of (None, s) \<Rightarrow> (s, Some ClipWriteFailed) | (Some _, s) \<Rightarrow> (s, None))"

definition clip_read :: "'s runner \<Rightarrow> command_backend \<Rightarrow> 's \<Rightarrow> 's \<times> (clip_error + string)" where
  "clip_read run be s =
     (case run (cbRead be) [] s of (None, s) \<Rightarrow> (s, Inl ClipReadFailed) | (Some v, s) \<Rightarrow> (s, Inr v))"

definition clip_clear :: "'s runner \<Rightarrow> command_backend \<Rightarrow> 's \<Rightarrow> 's \<times> clip_error option" where
  "clip_clear run be s = clip_write run be [] s"

section \<open>Copying with a cleanup\<close>

text \<open>What the goroutine of \<open>Copy\<close> does when its timer fires.\<close>

definition cleanup :: "'s runner \<Rightarrow> command_backend \<Rightarrow> string \<Rightarrow> 's \<Rightarrow> 's \<times> clip_error option" where
  "cleanup run be v s =
     (case clip_read run be s of
        (s, Inl e) \<Rightarrow> (s, Some e)
      | (s, Inr current) \<Rightarrow> if current = v then clip_clear run be s else (s, None))"

text \<open>
  The world, the time, the timers of the running process, and two facts to reason about: whether the
  content is a secret \<open>Copy\<close> put there, and whether a cleanup has failed.
\<close>

record 's clip_state =
  csWorld :: 's
  csNow :: time
  csTimers :: "(string \<times> time) list"
  csOwn :: bool
  csFailed :: bool

text \<open>\<open>Copy\<close>: nothing is scheduled when the write fails.\<close>

definition Copy ::
  "'s runner \<Rightarrow> command_backend \<Rightarrow> string \<Rightarrow> duration \<Rightarrow> 's clip_state \<Rightarrow> 's clip_state \<times> clip_error option" where
  "Copy run be v clearAfter c =
     (case clip_write run be v (csWorld c) of
        (w, Some e) \<Rightarrow> (c\<lparr>csWorld := w\<rparr>, Some e)
      | (w, None) \<Rightarrow>
          (c\<lparr>csWorld := w, csTimers := (v, csNow c + clearAfter) # csTimers c, csOwn := True\<rparr>, None))"

definition fire :: "'s runner \<Rightarrow> command_backend \<Rightarrow> string \<times> time \<Rightarrow> 's clip_state \<Rightarrow> 's clip_state" where
  "fire run be timer c =
     (case cleanup run be (fst timer) (csWorld c) of
        (w, r) \<Rightarrow>
          c\<lparr>csWorld := w, csTimers := remove1 timer (csTimers c),
            csOwn := csOwn c \<and> snd (clip_read run be (csWorld c)) \<noteq> Inr (fst timer),
            csFailed := csFailed c \<or> r \<noteq> None\<rparr>)"

text \<open>
  One process: it copies secrets, other programs put anything into the clipboard, time passes and
  timers fire when they are due. The process ends with its timers in \<open>quit\<close>.
\<close>

inductive clip_run :: "'s runner \<Rightarrow> command_backend \<Rightarrow> 's clip_state \<Rightarrow> bool" for run be where
  begin_run: "clip_run run be \<lparr>csWorld = w, csNow = t, csTimers = [], csOwn = False, csFailed = False\<rparr>"
| copy: "clip_run run be c \<Longrightarrow> Copy run be v ClearDelay c = (c', r) \<Longrightarrow> clip_run run be c'"
| other_program: "clip_run run be c \<Longrightarrow> clip_run run be (c\<lparr>csWorld := w, csOwn := False\<rparr>)"
| wait: "clip_run run be c \<Longrightarrow> csNow c \<le> t \<Longrightarrow> \<forall>x \<in> set (csTimers c). t \<le> snd x \<Longrightarrow>
    clip_run run be (c\<lparr>csNow := t\<rparr>)"
| timer: "clip_run run be c \<Longrightarrow> x \<in> set (csTimers c) \<Longrightarrow> snd x = csNow c \<Longrightarrow> clip_run run be (fire run be x c)"

definition quit :: "'s clip_state \<Rightarrow> 's clip_state" where
  "quit c = c\<lparr>csTimers := []\<rparr>"

text \<open>What is relied on of the programs: a write that succeeds sets the content, one that fails leaves
  it; a read shows the content and changes nothing.\<close>

definition programs_ok :: "'s runner \<Rightarrow> command_backend \<Rightarrow> ('s \<Rightarrow> string) \<Rightarrow> bool" where
  "programs_ok run be content \<longleftrightarrow>
     (\<forall>v s. content (snd (run (cbWrite be) v s)) = (if fst (run (cbWrite be) v s) = None then content s else v)) \<and>
     (\<forall>s. content (snd (run (cbRead be) [] s)) = content s) \<and>
     (\<forall>s w. fst (run (cbRead be) [] s) = Some w \<longrightarrow> w = content s)"

lemma clip_write_content:
  "programs_ok run be content \<Longrightarrow> clip_write run be v s = (s', r) \<Longrightarrow>
   content s' = (if r = None then v else content s)"
  by (auto simp: programs_ok_def clip_write_def split: prod.splits option.splits) (metis fst_conv option.distinct(1) snd_conv)+

lemma clip_read_content:
  "programs_ok run be content \<Longrightarrow> clip_read run be s = (s', r) \<Longrightarrow>
   content s' = content s \<and> (\<forall>w. r = Inr w \<longrightarrow> w = content s)"
  by (auto simp: programs_ok_def clip_read_def split: prod.splits option.splits) (metis fst_conv snd_conv)+

text \<open>The cleanup empties the clipboard if it still holds the value, and otherwise leaves it.\<close>

lemma cleanup_content:
  assumes ok: "programs_ok run be content" and c: "cleanup run be v s = (s', r)"
  shows "content s \<noteq> v \<Longrightarrow> content s' = content s" "content s = v \<Longrightarrow> r = None \<Longrightarrow> content s' = []"
proof -
  obtain s1 o1 where rd: "clip_read run be s = (s1, o1)" by fastforce
  note cr = clip_read_content[OF ok rd]
  show "content s \<noteq> v \<Longrightarrow> content s' = content s"
    using c rd cr by (auto simp: cleanup_def split: sum.splits if_splits)
  show "content s = v \<Longrightarrow> r = None \<Longrightarrow> content s' = []"
    using c rd cr clip_write_content[OF ok, of "[]" s1 s' r]
    by (auto simp: cleanup_def clip_clear_def split: sum.splits if_splits)
qed

definition clip_inv :: "('s \<Rightarrow> string) \<Rightarrow> 's clip_state \<Rightarrow> bool" where
  "clip_inv content c \<longleftrightarrow>
     (\<forall>v d. (v, d) \<in> set (csTimers c) \<longrightarrow> csNow c \<le> d \<and> d \<le> csNow c + ClearDelay) \<and>
     (csOwn c \<and> \<not> csFailed c \<longrightarrow> content (csWorld c) \<in> fst ` set (csTimers c))"

lemma clip_run_inv: "clip_run run be c \<Longrightarrow> programs_ok run be content \<Longrightarrow> clip_inv content c"
proof (induction rule: clip_run.induct)
  case (copy c v c' r)
  obtain w o1 where w: "clip_write run be v (csWorld c) = (w, o1)" by fastforce
  show ?case
  proof (cases o1)
    case None
    with copy w clip_write_content[OF copy(4) w] show ?thesis by (auto simp: Copy_def clip_inv_def ClearDelay_def)
  next
    case (Some e)
    with copy w clip_write_content[OF copy(4) w] show ?thesis by (auto simp: Copy_def clip_inv_def intro: rev_image_eqI)
  qed
next
  case (timer c x)
  obtain w r where w: "cleanup run be (fst x) (csWorld c) = (w, r)" by fastforce
  obtain s1 o1 where rd: "clip_read run be (csWorld c) = (s1, o1)" by fastforce
  note cr = clip_read_content[OF timer(5) rd]
  have inv: "clip_inv content c" using timer by simp
  have times: "\<forall>v d. (v, d) \<in> set (remove1 x (csTimers c)) \<longrightarrow> csNow c \<le> d \<and> d \<le> csNow c + ClearDelay"
    using inv set_remove1_subset[of x "csTimers c"] by (auto simp: clip_inv_def)
  have "content w \<in> fst ` set (remove1 x (csTimers c))"
    if own: "csOwn c" "o1 \<noteq> Inr (fst x)" "\<not> csFailed c" "r = None"
  proof -
    have r0: "o1 \<noteq> Inl e" for e using w rd own(4) by (auto simp: cleanup_def)
    then obtain cur where cur: "o1 = Inr cur" by (cases o1) auto
    with cr own(2) have ne: "content (csWorld c) \<noteq> fst x" by auto
    with inv own obtain y where "y \<in> set (csTimers c)" "fst y = content (csWorld c)" by (auto simp: clip_inv_def)
    with ne have "y \<in> set (remove1 x (csTimers c))" by (cases "y = x") (simp_all add: in_set_remove1)
    with \<open>fst y = content (csWorld c)\<close> cleanup_content(1)[OF timer(5) w ne] show ?thesis by force
  qed
  with times w rd show ?case by (simp add: fire_def clip_inv_def)
next
  case (wait c t)
  have "t \<le> d \<and> d \<le> t + ClearDelay" if d: "(v, d) \<in> set (csTimers c)" for v d
  proof -
    from wait(4,5) d have "d \<le> csNow c + ClearDelay" by (auto simp: clip_inv_def)
    with wait(2,3) d show ?thesis by auto
  qed
  with wait(4,5) show ?case by (simp add: clip_inv_def)
qed (auto simp: clip_inv_def)

text \<open>
  The timers end with the process: after \<open>quit\<close> a copied secret stays in the clipboard
  although no cleanup is left.
\<close>

lemma secret_survives_exit:
  assumes ok: "programs_ok run be content" and w: "Copy run be v ClearDelay c = (c', None)"
  shows "content (csWorld (quit c')) = v \<and> csTimers (quit c') = []"
  using w clip_write_content[OF ok, of v "csWorld c"]
  by (auto simp: Copy_def quit_def split: prod.splits option.splits)

end
