(* ===== verification/PwnedPasswords.thy ===== *)
theory PwnedPasswords
  imports ClientHttp Uuid
begin

text \<open>
  The breach check (\<open>internal/client/pwned_passwords.go\<close>): the range query that carries five
  hexadecimal digits of the SHA-1 sum, and the reading of the range. SHA-1, \<open>net/url\<close> and the
  exchange itself are parameters.
\<close>

section \<open>The query\<close>

definition maxPwnedPasswordsResponse :: nat where "maxPwnedPasswordsResponse = 2 ^ 20"

datatype pwned_status =
  PwnedPasswordDisabled | PwnedPasswordNotFound | PwnedPasswordFound | PwnedPasswordUnavailable
| PwnedPasswordInvalidResponse

record pwned_result =
  pwStatus :: pwned_status
  pwCount :: nat

record range_url =
  ruHost :: string
  ruHasUser :: bool
  ruRawQuery :: string
  ruFragment :: string
  ruPath :: string
  ruRawPath :: string

record range_env = net_client_env +
  sha1 :: "bytes \<Rightarrow> bytes"
  parseRangeURL :: "string \<Rightarrow> range_url option"
  rangeURLText :: "string \<Rightarrow> range_url \<Rightarrow> string"

record range_request =
  rrURL :: string
  rrTimeout :: duration
  rrHeaders :: "(string \<times> string) list"

text \<open>What comes back: an error of the exchange, or a status and the body as far as it was read
  (\<open>None\<close> for an error while reading).\<close>

datatype range_answer = RangeFailed | RangeAnswer nat "string option"

definition pwned_status_only :: "pwned_status \<Rightarrow> pwned_result" where
  "pwned_status_only st = \<lparr>pwStatus = st, pwCount = 0\<rparr>"

definition hash_digits :: "range_env \<Rightarrow> bytes \<Rightarrow> string" where
  "hash_digits env password = map upper_char (hex_bytes (sha1 env password))"

definition pwnedPasswordsEndpoint :: "range_env \<Rightarrow> string \<Rightarrow> string \<Rightarrow> string option" where
  "pwnedPasswordsEndpoint env rawEndpoint prefix =
     (if validateServerURL (net_client_env.truncate env) rawEndpoint \<noteq> None then None
      else case parseRangeURL env rawEndpoint of
        None \<Rightarrow> None
      | Some u \<Rightarrow>
          if ruHost u = [] \<or> ruHasUser u \<or> ruRawQuery u \<noteq> [] \<or> ruFragment u \<noteq> [] then None
          else Some (rangeURLText env rawEndpoint
                 (u\<lparr>ruPath := TrimRight (ruPath u) (CHR ''/'') @ ''/'' @ prefix, ruRawPath := []\<rparr>)))"

section \<open>Reading a range\<close>

definition isHexString :: "string \<Rightarrow> bool" where
  "isHexString v = list_all is_hex v"

definition trim_cr :: "string \<Rightarrow> string" where
  "trim_cr line = (if line \<noteq> [] \<and> last line = CHR 0x0D then butlast line else line)"

text \<open>One record, \<open>None\<close> if it is malformed.\<close>

definition range_record :: "string \<Rightarrow> (string \<times> nat) option" where
  "range_record line =
     (case Cut line (CHR '':'') of
        None \<Rightarrow> None
      | Some (suffix, countValue) \<Rightarrow>
          if length suffix \<noteq> 35 \<or> \<not> isHexString suffix then None
          else map_option (\<lambda>n. (suffix, n)) (ParseUint countValue 64))"

text \<open>The loop; \<open>found\<close> is the count of the record found, if one was.\<close>

fun range_loop :: "string \<Rightarrow> string list \<Rightarrow> nat option \<Rightarrow> nat \<Rightarrow> pwned_result" where
  "range_loop wanted [] found records =
     (if records = 0 then pwned_status_only PwnedPasswordInvalidResponse
      else case found of
        None \<Rightarrow> pwned_status_only PwnedPasswordNotFound
      | Some n \<Rightarrow> if n > 0 then \<lparr>pwStatus = PwnedPasswordFound, pwCount = n\<rparr>
                  else pwned_status_only PwnedPasswordNotFound)"
| "range_loop wanted (line # lines) found records =
     (let line = trim_cr line
      in if line = [] then range_loop wanted lines found records
         else case range_record line of
           None \<Rightarrow> pwned_status_only PwnedPasswordInvalidResponse
         | Some (suffix, n) \<Rightarrow>
             if \<not> EqualFold suffix wanted then range_loop wanted lines found (Suc records)
             else if found \<noteq> None then pwned_status_only PwnedPasswordInvalidResponse
             else range_loop wanted lines (Some n) (Suc records))"

definition parsePwnedPasswordsRange :: "string \<Rightarrow> string \<Rightarrow> pwned_result" where
  "parsePwnedPasswordsRange body wantedSuffix = range_loop wantedSuffix (Split body (CHR 0x0A)) None 0"

section \<open>The check\<close>

text \<open>The result, and the request if one was made. Redirects are answers like any other.\<close>

definition CheckPwnedPassword ::
  "range_env \<Rightarrow> client_config \<Rightarrow> bytes \<Rightarrow> (range_request \<Rightarrow> range_answer) \<Rightarrow> pwned_result \<times> range_request option" where
  "CheckPwnedPassword env cfg password ask =
     (let rawEndpoint = TrimSpace (cfPwnedPasswordsURL cfg) in
      if rawEndpoint = [] \<or> EqualFold rawEndpoint ''off'' then (pwned_status_only PwnedPasswordDisabled, None)
      else let encoded = hash_digits env password; prefix = take 5 encoded; suffix = drop 5 encoded in
      case pwnedPasswordsEndpoint env rawEndpoint prefix of
        None \<Rightarrow> (pwned_status_only PwnedPasswordUnavailable, None)
      | Some endpoint \<Rightarrow>
      case newHTTPClient (net_client_env.truncate env) cfg of
        Inl _ \<Rightarrow> (pwned_status_only PwnedPasswordUnavailable, None)
      | Inr _ \<Rightarrow>
      if \<not> newRequest env endpoint then (pwned_status_only PwnedPasswordUnavailable, None)
      else let rq = \<lparr>rrURL = endpoint, rrTimeout = requestTimeout cfg,
                     rrHeaders = [(''Add-Padding'', ''true''), (''User-Agent'', ''TermKeep'')]\<rparr> in
      (case ask rq of
         RangeFailed \<Rightarrow> pwned_status_only PwnedPasswordUnavailable
       | RangeAnswer code body \<Rightarrow>
           if code \<noteq> 200 then pwned_status_only PwnedPasswordUnavailable
           else case body of
             None \<Rightarrow> pwned_status_only PwnedPasswordUnavailable
           | Some body \<Rightarrow>
               if length body > maxPwnedPasswordsResponse then pwned_status_only PwnedPasswordInvalidResponse
               else parsePwnedPasswordsRange body suffix, Some rq))"

section \<open>What a range says\<close>

definition range_lines :: "string \<Rightarrow> string list" where
  "range_lines body = filter (\<lambda>line. line \<noteq> []) (map trim_cr (Split body (CHR 0x0A)))"

definition matching_counts :: "string \<Rightarrow> string list \<Rightarrow> nat list" where
  "matching_counts wanted lines =
     map snd (filter (\<lambda>r. EqualFold (fst r) wanted) (List.map_filter range_record lines))"

definition malformed :: "string list \<Rightarrow> bool" where
  "malformed lines \<longleftrightarrow> (\<exists>line \<in> set lines. range_record line = None)"

definition range_verdict :: "bool \<Rightarrow> bool \<Rightarrow> nat list \<Rightarrow> pwned_result" where
  "range_verdict any bad counts =
     (if \<not> any \<or> bad \<or> length counts > 1 then pwned_status_only PwnedPasswordInvalidResponse
      else if counts = [] \<or> hd counts = 0 then pwned_status_only PwnedPasswordNotFound
      else \<lparr>pwStatus = PwnedPasswordFound, pwCount = hd counts\<rparr>)"

definition range_meaning :: "string \<Rightarrow> string list \<Rightarrow> pwned_result" where
  "range_meaning wanted lines = range_verdict (lines \<noteq> []) (malformed lines) (matching_counts wanted lines)"

lemma matching_Cons:
  "range_record line = Some (suffix, n) \<Longrightarrow>
   matching_counts wanted (line # lines) = (if EqualFold suffix wanted then [n] else []) @ matching_counts wanted lines"
  by (simp add: matching_counts_def map_filter_simps)

lemma range_loop_meaning:
  "range_loop wanted lines found records =
     range_verdict (filter (\<lambda>line. line \<noteq> []) (map trim_cr lines) \<noteq> [] \<or> records \<noteq> 0)
       (malformed (filter (\<lambda>line. line \<noteq> []) (map trim_cr lines)))
       ((case found of None \<Rightarrow> [] | Some n \<Rightarrow> [n]) @ matching_counts wanted (filter (\<lambda>line. line \<noteq> []) (map trim_cr lines)))"
proof (induction lines arbitrary: found records)
  case Nil
  then show ?case
    by (simp add: malformed_def matching_counts_def map_filter_simps range_verdict_def split: option.splits)
next
  case (Cons line lines)
  let ?ls = "filter (\<lambda>line. line \<noteq> []) (map trim_cr lines)"
  show ?case
  proof (cases "trim_cr line = []")
    case True
    then show ?thesis by (simp add: Cons.IH Let_def)
  next
    case False
    show ?thesis
    proof (cases "range_record (trim_cr line)")
      case None
      with False show ?thesis by (simp add: malformed_def range_verdict_def Let_def)
    next
      case (Some r)
      obtain suffix n where r: "r = (suffix, n)" by fastforce
      have "malformed (trim_cr line # ?ls) = malformed ?ls" using Some by (simp add: malformed_def)
      moreover note matching_Cons[OF Some[unfolded r]]
      moreover have "range_verdict True bad (a # b # counts) = pwned_status_only PwnedPasswordInvalidResponse" for bad a b counts
        by (simp add: range_verdict_def)
      ultimately show ?thesis using False Some r by (simp add: Cons.IH Let_def split: option.split)
    qed
  qed
qed

lemma parse_range_meaning: "parsePwnedPasswordsRange body wanted = range_meaning wanted (range_lines body)"
  by (simp add: parsePwnedPasswordsRange_def range_loop_meaning range_meaning_def range_lines_def)

end
