(* ===== verification/DeviceProps.thy ===== *)
theory DeviceProps
  imports Clipboard PwnedPasswords
begin

text \<open>
  What leaves the vault while it is used: a secret in the clipboard, five digits of a hash on the wire.
\<close>

section \<open>The clipboard\<close>

text \<open>C36: Copied secrets are cleared, newer content is not. While the process runs and its cleanups succeed,
  a secret it put into the clipboard has a timer that is due within 30 seconds and will empty the
  clipboard; and a cleanup never changes a content that is not the value it was scheduled for.\<close>

theorem copied_secrets_are_cleared:
  assumes ok: "programs_ok run be content" and run: "clip_run run be c"
  shows "(csOwn c \<and> \<not> csFailed c \<longrightarrow>
      (\<exists>d. (content (csWorld c), d) \<in> set (csTimers c) \<and> csNow c \<le> d \<and> d \<le> csNow c + ClearDelay \<and>
         (\<forall>w. cleanup run be (content (csWorld c)) (csWorld c) = (w, None) \<longrightarrow> content w = []))) \<and>
    (\<forall>x \<in> set (csTimers c). content (csWorld c) \<noteq> fst x \<longrightarrow>
      content (csWorld (fire run be x c)) = content (csWorld c))"
proof (intro conjI impI ballI)
  have inv: "clip_inv content c" by (rule clip_run_inv[OF run ok])
  assume "csOwn c \<and> \<not> csFailed c"
  with inv obtain d where "(content (csWorld c), d) \<in> set (csTimers c)" by (force simp: clip_inv_def)
  with inv cleanup_content(2)[OF ok]
  show "\<exists>d. (content (csWorld c), d) \<in> set (csTimers c) \<and> csNow c \<le> d \<and> d \<le> csNow c + ClearDelay \<and>
         (\<forall>w. cleanup run be (content (csWorld c)) (csWorld c) = (w, None) \<longrightarrow> content w = [])"
    by (auto simp: clip_inv_def)
next
  fix x :: "string \<times> time" assume "content (csWorld c) \<noteq> fst x"
  with cleanup_content(1)[OF ok] show "content (csWorld (fire run be x c)) = content (csWorld c)"
    by (auto simp: fire_def split: prod.splits)
qed

definition demo_clip_env :: clip_env where
  "demo_clip_env = \<lparr>getEnv = (\<lambda>v. if v = ''DISPLAY'' then '':0'' else []),
     lookPath = (\<lambda>p. if p = ''xclip'' then Some ''/bin/xclip'' else None)\<rparr>"

definition demo_runner :: "string runner" where
  "demo_runner cmd input s = (if ''-out'' \<in> set (ccArgs cmd) then (Some s, s) else (Some [], input))"

definition demo_backend :: command_backend where
  "demo_backend = (case open_clipboard demo_clip_env of Inr be \<Rightarrow> be | Inl _ \<Rightarrow> \<lparr>cbWrite = \<lparr>ccPath = [], ccArgs = []\<rparr>, cbRead = \<lparr>ccPath = [], ccArgs = []\<rparr>\<rparr>)"

definition demo_copied :: "string clip_state" where
  "demo_copied = \<lparr>csWorld = ''pw'', csNow = 0, csTimers = [(''pw'', ClearDelay)], csOwn = True, csFailed = False\<rparr>"

theorem copied_secrets_are_cleared_witness:
  "\<exists>d. (''pw'', d) \<in> set (csTimers demo_copied) \<and> d \<le> ClearDelay \<and> (\<exists>w. cleanup demo_runner demo_backend ''pw'' ''pw'' = (w, None) \<and> w = [])"
proof -
  have ok: "programs_ok demo_runner demo_backend id"
    by (simp add: programs_ok_def demo_runner_def demo_backend_def open_clipboard_def x11_backend_def demo_clip_env_def)
  have start: "clip_run demo_runner demo_backend \<lparr>csWorld = [], csNow = 0, csTimers = [], csOwn = False, csFailed = False\<rparr>"
    by (rule clip_run.begin_run)
  have "Copy demo_runner demo_backend ''pw'' ClearDelay \<lparr>csWorld = [], csNow = 0, csTimers = [], csOwn = False, csFailed = False\<rparr> =
      (demo_copied, None)"
    by (simp add: Copy_def clip_write_def demo_runner_def demo_backend_def open_clipboard_def x11_backend_def demo_clip_env_def demo_copied_def)
  from clip_run.copy[OF start this] have "clip_run demo_runner demo_backend demo_copied" .
  from copied_secrets_are_cleared[OF ok this] obtain d where "(''pw'', d) \<in> set (csTimers demo_copied)" "d \<le> ClearDelay"
    "\<And>w. cleanup demo_runner demo_backend ''pw'' ''pw'' = (w, None) \<Longrightarrow> w = []"
    by (auto simp: demo_copied_def)
  moreover have "\<exists>w. cleanup demo_runner demo_backend ''pw'' ''pw'' = (w, None)"
    by (simp add: cleanup_def clip_read_def clip_clear_def clip_write_def demo_runner_def demo_backend_def open_clipboard_def
        x11_backend_def demo_clip_env_def)
  ultimately show ?thesis by blast
qed

section \<open>The breach check\<close>

text \<open>C37: Only five digits of the hash leave the client. The request of a breach check is the same for every
  password whose SHA-1 sum begins with the same five hexadecimal digits; and an answer that was read
  completely gives exactly what its records say: a count if one record matches the remaining digits and
  its count is positive, an invalid response if a record is malformed, none is there or two match.\<close>

theorem breach_check_exact:
  assumes "CheckPwnedPassword env cfg password ask = (result, Some request)"
  shows "(\<forall>other ask2. take 5 (hash_digits env other) = take 5 (hash_digits env password) \<longrightarrow>
      snd (CheckPwnedPassword env cfg other ask2) = Some request) \<and>
    (\<forall>body. ask request = RangeAnswer 200 (Some body) \<and> length body \<le> maxPwnedPasswordsResponse \<longrightarrow>
      result = range_meaning (drop 5 (hash_digits env password)) (range_lines body))"
  using assms parse_range_meaning
  by (auto simp: CheckPwnedPassword_def Let_def split: if_splits option.splits sum.splits)

definition demo_range_env :: range_env where
  "demo_range_env = \<lparr>urlParse = (\<lambda>_. Some \<lparr>urlScheme = ''https'', urlHostname = ''h''\<rparr>), addrIsLoopback = (\<lambda>_. None),
     readCertFile = (\<lambda>_. None), appendCerts = (\<lambda>_. False), newRequest = (\<lambda>_. True), sha1 = (\<lambda>_. replicate 20 0),
     parseRangeURL = (\<lambda>_. Some \<lparr>ruHost = ''h'', ruHasUser = False, ruRawQuery = [], ruFragment = [], ruPath = ''/range'', ruRawPath = []\<rparr>),
     rangeURLText = (\<lambda>raw u. ''https://h'' @ ruPath u)\<rparr>"

definition demo_range_config :: client_config where
  "demo_range_config = \<lparr>cfServerURL = [], cfCACertFile = [], cfTimeout = 0, cfDataDir = [], cfPwnedPasswordsURL = ''https://h/range''\<rparr>"

definition demo_range_body :: string where
  "demo_range_body = replicate 35 (CHR ''1'') @ '':9'' @ [CHR 0x0D, CHR 0x0A] @ replicate 35 (CHR ''0'') @ '':3'' @ [CHR 0x0D, CHR 0x0A]"

definition demo_range_request :: range_request where
  "demo_range_request = \<lparr>rrURL = ''https://h/range/00000'', rrTimeout = defaultTimeout,
     rrHeaders = [(''Add-Padding'', ''true''), (''User-Agent'', ''TermKeep'')]\<rparr>"

lemma demo_hash: "hash_digits demo_range_env p = replicate 40 (CHR ''0'')"
proof -
  have "hash_digits demo_range_env p = map upper_char (hex_bytes (replicate 20 0))"
    by (simp add: hash_digits_def demo_range_env_def)
  also have "\<dots> = replicate 40 (CHR ''0'')" by code_simp
  finally show ?thesis .
qed

lemma demo_range_lines: "range_lines demo_range_body = [replicate 35 (CHR ''1'') @ '':9'', replicate 35 (CHR ''0'') @ '':3'']"
  by code_simp

lemma demo_counts: "ParseUint ''9'' 64 = Some 9" "ParseUint ''3'' 64 = Some 3"
proof -
  have "dec 9 = ''9''" "dec 3 = ''3''" by code_simp+
  with ParseUint_dec[of 9 64] ParseUint_dec[of 3 64] show "ParseUint ''9'' 64 = Some 9" "ParseUint ''3'' 64 = Some 3" by simp_all
qed

lemma demo_cut: "Cut (replicate 35 (CHR ''1'') @ '':9'') (CHR '':'') = Some (replicate 35 (CHR ''1''), ''9'')"
  "Cut (replicate 35 (CHR ''0'') @ '':3'') (CHR '':'') = Some (replicate 35 (CHR ''0''), ''3'')"
  by code_simp+

lemma demo_digits: "isHexString (replicate 35 (CHR ''1''))" "isHexString (replicate 35 (CHR ''0''))"
  "\<not> EqualFold (replicate 35 (CHR ''1'')) (replicate 35 (CHR ''0''))"
  by code_simp+

lemma demo_range_meaning: "range_meaning (replicate 35 (CHR ''0'')) (range_lines demo_range_body) = \<lparr>pwStatus = PwnedPasswordFound, pwCount = 3\<rparr>"
proof -
  have r: "range_record (replicate 35 (CHR ''1'') @ '':9'') = Some (replicate 35 (CHR ''1''), 9)"
    "range_record (replicate 35 (CHR ''0'') @ '':3'') = Some (replicate 35 (CHR ''0''), 3)"
    unfolding range_record_def demo_cut by (simp_all add: demo_digits demo_counts)
  show ?thesis
    by (simp add: range_meaning_def range_verdict_def demo_range_lines malformed_def matching_counts_def map_filter_simps r demo_digits
        EqualFold_def[of "replicate 35 (CHR ''0'')"])
qed

theorem breach_check_exact_witness:
  "CheckPwnedPassword demo_range_env demo_range_config [1] (\<lambda>_. RangeAnswer 200 (Some demo_range_body)) =
     (\<lparr>pwStatus = PwnedPasswordFound, pwCount = 3\<rparr>, Some demo_range_request)"
proof -
  let ?ask = "\<lambda>_. RangeAnswer 200 (Some demo_range_body)"
  have trim: "TrimSpace (cfPwnedPasswordsURL demo_range_config) = ''https://h/range''" by code_simp
  have off: "\<not> EqualFold ''https://h/range'' ''off''" by code_simp
  have five: "take 5 (replicate 40 (CHR ''0'')) = ''00000''" "drop 5 (replicate 40 (CHR ''0'')) = replicate 35 (CHR ''0'')"
    by code_simp+
  have e: "pwnedPasswordsEndpoint demo_range_env ''https://h/range'' ''00000'' = Some ''https://h/range/00000''"
    by (simp add: pwnedPasswordsEndpoint_def validateServerURL_def demo_range_env_def net_client_env.defs TrimRight_def)
  have n: "newHTTPClient (net_client_env.truncate demo_range_env) demo_range_config = Inr None" "newRequest demo_range_env u"
    "requestTimeout demo_range_config = defaultTimeout" for u
    by (simp_all add: newHTTPClient_def demo_range_config_def demo_range_env_def requestTimeout_def)
  obtain result where c: "CheckPwnedPassword demo_range_env demo_range_config [1] ?ask = (result, Some demo_range_request)"
    by (simp add: CheckPwnedPassword_def trim off demo_hash five e n demo_range_request_def Let_def del: take_replicate drop_replicate)
  have "length demo_range_body \<le> maxPwnedPasswordsResponse" by (simp add: demo_range_body_def maxPwnedPasswordsResponse_def)
  with breach_check_exact[OF c] have "result = range_meaning (drop 5 (hash_digits demo_range_env [1])) (range_lines demo_range_body)" by blast
  with c show ?thesis by (simp only: demo_hash five demo_range_meaning)
qed

end
