(* ===== verification/Spec2Isabelle.thy ===== *)
theory Spec2Isabelle
  imports CacheProps ServerProps AgentProps ClientServerProps BackupProps CsvProps DeviceProps
begin

text \<open>
  TermKeep: an offline-first password manager. A client keeps an encrypted cache file and a queue
  of edits (\<open>src/internal/client\<close>); a server keeps, per account, an append-only graph of
  encrypted revisions in PostgreSQL and never sees a plaintext (\<open>src/internal/server\<close>); a
  local agent holds the unlocked vault key of one terminal (\<open>src/internal/session\<close>).

  \<^bold>\<open>How the parts interact.\<close> The client edits its cache file under a lock
  (\<open>CacheOps\<close>) and queues every edit. A synchronization (\<open>SyncClient\<close>) sends cursor and
  queue as one HTTP request; the handler (\<open>Services.sync\<close>) authenticates the token, decodes
  and checks the body and runs one transaction (\<open>SyncStore\<close>); its answer, changes or a full
  snapshot of the heads, is applied to the cache file (\<open>CacheSync\<close>). Items are sealed under
  the vault key (\<open>VaultCrypto\<close>) by the agent (\<open>SessionAgent\<close>), so cache and server only
  hold envelopes. Backups and CSV files bring items in and out (\<open>PortableBackup\<close>,
  \<open>ImportItems\<close>, \<open>CsvImport\<close>).

  \<^bold>\<open>Foundations.\<close>

  \<^item> \<open>Prelude\<close>, \<open>Uuid\<close>, \<open>GoText\<close>: recurring Go types (byte slices as
    word lists, \<open>time.Time\<close> as nanoseconds, \<open>uint64\<close> as 64-bit words), decimal and
    hexadecimal texts, errors as sums, UUID generation and syntax, the functions of \<open>strings\<close>,
    \<open>strconv\<close> and \<open>encoding/base64\<close> the program calls.

  \<^bold>\<open>The client's cache.\<close>

  \<^item> \<open>RevisionGraph\<close>, \<open>CacheFile\<close>, \<open>CacheOps\<close>, \<open>CacheSync\<close>:
    \<open>client/cache.go\<close>. The file is its permission bits, size and decoded content; every
    system call of the writer may fail as \<open>io_env\<close> says (the reader's \<open>Lstat\<close> only for
    a missing file). One definition per operation:
    authorizing, queueing an edit or a batch, applying a synchronization, restoring a backup. The
    locale \<open>atomic_file\<close> is what an operation relies on of the file; reader and writer of
    \<open>cache.go\<close> are its interpretation \<open>cache\<close>.
  \<^item> \<open>NativeItems\<close>: the decrypted records and the password history of \<open>client/item.go\<close>.
  \<^item> \<open>CacheProps\<close>: the properties; \<open>client_calls\<close> is any sequence of cache operations,
    each with its own failures, \<open>client_run\<close> one in which no file outgrows the reader's limit.

  \<^bold>\<open>The server.\<close>

  \<^item> \<open>SyncStore\<close>, \<open>SyncLemmas\<close>, \<open>SyncRuns\<close>, \<open>SyncProps\<close>: the
    synchronization transaction of \<open>server/item.go\<close> and \<open>server/db.go\<close>, statement by
    statement over tables as lists of rows; the invariant \<open>vault_wf\<close>, runs of transactions, and
    the properties. \<open>SyncOrder\<close> adds the order of acceptance, the invariant \<open>log_wf\<close>.
  \<^item> \<open>LoginLimiter\<close>, \<open>AccountStore\<close>, \<open>Http\<close>, \<open>AuditTrail\<close>,
    \<open>AuthService\<close>, \<open>Services\<close>: the rest of the server, one definition per store method
    and per HTTP handler; \<open>AccountRuns\<close> and \<open>ServerRuns\<close> give the invariants of the
    account tables and the reachable states of the whole server, \<open>ServerSamples\<close> concrete runs,
    \<open>ServerProps\<close> the properties. The start of a login is three steps (\<open>admitLogin\<close>,
    \<open>beginLogin\<close>, \<open>countLogin\<close>), between which other requests may run.

  \<^bold>\<open>Client and server together.\<close>

  \<^item> \<open>ClientHttp\<close>, \<open>SyncClient\<close>: \<open>client/status.go\<close> and \<open>client/sync.go\<close>.
    The network may lose the request, lose the answer or cut it short.
  \<^item> \<open>SyncFollow\<close>: how a client's graph keeps pace with the history of the server, kept by
    every applied change and snapshot. \<open>SyncBlocked\<close>: the Tombstones the server refuses for good.
  \<^item> \<open>ClientServer\<close>, \<open>ClientServerProps\<close>: the locale \<open>sync_server\<close> is what a
    client relies on of an instance, the handler is its interpretation \<open>handler\<close>;
    \<open>shared_run\<close> is any interleaving of one client's operations with everybody's requests.
    Nothing queued is lost, a successful synchronization converges, and one kind of edit blocks it.

  \<^bold>\<open>Secrets on the device.\<close>

  \<^item> \<open>VaultCrypto\<close>: wrapping and unlocking the vault key, sealing and opening items
    (\<open>client/vault.go\<close>, \<open>password.go\<close>, \<open>item.go\<close>); \<open>PasswordGenerator\<close>,
    \<open>Totp\<close>, \<open>Search\<close>: the files of these names; \<open>ToolProps\<close>: their properties.
  \<^item> \<open>SessionAgent\<close>, \<open>AgentProps\<close>: \<open>session/agent.go\<close>, \<open>auto_lock.go\<close>.
    The goroutines of an agent are interleaved: \<open>serve_step\<close> is \<open>Serve\<close> with
    \<open>handle\<close>, \<open>watch_step\<close> the two monitors and the context, \<open>close_step\<close> the phases of
    \<open>Close\<close>; \<open>agent_run\<close> is any order of their steps, \<open>lag\<close> the scheduler's latency.
  \<^item> \<open>Clipboard\<close>, \<open>PwnedPasswords\<close>, \<open>DeviceProps\<close>: \<open>clipboard/clipboard.go\<close>
    over a world of any type, \<open>client/pwned_passwords.go\<close>, and their properties.

  \<^bold>\<open>Moving a vault.\<close>

  \<^item> \<open>PortableBackup\<close>, \<open>ImportItems\<close>, \<open>BackupProps\<close>: \<open>client/backup.go\<close> and
    \<open>client/import.go\<close>: the file format, snapshots, restoring, and importing into another vault.
  \<^item> \<open>CsvFormat\<close>, \<open>CsvImport\<close>, \<open>CsvProps\<close>: the reader and the writer of
    \<open>encoding/csv\<close> and \<open>client/csv_import.go\<close>: no row or column is dropped silently.

  \<^bold>\<open>Bounds.\<close> The program's own limits are constants of the theories: 500 changes in an answer,
  100 mutations and 128 KiB in a request, 64 MiB for a cache or a backup file, 16 MiB and 10,000
  rows for a CSV file, 1 MiB for a range of breached passwords, 30 seconds in the clipboard. No
  definition needs fuel: every loop of the modelled code runs over a list, but for the generator's
  rejection sampling, which \<open>crypto/rand\<close> does and which is a parameter.

  \<^bold>\<open>Parameters.\<close> Code that is not in the repository is an argument: OPAQUE, AEAD, HKDF,
  Argon2id, SHA-1, SHA-256, the random source, \<open>encoding/json\<close>, \<open>net/url\<close>,
  \<open>net/mail\<close>, the Unicode tables, PostgreSQL's casts and the helper programs of the clipboard.
  What a property needs of them is a named hypothesis (\<open>pg_ok\<close>, \<open>backup_env_ok\<close>,
  \<open>native_json_ok\<close>, ...), and its witness has a concrete instance.

  \<^bold>\<open>Not modelled.\<close> The terminal interface \<open>internal/tui\<close> and the commands of
  \<open>cmd\<close> (they render, prompt and call the modelled operations; the SDKs of the interface are
  third-party); \<open>client/bootstrap.go\<close>, \<open>registration.go\<close>, \<open>login.go\<close>,
  \<open>session.go\<close>, \<open>activity.go\<close> (OPAQUE exchanges and plain requests over the modelled
  transport); \<open>client/export.go\<close>, \<open>bitwarden_import.go\<close>, \<open>onepassword_import.go\<close>
  (foreign formats whose content is that of \<open>encoding/json\<close> and \<open>archive/zip\<close>);
  \<open>client/format.go\<close>; \<open>session/launcher.go\<close> and \<open>scope.go\<close> (processes and
  paths); \<open>server/opaque.go\<close>, \<open>migrate.go\<close> (wrappers of libraries); the SQL migrations,
  whose constraints are part of the tables' definitions; deployment files.
\<close>

end
